(* ===== verification/Mailmsg_Prelude.thy ===== *)
theory Mailmsg_Prelude
  imports Main "HOL-Library.Word" "HOL-Library.Monad_Syntax"
begin

text \<open>
  Shared vocabulary of the development: the machine types of the C sources, the
  errno values of the Linux side, the little-endian byte encoding of a 32-bit
  value that both sides use for payloads, and the generic facts on words, lists
  and the option monad that the component theories rely on.

  Return codes are plain integers, as the C code mixes ring results
  (\<open>0..-5\<close>), endpoint results (\<open>-100..-103\<close>) and negated errno values in the
  same \<open>int\<close> variables and compares them with one another.
\<close>

unbundle bit_operations_syntax

type_synonym u8 = "8 word"
type_synonym u32 = "32 word"
type_synonym u64 = "64 word"

named_theorems wf_intros \<open>introduction rules for the well-formedness invariants\<close>
named_theorems frame_simps \<open>what an operation leaves unchanged\<close>

subsection \<open>Generic facts on words\<close>

lemma word_less_not_le [simp]:
  fixes a b :: "'a::len word"
  shows "a < b \<Longrightarrow> \<not> b \<le> a"
  by simp

lemma word_le_not_less [simp]:
  fixes a b :: "'a::len word"
  shows "a \<le> b \<Longrightarrow> \<not> b < a"
  by simp

lemma word_xor_right_cancel [simp]:
  fixes a b c :: "'a::len word"
  shows "a XOR c = b XOR c \<longleftrightarrow> a = b"
  by (metis xor.assoc xor.right_neutral xor_self_eq)

lemma word_xor_left_cancel [simp]:
  fixes a b c :: "'a::len word"
  shows "c XOR a = c XOR b \<longleftrightarrow> a = b"
  by (metis word_xor_right_cancel xor.commute)

subsection \<open>errno values used by the driver\<close>

abbreviation (input) EIO :: int where "EIO \<equiv> 5"
abbreviation (input) EAGAIN :: int where "EAGAIN \<equiv> 11"
abbreviation (input) ENOMEM :: int where "ENOMEM \<equiv> 12"
abbreviation (input) EFAULT :: int where "EFAULT \<equiv> 14"
abbreviation (input) EBUSY :: int where "EBUSY \<equiv> 16"
abbreviation (input) ENODEV :: int where "ENODEV \<equiv> 19"
abbreviation (input) EINVAL :: int where "EINVAL \<equiv> 22"
abbreviation (input) EFBIG :: int where "EFBIG \<equiv> 27"
abbreviation (input) ENOSPC :: int where "ENOSPC \<equiv> 28"
abbreviation (input) ESPIPE :: int where "ESPIPE \<equiv> 29"
abbreviation (input) ENODATA :: int where "ENODATA \<equiv> 61"
abbreviation (input) ENOLINK :: int where "ENOLINK \<equiv> 67"
abbreviation (input) EPROTO :: int where "EPROTO \<equiv> 71"
abbreviation (input) EBADMSG :: int where "EBADMSG \<equiv> 74"
abbreviation (input) EOPNOTSUPP :: int where "EOPNOTSUPP \<equiv> 95"
abbreviation (input) ESHUTDOWN :: int where "ESHUTDOWN \<equiv> 108"
abbreviation (input) ETIMEDOUT :: int where "ETIMEDOUT \<equiv> 110"
abbreviation (input) EALREADY :: int where "EALREADY \<equiv> 114"
abbreviation (input) EINPROGRESS :: int where "EINPROGRESS \<equiv> 115"
abbreviation (input) ESTALE :: int where "ESTALE \<equiv> 116"
abbreviation (input) ECANCELED :: int where "ECANCELED \<equiv> 125"

subsection \<open>32-bit values in byte arrays\<close>

text \<open>
  \<open>mailmsg_payload_u32\<close> and \<open>mailmsg_store_payload_u32\<close> exist with the same body
  in the driver and in the firmware; the C argument \<open>&payload[off]\<close> is the array
  together with the offset here.
\<close>

definition mailmsg_payload_u32 :: "u8 list \<Rightarrow> nat \<Rightarrow> u32" where
  "mailmsg_payload_u32 payload off =
     ucast (payload ! off) OR
     push_bit 8 (ucast (payload ! (off + 1))) OR
     push_bit 16 (ucast (payload ! (off + 2))) OR
     push_bit 24 (ucast (payload ! (off + 3)))"

definition mailmsg_store_payload_u32 :: "u8 list \<Rightarrow> nat \<Rightarrow> u32 \<Rightarrow> u8 list" where
  "mailmsg_store_payload_u32 payload off value =
     payload[off := ucast value,
             off + 1 := ucast (drop_bit 8 value),
             off + 2 := ucast (drop_bit 16 value),
             off + 3 := ucast (drop_bit 24 value)]"

text \<open>The four bytes of a 32-bit field as they lie in (little-endian) memory.\<close>

definition le_bytes :: "u32 \<Rightarrow> u8 list" where
  "le_bytes v = [ucast v, ucast (drop_bit 8 v), ucast (drop_bit 16 v), ucast (drop_bit 24 v)]"

lemma length_store_payload [simp]:
  "length (mailmsg_store_payload_u32 p off v) = length p"
  by (simp add: mailmsg_store_payload_u32_def)

lemma length_le_bytes [simp]: "length (le_bytes v) = 4"
  by (simp add: le_bytes_def)

lemma u32_of_bytes:
  fixes v :: u32
  shows "ucast (ucast v :: u8) OR
     push_bit 8 (ucast (ucast (drop_bit 8 v) :: u8)) OR
     push_bit 16 (ucast (ucast (drop_bit 16 v) :: u8)) OR
     push_bit 24 (ucast (ucast (drop_bit 24 v) :: u8)) = v"
proof (rule bit_word_eqI)
  fix n assume "n < LENGTH(32)"
  then consider "n < 8" | "8 \<le> n" "n < 16" | "16 \<le> n" "n < 24" | "24 \<le> n" "n < 32"
    by force
  then show "bit (ucast (ucast v :: u8) OR
     push_bit 8 (ucast (ucast (drop_bit 8 v) :: u8)) OR
     push_bit 16 (ucast (ucast (drop_bit 16 v) :: u8)) OR
     push_bit 24 (ucast (ucast (drop_bit 24 v) :: u8)) :: u32) n \<longleftrightarrow> bit v n"
    by cases (auto simp: bit_simps)
qed

lemma load_store_u32:
  "off + 3 < length p \<Longrightarrow>
   mailmsg_payload_u32 (mailmsg_store_payload_u32 p off v) off = v"
  using u32_of_bytes [of v]
  by (simp add: mailmsg_payload_u32_def mailmsg_store_payload_u32_def nth_list_update)

lemma load_store_u32_other:
  "off + 3 < length p \<Longrightarrow> off' + 3 < off \<or> off + 3 < off' \<Longrightarrow>
   mailmsg_payload_u32 (mailmsg_store_payload_u32 p off v) off' = mailmsg_payload_u32 p off'"
  by (auto simp: mailmsg_payload_u32_def mailmsg_store_payload_u32_def nth_list_update)

text \<open>Widening an offset keeps its value.\<close>

lemma unat_lt32: "unat x < 2 ^ 32" for x :: u32
  by (rule unsigned_less [of x, simplified, THEN less_le_trans]) simp

lemma unat_ucast_u64: "unat (ucast x :: u64) = unat x" for x :: u32
proof -
  have "unat x < 2 ^ 64" using unat_lt32 [of x] by simp
  then show ?thesis by (simp add: unsigned_ucast_eq take_bit_nat_eq_self)
qed

end
