(* ===== verification/Mailmsg_Frame.thy ===== *)
theory Mailmsg_Frame
  imports Mailmsg_Prelude
begin

text \<open>
  The frame of the shared-memory protocol (\<^verbatim>\<open>mailmsg.h\<close>): the constants of the
  ABI, \<^verbatim>\<open>struct mailmsg_message\<close> as a record, the fixed reliability classes of the
  four priorities and the CRC-32/ISO-HDLC of a frame, bit by bit as the inline C
  function computes it.  The lemmas show what the checksum is good for: the bit
  step is invertible, so corruption confined to four consecutive bytes always
  changes the CRC.
\<close>

subsection \<open>Constants of the ABI\<close>

abbreviation (input) MAILMSG_PROTOCOL_MAGIC :: u32 where "MAILMSG_PROTOCOL_MAGIC \<equiv> 0x4d4d5347"
abbreviation (input) MAILMSG_PROTOCOL_VERSION :: u32 where "MAILMSG_PROTOCOL_VERSION \<equiv> 6"
abbreviation (input) MAILMSG_PRIORITY_COUNT :: u32 where "MAILMSG_PRIORITY_COUNT \<equiv> 4"
abbreviation (input) MAILMSG_RING_SLOTS :: u32 where "MAILMSG_RING_SLOTS \<equiv> 8"
abbreviation (input) MAILMSG_PAYLOAD_BYTES :: u32 where "MAILMSG_PAYLOAD_BYTES \<equiv> 28"
abbreviation (input) MAILMSG_RELIABLE_PRIORITY_MASK :: u32 where "MAILMSG_RELIABLE_PRIORITY_MASK \<equiv> 0x3"

abbreviation (input) MAILMSG_PRIO_CRITICAL :: u32 where "MAILMSG_PRIO_CRITICAL \<equiv> 0"

abbreviation (input) MAILMSG_MSG_NOP :: u32 where "MAILMSG_MSG_NOP \<equiv> 0"
abbreviation (input) MAILMSG_MSG_PING :: u32 where "MAILMSG_MSG_PING \<equiv> 1"
abbreviation (input) MAILMSG_MSG_PONG :: u32 where "MAILMSG_MSG_PONG \<equiv> 2"
abbreviation (input) MAILMSG_MSG_ACK :: u32 where "MAILMSG_MSG_ACK \<equiv> 3"
abbreviation (input) MAILMSG_MSG_NACK :: u32 where "MAILMSG_MSG_NACK \<equiv> 4"
abbreviation (input) MAILMSG_MSG_STOP_REQUEST :: u32 where "MAILMSG_MSG_STOP_REQUEST \<equiv> 5"
abbreviation (input) MAILMSG_MSG_STOP_READY :: u32 where "MAILMSG_MSG_STOP_READY \<equiv> 6"
abbreviation (input) MAILMSG_MSG_STOP_REFUSED :: u32 where "MAILMSG_MSG_STOP_REFUSED \<equiv> 7"
abbreviation (input) MAILMSG_MSG_SESSION_READY :: u32 where "MAILMSG_MSG_SESSION_READY \<equiv> 8"

abbreviation (input) MAILMSG_NACK_BAD_CRC :: u32 where "MAILMSG_NACK_BAD_CRC \<equiv> 1"
abbreviation (input) MAILMSG_NACK_INVALID_FRAME :: u32 where "MAILMSG_NACK_INVALID_FRAME \<equiv> 2"
abbreviation (input) MAILMSG_STOP_REFUSED_INVALID_REQUEST :: u32
  where "MAILMSG_STOP_REFUSED_INVALID_REQUEST \<equiv> 1"
abbreviation (input) MAILMSG_STOP_REFUSED_BUSY :: u32 where "MAILMSG_STOP_REFUSED_BUSY \<equiv> 2"

abbreviation (input) MAILMSG_RING_OK :: int where "MAILMSG_RING_OK \<equiv> 0"
abbreviation (input) MAILMSG_RING_EMPTY :: int where "MAILMSG_RING_EMPTY \<equiv> - 1"
abbreviation (input) MAILMSG_RING_FULL :: int where "MAILMSG_RING_FULL \<equiv> - 2"
abbreviation (input) MAILMSG_RING_INCOMPLETE :: int where "MAILMSG_RING_INCOMPLETE \<equiv> - 3"
abbreviation (input) MAILMSG_RING_BAD_CRC :: int where "MAILMSG_RING_BAD_CRC \<equiv> - 4"
abbreviation (input) MAILMSG_RING_INVALID :: int where "MAILMSG_RING_INVALID \<equiv> - 5"

abbreviation (input) MAILMSG_FEEDBACK_SEQUENCE_OFFSET :: nat where "MAILMSG_FEEDBACK_SEQUENCE_OFFSET \<equiv> 0"
abbreviation (input) MAILMSG_FEEDBACK_STATUS_OFFSET :: nat where "MAILMSG_FEEDBACK_STATUS_OFFSET \<equiv> 4"
abbreviation (input) MAILMSG_FEEDBACK_BYTES :: u32 where "MAILMSG_FEEDBACK_BYTES \<equiv> 8"
abbreviation (input) MAILMSG_SESSION_GENERATION_OFFSET :: nat where "MAILMSG_SESSION_GENERATION_OFFSET \<equiv> 0"
abbreviation (input) MAILMSG_SESSION_VERSION_OFFSET :: nat where "MAILMSG_SESSION_VERSION_OFFSET \<equiv> 4"
abbreviation (input) MAILMSG_SESSION_BYTES :: u32 where "MAILMSG_SESSION_BYTES \<equiv> 8"

definition mailmsg_priority_is_reliable :: "u32 \<Rightarrow> bool" where
  "mailmsg_priority_is_reliable priority \<longleftrightarrow>
     priority < MAILMSG_PRIORITY_COUNT \<and>
     MAILMSG_RELIABLE_PRIORITY_MASK AND push_bit (unat priority) 1 \<noteq> 0"

subsection \<open>The frame\<close>

record mailmsg_message =
  msg_generation :: u32
  msg_type :: u32
  msg_sequence :: u32
  msg_length :: u32
  msg_payload :: "u8 list"
  msg_crc32 :: u32
  msg_commit :: u32

text \<open>The payload array has 28 elements: the invariant of the C type.\<close>

definition message_wf :: "mailmsg_message \<Rightarrow> bool" where
  "message_wf m \<longleftrightarrow> length (msg_payload m) = 28"

definition zero_message :: mailmsg_message where
  "zero_message = \<lparr>msg_generation = 0, msg_type = 0, msg_sequence = 0, msg_length = 0,
     msg_payload = replicate 28 0, msg_crc32 = 0, msg_commit = 0\<rparr>"

subsection \<open>CRC-32 of a frame\<close>

text \<open>
  The C loop reads the 44 bytes that start at \<open>generation\<close>: the four header words,
  little-endian, then the payload.  \<open>crc32_bit\<close> is the body of the inner loop,
  \<open>crc32_bits\<close> the inner loop and \<open>crc32_byte\<close> the body of the outer one.
\<close>

definition frame_bytes :: "mailmsg_message \<Rightarrow> u8 list" where
  "frame_bytes m = le_bytes (msg_generation m) @ le_bytes (msg_type m) @
     le_bytes (msg_sequence m) @ le_bytes (msg_length m) @ msg_payload m"

definition crc32_bit :: "u32 \<Rightarrow> u32" where
  "crc32_bit crc = drop_bit 1 crc XOR (0xedb88320 AND - (crc AND 1))"

primrec crc32_bits :: "nat \<Rightarrow> u32 \<Rightarrow> u32" where
  "crc32_bits 0 crc = crc"
| "crc32_bits (Suc n) crc = crc32_bits n (crc32_bit crc)"

definition crc32_byte :: "u32 \<Rightarrow> u8 \<Rightarrow> u32" where
  "crc32_byte crc b = crc32_bits 8 (crc XOR ucast b)"

definition mailmsg_frame_crc32 :: "mailmsg_message \<Rightarrow> u32" where
  "mailmsg_frame_crc32 m = NOT (foldl crc32_byte 0xffffffff (frame_bytes m))"

text \<open>The header and payload tests that \<open>push\<close> and \<open>pop\<close> share.\<close>

definition frame_valid :: "mailmsg_message \<Rightarrow> bool" where
  "frame_valid m \<longleftrightarrow>
     msg_generation m \<noteq> 0 \<and> msg_sequence m \<noteq> 0 \<and> msg_length m \<le> MAILMSG_PAYLOAD_BYTES"

subsection \<open>Properties of the CRC\<close>

lemma crc32_bit_if:
  "crc32_bit crc = drop_bit 1 crc XOR (if odd crc then 0xedb88320 else 0)"
  by (cases "odd crc")
     (auto simp: crc32_bit_def and_one_eq odd_iff_mod_2_eq_one even_iff_mod_2_eq_zero)

lemma crc32_bit_top: "bit (crc32_bit crc) 31 \<longleftrightarrow> odd crc"
proof -
  have top: "bit (0xedb88320 :: u32) 31" by simp
  show ?thesis
    by (auto simp: crc32_bit_if bit_simps top dest: bit_imp_le_length)
qed

lemma odd_drop_eq:
  fixes a b :: u32
  assumes "odd a \<longleftrightarrow> odd b" and "drop_bit 1 a = drop_bit 1 b"
  shows "a = b"
proof (rule bit_word_eqI)
  fix n
  show "bit a n \<longleftrightarrow> bit b n"
  proof (cases n)
    case 0
    with assms(1) show ?thesis by (simp add: bit_0)
  next
    case (Suc k)
    from assms(2) have "bit (drop_bit 1 a) k \<longleftrightarrow> bit (drop_bit 1 b) k" by simp
    with Suc show ?thesis by (simp add: bit_simps)
  qed
qed

lemma crc32_bit_inject: "crc32_bit a = crc32_bit b \<longleftrightarrow> a = b"
proof
  assume eq: "crc32_bit a = crc32_bit b"
  then have odd: "odd a \<longleftrightarrow> odd b" by (metis crc32_bit_top)
  from eq have "drop_bit 1 a = drop_bit 1 b"
    by (simp add: crc32_bit_if odd split: if_splits)
  with odd show "a = b" by (rule odd_drop_eq)
qed simp

lemma crc32_bits_inject: "crc32_bits n a = crc32_bits n b \<longleftrightarrow> a = b"
  by (induction n arbitrary: a b) (simp_all add: crc32_bit_inject)

lemma crc32_byte_inject_state: "crc32_byte a b = crc32_byte a' b \<longleftrightarrow> a = a'"
  by (simp add: crc32_byte_def crc32_bits_inject)

lemma crc32_fold_inject: "foldl crc32_byte a bs = foldl crc32_byte a' bs \<longleftrightarrow> a = a'"
  by (induction bs arbitrary: a a') (simp_all add: crc32_byte_inject_state)

text \<open>Linearity of the bit step over exclusive or.\<close>

lemma crc32_bit_xor: "crc32_bit (a XOR b) = crc32_bit a XOR crc32_bit b"
  by (cases "odd a"; cases "odd b")
     (simp_all add: crc32_bit_if even_xor_iff drop_bit_xor ac_simps)

lemma crc32_bits_xor: "crc32_bits n (a XOR b) = crc32_bits n a XOR crc32_bits n b"
  by (induction n arbitrary: a b) (simp_all add: crc32_bit_xor)

lemma crc32_bits_add: "crc32_bits (m + n) crc = crc32_bits n (crc32_bits m crc)"
  by (induction m arbitrary: crc) simp_all

lemma crc32_bits_low_zero:
  "take_bit n crc = 0 \<Longrightarrow> crc32_bits n crc = drop_bit n crc"
proof (induction n arbitrary: crc)
  case (Suc n)
  from Suc.prems have even: "even crc"
    using even_take_bit_eq [of "Suc n" crc] by simp
  then have bit: "crc32_bit crc = drop_bit 1 crc" by (simp add: crc32_bit_if)
  have "take_bit n (drop_bit 1 crc) = drop_bit 1 (take_bit (Suc n) crc)"
    by (simp add: drop_bit_take_bit)
  with Suc.prems have "take_bit n (drop_bit 1 crc) = 0" by simp
  then have "crc32_bits n (drop_bit 1 crc) = drop_bit n (drop_bit 1 crc)" by (rule Suc.IH)
  with bit show ?case by simp
qed simp

text \<open>Up to four bytes as one little-endian word, and the fold over them in one go.\<close>

primrec bytes_word :: "u8 list \<Rightarrow> u32" where
  "bytes_word [] = 0"
| "bytes_word (b # bs) = ucast b XOR push_bit 8 (bytes_word bs)"

lemma bit_bytes_word_high:
  "8 * length bs \<le> n \<Longrightarrow> \<not> bit (bytes_word bs) n"
proof (induction bs arbitrary: n)
  case (Cons b bs)
  then have "\<not> bit (bytes_word bs) (n - 8)" by simp
  with Cons.prems show ?case by (auto simp: bit_simps dest: bit_imp_le_length)
qed simp

lemma drop_push_bytes_word:
  assumes "length bs \<le> 3"
  shows "drop_bit 8 (push_bit 8 (bytes_word bs)) = bytes_word bs"
proof (rule bit_word_eqI)
  fix n
  have "n < 24" if "bit (bytes_word bs) n"
    using that assms bit_bytes_word_high [of bs n] by (cases "n < 24") simp_all
  then show "bit (drop_bit 8 (push_bit 8 (bytes_word bs))) n \<longleftrightarrow> bit (bytes_word bs) n"
    by (auto simp: bit_simps)
qed

lemma crc32_fold_word:
  "length bs \<le> 4 \<Longrightarrow>
   foldl crc32_byte crc bs = crc32_bits (8 * length bs) (crc XOR bytes_word bs)"
proof (induction bs arbitrary: crc)
  case (Cons b bs)
  let ?w = "bytes_word bs"
  have "crc32_bits 8 (push_bit 8 ?w) = ?w"
    using Cons.prems by (simp add: crc32_bits_low_zero take_bit_push_bit drop_push_bytes_word)
  then have "crc32_bits 8 (crc XOR ucast b XOR push_bit 8 ?w) = crc32_byte crc b XOR ?w"
    by (simp add: crc32_bits_xor crc32_byte_def xor.assoc)
  moreover have "foldl crc32_byte crc (b # bs) = crc32_bits (8 * length bs) (crc32_byte crc b XOR ?w)"
    using Cons by simp
  ultimately show ?case
    by (simp add: crc32_bits_add ac_simps)
qed simp

lemma bytes_word_inject:
  "length bs = length bs' \<Longrightarrow> length bs \<le> 4 \<Longrightarrow> bytes_word bs = bytes_word bs' \<Longrightarrow> bs = bs'"
proof (induction bs bs' rule: list_induct2')
  case (4 b bs b' bs')
  from "4.prems" have len: "length bs = length bs'" "length bs \<le> 3" "length bs' \<le> 3" by simp_all
  have low: "ucast (bytes_word (x # xs)) = x" for x :: u8 and xs
    by (rule bit_word_eqI) (auto simp: bit_simps)
  have high: "drop_bit 8 (bytes_word (x # xs)) = bytes_word xs" if "length xs \<le> 3" for x :: u8 and xs
    using drop_push_bytes_word [OF that] by (intro bit_word_eqI) (auto simp: bit_simps bit_eq_iff dest: bit_imp_le_length)
  from "4.prems"(3) low have "b = b'" by metis
  moreover have "bytes_word bs = bytes_word bs'"
    using "4.prems"(3) high len by metis
  ultimately show ?case using "4.IH" len by simp
qed simp_all

lemma frame_crc32_window:
  assumes "frame_bytes m = pre @ xs @ post" and "frame_bytes m' = pre @ ys @ post"
    and "length xs = length ys" and "length xs \<le> 4" and "xs \<noteq> ys"
  shows "mailmsg_frame_crc32 m \<noteq> mailmsg_frame_crc32 m'"
proof
  assume "mailmsg_frame_crc32 m = mailmsg_frame_crc32 m'"
  then have "foldl crc32_byte (foldl crc32_byte 0xffffffff pre) xs
           = foldl crc32_byte (foldl crc32_byte 0xffffffff pre) ys"
    using assms(1,2) by (simp add: mailmsg_frame_crc32_def crc32_fold_inject)
  with assms(3,4) have "bytes_word xs = bytes_word ys"
    by (simp add: crc32_fold_word crc32_bits_inject)
  with assms(3-5) bytes_word_inject show False by blast
qed

text \<open>Claim C30.
  The CRC detects every corruption that is confined to four consecutive bytes of the
  44 covered ones: two frames that agree outside such a window and differ inside it
  have different checksums.  A single flipped byte, as the driver's fault injection
  makes it, is the case of a window of one.
\<close>

theorem frame_crc32_detects_burst:
  assumes "frame_bytes m = pre @ xs @ post" and "frame_bytes m' = pre @ ys @ post"
    and "length xs = length ys" and "length xs \<le> 4" and "xs \<noteq> ys"
  shows "mailmsg_frame_crc32 m \<noteq> mailmsg_frame_crc32 m'"
  by (rule frame_crc32_window [OF assms])

theorem frame_crc32_detects_burst_witness:
  "mailmsg_frame_crc32 zero_message \<noteq>
   mailmsg_frame_crc32 (zero_message\<lparr>msg_payload := 0xff # replicate 27 0\<rparr>)"
proof -
  let ?pre = "replicate 16 0 :: u8 list" and ?post = "replicate 27 0 :: u8 list"
  have z: "frame_bytes zero_message = ?pre @ [0] @ ?post"
    by (simp add: frame_bytes_def zero_message_def le_bytes_def) (simp add: numeral_eq_Suc)
  have c: "frame_bytes (zero_message\<lparr>msg_payload := 0xff # ?post\<rparr>) = ?pre @ [0xff] @ ?post"
    by (simp add: frame_bytes_def zero_message_def le_bytes_def) (simp add: numeral_eq_Suc)
  show ?thesis by (rule frame_crc32_detects_burst [OF z c]) simp_all
qed

end
