(* ===== verification/Mailmsg_Ring.thy ===== *)
theory Mailmsg_Ring
  imports Mailmsg_Frame
begin

text \<open>
  The single-producer single-consumer ring of \<^verbatim>\<open>mailmsg.c\<close>.  The functions run on
  coherent memory, where the \<open>publish\<close> and \<open>acquire\<close> hooks do not change what a
  side reads.

  Neither \<open>push\<close> nor \<open>pop\<close> checks the index it uses against the eight slots, so
  an access outside the array is a possible outcome of the C code: \<open>None\<close>.  Under
  the ring invariant it never happens, and the operations implement a bounded
  queue of seven frames.
\<close>

subsection \<open>Data and operations\<close>

record mailmsg_ring =
  rb_producer :: u32
  rb_consumer :: u32
  rb_slot :: "mailmsg_message list"

text \<open>Which hooks a \<open>mailmsg_memory_ops\<close> table supplies (a hook may be NULL).\<close>

record mailmsg_memory_ops =
  ops_publish :: bool
  ops_acquire :: bool

definition mailmsg_next :: "u32 \<Rightarrow> u32" where
  "mailmsg_next value = (value + 1) mod MAILMSG_RING_SLOTS"

definition mailmsg_ring_push :: "mailmsg_ring \<Rightarrow> mailmsg_message \<Rightarrow> (int \<times> mailmsg_ring) option" where
  "mailmsg_ring_push ring message =
     (let producer = rb_producer ring; nxt = mailmsg_next producer in
      if msg_generation message = 0 \<or> msg_sequence message = 0 \<or>
         MAILMSG_PAYLOAD_BYTES < msg_length message
      then Some (MAILMSG_RING_INVALID, ring)
      else if nxt = rb_consumer ring then Some (MAILMSG_RING_FULL, ring)
      else if MAILMSG_RING_SLOTS \<le> producer then None
      else
        let slot = message\<lparr>msg_commit := 0\<rparr>;
            slot = slot\<lparr>msg_crc32 := mailmsg_frame_crc32 slot\<rparr>;
            slot = slot\<lparr>msg_commit := msg_sequence message\<rparr>
        in Some (0, ring\<lparr>rb_slot := (rb_slot ring)[unat producer := slot],
                         rb_producer := nxt\<rparr>))"

definition mailmsg_ring_pop ::
  "mailmsg_ring \<Rightarrow> mailmsg_message \<Rightarrow> (int \<times> mailmsg_ring \<times> mailmsg_message) option" where
  "mailmsg_ring_pop ring message =
     (let consumer = rb_consumer ring in
      if consumer = rb_producer ring then Some (MAILMSG_RING_EMPTY, ring, message)
      else if MAILMSG_RING_SLOTS \<le> consumer then None
      else
        let slot = rb_slot ring ! unat consumer in
        if msg_commit slot \<noteq> msg_sequence slot then Some (MAILMSG_RING_INCOMPLETE, ring, message)
        else
          let ring' = ring\<lparr>rb_consumer := mailmsg_next consumer\<rparr> in
          if msg_generation slot = 0 \<or> msg_sequence slot = 0 \<or>
             MAILMSG_PAYLOAD_BYTES < msg_length slot
          then Some (MAILMSG_RING_INVALID, ring', slot)
          else if msg_crc32 slot \<noteq> mailmsg_frame_crc32 slot
          then Some (MAILMSG_RING_BAD_CRC, ring', slot)
          else Some (0, ring', slot))"

definition mailmsg_ring_has_data :: "mailmsg_ring option \<Rightarrow> mailmsg_memory_ops option \<Rightarrow> int" where
  "mailmsg_ring_has_data ring ops =
     (case (ring, ops) of
        (Some r, Some ops) \<Rightarrow>
          if \<not> ops_acquire ops then MAILMSG_RING_INVALID
          else if rb_producer r \<noteq> rb_consumer r then 1 else 0
      | _ \<Rightarrow> MAILMSG_RING_INVALID)"

definition mailmsg_ring_count :: "mailmsg_ring option \<Rightarrow> mailmsg_memory_ops option \<Rightarrow> int" where
  "mailmsg_ring_count ring ops =
     (case (ring, ops) of
        (Some r, Some ops) \<Rightarrow>
          if \<not> ops_acquire ops then MAILMSG_RING_INVALID
          else
            let producer = rb_producer r; consumer = rb_consumer r in
            if MAILMSG_RING_SLOTS \<le> producer \<or> MAILMSG_RING_SLOTS \<le> consumer
            then MAILMSG_RING_INVALID
            else if consumer \<le> producer then uint (producer - consumer)
            else uint (MAILMSG_RING_SLOTS - consumer + producer)
      | _ \<Rightarrow> MAILMSG_RING_INVALID)"

subsection \<open>The bounded queue a ring stands for\<close>

definition ring_wf :: "mailmsg_ring \<Rightarrow> bool" where
  "ring_wf r \<longleftrightarrow> rb_producer r < 8 \<and> rb_consumer r < 8 \<and> length (rb_slot r) = 8 \<and>
     (\<forall>m \<in> set (rb_slot r). message_wf m)"

definition ring_depth :: "mailmsg_ring \<Rightarrow> nat" where
  "ring_depth r = (unat (rb_producer r) + 8 - unat (rb_consumer r)) mod 8"

definition ring_frames :: "mailmsg_ring \<Rightarrow> mailmsg_message list" where
  "ring_frames r =
     map (\<lambda>i. rb_slot r ! ((unat (rb_consumer r) + i) mod 8)) [0..<ring_depth r]"

text \<open>The slot contents after a successful push, and the code \<open>pop\<close> gives a slot.\<close>

definition seal :: "mailmsg_message \<Rightarrow> mailmsg_message" where
  "seal m = m\<lparr>msg_crc32 := mailmsg_frame_crc32 m, msg_commit := msg_sequence m\<rparr>"

definition frame_status :: "mailmsg_message \<Rightarrow> int" where
  "frame_status f =
     (if msg_commit f \<noteq> msg_sequence f then MAILMSG_RING_INCOMPLETE
      else if \<not> frame_valid f then MAILMSG_RING_INVALID
      else if msg_crc32 f \<noteq> mailmsg_frame_crc32 f then MAILMSG_RING_BAD_CRC
      else MAILMSG_RING_OK)"

text \<open>A ring all of whose frames were written by \<open>push\<close>.\<close>

definition ring_sound :: "mailmsg_ring \<Rightarrow> bool" where
  "ring_sound r \<longleftrightarrow> ring_wf r \<and> (\<forall>f \<in> set (ring_frames r). frame_status f = MAILMSG_RING_OK)"

definition empty_ring :: mailmsg_ring where
  "empty_ring = \<lparr>rb_producer = 0, rb_consumer = 0, rb_slot = replicate 8 zero_message\<rparr>"

lemma frame_crc32_upd [simp]:
  "mailmsg_frame_crc32 (m\<lparr>msg_crc32 := c\<rparr>) = mailmsg_frame_crc32 m"
  "mailmsg_frame_crc32 (m\<lparr>msg_commit := c\<rparr>) = mailmsg_frame_crc32 m"
  by (simp_all add: mailmsg_frame_crc32_def frame_bytes_def)

lemma seal_simps [simp]:
  "msg_generation (seal m) = msg_generation m" "msg_type (seal m) = msg_type m"
  "msg_sequence (seal m) = msg_sequence m" "msg_length (seal m) = msg_length m"
  "msg_payload (seal m) = msg_payload m" "message_wf (seal m) = message_wf m"
  "frame_valid (seal m) = frame_valid m"
  by (simp_all add: seal_def message_wf_def frame_valid_def)

lemma frame_status_seal: "frame_valid m \<Longrightarrow> frame_status (seal m) = MAILMSG_RING_OK"
  by (simp add: frame_status_def seal_def frame_valid_def)

lemma unat_mailmsg_next [simp]: "unat (mailmsg_next v) = Suc (unat v) mod 8"
  by (simp add: mailmsg_next_def unat_mod unat_word_ariths mod_mod_cancel)

lemma mailmsg_next_less [simp]: "mailmsg_next v < 8"
  by (simp add: word_less_nat_alt)

lemma ring_wfD:
  assumes "ring_wf r"
  shows "unat (rb_producer r) < 8" "unat (rb_consumer r) < 8" "length (rb_slot r) = 8"
    "rb_producer r < 8" "rb_consumer r < 8"
  using assms by (simp_all add: ring_wf_def word_less_nat_alt)

lemma length_ring_frames [simp]: "length (ring_frames r) = ring_depth r"
  by (simp add: ring_frames_def)

lemma ring_depth_le: "ring_depth r \<le> 7"
  using mod_less_divisor [of 8 "unat (rb_producer r) + 8 - unat (rb_consumer r)"]
  by (simp add: ring_depth_def)

text \<open>Index arithmetic modulo eight, in the forms the operations need.\<close>

lemma mod8_sub: "p < 8 \<Longrightarrow> c < 8 \<Longrightarrow> (p + 8 - c) mod 8 = (if c \<le> p then p - c else p + 8 - c)"
  for p c :: nat
  by (simp add: mod_if)

lemma mod8_Suc: "p < 8 \<Longrightarrow> Suc p mod 8 = (if p = 7 then 0 else Suc p)"
  by (simp add: mod_if)

lemma mod8_add: "c < 8 \<Longrightarrow> i < 8 \<Longrightarrow> (c + i) mod 8 = (if c + i < 8 then c + i else c + i - 8)"
  for c i :: nat
  by (simp add: mod_if)

lemma mod8_depth_0: "p < 8 \<Longrightarrow> c < 8 \<Longrightarrow> (p + 8 - c) mod 8 = 0 \<longleftrightarrow> p = c" for p c :: nat
  by (simp add: mod8_sub)

lemma mod8_depth_push:
  "p < 8 \<Longrightarrow> c < 8 \<Longrightarrow> Suc p mod 8 \<noteq> c \<Longrightarrow>
   (Suc p mod 8 + 8 - c) mod 8 = Suc ((p + 8 - c) mod 8)" for p c :: nat
  by (simp add: mod8_sub) (auto simp: mod8_Suc)

lemma mod8_depth_full:
  "p < 8 \<Longrightarrow> c < 8 \<Longrightarrow> (p + 8 - c) mod 8 = 7 \<longleftrightarrow> Suc p mod 8 = c" for p c :: nat
  by (simp add: mod8_sub mod8_Suc) arith

lemma mod8_depth_pop:
  "p < 8 \<Longrightarrow> c < 8 \<Longrightarrow> p \<noteq> c \<Longrightarrow>
   (p + 8 - c) mod 8 = Suc ((p + 8 - Suc c mod 8) mod 8)" for p c :: nat
  by (simp add: mod8_sub) (auto simp: mod8_Suc)

lemma mod8_last: "p < 8 \<Longrightarrow> c < 8 \<Longrightarrow> (c + (p + 8 - c) mod 8) mod 8 = p" for p c :: nat
  by (simp add: mod8_sub)

lemma mod8_distinct:
  "p < 8 \<Longrightarrow> c < 8 \<Longrightarrow> i < (p + 8 - c) mod 8 \<Longrightarrow> (c + i) mod 8 \<noteq> p" for p c i :: nat
  by (auto simp: mod8_sub mod8_add split: if_splits)

lemma ring_depth_0:
  assumes "ring_wf r"
  shows "ring_depth r = 0 \<longleftrightarrow> rb_consumer r = rb_producer r"
  unfolding ring_depth_def mod8_depth_0 [OF ring_wfD(1,2) [OF assms]]
  by (auto simp: word_unat_eq_iff)

lemma ring_depth_full:
  assumes "ring_wf r"
  shows "ring_depth r = 7 \<longleftrightarrow> mailmsg_next (rb_producer r) = rb_consumer r"
  unfolding ring_depth_def mod8_depth_full [OF ring_wfD(1,2) [OF assms]]
  by (simp add: word_unat_eq_iff)

lemma ring_count_depth:
  assumes "ring_wf r" and "ops_acquire ops"
  shows "mailmsg_ring_count (Some r) (Some ops) = int (ring_depth r)"
proof -
  let ?p = "rb_producer r" and ?c = "rb_consumer r"
  note wf = ring_wfD [OF assms(1)]
  have depth: "ring_depth r = (if ?c \<le> ?p then unat ?p - unat ?c else unat ?p + 8 - unat ?c)"
    using wf by (simp add: ring_depth_def mod8_sub word_le_nat_alt)
  have "unat (?p - ?c) = unat ?p - unat ?c" if "?c \<le> ?p"
    using that by (rule unat_sub)
  moreover have "unat (8 - ?c + ?p) = unat ?p + 8 - unat ?c"
  proof -
    have "unat (8 - ?c) = 8 - unat ?c" using wf(5) by (simp add: unat_sub)
    then show ?thesis using wf(1,2) by (simp add: unat_word_ariths)
  qed
  ultimately show ?thesis
    using wf(4,5) assms(2)
    by (simp add: mailmsg_ring_count_def depth uint_nat Let_def not_le del: of_nat_diff)
qed

lemma has_data_iff:
  "ops_acquire ops \<Longrightarrow> ring_wf r \<Longrightarrow>
   mailmsg_ring_has_data (Some r) (Some ops) = (if ring_depth r = 0 then 0 else 1)"
  by (auto simp: mailmsg_ring_has_data_def ring_depth_0)

subsection \<open>What push and pop do to the queue\<close>

lemma ring_push_invalid:
  "\<not> frame_valid m \<Longrightarrow> mailmsg_ring_push r m = Some (MAILMSG_RING_INVALID, r)"
  by (auto simp: mailmsg_ring_push_def frame_valid_def Let_def not_le)

lemma ring_push_full:
  "ring_wf r \<Longrightarrow> frame_valid m \<Longrightarrow> ring_depth r = 7 \<Longrightarrow>
   mailmsg_ring_push r m = Some (MAILMSG_RING_FULL, r)"
  by (auto simp: mailmsg_ring_push_def frame_valid_def Let_def ring_depth_full)

text \<open>The ring with one more slot filled, whatever the slot holds.\<close>

definition ring_put :: "mailmsg_ring \<Rightarrow> mailmsg_message \<Rightarrow> mailmsg_ring" where
  "ring_put r f = r\<lparr>rb_slot := (rb_slot r)[unat (rb_producer r) := f], rb_producer := mailmsg_next (rb_producer r)\<rparr>"

definition ring_after_push :: "mailmsg_ring \<Rightarrow> mailmsg_message \<Rightarrow> mailmsg_ring" where
  "ring_after_push r m = ring_put r (seal m)"

lemma ring_push_ok:
  assumes "ring_wf r" and "frame_valid m" and "ring_depth r < 7"
  shows "mailmsg_ring_push r m = Some (MAILMSG_RING_OK, ring_after_push r m)"
proof -
  have "mailmsg_next (rb_producer r) \<noteq> rb_consumer r"
    using assms(1,3) ring_depth_full by force
  then show ?thesis
    using assms(2) ring_wfD(4) [OF assms(1)]
    by (simp add: mailmsg_ring_push_def frame_valid_def Let_def ring_after_push_def ring_put_def seal_def not_le not_less)
qed

lemma ring_wf_put [wf_intros]:
  assumes "ring_wf r" and "message_wf f"
  shows "ring_wf (ring_put r f)"
  using assms set_update_subset_insert [of "rb_slot r" "unat (rb_producer r)" f]
  by (auto simp: ring_wf_def ring_put_def)

lemma ring_depth_put:
  assumes "ring_wf r" and "ring_depth r < 7"
  shows "ring_depth (ring_put r f) = Suc (ring_depth r)"
proof -
  have "mailmsg_next (rb_producer r) \<noteq> rb_consumer r"
    using assms ring_depth_full by force
  then have "Suc (unat (rb_producer r)) mod 8 \<noteq> unat (rb_consumer r)"
    by (simp add: word_unat_eq_iff)
  then show ?thesis
    using mod8_depth_push ring_wfD(1,2) [OF assms(1)]
    by (simp add: ring_depth_def ring_put_def)
qed

lemma ring_frames_put:
  assumes "ring_wf r" and "ring_depth r < 7"
  shows "ring_frames (ring_put r x) = ring_frames r @ [x]"
proof -
  let ?p = "unat (rb_producer r)" and ?c = "unat (rb_consumer r)"
  note wf = ring_wfD [OF assms(1)]
  let ?f = "\<lambda>i. (rb_slot r)[?p := x] ! ((?c + i) mod 8)"
  have last: "?f (ring_depth r) = x"
    using wf by (simp add: ring_depth_def mod8_last)
  have init: "?f i = rb_slot r ! ((?c + i) mod 8)" if "i < ring_depth r" for i
  proof -
    have "(?c + i) mod 8 \<noteq> ?p"
      using wf that mod8_distinct unfolding ring_depth_def by blast
    then show ?thesis by (simp add: nth_list_update_neq [OF not_sym])
  qed
  have "ring_frames (ring_put r x) = map ?f [0..<Suc (ring_depth r)]"
    unfolding ring_frames_def ring_depth_put [OF assms] by (simp add: ring_put_def)
  also have "\<dots> = ring_frames r @ [x]"
    by (auto simp: ring_frames_def last init)
  finally show ?thesis .
qed

lemma ring_wf_after_push [wf_intros]: "ring_wf r \<Longrightarrow> message_wf m \<Longrightarrow> ring_wf (ring_after_push r m)"
  by (simp add: ring_after_push_def ring_wf_put)

lemma ring_depth_after_push: "ring_wf r \<Longrightarrow> ring_depth r < 7 \<Longrightarrow> ring_depth (ring_after_push r m) = Suc (ring_depth r)"
  by (simp add: ring_after_push_def ring_depth_put)

lemma ring_frames_after_push:
  "ring_wf r \<Longrightarrow> ring_depth r < 7 \<Longrightarrow> ring_frames (ring_after_push r m) = ring_frames r @ [seal m]"
  by (simp add: ring_after_push_def ring_frames_put)

definition ring_after_pop :: "mailmsg_ring \<Rightarrow> mailmsg_ring" where
  "ring_after_pop r = r\<lparr>rb_consumer := mailmsg_next (rb_consumer r)\<rparr>"

lemma ring_pop_empty:
  "ring_wf r \<Longrightarrow> ring_frames r = [] \<Longrightarrow>
   mailmsg_ring_pop r m = Some (MAILMSG_RING_EMPTY, r, m)"
  by (simp add: mailmsg_ring_pop_def ring_frames_def ring_depth_0)

lemma ring_frames_Cons:
  assumes "ring_wf r" and "ring_frames r = f # fs"
  shows "ring_frames (ring_after_pop r) = fs" "rb_slot r ! unat (rb_consumer r) = f"
    "rb_consumer r \<noteq> rb_producer r" "ring_depth r = Suc (ring_depth (ring_after_pop r))"
proof -
  let ?p = "unat (rb_producer r)" and ?c = "unat (rb_consumer r)"
  note wf = ring_wfD [OF assms(1)]
  from assms(2) have "length (ring_frames r) \<noteq> 0" by simp
  then have "ring_depth r \<noteq> 0" by simp
  then show ne: "rb_consumer r \<noteq> rb_producer r" using ring_depth_0 [OF assms(1)] by simp
  then have "?p \<noteq> ?c" by (simp add: word_unat_eq_iff)
  then show depth: "ring_depth r = Suc (ring_depth (ring_after_pop r))"
    using wf mod8_depth_pop by (simp add: ring_depth_def ring_after_pop_def)
  have "(Suc ?c mod 8 + i) mod 8 = (?c + Suc i) mod 8" for i
    by (simp add: mod_add_left_eq)
  then have "ring_frames (ring_after_pop r) =
      map ((\<lambda>i. rb_slot r ! ((?c + i) mod 8)) \<circ> Suc) [0..<ring_depth (ring_after_pop r)]"
    by (simp add: ring_frames_def) (simp add: ring_after_pop_def)
  moreover have "ring_frames r = rb_slot r ! ?c #
      map ((\<lambda>i. rb_slot r ! ((?c + i) mod 8)) \<circ> Suc) [0..<ring_depth (ring_after_pop r)]"
    using wf(2) by (simp add: ring_frames_def depth upt_conv_Cons map_Suc_upt [symmetric] del: upt_Suc)
  ultimately show "ring_frames (ring_after_pop r) = fs" "rb_slot r ! ?c = f"
    using assms(2) by simp_all
qed

lemma ring_pop_Cons:
  assumes "ring_wf r" and "ring_frames r = f # fs"
  shows "mailmsg_ring_pop r m =
     (if frame_status f = MAILMSG_RING_INCOMPLETE then Some (MAILMSG_RING_INCOMPLETE, r, m)
      else Some (frame_status f, ring_after_pop r, f))"
  using ring_frames_Cons [OF assms] ring_wfD [OF assms(1)]
  by (auto simp: mailmsg_ring_pop_def frame_status_def frame_valid_def ring_after_pop_def
      Let_def not_le)

lemma ring_wf_after_pop [wf_intros]: "ring_wf r \<Longrightarrow> ring_wf (ring_after_pop r)"
  by (simp add: ring_wf_def ring_after_pop_def)

subsection \<open>Interface: a bounded FIFO queue with C result codes\<close>

text \<open>
  What a client of a ring relies on.  \<open>stored m\<close> is the queue entry that an
  accepted message becomes, \<open>readable\<close> says that an entry passes the checks of
  \<open>deq\<close>.
\<close>

datatype 'm fifo_op = Enq 'm | Deq

text \<open>What one operation returns to its caller: the code, and for \<open>deq\<close> the buffer.\<close>

datatype 'm fifo_result = Enq_result int | Deq_result int 'm

text \<open>
  A run of operations on one queue: the final queue and the result of every call, in
  order.
\<close>

fun fifo_run ::
  "('q \<Rightarrow> 'm \<Rightarrow> (int \<times> 'q) option) \<Rightarrow> ('q \<Rightarrow> 'm \<Rightarrow> (int \<times> 'q \<times> 'm) option) \<Rightarrow> 'm \<Rightarrow>
   'q \<Rightarrow> 'm fifo_op list \<Rightarrow> ('q \<times> 'm fifo_result list) option" where
  "fifo_run enq deq buf q [] = Some (q, [])"
| "fifo_run enq deq buf q (Enq m # os) =
     do { (r, q') \<leftarrow> enq q m;
          (q'', rs) \<leftarrow> fifo_run enq deq buf q' os;
          Some (q'', Enq_result r # rs) }"
| "fifo_run enq deq buf q (Deq # os) =
     do { (r, q', f) \<leftarrow> deq q buf;
          (q'', rs) \<leftarrow> fifo_run enq deq buf q' os;
          Some (q'', Deq_result r f # rs) }"

text \<open>
  The abstract queue is a list of at most \<open>cap\<close> entries.  \<open>enq\<close> refuses a message
  that is not admissible, refuses any other exactly when the queue is full and
  otherwise appends what the message is stored as; \<open>deq\<close> delivers the oldest entry
  and finds nothing exactly when the queue is empty.
\<close>

fun queue_run ::
  "nat \<Rightarrow> ('m \<Rightarrow> bool) \<Rightarrow> ('m \<Rightarrow> 'm) \<Rightarrow> 'm \<Rightarrow> 'm list \<Rightarrow> 'm fifo_op list \<Rightarrow>
   'm list \<times> 'm fifo_result list" where
  "queue_run cap admissible stored buf q [] = (q, [])"
| "queue_run cap admissible stored buf q (Enq m # os) =
     (let (code, q') = (if \<not> admissible m then (MAILMSG_RING_INVALID, q)
                        else if length q < cap then (MAILMSG_RING_OK, q @ [stored m])
                        else (MAILMSG_RING_FULL, q));
          (q'', rs) = queue_run cap admissible stored buf q' os
      in (q'', Enq_result code # rs))"
| "queue_run cap admissible stored buf q (Deq # os) =
     (let (code, q', f) = (case q of [] \<Rightarrow> (MAILMSG_RING_EMPTY, [], buf)
                                   | f # fs \<Rightarrow> (MAILMSG_RING_OK, fs, f));
          (q'', rs) = queue_run cap admissible stored buf q' os
      in (q'', Deq_result code f # rs))"

locale bounded_fifo =
  fixes enq :: "'q \<Rightarrow> 'm \<Rightarrow> (int \<times> 'q) option"
    and deq :: "'q \<Rightarrow> 'm \<Rightarrow> (int \<times> 'q \<times> 'm) option"
    and frames :: "'q \<Rightarrow> 'm list"
    and invar :: "'q \<Rightarrow> bool"
    and typed :: "'m \<Rightarrow> bool"
    and admissible :: "'m \<Rightarrow> bool"
    and stored :: "'m \<Rightarrow> 'm"
    and readable :: "'m \<Rightarrow> bool"
    and cap :: nat
  assumes enq_ok: "invar q \<Longrightarrow> typed m \<Longrightarrow> admissible m \<Longrightarrow> length (frames q) < cap \<Longrightarrow>
      \<exists>q'. enq q m = Some (MAILMSG_RING_OK, q') \<and> invar q' \<and> frames q' = frames q @ [stored m]"
    and enq_full: "invar q \<Longrightarrow> typed m \<Longrightarrow> admissible m \<Longrightarrow> \<not> length (frames q) < cap \<Longrightarrow>
      enq q m = Some (MAILMSG_RING_FULL, q)"
    and enq_invalid: "invar q \<Longrightarrow> typed m \<Longrightarrow> \<not> admissible m \<Longrightarrow>
      enq q m = Some (MAILMSG_RING_INVALID, q)"
    and deq_empty: "invar q \<Longrightarrow> frames q = [] \<Longrightarrow> deq q m = Some (MAILMSG_RING_EMPTY, q, m)"
    and deq_Cons: "invar q \<Longrightarrow> frames q = f # fs \<Longrightarrow> readable f \<Longrightarrow>
      \<exists>q'. deq q m = Some (MAILMSG_RING_OK, q', f) \<and> invar q' \<and> frames q' = fs"
    and stored_readable: "admissible m \<Longrightarrow> readable (stored m)"
begin

definition sound :: "'q \<Rightarrow> bool" where
  "sound q \<longleftrightarrow> invar q \<and> (\<forall>f \<in> set (frames q). readable f)"

lemma enq_refines:
  assumes "sound q" and "typed m"
  obtains q' where "enq q m = Some (if \<not> admissible m then MAILMSG_RING_INVALID
      else if length (frames q) < cap then MAILMSG_RING_OK else MAILMSG_RING_FULL, q')"
    and "sound q'"
    and "frames q' =
      (if admissible m \<and> length (frames q) < cap then frames q @ [stored m] else frames q)"
proof (cases "admissible m \<and> length (frames q) < cap")
  case True
  with assms enq_ok [of q m] obtain q' where "enq q m = Some (MAILMSG_RING_OK, q')" "invar q'"
    "frames q' = frames q @ [stored m]" by (auto simp: sound_def)
  with True show ?thesis using that assms(1) stored_readable [of m] by (auto simp: sound_def)
next
  case False
  with assms show ?thesis using that [of q] enq_full [of q m] enq_invalid [of q m]
    by (auto simp: sound_def)
qed

lemma deq_refines:
  assumes "sound q"
  obtains q' where "deq q m = (case frames q of [] \<Rightarrow> Some (MAILMSG_RING_EMPTY, q', m)
      | f # fs \<Rightarrow> Some (MAILMSG_RING_OK, q', f))"
    and "sound q'" and "frames q' = tl (frames q)"
proof (cases "frames q")
  case Nil
  with assms show ?thesis using that [of q] deq_empty [of q m] by (simp add: sound_def)
next
  case (Cons f fs)
  with assms deq_Cons [of q f fs m] obtain q' where "deq q m = Some (MAILMSG_RING_OK, q', f)"
    "invar q'" "frames q' = fs" by (auto simp: sound_def)
  with Cons assms show ?thesis using that [of q'] by (simp add: sound_def)
qed

lemma run_refines:
  assumes "sound q" and "\<forall>m. Enq m \<in> set os \<longrightarrow> typed m"
  shows "\<exists>q'. fifo_run enq deq buf q os =
      Some (q', snd (queue_run cap admissible stored buf (frames q) os)) \<and> sound q' \<and>
    frames q' = fst (queue_run cap admissible stored buf (frames q) os)"
  using assms
proof (induction os arbitrary: q)
  case Nil
  then show ?case by simp
next
  case (Cons x os)
  have rest: "\<forall>m. Enq m \<in> set os \<longrightarrow> typed m" using Cons.prems(2) by simp
  show ?case
  proof (cases x)
    case (Enq m)
    then have "typed m" using Cons.prems(2) by simp
    from enq_refines [OF Cons.prems(1) this] obtain q' where q': "sound q'"
      "enq q m = Some (if \<not> admissible m then MAILMSG_RING_INVALID
        else if length (frames q) < cap then MAILMSG_RING_OK else MAILMSG_RING_FULL, q')"
      "frames q' = (if admissible m \<and> length (frames q) < cap then frames q @ [stored m]
        else frames q)" .
    show ?thesis using Cons.IH [OF q'(1) rest] q'(2,3) Enq by (auto simp: split_beta Let_def)
  next
    case Deq
    from deq_refines [OF Cons.prems(1), of buf] obtain q' where q': "sound q'"
      "deq q buf = (case frames q of [] \<Rightarrow> Some (MAILMSG_RING_EMPTY, q', buf)
        | f # fs \<Rightarrow> Some (MAILMSG_RING_OK, q', f))"
      "frames q' = tl (frames q)" .
    show ?thesis using Cons.IH [OF q'(1) rest] q'(2,3) Deq
      by (auto simp: split_beta Let_def split: list.split)
  qed
qed

end

lemma ring_depth_lt_or_full: "ring_depth r < 7 \<or> ring_depth r = 7"
  using ring_depth_le [of r] by linarith

interpretation ring: bounded_fifo mailmsg_ring_push mailmsg_ring_pop ring_frames ring_wf
  message_wf frame_valid seal "\<lambda>f. frame_status f = MAILMSG_RING_OK" 7
proof unfold_locales
  fix q m
  assume "ring_wf q" "message_wf m" "frame_valid m" "length (ring_frames q) < 7"
  then show "\<exists>q'. mailmsg_ring_push q m = Some (MAILMSG_RING_OK, q') \<and> ring_wf q' \<and>
      ring_frames q' = ring_frames q @ [seal m]"
    by (simp add: ring_push_ok ring_wf_after_push ring_frames_after_push)
next
  fix q m
  assume "ring_wf q" "frame_valid m" "\<not> length (ring_frames q) < 7"
  then show "mailmsg_ring_push q m = Some (MAILMSG_RING_FULL, q)"
    using ring_depth_lt_or_full [of q] by (simp add: ring_push_full)
next
  fix q f fs m
  assume "ring_wf q" "ring_frames q = f # fs" "frame_status f = MAILMSG_RING_OK"
  then show "\<exists>q'. mailmsg_ring_pop q m = Some (MAILMSG_RING_OK, q', f) \<and> ring_wf q' \<and> ring_frames q' = fs"
    by (simp add: ring_pop_Cons ring_wf_after_pop ring_frames_Cons)
qed (simp_all add: ring_push_invalid ring_pop_empty frame_status_seal)

lemma ring_sound_iff: "ring.sound = ring_sound"
  by (simp add: fun_eq_iff ring.sound_def ring_sound_def)

subsection \<open>Frames stay committed and intact\<close>

lemma ring_wf_empty [simp]: "ring_wf empty_ring"
  by (simp add: ring_wf_def empty_ring_def message_wf_def zero_message_def)

lemma ring_depth_empty [simp]: "ring_depth empty_ring = 0"
  by (simp add: ring_depth_def empty_ring_def)

lemma ring_frames_empty [simp]: "ring_frames empty_ring = []"
  by (simp add: ring_frames_def)

lemma ring_sound_empty [simp]: "ring_sound empty_ring"
  by (simp add: ring_sound_def)

lemma ring_sound_push:
  assumes "ring_sound r" and "message_wf m" and "mailmsg_ring_push r m = Some (c, r')"
  shows "ring_sound r'"
proof (cases "frame_valid m")
  case True
  with assms show ?thesis
    using ring_depth_lt_or_full [of r]
    by (auto simp: ring_sound_def ring_push_full ring_push_ok ring_wf_after_push
        ring_frames_after_push frame_status_seal)
next
  case False
  with assms show ?thesis by (auto simp: ring_push_invalid)
qed

lemma ring_wf_pop:
  assumes "ring_wf r" and "mailmsg_ring_pop r m = Some (c, r', m')"
  shows "ring_wf r'"
  using assms by (cases "ring_frames r")
    (auto simp: ring_pop_empty ring_pop_Cons ring_wf_after_pop split: if_splits)

lemma ring_wf_push:
  assumes "ring_wf r" and "message_wf m" and "mailmsg_ring_push r m = Some (c, r')"
  shows "ring_wf r'"
  using assms ring_depth_lt_or_full [of r]
  by (cases "frame_valid m")
     (auto simp: ring_push_invalid ring_push_full ring_push_ok ring_wf_after_push)

lemma ring_sound_pop:
  assumes "ring_sound r" and "mailmsg_ring_pop r m = Some (c, r', m')"
  shows "ring_sound r'"
  using assms by (cases "ring_frames r")
    (auto simp: ring_sound_def ring_pop_empty ring_pop_Cons ring_wf_after_pop
      dest: ring_frames_Cons(1) split: if_splits)

lemma ring_frame_wf:
  assumes "ring_wf r" and "ring_frames r = f # fs"
  shows "message_wf f"
  using ring_frames_Cons(2) [OF assms] ring_wfD [OF assms(1)] assms(1) nth_mem
  by (force simp: ring_wf_def)

subsection \<open>Properties of the ring\<close>

text \<open>Claim C3.
  The ring implements a first-in first-out queue of seven frames.  Any sequence of
  pushes and pops, in any order, runs through on a sound ring without an access outside
  the slot array, and every single call returns what the abstract queue returns: a push
  of a frame with an invalid header is refused, any other push is accepted exactly when
  fewer than seven frames are queued and reported FULL otherwise, a pop delivers the
  oldest queued frame, sealed with its CRC and commit word, and reports EMPTY exactly
  when none is queued.  The frames left in the ring are those left in the queue, and no
  pop ever reports an incomplete, invalid or corrupt frame.
\<close>

theorem ring_run_fifo:
  assumes "ring_sound r"
    and "\<forall>m. Enq m \<in> set os \<longrightarrow> message_wf m"
  shows "\<exists>r'. fifo_run mailmsg_ring_push mailmsg_ring_pop buf r os =
      Some (r', snd (queue_run 7 frame_valid seal buf (ring_frames r) os)) \<and>
    ring_sound r' \<and>
    ring_frames r' = fst (queue_run 7 frame_valid seal buf (ring_frames r) os)"
  using ring.run_refines [of r os buf] assms by (simp add: ring_sound_iff)

theorem ring_run_fifo_witness:
  "let m = zero_message\<lparr>msg_generation := 1, msg_sequence := 7\<rparr>;
       n = zero_message\<lparr>msg_generation := 1, msg_sequence := 9\<rparr>;
       os = [Deq, Enq zero_message, Enq m] @ replicate 7 (Enq n) @ [Deq, Deq]
   in \<exists>r'. fifo_run mailmsg_ring_push mailmsg_ring_pop zero_message empty_ring os =
      Some (r', [Deq_result MAILMSG_RING_EMPTY zero_message, Enq_result MAILMSG_RING_INVALID,
        Enq_result 0] @ replicate 6 (Enq_result 0) @ [Enq_result MAILMSG_RING_FULL,
        Deq_result 0 (seal m), Deq_result 0 (seal n)]) \<and>
    ring_sound r' \<and> ring_frames r' = replicate 5 (seal n)"
proof -
  let ?m = "zero_message\<lparr>msg_generation := 1, msg_sequence := 7\<rparr>"
  let ?n = "zero_message\<lparr>msg_generation := 1, msg_sequence := 9\<rparr>"
  let ?os = "[Deq, Enq zero_message, Enq ?m] @ replicate 7 (Enq ?n) @ [Deq, Deq]"
  have typed: "\<forall>m. Enq m \<in> set ?os \<longrightarrow> message_wf m"
    by (auto simp: message_wf_def zero_message_def)
  have valid: "frame_valid ?m" "frame_valid ?n" "\<not> frame_valid zero_message"
    by (simp_all add: frame_valid_def zero_message_def)
  show ?thesis
    using ring_run_fifo [OF ring_sound_empty typed, of zero_message] valid
    by (simp add: eval_nat_numeral Let_def)
qed

text \<open>
  \<open>push\<close> on a well-formed ring, on every branch: an invalid header is refused before
  anything is written, a ring with seven frames is reported FULL and left as it is,
  and otherwise the sealed frame is appended; it never returns another code and never
  writes outside the eight slots.
\<close>

lemma ring_push_outcome:
  assumes "ring_wf r" and "message_wf m"
  shows "(\<not> frame_valid m \<longrightarrow> mailmsg_ring_push r m = Some (MAILMSG_RING_INVALID, r)) \<and>
    (frame_valid m \<and> length (ring_frames r) = 7 \<longrightarrow>
       mailmsg_ring_push r m = Some (MAILMSG_RING_FULL, r)) \<and>
    (frame_valid m \<and> length (ring_frames r) \<noteq> 7 \<longrightarrow>
       (\<exists>r'. mailmsg_ring_push r m = Some (MAILMSG_RING_OK, r') \<and> ring_wf r' \<and>
             ring_frames r' = ring_frames r @ [seal m] \<and>
             mailmsg_ring_count (Some r') (Some \<lparr>ops_publish = True, ops_acquire = True\<rparr>) =
               int (length (ring_frames r)) + 1))"
  using assms ring_depth_lt_or_full [of r]
  by (auto simp: ring_push_invalid ring_push_full ring_push_ok ring_wf_after_push
      ring_frames_after_push ring_count_depth ring_depth_after_push)

text \<open>
  \<open>pop\<close> on a well-formed ring, on every branch: an empty ring and a frame whose commit
  word does not match leave the ring and the caller's buffer alone; any other frame is
  released, whether it is good, has a bad CRC or an invalid header, and the code says
  which.
\<close>

lemma ring_pop_outcome:
  assumes "ring_wf r"
  shows "mailmsg_ring_pop r buf =
    (case ring_frames r of
       [] \<Rightarrow> Some (MAILMSG_RING_EMPTY, r, buf)
     | f # fs \<Rightarrow>
         if msg_commit f \<noteq> msg_sequence f then Some (MAILMSG_RING_INCOMPLETE, r, buf)
         else Some (if \<not> frame_valid f then MAILMSG_RING_INVALID
                    else if msg_crc32 f \<noteq> mailmsg_frame_crc32 f then MAILMSG_RING_BAD_CRC
                    else MAILMSG_RING_OK,
                    r\<lparr>rb_consumer := mailmsg_next (rb_consumer r)\<rparr>, f)) \<and>
    (ring_frames r \<noteq> [] \<longrightarrow> ring_frames (r\<lparr>rb_consumer := mailmsg_next (rb_consumer r)\<rparr>) = tl (ring_frames r))"
  using assms ring_frames_Cons(1) [OF assms]
  by (cases "ring_frames r")
     (auto simp: ring_pop_empty ring_pop_Cons frame_status_def ring_after_pop_def)

end
