(* ===== verification/Mailmsg_Notify.thy ===== *)
theory Mailmsg_Notify
  imports Mailmsg_Frame
begin

text \<open>
  The transport-neutral doorbell of \<^verbatim>\<open>mailmsg_notify.h\<close> and the mailbox adapter of
  \<^verbatim>\<open>mailmsg_mailbox0.c\<close>.  A backend is a function pointer with a context; in the
  model it is a function on the context, which it may change.  The locale
  \<open>doorbell\<close> is what an endpoint relies on when a notification is accepted: the
  peer has a pending doorbell for that priority.
\<close>

abbreviation (input) MAILMSG_NOTIFY_SENT :: int where "MAILMSG_NOTIFY_SENT \<equiv> 0"
abbreviation (input) MAILMSG_NOTIFY_COALESCED :: int where "MAILMSG_NOTIFY_COALESCED \<equiv> 1"

datatype mailmsg_notify_state =
    MAILMSG_NOTIFY_STATE_SENT
  | MAILMSG_NOTIFY_STATE_COALESCED
  | MAILMSG_NOTIFY_STATE_FAILED

definition mailmsg_notify_state_from_result :: "int \<Rightarrow> mailmsg_notify_state" where
  "mailmsg_notify_state_from_result result =
     (if result = MAILMSG_NOTIFY_SENT then MAILMSG_NOTIFY_STATE_SENT
      else if result = MAILMSG_NOTIFY_COALESCED then MAILMSG_NOTIFY_STATE_COALESCED
      else MAILMSG_NOTIFY_STATE_FAILED)"

definition mailmsg_notify_accepted :: "int \<Rightarrow> bool" where
  "mailmsg_notify_accepted result \<longleftrightarrow>
     result = MAILMSG_NOTIFY_SENT \<or> result = MAILMSG_NOTIFY_COALESCED"

record 'c mailmsg_notify_ops =
  nops_notify :: "('c \<Rightarrow> u32 \<Rightarrow> int \<times> 'c) option"
  nops_enable_rx :: "('c \<Rightarrow> u32 \<Rightarrow> int \<times> 'c) option"

text \<open>
  The structure holds the operations; its \<open>context\<close> pointer refers to state that
  the callers own, so the context itself is passed along as state.
\<close>

record 'c mailmsg_notify_endpoint =
  ne_ops :: "'c mailmsg_notify_ops option"

definition mailmsg_notify ::
  "'c mailmsg_notify_endpoint option \<Rightarrow> 'c \<Rightarrow> u32 \<Rightarrow> int \<times> 'c" where
  "mailmsg_notify endpoint context priority =
     (case endpoint of None \<Rightarrow> (- 1, context)
      | Some ne \<Rightarrow>
         (case ne_ops ne of None \<Rightarrow> (- 1, context)
          | Some ops \<Rightarrow>
             (case nops_notify ops of None \<Rightarrow> (- 1, context)
              | Some notify \<Rightarrow>
                  if MAILMSG_PRIORITY_COUNT \<le> priority then (- 1, context)
                  else notify context priority)))"

lemma notify_accepted_state:
  "mailmsg_notify_accepted r \<longleftrightarrow> mailmsg_notify_state_from_result r \<noteq> MAILMSG_NOTIFY_STATE_FAILED"
  by (simp add: mailmsg_notify_accepted_def mailmsg_notify_state_from_result_def)

subsection \<open>The mailbox0 adapter\<close>

abbreviation (input) MAILMSG_MAILBOX0_DOORBELL :: u32 where "MAILMSG_MAILBOX0_DOORBELL \<equiv> 0xa2b10000"

record 'h mailmsg_mailbox0 =
  mb0_context :: 'h
  mb0_send :: "('h \<Rightarrow> u32 \<Rightarrow> u32 \<Rightarrow> u32 \<Rightarrow> int \<times> 'h) option"

text \<open>The \<open>void *context\<close> of the adapter is a possibly NULL pointer to the structure.\<close>

definition mailmsg_mailbox0_notify ::
  "'h mailmsg_mailbox0 option \<Rightarrow> u32 \<Rightarrow> int \<times> 'h mailmsg_mailbox0 option" where
  "mailmsg_mailbox0_notify context priority =
     (case context of None \<Rightarrow> (- 1, context)
      | Some adapter \<Rightarrow>
         (case mb0_send adapter of None \<Rightarrow> (- 1, context)
          | Some send \<Rightarrow>
             if MAILMSG_PRIORITY_COUNT \<le> priority then (- 1, context)
             else
               let (result, h) = send (mb0_context adapter) priority
                                   (MAILMSG_MAILBOX0_DOORBELL OR priority) priority
               in (result, Some (adapter\<lparr>mb0_context := h\<rparr>))))"

definition mailmsg_mailbox0_notify_ops :: "'h mailmsg_mailbox0 option mailmsg_notify_ops" where
  "mailmsg_mailbox0_notify_ops =
     \<lparr>nops_notify = Some mailmsg_mailbox0_notify, nops_enable_rx = None\<rparr>"

subsection \<open>Interface: a doorbell\<close>

text \<open>
  \<open>ok\<close> is the invariant of the backend's context and \<open>pending c p\<close> says that the
  peer will see a doorbell of priority \<open>p\<close>.
\<close>

locale doorbell =
  fixes ring_bell :: "'c \<Rightarrow> u32 \<Rightarrow> int \<times> 'c"
    and pending :: "'c \<Rightarrow> u32 \<Rightarrow> bool"
    and ok :: "'c \<Rightarrow> bool"
  assumes bell_ok: "ok c \<Longrightarrow> p < 4 \<Longrightarrow> ok (snd (ring_bell c p))"
    and bell_accepted: "ok c \<Longrightarrow> p < 4 \<Longrightarrow> mailmsg_notify_accepted (fst (ring_bell c p)) \<Longrightarrow>
      pending (snd (ring_bell c p)) p"
    and bell_keeps: "ok c \<Longrightarrow> p < 4 \<Longrightarrow> q < 4 \<Longrightarrow> pending c q \<Longrightarrow> pending (snd (ring_bell c p)) q"
begin

lemma notify_pending:
  assumes "ok c" "p < 4" "mailmsg_notify (Some \<lparr>ne_ops = Some \<lparr>nops_notify = Some ring_bell, nops_enable_rx = e\<rparr>\<rparr>) c p = (r, c')"
  shows "ok c'" and "mailmsg_notify_accepted r \<Longrightarrow> pending c' p"
    and "q < 4 \<Longrightarrow> pending c q \<Longrightarrow> pending c' q"
  using assms bell_ok [of c p] bell_accepted [of c p] bell_keeps [of c p q]
  by (simp_all add: mailmsg_notify_def)

end

text \<open>
  Any doorbell behind the adapter is a doorbell in front of it: the adapter maps
  priority \<open>p\<close> to channel \<open>p\<close>, command \<open>0xa2b10000 OR p\<close> and data \<open>p\<close>, and hands the
  result through.
\<close>

lemma mailbox0_notify_eq:
  assumes "p < 4"
  shows "mailmsg_mailbox0_notify (Some \<lparr>mb0_context = h, mb0_send = Some send\<rparr>) p =
    (fst (send h p (MAILMSG_MAILBOX0_DOORBELL OR p) p),
     Some \<lparr>mb0_context = snd (send h p (MAILMSG_MAILBOX0_DOORBELL OR p) p), mb0_send = Some send\<rparr>)"
  using assms by (simp add: mailmsg_mailbox0_notify_def split: prod.split)

end
