(* ===== verification/Mailmsg_Endpoint.thy ===== *)
theory Mailmsg_Endpoint
  imports Mailmsg_Ring Mailmsg_Notify
begin

text \<open>
  The endpoint of \<^verbatim>\<open>mailmsg_endpoint.c\<close>: binding to a shared-memory session,
  sending, receiving and the per-priority statistics.

  The shared region is one object that both endpoints reach, so it is passed along
  as state next to the endpoint; \<open>ep_tx\<close> and \<open>ep_rx\<close> say which of its two ring
  arrays a pointer refers to, \<open>None\<close> being NULL.  The pointers to the endpoint, to
  the result and to the message are addresses of objects at every call, so their
  NULL tests have no counterpart; all tests of pointers stored in structures are
  kept.  \<open>None\<close> as the result of a function is an access outside an array.
\<close>

subsection \<open>Data\<close>

record mailmsg_shared =
  shm_magic :: u32
  shm_version :: u32
  shm_generation :: u32
  linux_to_cpu3 :: "mailmsg_ring list"
  cpu3_to_linux :: "mailmsg_ring list"

datatype ring_array = Linux_to_cpu3 | Cpu3_to_linux

datatype mailmsg_endpoint_role = MAILMSG_ENDPOINT_LINUX | MAILMSG_ENDPOINT_CPU3

abbreviation (input) MAILMSG_ENDPOINT_OK :: int where "MAILMSG_ENDPOINT_OK \<equiv> 0"
abbreviation (input) MAILMSG_ENDPOINT_INVALID :: int where "MAILMSG_ENDPOINT_INVALID \<equiv> - 100"
abbreviation (input) MAILMSG_ENDPOINT_PROTOCOL_MISMATCH :: int
  where "MAILMSG_ENDPOINT_PROTOCOL_MISMATCH \<equiv> - 101"
abbreviation (input) MAILMSG_ENDPOINT_STALE_SESSION :: int where "MAILMSG_ENDPOINT_STALE_SESSION \<equiv> - 102"
abbreviation (input) MAILMSG_ENDPOINT_STALE_FRAME :: int where "MAILMSG_ENDPOINT_STALE_FRAME \<equiv> - 103"

record mailmsg_priority_stats =
  tx_enqueued :: u32
  tx_full :: u32
  tx_high_water :: u32
  notify_sent :: u32
  notify_coalesced :: u32
  notify_failed :: u32
  rx_ok :: u32
  rx_incomplete :: u32
  rx_bad_crc :: u32
  rx_invalid :: u32
  rx_stale :: u32

record mailmsg_send_result =
  queue_result :: int
  notify_result :: int
  notify_attempted :: int
  res_sequence :: u32

record 'c mailmsg_endpoint =
  ep_shared :: bool
  ep_tx :: "ring_array option"
  ep_rx :: "ring_array option"
  ep_memory_ops :: "mailmsg_memory_ops option"
  ep_notify :: "'c mailmsg_notify_endpoint option"
  ep_next_sequence :: u32
  ep_generation :: u32
  ep_stats :: "mailmsg_priority_stats list"

definition zero_stats :: mailmsg_priority_stats where
  "zero_stats = \<lparr>tx_enqueued = 0, tx_full = 0, tx_high_water = 0, notify_sent = 0,
     notify_coalesced = 0, notify_failed = 0, rx_ok = 0, rx_incomplete = 0, rx_bad_crc = 0,
     rx_invalid = 0, rx_stale = 0\<rparr>"

definition zero_result :: mailmsg_send_result where
  "zero_result = \<lparr>queue_result = 0, notify_result = 0, notify_attempted = 0, res_sequence = 0\<rparr>"

text \<open>An endpoint of all zero bytes, as the driver makes it with \<open>memset\<close>.\<close>

definition zero_endpoint :: "'c mailmsg_endpoint" where
  "zero_endpoint = \<lparr>ep_shared = False, ep_tx = None, ep_rx = None, ep_memory_ops = None,
     ep_notify = None, ep_next_sequence = 0, ep_generation = 0, ep_stats = replicate 4 zero_stats\<rparr>"

fun shared_rings :: "mailmsg_shared \<Rightarrow> ring_array \<Rightarrow> mailmsg_ring list" where
  "shared_rings s Linux_to_cpu3 = linux_to_cpu3 s"
| "shared_rings s Cpu3_to_linux = cpu3_to_linux s"

definition shared_ring :: "mailmsg_shared \<Rightarrow> ring_array \<Rightarrow> u32 \<Rightarrow> mailmsg_ring" where
  "shared_ring s a p = shared_rings s a ! unat p"

fun set_shared_ring :: "mailmsg_shared \<Rightarrow> ring_array \<Rightarrow> u32 \<Rightarrow> mailmsg_ring \<Rightarrow> mailmsg_shared" where
  "set_shared_ring s Linux_to_cpu3 p r = s\<lparr>linux_to_cpu3 := (linux_to_cpu3 s)[unat p := r]\<rparr>"
| "set_shared_ring s Cpu3_to_linux p r = s\<lparr>cpu3_to_linux := (cpu3_to_linux s)[unat p := r]\<rparr>"

definition upd_stats ::
  "(mailmsg_priority_stats \<Rightarrow> mailmsg_priority_stats) \<Rightarrow> u32 \<Rightarrow> 'c mailmsg_endpoint \<Rightarrow> 'c mailmsg_endpoint" where
  "upd_stats f p ep = ep\<lparr>ep_stats := (ep_stats ep)[unat p := f (ep_stats ep ! unat p)]\<rparr>"

subsection \<open>Operations\<close>

definition mailmsg_endpoint_next_sequence :: "'c mailmsg_endpoint \<Rightarrow> u32 \<times> 'c mailmsg_endpoint" where
  "mailmsg_endpoint_next_sequence ep =
     (let n = ep_next_sequence ep + 1; n = (if n = 0 then n + 1 else n)
      in (n, ep\<lparr>ep_next_sequence := n\<rparr>))"

definition mailmsg_endpoint_reset_stats :: "'c mailmsg_endpoint \<Rightarrow> 'c mailmsg_endpoint" where
  "mailmsg_endpoint_reset_stats ep = fold (upd_stats (\<lambda>_. zero_stats)) [0, 1, 2, 3] ep"

definition mailmsg_endpoint_session_valid :: "'c mailmsg_endpoint \<Rightarrow> mailmsg_shared \<Rightarrow> int" where
  "mailmsg_endpoint_session_valid ep sh =
     (if \<not> ep_shared ep \<or> (case ep_memory_ops ep of None \<Rightarrow> True | Some ops \<Rightarrow> \<not> ops_acquire ops) \<or>
         ep_generation ep = 0
      then MAILMSG_ENDPOINT_INVALID
      else if shm_magic sh \<noteq> MAILMSG_PROTOCOL_MAGIC \<or> shm_version sh \<noteq> MAILMSG_PROTOCOL_VERSION
      then MAILMSG_ENDPOINT_PROTOCOL_MISMATCH
      else if shm_generation sh \<noteq> ep_generation ep then MAILMSG_ENDPOINT_STALE_SESSION
      else MAILMSG_ENDPOINT_OK)"

text \<open>A role outside the enumeration (a cast \<open>-1\<close>, say) is \<open>None\<close>.\<close>

definition mailmsg_endpoint_bind ::
  "'c mailmsg_endpoint \<Rightarrow> mailmsg_shared option \<Rightarrow> mailmsg_memory_ops option \<Rightarrow>
   'c mailmsg_notify_endpoint option \<Rightarrow> mailmsg_endpoint_role option \<Rightarrow> int \<times> 'c mailmsg_endpoint" where
  "mailmsg_endpoint_bind ep shared memory_ops notify role =
     (case (shared, memory_ops, role) of
        (Some sh, Some ops, Some rl) \<Rightarrow>
          if \<not> ops_publish ops \<or> \<not> ops_acquire ops \<or>
             (case notify of None \<Rightarrow> True
              | Some ne \<Rightarrow> (case ne_ops ne of None \<Rightarrow> True | Some nops \<Rightarrow> nops_notify nops = None))
          then (MAILMSG_ENDPOINT_INVALID, ep)
          else if shm_magic sh \<noteq> MAILMSG_PROTOCOL_MAGIC \<or> shm_version sh \<noteq> MAILMSG_PROTOCOL_VERSION
          then (MAILMSG_ENDPOINT_PROTOCOL_MISMATCH, ep)
          else if shm_generation sh = 0 then (MAILMSG_ENDPOINT_STALE_SESSION, ep)
          else
            let ep = ep\<lparr>ep_shared := True, ep_memory_ops := Some ops, ep_notify := notify,
                        ep_next_sequence := 0, ep_generation := shm_generation sh\<rparr>;
                ep = mailmsg_endpoint_reset_stats ep
            in (MAILMSG_ENDPOINT_OK,
                if rl = MAILMSG_ENDPOINT_LINUX
                then ep\<lparr>ep_tx := Some Linux_to_cpu3, ep_rx := Some Cpu3_to_linux\<rparr>
                else ep\<lparr>ep_tx := Some Cpu3_to_linux, ep_rx := Some Linux_to_cpu3\<rparr>)
      | _ \<Rightarrow> (MAILMSG_ENDPOINT_INVALID, ep))"

text \<open>
  The message that \<open>send\<close> builds from a zeroed structure: the copy loop writes the
  first \<open>length\<close> payload bytes.
\<close>

definition send_message :: "u32 \<Rightarrow> u32 \<Rightarrow> u32 \<Rightarrow> u8 list \<Rightarrow> u32 \<Rightarrow> mailmsg_message" where
  "send_message gen ty seq payload len =
     zero_message\<lparr>msg_generation := gen, msg_type := ty, msg_sequence := seq, msg_length := len,
       msg_payload := take (unat len) payload @ drop (unat len) (msg_payload zero_message)\<rparr>"

definition mailmsg_endpoint_send ::
  "'c mailmsg_endpoint \<Rightarrow> mailmsg_shared \<Rightarrow> 'c \<Rightarrow> u32 \<Rightarrow> u32 \<Rightarrow> u8 list option \<Rightarrow> u32 \<Rightarrow>
   mailmsg_send_result \<Rightarrow>
   (int \<times> 'c mailmsg_endpoint \<times> mailmsg_shared \<times> 'c \<times> mailmsg_send_result) option" where
  "mailmsg_endpoint_send ep sh ctx priority ty payload len result =
     (if ep_tx ep = None \<or> ep_memory_ops ep = None \<or> MAILMSG_PRIORITY_COUNT \<le> priority \<or>
         MAILMSG_PAYLOAD_BYTES < len \<or> (len \<noteq> 0 \<and> payload = None)
      then Some (MAILMSG_ENDPOINT_INVALID, ep, sh, ctx, result)
      else
        let result = result\<lparr>queue_result := MAILMSG_RING_INVALID, notify_result := - 1,
                            notify_attempted := 0, res_sequence := 0\<rparr>;
            session_result = mailmsg_endpoint_session_valid ep sh in
        if session_result \<noteq> 0 then Some (session_result, ep, sh, ctx, result)
        else
          let (seq, ep) = mailmsg_endpoint_next_sequence ep;
              bytes = (case payload of None \<Rightarrow> [] | Some bs \<Rightarrow> bs);
              tx = the (ep_tx ep) in
          if length bytes < unat len then None
          else do {
            (qr, ring) \<leftarrow> mailmsg_ring_push (shared_ring sh tx priority)
                            (send_message (ep_generation ep) ty seq bytes len);
            let result = result\<lparr>queue_result := qr\<rparr>;
            let sh = set_shared_ring sh tx priority ring;
            if qr \<noteq> 0 then
              Some (qr,
                    if qr = MAILMSG_RING_FULL
                    then upd_stats (\<lambda>s. s\<lparr>tx_full := tx_full s + 1\<rparr>) priority ep else ep,
                    sh, ctx, result\<lparr>res_sequence := 0\<rparr>)
            else do {
              let ep = upd_stats (\<lambda>s. s\<lparr>tx_enqueued := tx_enqueued s + 1\<rparr>) priority ep;
              let depth = mailmsg_ring_count (Some (shared_ring sh tx priority)) (ep_memory_ops ep);
              let ep = upd_stats (\<lambda>s. if 0 < depth \<and> tx_high_water s < word_of_int depth
                                      then s\<lparr>tx_high_water := word_of_int depth\<rparr> else s) priority ep;
              let (nr, ctx) = mailmsg_notify (ep_notify ep) ctx priority;
              let result = result\<lparr>res_sequence := seq, notify_attempted := 1, notify_result := nr\<rparr>;
              let ep = upd_stats (\<lambda>s. if nr = MAILMSG_NOTIFY_SENT
                                      then s\<lparr>notify_sent := notify_sent s + 1\<rparr>
                                      else if nr = MAILMSG_NOTIFY_COALESCED
                                      then s\<lparr>notify_coalesced := notify_coalesced s + 1\<rparr>
                                      else s\<lparr>notify_failed := notify_failed s + 1\<rparr>) priority ep;
              Some (MAILMSG_ENDPOINT_OK, ep, sh, ctx, result) } })"

definition mailmsg_endpoint_receive ::
  "'c mailmsg_endpoint \<Rightarrow> mailmsg_shared \<Rightarrow> u32 \<Rightarrow> mailmsg_message \<Rightarrow>
   (int \<times> 'c mailmsg_endpoint \<times> mailmsg_shared \<times> mailmsg_message) option" where
  "mailmsg_endpoint_receive ep sh priority message =
     (if ep_rx ep = None \<or> ep_memory_ops ep = None \<or> MAILMSG_PRIORITY_COUNT \<le> priority
      then Some (MAILMSG_ENDPOINT_INVALID, ep, sh, message)
      else
        let ret = mailmsg_endpoint_session_valid ep sh; rx = the (ep_rx ep) in
        if ret \<noteq> 0 then Some (ret, ep, sh, message)
        else do {
          (ret, ring, message) \<leftarrow> mailmsg_ring_pop (shared_ring sh rx priority) message;
          let sh = set_shared_ring sh rx priority ring;
          let (ret, ep) =
            (if ret = 0 \<and> msg_generation message \<noteq> ep_generation ep
             then (MAILMSG_ENDPOINT_STALE_FRAME,
                   upd_stats (\<lambda>s. s\<lparr>rx_stale := rx_stale s + 1\<rparr>) priority ep)
             else (ret, ep));
          let ep = upd_stats (\<lambda>s. if ret = 0 then s\<lparr>rx_ok := rx_ok s + 1\<rparr>
                                  else if ret = MAILMSG_RING_INCOMPLETE
                                  then s\<lparr>rx_incomplete := rx_incomplete s + 1\<rparr>
                                  else if ret = MAILMSG_RING_BAD_CRC
                                  then s\<lparr>rx_bad_crc := rx_bad_crc s + 1\<rparr>
                                  else if ret = MAILMSG_RING_INVALID
                                  then s\<lparr>rx_invalid := rx_invalid s + 1\<rparr>
                                  else s) priority ep;
          Some (ret, ep, sh, message) })"

definition mailmsg_endpoint_has_received :: "'c mailmsg_endpoint \<Rightarrow> mailmsg_shared \<Rightarrow> u32 \<Rightarrow> int" where
  "mailmsg_endpoint_has_received ep sh priority =
     (case ep_rx ep of None \<Rightarrow> MAILMSG_RING_INVALID
      | Some rx \<Rightarrow>
          if ep_memory_ops ep = None \<or> MAILMSG_PRIORITY_COUNT \<le> priority then MAILMSG_RING_INVALID
          else if mailmsg_endpoint_session_valid ep sh \<noteq> 0 then MAILMSG_RING_INVALID
          else mailmsg_ring_has_data (Some (shared_ring sh rx priority)) (ep_memory_ops ep))"

subsection \<open>Invariants\<close>

definition shared_wf :: "mailmsg_shared \<Rightarrow> bool" where
  "shared_wf sh \<longleftrightarrow> length (linux_to_cpu3 sh) = 4 \<and> length (cpu3_to_linux sh) = 4 \<and>
     (\<forall>r \<in> set (linux_to_cpu3 sh) \<union> set (cpu3_to_linux sh). ring_wf r)"

definition endpoint_wf :: "'c mailmsg_endpoint \<Rightarrow> bool" where
  "endpoint_wf ep \<longleftrightarrow> length (ep_stats ep) = 4"

text \<open>The endpoint is bound to the session that the shared region announces.\<close>

definition endpoint_bound :: "'c mailmsg_endpoint \<Rightarrow> mailmsg_shared \<Rightarrow> ring_array \<Rightarrow> ring_array \<Rightarrow> bool" where
  "endpoint_bound ep sh tx rx \<longleftrightarrow> ep_tx ep = Some tx \<and> ep_rx ep = Some rx \<and>
     mailmsg_endpoint_session_valid ep sh = MAILMSG_ENDPOINT_OK"

lemma unat_less_4 [simp]: "p < 4 \<Longrightarrow> unat p < 4" for p :: u32
  by (simp add: word_less_nat_alt)

lemma shared_rings_length: "shared_wf sh \<Longrightarrow> length (shared_rings sh a) = 4"
  by (cases a) (simp_all add: shared_wf_def)

lemma shared_ring_wf [wf_intros]: "shared_wf sh \<Longrightarrow> p < 4 \<Longrightarrow> ring_wf (shared_ring sh a p)"
  by (cases a) (auto simp: shared_wf_def shared_ring_def)

lemma shared_ring_set:
  "shared_wf sh \<Longrightarrow> p < 4 \<Longrightarrow> q < 4 \<Longrightarrow>
   shared_ring (set_shared_ring sh a p r) b q = (if a = b \<and> p = q then r else shared_ring sh b q)"
  by (cases a; cases b) (auto simp: shared_wf_def shared_ring_def nth_list_update word_unat_eq_iff)

lemma shared_wf_set [wf_intros]:
  assumes "shared_wf sh" and "ring_wf r"
  shows "shared_wf (set_shared_ring sh a p r)"
  using assms set_update_subset_insert [of "shared_rings sh a" "unat p" r]
  by (cases a) (auto simp: shared_wf_def)

lemma set_shared_ring_header [simp]:
  "shm_magic (set_shared_ring sh a p r) = shm_magic sh"
  "shm_version (set_shared_ring sh a p r) = shm_version sh"
  "shm_generation (set_shared_ring sh a p r) = shm_generation sh"
  by (cases a; simp)+

lemma set_shared_ring_same [simp]:
  "shared_wf sh \<Longrightarrow> p < 4 \<Longrightarrow> set_shared_ring sh a p (shared_ring sh a p) = sh"
  by (cases a) (simp_all add: shared_ring_def)

declare set_shared_ring.simps [simp del]

lemma upd_stats_simps [simp]:
  "ep_shared (upd_stats f p ep) = ep_shared ep" "ep_tx (upd_stats f p ep) = ep_tx ep"
  "ep_rx (upd_stats f p ep) = ep_rx ep" "ep_memory_ops (upd_stats f p ep) = ep_memory_ops ep"
  "ep_notify (upd_stats f p ep) = ep_notify ep"
  "ep_next_sequence (upd_stats f p ep) = ep_next_sequence ep"
  "ep_generation (upd_stats f p ep) = ep_generation ep"
  "endpoint_wf (upd_stats f p ep) = endpoint_wf ep"
  "endpoint_wf (ep\<lparr>ep_next_sequence := n\<rparr>) = endpoint_wf ep"
  by (simp_all add: upd_stats_def endpoint_wf_def)

lemma ep_stats_upd_stats:
  "endpoint_wf ep \<Longrightarrow> p < 4 \<Longrightarrow> q < 4 \<Longrightarrow>
   ep_stats (upd_stats f p ep) ! unat q =
     (if p = q then f (ep_stats ep ! unat q) else ep_stats ep ! unat q)"
  by (auto simp: upd_stats_def endpoint_wf_def nth_list_update word_unat_eq_iff)

lemma session_valid_cong:
  "ep_shared ep = ep_shared ep' \<Longrightarrow> ep_memory_ops ep = ep_memory_ops ep' \<Longrightarrow>
   ep_generation ep = ep_generation ep' \<Longrightarrow> shm_magic sh = shm_magic sh' \<Longrightarrow>
   shm_version sh = shm_version sh' \<Longrightarrow> shm_generation sh = shm_generation sh' \<Longrightarrow>
   mailmsg_endpoint_session_valid ep sh = mailmsg_endpoint_session_valid ep' sh'"
  by (simp add: mailmsg_endpoint_session_valid_def)

lemma session_valid_simps [simp]:
  "mailmsg_endpoint_session_valid (upd_stats f p ep) sh = mailmsg_endpoint_session_valid ep sh"
  "mailmsg_endpoint_session_valid (ep\<lparr>ep_next_sequence := n\<rparr>) sh = mailmsg_endpoint_session_valid ep sh"
  "mailmsg_endpoint_session_valid ep (set_shared_ring sh a p r) = mailmsg_endpoint_session_valid ep sh"
  by (auto intro: session_valid_cong)

lemma session_valid_0D:
  assumes "mailmsg_endpoint_session_valid ep sh = 0"
  shows "ep_generation ep \<noteq> 0" "shm_generation sh = ep_generation ep"
    "\<exists>ops. ep_memory_ops ep = Some ops \<and> ops_acquire ops"
  using assms by (auto simp: mailmsg_endpoint_session_valid_def split: if_splits option.splits)

lemma endpoint_boundD:
  assumes "endpoint_bound ep sh tx rx"
  obtains ops where "ep_tx ep = Some tx" "ep_rx ep = Some rx"
    "mailmsg_endpoint_session_valid ep sh = 0" "ep_memory_ops ep = Some ops" "ops_acquire ops"
    "ep_generation ep \<noteq> 0" "shm_generation sh = ep_generation ep"
  using assms session_valid_0D [of ep sh] by (auto simp: endpoint_bound_def)

lemma endpoint_bound_simps [simp]:
  "endpoint_bound (upd_stats f p ep) sh tx rx = endpoint_bound ep sh tx rx"
  "endpoint_bound (ep\<lparr>ep_next_sequence := n\<rparr>) sh tx rx = endpoint_bound ep sh tx rx"
  "endpoint_bound ep (set_shared_ring sh a p r) tx rx = endpoint_bound ep sh tx rx"
  by (simp_all add: endpoint_bound_def)

subsection \<open>Sequence numbers\<close>

definition next_seq :: "u32 \<Rightarrow> u32" where
  "next_seq n = (if n + 1 = 0 then 1 else n + 1)"

lemma next_sequence_eq:
  "mailmsg_endpoint_next_sequence ep =
     (next_seq (ep_next_sequence ep), ep\<lparr>ep_next_sequence := next_seq (ep_next_sequence ep)\<rparr>)"
  by (simp add: mailmsg_endpoint_next_sequence_def next_seq_def Let_def)

lemma next_seq_nonzero [simp]: "next_seq n \<noteq> 0"
  by (simp add: next_seq_def)

lemma unat_next_seq: "unat (next_seq n) = Suc (unat n mod (2 ^ 32 - 1))"
proof (cases "n + 1 = 0")
  case True
  then have "n = - 1" by (simp add: eq_neg_iff_add_eq_0)
  then have "unat n = 2 ^ 32 - 1" by (simp add: unsigned_minus_1_eq_mask mask_eq_exp_minus_1)
  with True show ?thesis by (simp add: next_seq_def)
next
  case False
  then have "unat (n + 1) = Suc (unat n)" using unatSuc [of n] by (simp add: add.commute)
  moreover have "unat (n + 1) < 2 ^ 32" using unsigned_less [of "n + 1"] by simp
  ultimately show ?thesis using False by (simp add: next_seq_def)
qed

text \<open>From any counter value on, the counter runs through all non-zero values in a cycle.\<close>

lemma unat_next_seq_pow: "unat ((next_seq ^^ Suc k) n) = Suc ((unat n + k) mod (2 ^ 32 - 1))"
proof (induction k)
  case (Suc k)
  have "unat ((next_seq ^^ Suc (Suc k)) n) = unat (next_seq ((next_seq ^^ Suc k) n))"
    by simp
  also have "\<dots> = Suc (Suc ((unat n + k) mod (2 ^ 32 - 1)) mod (2 ^ 32 - 1))"
    by (simp only: unat_next_seq Suc)
  also have "\<dots> = Suc ((unat n + Suc k) mod (2 ^ 32 - 1))" by (simp only: mod_Suc_eq add_Suc_right)
  finally show ?case .
qed (simp add: unat_next_seq)

lemma add_mod_cancel_left:
  fixes a i j n :: nat
  shows "(a + i) mod n = (a + j) mod n \<longleftrightarrow> i mod n = j mod n"
proof -
  have "(int a + int i) mod int n = (int a + int j) mod int n \<longleftrightarrow> int i mod int n = int j mod int n"
    by (simp add: mod_eq_dvd_iff)
  then show ?thesis by (simp flip: of_nat_add of_nat_mod)
qed

text \<open>The \<open>k\<close>-th number, counted from 0, that an endpoint assigns from its present counter on.\<close>

definition nth_sequence :: "'c mailmsg_endpoint \<Rightarrow> nat \<Rightarrow> u32" where
  "nth_sequence ep k =
     fst (mailmsg_endpoint_next_sequence (((snd \<circ> mailmsg_endpoint_next_sequence) ^^ k) ep))"

lemma nth_sequence_eq: "nth_sequence ep k = (next_seq ^^ Suc k) (ep_next_sequence ep)"
proof -
  have "((snd \<circ> mailmsg_endpoint_next_sequence) ^^ k) ep =
      ep\<lparr>ep_next_sequence := (next_seq ^^ k) (ep_next_sequence ep)\<rparr>"
    by (induction k) (simp_all add: next_sequence_eq)
  then show ?thesis by (simp add: nth_sequence_def next_sequence_eq)
qed

subsection \<open>Sending\<close>

text \<open>
  The three outcomes of \<open>send\<close> on a bound endpoint: refused arguments, a full ring, or
  a committed frame followed by a doorbell whose result never undoes the frame.
\<close>

lemma send_message_simps [simp]:
  "msg_generation (send_message g t s bs l) = g" "msg_type (send_message g t s bs l) = t"
  "msg_sequence (send_message g t s bs l) = s" "msg_length (send_message g t s bs l) = l"
  by (simp_all add: send_message_def)

lemma send_message_wf:
  "l \<le> 28 \<Longrightarrow> unat l \<le> length bs \<Longrightarrow> message_wf (send_message g t s bs l)"
  by (simp add: send_message_def message_wf_def zero_message_def word_le_nat_alt)

lemma send_message_valid: "g \<noteq> 0 \<Longrightarrow> s \<noteq> 0 \<Longrightarrow> l \<le> 28 \<Longrightarrow> frame_valid (send_message g t s bs l)"
  by (simp add: frame_valid_def)

lemma send_message_payload:
  "unat l \<le> length bs \<Longrightarrow> take (unat l) (msg_payload (send_message g t s bs l)) = take (unat l) bs"
  by (simp add: send_message_def)

definition sent_message :: "'c mailmsg_endpoint \<Rightarrow> u32 \<Rightarrow> u8 list \<Rightarrow> u32 \<Rightarrow> mailmsg_message" where
  "sent_message ep ty bs len =
     send_message (ep_generation ep) ty (next_seq (ep_next_sequence ep)) bs len"

definition init_result :: "mailmsg_send_result \<Rightarrow> mailmsg_send_result" where
  "init_result result = result\<lparr>queue_result := MAILMSG_RING_INVALID, notify_result := - 1,
     notify_attempted := 0, res_sequence := 0\<rparr>"

lemma send_session_error:
  assumes "ep_tx ep = Some tx" "ep_memory_ops ep = Some ops" "p < 4" "len \<le> 28"
    "len = 0 \<or> payload \<noteq> None" "mailmsg_endpoint_session_valid ep sh = e" "e \<noteq> 0"
  shows "mailmsg_endpoint_send ep sh ctx p ty payload len res = Some (e, ep, sh, ctx, init_result res)"
  using assms by (auto simp: mailmsg_endpoint_send_def init_result_def Let_def)

lemma send_full:
  assumes "ep_tx ep = Some tx" and "mailmsg_endpoint_session_valid ep sh = 0"
    and "shared_wf sh" and "p < 4" and "len \<le> 28"
    and "unat len \<le> length bs" and "ring_depth (shared_ring sh tx p) = 7"
  shows "mailmsg_endpoint_send ep sh ctx p ty (Some bs) len res =
    Some (MAILMSG_RING_FULL,
      upd_stats (\<lambda>s. s\<lparr>tx_full := tx_full s + 1\<rparr>) p (ep\<lparr>ep_next_sequence := next_seq (ep_next_sequence ep)\<rparr>),
      sh, ctx, (init_result res)\<lparr>queue_result := MAILMSG_RING_FULL\<rparr>)"
proof -
  obtain ops where ep: "ep_memory_ops ep = Some ops" "ep_generation ep \<noteq> 0"
    using session_valid_0D [OF assms(2)] by blast
  have "mailmsg_ring_push (shared_ring sh tx p) (sent_message ep ty bs len) =
      Some (MAILMSG_RING_FULL, shared_ring sh tx p)"
    using assms ep by (intro ring_push_full shared_ring_wf) (auto simp: sent_message_def send_message_valid)
  then show ?thesis
    using assms ep
    by (simp add: mailmsg_endpoint_send_def init_result_def sent_message_def next_sequence_eq Let_def)
qed

text \<open>The statistics of the sending endpoint after an accepted frame.\<close>

definition sent_stats :: "int \<Rightarrow> nat \<Rightarrow> mailmsg_priority_stats \<Rightarrow> mailmsg_priority_stats" where
  "sent_stats nr depth s =
     (let s = s\<lparr>tx_enqueued := tx_enqueued s + 1,
                tx_high_water := max (tx_high_water s) (of_nat depth)\<rparr>
      in if nr = MAILMSG_NOTIFY_SENT then s\<lparr>notify_sent := notify_sent s + 1\<rparr>
         else if nr = MAILMSG_NOTIFY_COALESCED then s\<lparr>notify_coalesced := notify_coalesced s + 1\<rparr>
         else s\<lparr>notify_failed := notify_failed s + 1\<rparr>)"

lemma upd_stats_upd_stats:
  "endpoint_wf ep \<Longrightarrow> p < 4 \<Longrightarrow> upd_stats f p (upd_stats g p ep) = upd_stats (f \<circ> g) p ep"
  by (simp add: upd_stats_def endpoint_wf_def)

lemma send_ok:
  assumes "ep_tx ep = Some tx" and "mailmsg_endpoint_session_valid ep sh = 0"
    and "shared_wf sh" and "endpoint_wf ep" and "p < 4" and "len \<le> 28"
    and "unat len \<le> length bs" and "ring_depth (shared_ring sh tx p) < 7"
    and "mailmsg_notify (ep_notify ep) ctx p = (nr, ctx')"
  shows "mailmsg_endpoint_send ep sh ctx p ty (Some bs) len res =
    Some (MAILMSG_ENDPOINT_OK,
      upd_stats (sent_stats nr (Suc (ring_depth (shared_ring sh tx p)))) p
        (ep\<lparr>ep_next_sequence := next_seq (ep_next_sequence ep)\<rparr>),
      set_shared_ring sh tx p (ring_after_push (shared_ring sh tx p) (sent_message ep ty bs len)),
      ctx',
      res\<lparr>queue_result := 0, notify_result := nr, notify_attempted := 1,
          res_sequence := next_seq (ep_next_sequence ep)\<rparr>)"
proof -
  let ?r = "shared_ring sh tx p" and ?m = "sent_message ep ty bs len"
  let ?r' = "ring_after_push ?r ?m"
  obtain ops where ep: "ep_memory_ops ep = Some ops" "ops_acquire ops" "ep_generation ep \<noteq> 0"
    using session_valid_0D [OF assms(2)] by blast
  have r: "ring_wf ?r" using assms by (simp add: shared_ring_wf)
  have push: "mailmsg_ring_push ?r ?m = Some (0, ?r')"
    using assms ep r by (intro ring_push_ok) (auto simp: sent_message_def send_message_valid)
  have r': "ring_wf ?r'"
    using assms r by (intro ring_wf_after_push) (auto simp: sent_message_def send_message_wf)
  have depth: "ring_depth ?r' = Suc (ring_depth ?r)"
    using r assms(8) by (rule ring_depth_after_push)
  have hw: "(word_of_int (1 + int (ring_depth ?r)) :: u32) = of_nat (Suc (ring_depth ?r))"
    by simp
  have stats: "(\<lambda>s. if nr = 0 then s\<lparr>notify_sent := notify_sent s + 1\<rparr>
        else if nr = 1 then s\<lparr>notify_coalesced := notify_coalesced s + 1\<rparr>
        else s\<lparr>notify_failed := notify_failed s + 1\<rparr>) \<circ>
      (\<lambda>s. if tx_high_water s < word_of_int (1 + int (ring_depth ?r))
           then s\<lparr>tx_high_water := word_of_int (1 + int (ring_depth ?r))\<rparr> else s) \<circ>
      (\<lambda>s. s\<lparr>tx_enqueued := tx_enqueued s + 1\<rparr>) = sent_stats nr (Suc (ring_depth ?r))"
    unfolding hw by (auto simp: fun_eq_iff sent_stats_def max_def Let_def)
  have wf1: "endpoint_wf (ep\<lparr>ep_next_sequence := n\<rparr>)" for n
    using assms(4) by (simp add: endpoint_wf_def)
  have count: "mailmsg_ring_count (Some ?r') (Some ops) = 1 + int (ring_depth ?r)"
    using ring_count_depth [OF r' ep(2)] depth by simp
  show ?thesis
    using assms ep push count wf1 stats
    by (simp add: mailmsg_endpoint_send_def sent_message_def next_sequence_eq Let_def
        shared_ring_set upd_stats_upd_stats o_assoc cong: if_cong)
qed

lemma send_null_payload:
  "mailmsg_endpoint_send ep sh ctx p ty None 0 res = mailmsg_endpoint_send ep sh ctx p ty (Some []) 0 res"
  by (simp add: mailmsg_endpoint_send_def Let_def cong: if_cong)

text \<open>
  Whatever the state of the endpoint, \<open>send\<close> on well-formed memory returns, and a
  non-zero result leaves the shared memory and the notification context alone.
\<close>

lemma send_cases:
  assumes "shared_wf sh" and "endpoint_wf ep" and "unat len \<le> length bs"
  obtains (error) c res' where
      "mailmsg_endpoint_send ep sh ctx p ty (Some bs) len res = Some (c, ep, sh, ctx, res')"
      "c \<in> {MAILMSG_ENDPOINT_INVALID, MAILMSG_ENDPOINT_PROTOCOL_MISMATCH, MAILMSG_ENDPOINT_STALE_SESSION}"
  | (full) tx rx ep' res' where "ep_tx ep = Some tx" "p < 4" "ring_depth (shared_ring sh tx p) = 7"
      "mailmsg_endpoint_send ep sh ctx p ty (Some bs) len res = Some (MAILMSG_RING_FULL, ep', sh, ctx, res')"
      "ep' = upd_stats (\<lambda>s. s\<lparr>tx_full := tx_full s + 1\<rparr>) p (ep\<lparr>ep_next_sequence := next_seq (ep_next_sequence ep)\<rparr>)"
  | (ok) tx ops nr ctx' where "ep_tx ep = Some tx" "p < 4" "len \<le> 28"
      "ring_depth (shared_ring sh tx p) < 7" "mailmsg_endpoint_session_valid ep sh = 0"
      "mailmsg_notify (ep_notify ep) ctx p = (nr, ctx')"
      "mailmsg_endpoint_send ep sh ctx p ty (Some bs) len res =
        Some (MAILMSG_ENDPOINT_OK,
          upd_stats (sent_stats nr (Suc (ring_depth (shared_ring sh tx p)))) p
            (ep\<lparr>ep_next_sequence := next_seq (ep_next_sequence ep)\<rparr>),
          set_shared_ring sh tx p (ring_after_push (shared_ring sh tx p) (sent_message ep ty bs len)),
          ctx',
          res\<lparr>queue_result := 0, notify_result := nr, notify_attempted := 1,
              res_sequence := next_seq (ep_next_sequence ep)\<rparr>)"
proof (cases "ep_tx ep = None \<or> ep_memory_ops ep = None \<or> 4 \<le> p \<or> 28 < len")
  case True
  then have "mailmsg_endpoint_send ep sh ctx p ty (Some bs) len res = Some (- 100, ep, sh, ctx, res)"
    by (auto simp: mailmsg_endpoint_send_def)
  with error show ?thesis by blast
next
  case False
  then obtain tx ops where ep: "ep_tx ep = Some tx" "ep_memory_ops ep = Some ops" and p: "p < 4" "len \<le> 28"
    by (auto simp: not_le not_less)
  show ?thesis
  proof (cases "mailmsg_endpoint_session_valid ep sh = 0")
    case invalid: False
    then have "mailmsg_endpoint_session_valid ep sh \<in> {- 100, - 101, - 102}"
      by (auto simp: mailmsg_endpoint_session_valid_def split: if_splits)
    with error send_session_error [OF ep p] invalid show ?thesis by blast
  next
    case valid: True
    show ?thesis
    proof (cases "ring_depth (shared_ring sh tx p) = 7")
      case True
      show ?thesis
        by (rule full [OF ep(1) p(1) True send_full [OF ep(1) valid assms(1) p assms(3) True] refl])
    next
      case False
      then have room: "ring_depth (shared_ring sh tx p) < 7" using ring_depth_lt_or_full by blast
      obtain nr ctx' where nt: "mailmsg_notify (ep_notify ep) ctx p = (nr, ctx')" by fastforce
      show ?thesis
        by (rule ok [OF ep(1) p room valid nt send_ok [OF ep(1) valid assms(1,2) p assms(3) room nt]])
    qed
  qed
qed

lemma send_shape:
  assumes "shared_wf sh" and "endpoint_wf ep" and "unat len \<le> length bs"
    and "mailmsg_endpoint_send ep sh ctx p ty (Some bs) len res = Some (c, ep', sh', ctx', res')"
  shows "c \<noteq> 0 \<and> sh' = sh \<and> ctx' = ctx \<or>
    c = 0 \<and> p < 4 \<and> len \<le> 28 \<and> (\<exists>tx. ep_tx ep = Some tx \<and> ring_depth (shared_ring sh tx p) < 7 \<and>
      sh' = set_shared_ring sh tx p (ring_after_push (shared_ring sh tx p) (sent_message ep ty bs len)))"
  using assms by (cases rule: send_cases [OF assms(1-3), of ctx p ty res]) auto

text \<open>Frame conditions of \<open>send\<close>, in the form the clients use them.\<close>

lemma send_frame:
  assumes "shared_wf sh" and "endpoint_wf ep" and "unat len \<le> length bs"
    and "mailmsg_endpoint_send ep sh ctx p ty (Some bs) len res = Some (c, ep', sh', ctx', res')"
  shows "shared_wf sh'" "endpoint_wf ep'" "ep_tx ep' = ep_tx ep" "ep_rx ep' = ep_rx ep"
    "ep_generation ep' = ep_generation ep" "ep_memory_ops ep' = ep_memory_ops ep"
    "ep_notify ep' = ep_notify ep" "ep_shared ep' = ep_shared ep"
    "shm_generation sh' = shm_generation sh" "shm_magic sh' = shm_magic sh"
    "shm_version sh' = shm_version sh"
    "c \<noteq> 0 \<Longrightarrow> sh' = sh \<and> ctx' = ctx"
    "q < 4 \<Longrightarrow> Some a \<noteq> ep_tx ep \<or> q \<noteq> p \<Longrightarrow> shared_ring sh' a q = shared_ring sh a q"
proof -
  have "shared_wf (set_shared_ring sh tx p (ring_after_push (shared_ring sh tx p) (sent_message ep ty bs len)))"
    if "p < 4" "len \<le> 28" for tx
    using assms that
    by (intro shared_wf_set ring_wf_after_push shared_ring_wf) (auto simp: sent_message_def send_message_wf)
  then show "shared_wf sh'" "endpoint_wf ep'" "ep_tx ep' = ep_tx ep" "ep_rx ep' = ep_rx ep"
    "ep_generation ep' = ep_generation ep" "ep_memory_ops ep' = ep_memory_ops ep"
    "ep_notify ep' = ep_notify ep" "ep_shared ep' = ep_shared ep"
    "shm_generation sh' = shm_generation sh" "shm_magic sh' = shm_magic sh"
    "shm_version sh' = shm_version sh"
    "c \<noteq> 0 \<Longrightarrow> sh' = sh \<and> ctx' = ctx"
    "q < 4 \<Longrightarrow> Some a \<noteq> ep_tx ep \<or> q \<noteq> p \<Longrightarrow> shared_ring sh' a q = shared_ring sh a q"
    using assms by ((cases rule: send_cases [OF assms(1-3), of ctx p ty res];
      force simp: shared_ring_set)+)
qed

subsection \<open>Receiving\<close>

definition received_stats :: "int \<Rightarrow> mailmsg_priority_stats \<Rightarrow> mailmsg_priority_stats" where
  "received_stats ret s =
     (if ret = 0 then s\<lparr>rx_ok := rx_ok s + 1\<rparr>
      else if ret = MAILMSG_RING_INCOMPLETE then s\<lparr>rx_incomplete := rx_incomplete s + 1\<rparr>
      else if ret = MAILMSG_RING_BAD_CRC then s\<lparr>rx_bad_crc := rx_bad_crc s + 1\<rparr>
      else if ret = MAILMSG_RING_INVALID then s\<lparr>rx_invalid := rx_invalid s + 1\<rparr>
      else if ret = MAILMSG_ENDPOINT_STALE_FRAME then s\<lparr>rx_stale := rx_stale s + 1\<rparr>
      else s)"

text \<open>The result of receiving frame \<open>f\<close> in session \<open>g\<close>.\<close>

definition receive_status :: "u32 \<Rightarrow> mailmsg_message \<Rightarrow> int" where
  "receive_status g f =
     (if frame_status f = 0 \<and> msg_generation f \<noteq> g then MAILMSG_ENDPOINT_STALE_FRAME
      else frame_status f)"

lemma received_stats_abs:
  "received_stats ret = (\<lambda>s.
     if ret = 0 then s\<lparr>rx_ok := rx_ok s + 1\<rparr>
     else if ret = MAILMSG_RING_INCOMPLETE then s\<lparr>rx_incomplete := rx_incomplete s + 1\<rparr>
     else if ret = MAILMSG_RING_BAD_CRC then s\<lparr>rx_bad_crc := rx_bad_crc s + 1\<rparr>
     else if ret = MAILMSG_RING_INVALID then s\<lparr>rx_invalid := rx_invalid s + 1\<rparr>
     else if ret = MAILMSG_ENDPOINT_STALE_FRAME then s\<lparr>rx_stale := rx_stale s + 1\<rparr>
     else s)"
  by (simp add: fun_eq_iff received_stats_def)

lemma upd_stats_same: "f = (\<lambda>s. s) \<Longrightarrow> upd_stats f p ep = ep"
  by (simp add: upd_stats_def)

lemma receive_empty:
  assumes "ep_rx ep = Some rx" and "mailmsg_endpoint_session_valid ep sh = 0" and "shared_wf sh" and "p < 4"
    and "ring_frames (shared_ring sh rx p) = []"
  shows "mailmsg_endpoint_receive ep sh p m = Some (MAILMSG_RING_EMPTY, ep, sh, m)"
  using assms session_valid_0D [OF assms(2)]
  by (auto simp: mailmsg_endpoint_receive_def ring_pop_empty shared_ring_wf upd_stats_same)

lemma receive_frame:
  assumes "ep_rx ep = Some rx" and "mailmsg_endpoint_session_valid ep sh = 0" and "shared_wf sh" and "p < 4"
    and "endpoint_wf ep" and "ring_frames (shared_ring sh rx p) = f # fs"
    and "frame_status f \<noteq> MAILMSG_RING_INCOMPLETE"
  shows "mailmsg_endpoint_receive ep sh p m =
    Some (receive_status (ep_generation ep) f,
          upd_stats (received_stats (receive_status (ep_generation ep) f)) p ep,
          set_shared_ring sh rx p (ring_after_pop (shared_ring sh rx p)), f)"
proof -
  obtain ops where ops: "ep_memory_ops ep = Some ops" using session_valid_0D [OF assms(2)] by blast
  have pop: "mailmsg_ring_pop (shared_ring sh rx p) m =
      Some (frame_status f, ring_after_pop (shared_ring sh rx p), f)"
    using assms by (simp add: ring_pop_Cons shared_ring_wf)
  have st: "frame_status f \<noteq> MAILMSG_ENDPOINT_STALE_FRAME" by (simp add: frame_status_def)
  show ?thesis
    using assms ops pop st
    by (auto simp: mailmsg_endpoint_receive_def receive_status_def received_stats_abs Let_def
        upd_stats_upd_stats o_def cong: if_cong)
qed

lemma receive_incomplete:
  assumes "ep_rx ep = Some rx" and "mailmsg_endpoint_session_valid ep sh = 0" and "shared_wf sh" and "p < 4"
    and "ring_frames (shared_ring sh rx p) = f # fs" and "frame_status f = MAILMSG_RING_INCOMPLETE"
  shows "mailmsg_endpoint_receive ep sh p m =
    Some (MAILMSG_RING_INCOMPLETE, upd_stats (received_stats MAILMSG_RING_INCOMPLETE) p ep, sh, m)"
  using assms session_valid_0D [OF assms(2)]
  by (auto simp: mailmsg_endpoint_receive_def ring_pop_Cons shared_ring_wf received_stats_abs Let_def)

lemma receive_cases:
  assumes "shared_wf sh" and "endpoint_wf ep"
  obtains (error) c where "mailmsg_endpoint_receive ep sh p m = Some (c, ep, sh, m)"
      "c \<in> {MAILMSG_ENDPOINT_INVALID, MAILMSG_ENDPOINT_PROTOCOL_MISMATCH, MAILMSG_ENDPOINT_STALE_SESSION}"
  | (empty) rx where "ep_rx ep = Some rx" "p < 4" "mailmsg_endpoint_session_valid ep sh = 0"
      "ring_frames (shared_ring sh rx p) = []"
      "mailmsg_endpoint_receive ep sh p m = Some (MAILMSG_RING_EMPTY, ep, sh, m)"
  | (incomplete) rx f fs where "ep_rx ep = Some rx" "p < 4" "mailmsg_endpoint_session_valid ep sh = 0"
      "ring_frames (shared_ring sh rx p) = f # fs" "frame_status f = MAILMSG_RING_INCOMPLETE"
      "mailmsg_endpoint_receive ep sh p m =
        Some (MAILMSG_RING_INCOMPLETE, upd_stats (received_stats MAILMSG_RING_INCOMPLETE) p ep, sh, m)"
  | (frame) rx f fs where "ep_rx ep = Some rx" "p < 4" "mailmsg_endpoint_session_valid ep sh = 0"
      "ring_frames (shared_ring sh rx p) = f # fs" "frame_status f \<noteq> MAILMSG_RING_INCOMPLETE"
      "mailmsg_endpoint_receive ep sh p m =
        Some (receive_status (ep_generation ep) f,
          upd_stats (received_stats (receive_status (ep_generation ep) f)) p ep,
          set_shared_ring sh rx p (ring_after_pop (shared_ring sh rx p)), f)"
proof (cases "ep_rx ep = None \<or> ep_memory_ops ep = None \<or> 4 \<le> p")
  case True
  then have "mailmsg_endpoint_receive ep sh p m = Some (- 100, ep, sh, m)"
    by (auto simp: mailmsg_endpoint_receive_def)
  with error show ?thesis by blast
next
  case False
  then obtain rx ops where ep: "ep_rx ep = Some rx" "ep_memory_ops ep = Some ops" and p: "p < 4"
    by (auto simp: not_le)
  show ?thesis
  proof (cases "mailmsg_endpoint_session_valid ep sh = 0")
    case invalid: False
    then have "mailmsg_endpoint_session_valid ep sh \<in> {- 100, - 101, - 102}"
      by (auto simp: mailmsg_endpoint_session_valid_def split: if_splits)
    with error ep p invalid show ?thesis by (simp add: mailmsg_endpoint_receive_def)
  next
    case valid: True
    show ?thesis
    proof (cases "ring_frames (shared_ring sh rx p)")
      case Nil
      show ?thesis by (rule empty [OF ep(1) p valid Nil receive_empty [OF ep(1) valid assms(1) p Nil]])
    next
      case (Cons f fs)
      show ?thesis
        using incomplete [OF ep(1) p valid Cons _ receive_incomplete [OF ep(1) valid assms(1) p Cons]]
          frame [OF ep(1) p valid Cons _ receive_frame [OF ep(1) valid assms(1) p assms(2) Cons]]
        by blast
    qed
  qed
qed

lemma receive_shape:
  assumes "shared_wf sh" and "endpoint_wf ep"
    and "mailmsg_endpoint_receive ep sh p m = Some (c, ep', sh', m')"
  shows "(\<exists>g. ep' = upd_stats g p ep) \<and>
    (sh' = sh \<or> p < 4 \<and> (\<exists>rx. ep_rx ep = Some rx \<and>
       sh' = set_shared_ring sh rx p (ring_after_pop (shared_ring sh rx p))))"
proof -
  have "\<exists>g. ep = upd_stats g p ep" using upd_stats_same [of "\<lambda>s. s" p ep, OF refl] by metis
  with assms show ?thesis by (cases rule: receive_cases [OF assms(1,2), of p m]) auto
qed

lemma receive_keeps:
  assumes "shared_wf sh" and "endpoint_wf ep"
    and "mailmsg_endpoint_receive ep sh p m = Some (c, ep', sh', m')"
  shows "shared_wf sh'" "endpoint_wf ep'" "ep_tx ep' = ep_tx ep" "ep_rx ep' = ep_rx ep"
    "ep_generation ep' = ep_generation ep" "ep_memory_ops ep' = ep_memory_ops ep"
    "ep_notify ep' = ep_notify ep" "ep_shared ep' = ep_shared ep"
    "ep_next_sequence ep' = ep_next_sequence ep"
    "shm_generation sh' = shm_generation sh" "shm_magic sh' = shm_magic sh"
    "shm_version sh' = shm_version sh"
    "q < 4 \<Longrightarrow> Some a \<noteq> ep_rx ep \<or> q \<noteq> p \<Longrightarrow> shared_ring sh' a q = shared_ring sh a q"
proof -
  have "shared_wf (set_shared_ring sh rx p (ring_after_pop (shared_ring sh rx p)))" if "p < 4" for rx
    using assms that by (intro shared_wf_set ring_wf_after_pop shared_ring_wf)
  with receive_shape [OF assms] assms(1) show "shared_wf sh'" by blast
  from receive_shape [OF assms] assms(2)
  show "endpoint_wf ep'" "ep_tx ep' = ep_tx ep" "ep_rx ep' = ep_rx ep"
    "ep_generation ep' = ep_generation ep" "ep_memory_ops ep' = ep_memory_ops ep"
    "ep_notify ep' = ep_notify ep" "ep_shared ep' = ep_shared ep"
    "ep_next_sequence ep' = ep_next_sequence ep"
    "shm_generation sh' = shm_generation sh" "shm_magic sh' = shm_magic sh"
    "shm_version sh' = shm_version sh"
    by auto
  from receive_shape [OF assms] assms(1)
  show "q < 4 \<Longrightarrow> Some a \<noteq> ep_rx ep \<or> q \<noteq> p \<Longrightarrow> shared_ring sh' a q = shared_ring sh a q"
    by (auto simp: shared_ring_set)
qed

lemma receive_status_le: "receive_status g f \<noteq> MAILMSG_RING_EMPTY" "receive_status g f \<noteq> MAILMSG_RING_FULL"
  by (auto simp: receive_status_def frame_status_def)

text \<open>Each consumed frame makes the receive ring one shorter.\<close>

lemma receive_depth:
  assumes "shared_wf sh" "p < 4" "ring_frames (shared_ring sh rx p) = f # fs"
  shows "ring_frames (shared_ring (set_shared_ring sh rx p (ring_after_pop (shared_ring sh rx p))) rx p) = fs"
  using assms by (simp add: shared_ring_set ring_frames_Cons(1) shared_ring_wf)

subsection \<open>Binding\<close>

lemma upt_0_4 [simp]: "[0..<4::nat] = [0, 1, 2, 3]" by (simp add: upt_rec)

lemma reset_stats_eq:
  assumes "endpoint_wf ep"
  shows "mailmsg_endpoint_reset_stats ep = ep\<lparr>ep_stats := replicate 4 zero_stats\<rparr>"
proof -
  from assms obtain a b c d where "ep_stats ep = [a, b, c, d]"
    by (auto simp: endpoint_wf_def numeral_eq_Suc length_Suc_conv)
  then show ?thesis
    by (simp add: mailmsg_endpoint_reset_stats_def upd_stats_def) (simp add: eval_nat_numeral)
qed

definition session_announced :: "mailmsg_shared \<Rightarrow> bool" where
  "session_announced sh \<longleftrightarrow> shm_magic sh = MAILMSG_PROTOCOL_MAGIC \<and>
     shm_version sh = MAILMSG_PROTOCOL_VERSION \<and> shm_generation sh \<noteq> 0"

definition backend :: "('c \<Rightarrow> u32 \<Rightarrow> int \<times> 'c) \<Rightarrow> 'c mailmsg_notify_endpoint" where
  "backend nf = \<lparr>ne_ops = Some \<lparr>nops_notify = Some nf, nops_enable_rx = None\<rparr>\<rparr>"

abbreviation both_hooks :: mailmsg_memory_ops where
  "both_hooks \<equiv> \<lparr>ops_publish = True, ops_acquire = True\<rparr>"

fun role_tx :: "mailmsg_endpoint_role \<Rightarrow> ring_array" where
  "role_tx MAILMSG_ENDPOINT_LINUX = Linux_to_cpu3"
| "role_tx MAILMSG_ENDPOINT_CPU3 = Cpu3_to_linux"

fun role_rx :: "mailmsg_endpoint_role \<Rightarrow> ring_array" where
  "role_rx MAILMSG_ENDPOINT_LINUX = Cpu3_to_linux"
| "role_rx MAILMSG_ENDPOINT_CPU3 = Linux_to_cpu3"

lemma bind_ok:
  assumes "endpoint_wf ep" and "session_announced sh"
  shows "mailmsg_endpoint_bind ep (Some sh) (Some both_hooks) (Some (backend nf)) (Some role) =
    (MAILMSG_ENDPOINT_OK,
     ep\<lparr>ep_shared := True, ep_tx := Some (role_tx role), ep_rx := Some (role_rx role),
        ep_memory_ops := Some both_hooks, ep_notify := Some (backend nf), ep_next_sequence := 0,
        ep_generation := shm_generation sh, ep_stats := replicate 4 zero_stats\<rparr>)"
proof -
  have "endpoint_wf (ep\<lparr>ep_shared := True, ep_memory_ops := Some both_hooks, ep_notify := Some (backend nf),
      ep_next_sequence := 0, ep_generation := shm_generation sh\<rparr>)"
    using assms(1) by (simp add: endpoint_wf_def)
  from reset_stats_eq [OF this] show ?thesis
    using assms by (cases role) (simp_all add: mailmsg_endpoint_bind_def session_announced_def backend_def)
qed

lemma bind_error:
  "mailmsg_endpoint_bind ep sh ops ne role = (c, ep') \<Longrightarrow> c \<noteq> 0 \<Longrightarrow> ep' = ep"
  by (auto simp: mailmsg_endpoint_bind_def Let_def split: option.splits if_splits prod.splits)

lemma bind_bound:
  assumes "endpoint_wf ep" and "session_announced sh"
    and "mailmsg_endpoint_bind ep (Some sh) (Some both_hooks) (Some (backend nf)) (Some role) = (c, ep')"
  shows "c = 0" "endpoint_bound ep' sh (role_tx role) (role_rx role)" "endpoint_wf ep'"
    "ep_next_sequence ep' = 0" "ep_generation ep' = shm_generation sh" "ep_notify ep' = Some (backend nf)"
  using assms(3) assms(2) unfolding bind_ok [OF assms(1,2)]
  by (auto simp: endpoint_bound_def mailmsg_endpoint_session_valid_def session_announced_def endpoint_wf_def)

subsection \<open>Statistics\<close>

text \<open>
  Every accepted frame rang exactly one doorbell, whatever became of it, and the
  high-water mark is within the capacity of a ring.
\<close>

definition stats_ok :: "mailmsg_priority_stats \<Rightarrow> bool" where
  "stats_ok s \<longleftrightarrow> tx_enqueued s = notify_sent s + notify_coalesced s + notify_failed s \<and>
     tx_high_water s \<le> 7"

definition endpoint_stats_ok :: "'c mailmsg_endpoint \<Rightarrow> bool" where
  "endpoint_stats_ok ep \<longleftrightarrow> endpoint_wf ep \<and> (\<forall>s \<in> set (ep_stats ep). stats_ok s)"

lemma stats_ok_zero [simp]: "stats_ok zero_stats"
  by (simp add: stats_ok_def zero_stats_def)

lemma stats_ok_sent:
  assumes "stats_ok s" and "d \<le> 7"
  shows "stats_ok (sent_stats nr d s)"
proof -
  have "(of_nat d :: u32) \<le> 7"
    using assms(2) by (simp add: word_le_nat_alt unat_of_nat)
  with assms(1) show ?thesis by (simp add: stats_ok_def sent_stats_def Let_def)
qed

lemma stats_ok_received: "stats_ok s \<Longrightarrow> stats_ok (received_stats r s)"
  by (simp only: received_stats_def split: if_split) (simp add: stats_ok_def)

lemma endpoint_stats_ok_upd:
  assumes "endpoint_stats_ok ep" and "p < 4" and "\<And>s. stats_ok s \<Longrightarrow> stats_ok (f s)"
  shows "endpoint_stats_ok (upd_stats f p ep)"
proof -
  have "unat p < length (ep_stats ep)" using assms(1,2) by (simp add: endpoint_stats_ok_def endpoint_wf_def)
  then have f: "stats_ok (f (ep_stats ep ! unat p))"
    using assms(1,3) by (simp add: endpoint_stats_ok_def)
  have "stats_ok s" if "s \<in> set ((ep_stats ep)[unat p := f (ep_stats ep ! unat p)])" for s
    using set_update_subset_insert that f assms(1) unfolding endpoint_stats_ok_def by fastforce
  then show ?thesis
    using assms(1) by (simp add: endpoint_stats_ok_def endpoint_wf_def upd_stats_def)
qed

lemma endpoint_stats_ok_seq [simp]:
  "endpoint_stats_ok (ep\<lparr>ep_next_sequence := n\<rparr>) = endpoint_stats_ok ep"
  by (simp add: endpoint_stats_ok_def)

lemma send_stats_ok:
  assumes "endpoint_stats_ok ep" and "shared_wf sh" and "unat len \<le> length bs"
    and "mailmsg_endpoint_send ep sh ctx p ty (Some bs) len res = Some (c, ep', sh', ctx', res')"
  shows "endpoint_stats_ok ep'"
proof -
  from assms(1) have wf: "endpoint_wf ep" by (simp add: endpoint_stats_ok_def)
  have tx_full: "stats_ok (s\<lparr>tx_full := n\<rparr>)" if "stats_ok s" for s n
    using that by (simp add: stats_ok_def)
  show ?thesis
    using assms by (cases rule: send_cases [OF assms(2) wf assms(3), of ctx p ty res])
      (auto intro!: endpoint_stats_ok_upd tx_full stats_ok_sent)
qed

lemma receive_stats_ok:
  assumes "endpoint_stats_ok ep" and "shared_wf sh"
    and "mailmsg_endpoint_receive ep sh p m = Some (c, ep', sh', m')"
  shows "endpoint_stats_ok ep'"
proof -
  from assms(1) have wf: "endpoint_wf ep" by (simp add: endpoint_stats_ok_def)
  show ?thesis
    using assms by (cases rule: receive_cases [OF assms(2) wf, of p m])
      (auto intro!: endpoint_stats_ok_upd stats_ok_received)
qed

subsection \<open>A fresh session\<close>

text \<open>The shared region as \<open>start\<close> initialises it for session \<open>g\<close>.\<close>

definition fresh_shared :: "u32 \<Rightarrow> mailmsg_shared" where
  "fresh_shared g = \<lparr>shm_magic = MAILMSG_PROTOCOL_MAGIC, shm_version = MAILMSG_PROTOCOL_VERSION,
     shm_generation = g, linux_to_cpu3 = replicate 4 empty_ring, cpu3_to_linux = replicate 4 empty_ring\<rparr>"

lemma fresh_shared_wf [simp]: "shared_wf (fresh_shared g)"
  by (simp add: shared_wf_def fresh_shared_def)

lemma fresh_shared_ring [simp]: "p < 4 \<Longrightarrow> shared_ring (fresh_shared g) a p = empty_ring"
  by (cases a) (simp_all add: shared_ring_def fresh_shared_def)

lemma fresh_shared_announced [simp]: "session_announced (fresh_shared g) \<longleftrightarrow> g \<noteq> 0"
  by (simp add: session_announced_def fresh_shared_def)

lemma fresh_shared_generation [simp]: "shm_generation (fresh_shared g) = g"
  by (simp add: fresh_shared_def)

lemma zero_endpoint_wf [simp]: "endpoint_wf zero_endpoint"
  by (simp add: endpoint_wf_def zero_endpoint_def)

text \<open>The endpoint that \<open>bind\<close> makes of a zeroed one.\<close>

definition bound_endpoint ::
  "mailmsg_endpoint_role \<Rightarrow> u32 \<Rightarrow> ('c \<Rightarrow> u32 \<Rightarrow> int \<times> 'c) \<Rightarrow> 'c mailmsg_endpoint" where
  "bound_endpoint role g nf =
     snd (mailmsg_endpoint_bind zero_endpoint (Some (fresh_shared g)) (Some both_hooks)
            (Some (backend nf)) (Some role))"

lemma bound_endpoint_bound:
  "g \<noteq> 0 \<Longrightarrow> endpoint_bound (bound_endpoint role g nf) (fresh_shared g) (role_tx role) (role_rx role)"
  unfolding bound_endpoint_def
  by (rule bind_bound(2) [OF zero_endpoint_wf _ prod.collapse [symmetric]]) simp

lemma bound_endpoint_wf: "g \<noteq> 0 \<Longrightarrow> endpoint_wf (bound_endpoint role g nf)"
  unfolding bound_endpoint_def
  by (rule bind_bound(3) [OF zero_endpoint_wf _ prod.collapse [symmetric]]) simp

subsection \<open>Properties of the endpoint\<close>

text \<open>Claim C15.
  A frame that one endpoint sends on priority \<open>p\<close> into an empty ring is delivered by
  the next receive of the other endpoint with its type, length and payload bytes, the
  sequence number that \<open>send\<close> reported and the generation of the session; the ring is
  empty again and the result of the doorbell does not matter.
\<close>

theorem send_receive_roundtrip:
  assumes "endpoint_bound tx_ep sh a b" and "endpoint_bound rx_ep sh b a" and "shared_wf sh"
    and "endpoint_wf tx_ep" and "endpoint_wf rx_ep" and "p < 4" and "len \<le> 28" and "unat len \<le> length bs"
    and "ring_frames (shared_ring sh a p) = []"
  shows "\<exists>tx_ep' sh' ctx' res' rx_ep' sh'' m.
    mailmsg_endpoint_send tx_ep sh ctx p ty (Some bs) len res =
      Some (MAILMSG_ENDPOINT_OK, tx_ep', sh', ctx', res') \<and>
    mailmsg_endpoint_receive rx_ep sh' p buf = Some (MAILMSG_ENDPOINT_OK, rx_ep', sh'', m) \<and>
    msg_type m = ty \<and> msg_length m = len \<and> take (unat len) (msg_payload m) = take (unat len) bs \<and>
    msg_sequence m = res_sequence res' \<and> res_sequence res' \<noteq> 0 \<and>
    msg_generation m = shm_generation sh \<and> ring_frames (shared_ring sh'' a p) = []"
proof -
  from assms(1,2) have tx: "ep_tx tx_ep = Some a" "mailmsg_endpoint_session_valid tx_ep sh = 0"
    and rx: "ep_rx rx_ep = Some a" "mailmsg_endpoint_session_valid rx_ep sh = 0"
    by (simp_all add: endpoint_bound_def)
  note gen = session_valid_0D(1,2) [OF tx(2)] session_valid_0D(1,2) [OF rx(2)]
  let ?r = "shared_ring sh a p" and ?m = "sent_message tx_ep ty bs len"
  have wf: "ring_wf ?r" using assms by (simp add: shared_ring_wf)
  have depth: "ring_depth ?r < 7" using assms(9) length_ring_frames [of ?r] by simp
  obtain nr ctx' where nt: "mailmsg_notify (ep_notify tx_ep) ctx p = (nr, ctx')" by fastforce
  define sh' where "sh' = set_shared_ring sh a p (ring_after_push ?r ?m)"
  note send = send_ok [OF tx assms(3,4,6,7,8) depth nt, of ty res, folded sh'_def]
  have valid: "frame_valid ?m" and mwf: "message_wf ?m"
    using assms gen by (simp_all add: sent_message_def send_message_valid send_message_wf)
  have wf': "shared_wf sh'"
    unfolding sh'_def using assms(3) wf mwf by (intro shared_wf_set ring_wf_after_push)
  have frames: "ring_frames (shared_ring sh' a p) = [seal ?m]"
    using assms wf depth by (simp add: sh'_def shared_ring_set ring_frames_after_push)
  have status: "frame_status (seal ?m) = 0" using valid by (rule frame_status_seal)
  have "receive_status (ep_generation rx_ep) (seal ?m) = 0"
    using gen status by (simp add: receive_status_def sent_message_def)
  with receive_frame [OF rx(1) _ wf' assms(6,5) frames, of buf] rx(2) status
  have recv: "mailmsg_endpoint_receive rx_ep sh' p buf =
      Some (0, upd_stats (received_stats 0) p rx_ep,
            set_shared_ring sh' a p (ring_after_pop (shared_ring sh' a p)), seal ?m)"
    by (simp add: sh'_def)
  show ?thesis
    using send recv gen assms receive_depth [OF wf' assms(6) frames]
    by (auto simp: sent_message_def send_message_payload)
qed

text \<open>Claim C16.
  Whatever the shared memory holds, a frame that \<open>receive\<close> hands out with result 0
  carries the generation of the receiving endpoint's session, which is also the one
  the shared header announces, and passes every check of the ring: non-zero sequence,
  length of at most 28, matching commit word and matching CRC.
\<close>

theorem receive_delivers_only_current_frames:
  assumes "mailmsg_endpoint_receive ep sh p buf = Some (MAILMSG_ENDPOINT_OK, ep', sh', m)"
  shows "msg_generation m = ep_generation ep \<and> shm_generation sh = ep_generation ep \<and>
    msg_generation m \<noteq> 0 \<and> msg_sequence m \<noteq> 0 \<and> msg_length m \<le> MAILMSG_PAYLOAD_BYTES \<and>
    msg_commit m = msg_sequence m \<and> msg_crc32 m = mailmsg_frame_crc32 m"
proof -
  from assms have sv: "mailmsg_endpoint_session_valid ep sh = 0"
    by (auto simp: mailmsg_endpoint_receive_def Let_def split: if_splits)
  with assms have "msg_generation m = ep_generation ep \<and> msg_generation m \<noteq> 0 \<and> msg_sequence m \<noteq> 0 \<and>
    \<not> 28 < msg_length m \<and> msg_commit m = msg_sequence m \<and> msg_crc32 m = mailmsg_frame_crc32 m"
    by (auto simp: mailmsg_endpoint_receive_def mailmsg_ring_pop_def Let_def bind_eq_Some_conv
        split: if_splits)
  with session_valid_0D(2) [OF sv] show ?thesis by (auto simp: not_less)
qed

text \<open>The witnesses use a session 7 between two endpoints with silent doorbells.\<close>

abbreviation silent_bell :: "unit \<Rightarrow> u32 \<Rightarrow> int \<times> unit" where
  "silent_bell \<equiv> (\<lambda>c p. (MAILMSG_NOTIFY_SENT, c))"

theorem send_receive_roundtrip_witness:
  "\<exists>tx_ep' sh' ctx' res' rx_ep' sh'' m.
    mailmsg_endpoint_send (bound_endpoint MAILMSG_ENDPOINT_LINUX 7 silent_bell) (fresh_shared 7) () 1
      MAILMSG_MSG_PING (Some [41, 0, 0, 0]) 4 zero_result =
      Some (MAILMSG_ENDPOINT_OK, tx_ep', sh', ctx', res') \<and>
    mailmsg_endpoint_receive (bound_endpoint MAILMSG_ENDPOINT_CPU3 7 silent_bell) sh' 1 zero_message =
      Some (MAILMSG_ENDPOINT_OK, rx_ep', sh'', m) \<and>
    msg_type m = MAILMSG_MSG_PING \<and> msg_length m = 4 \<and>
    take (unat (4::u32)) (msg_payload m) = take (unat (4::u32)) [41, 0, 0, 0] \<and>
    msg_sequence m = res_sequence res' \<and> res_sequence res' \<noteq> 0 \<and>
    msg_generation m = shm_generation (fresh_shared 7) \<and>
    ring_frames (shared_ring sh'' Linux_to_cpu3 1) = []"
proof -
  have l: "endpoint_bound (bound_endpoint MAILMSG_ENDPOINT_LINUX 7 silent_bell) (fresh_shared 7)
      Linux_to_cpu3 Cpu3_to_linux"
    using bound_endpoint_bound [of 7 MAILMSG_ENDPOINT_LINUX silent_bell] by simp
  have c: "endpoint_bound (bound_endpoint MAILMSG_ENDPOINT_CPU3 7 silent_bell) (fresh_shared 7)
      Cpu3_to_linux Linux_to_cpu3"
    using bound_endpoint_bound [of 7 MAILMSG_ENDPOINT_CPU3 silent_bell] by simp
  show ?thesis
    by (rule send_receive_roundtrip [OF l c]) (simp_all add: bound_endpoint_wf)
qed

theorem receive_delivers_only_current_frames_witness:
  "\<exists>ep' sh' m.
    mailmsg_endpoint_receive (bound_endpoint MAILMSG_ENDPOINT_CPU3 7 silent_bell)
      (set_shared_ring (fresh_shared 7) Linux_to_cpu3 0
        (ring_after_push empty_ring (zero_message\<lparr>msg_generation := 7, msg_sequence := 9\<rparr>)))
      0 zero_message = Some (MAILMSG_ENDPOINT_OK, ep', sh', m) \<and>
    msg_generation m = ep_generation (bound_endpoint MAILMSG_ENDPOINT_CPU3 7 silent_bell)"
proof -
  let ?ep = "bound_endpoint MAILMSG_ENDPOINT_CPU3 7 silent_bell"
  let ?f = "zero_message\<lparr>msg_generation := 7, msg_sequence := 9\<rparr>"
  let ?sh = "set_shared_ring (fresh_shared 7) Linux_to_cpu3 0 (ring_after_push empty_ring ?f)"
  have b: "ep_rx ?ep = Some Linux_to_cpu3" "mailmsg_endpoint_session_valid ?ep (fresh_shared 7) = 0"
    using bound_endpoint_bound [of 7 MAILMSG_ENDPOINT_CPU3 silent_bell] by (simp_all add: endpoint_bound_def)
  have f: "frame_valid ?f" "message_wf ?f" by (simp_all add: frame_valid_def message_wf_def zero_message_def)
  have fr: "ring_frames (shared_ring ?sh Linux_to_cpu3 0) = [seal ?f]"
    by (simp add: shared_ring_set ring_frames_after_push)
  have g: "ep_generation ?ep = 7" using session_valid_0D(2) [OF b(2)] by simp
  have "mailmsg_endpoint_receive ?ep ?sh 0 zero_message =
      Some (receive_status 7 (seal ?f), upd_stats (received_stats (receive_status 7 (seal ?f))) 0 ?ep,
        set_shared_ring ?sh Linux_to_cpu3 0 (ring_after_pop (shared_ring ?sh Linux_to_cpu3 0)), seal ?f)"
    using receive_frame [OF b(1) _ _ _ _ fr, of zero_message] b f g frame_status_seal [OF f(1)]
    by (simp add: shared_wf_set ring_wf_after_push bound_endpoint_wf)
  moreover have "receive_status 7 (seal ?f) = 0"
    using frame_status_seal [OF f(1)] by (simp add: receive_status_def)
  ultimately have r: "mailmsg_endpoint_receive ?ep ?sh 0 zero_message =
      Some (0, upd_stats (received_stats 0) 0 ?ep,
        set_shared_ring ?sh Linux_to_cpu3 0 (ring_after_pop (shared_ring ?sh Linux_to_cpu3 0)), seal ?f)"
    by simp
  with receive_delivers_only_current_frames [OF r] show ?thesis by blast
qed

subsection \<open>A session of two endpoints\<close>

text \<open>
  Two endpoints on one shared region, each sending and receiving in any order; the
  notification contexts may change in any way between two operations.
\<close>

inductive mailmsg_session ::
  "u32 \<Rightarrow> ('c \<Rightarrow> u32 \<Rightarrow> int \<times> 'c) \<Rightarrow> ('d \<Rightarrow> u32 \<Rightarrow> int \<times> 'd) \<Rightarrow>
   'c mailmsg_endpoint \<Rightarrow> 'd mailmsg_endpoint \<Rightarrow> mailmsg_shared \<Rightarrow> bool" for g nl nc where
  bound: "g \<noteq> 0 \<Longrightarrow> mailmsg_session g nl nc (bound_endpoint MAILMSG_ENDPOINT_LINUX g nl)
      (bound_endpoint MAILMSG_ENDPOINT_CPU3 g nc) (fresh_shared g)"
| linux_send: "mailmsg_session g nl nc l c sh \<Longrightarrow> unat len \<le> length bs \<Longrightarrow>
    mailmsg_endpoint_send l sh ctx p ty (Some bs) len res = Some (r, l', sh', ctx', res') \<Longrightarrow>
    mailmsg_session g nl nc l' c sh'"
| cpu3_send: "mailmsg_session g nl nc l c sh \<Longrightarrow> unat len \<le> length bs \<Longrightarrow>
    mailmsg_endpoint_send c sh ctx p ty (Some bs) len res = Some (r, c', sh', ctx', res') \<Longrightarrow>
    mailmsg_session g nl nc l c' sh'"
| linux_receive: "mailmsg_session g nl nc l c sh \<Longrightarrow>
    mailmsg_endpoint_receive l sh p m = Some (r, l', sh', m') \<Longrightarrow> mailmsg_session g nl nc l' c sh'"
| cpu3_receive: "mailmsg_session g nl nc l c sh \<Longrightarrow>
    mailmsg_endpoint_receive c sh p m = Some (r, c', sh', m') \<Longrightarrow> mailmsg_session g nl nc l c' sh'"

text \<open>All queued frames are intact and belong to session \<open>g\<close>.\<close>

definition queues_clean :: "u32 \<Rightarrow> mailmsg_shared \<Rightarrow> bool" where
  "queues_clean g sh \<longleftrightarrow> (\<forall>a p f. p < 4 \<and> f \<in> set (ring_frames (shared_ring sh a p)) \<longrightarrow>
     frame_status f = 0 \<and> msg_generation f = g)"

definition session_inv :: "u32 \<Rightarrow> 'c mailmsg_endpoint \<Rightarrow> 'd mailmsg_endpoint \<Rightarrow> mailmsg_shared \<Rightarrow> bool" where
  "session_inv g l c sh \<longleftrightarrow> shared_wf sh \<and> endpoint_stats_ok l \<and> endpoint_stats_ok c \<and>
     endpoint_bound l sh Linux_to_cpu3 Cpu3_to_linux \<and> endpoint_bound c sh Cpu3_to_linux Linux_to_cpu3 \<and>
     shm_generation sh = g \<and> queues_clean g sh"

lemma endpoint_bound_cong:
  assumes "endpoint_bound ep sh a b" "ep_tx ep' = ep_tx ep" "ep_rx ep' = ep_rx ep"
    "ep_generation ep' = ep_generation ep" "ep_memory_ops ep' = ep_memory_ops ep" "ep_shared ep' = ep_shared ep"
    "shm_generation sh' = shm_generation sh" "shm_magic sh' = shm_magic sh" "shm_version sh' = shm_version sh"
  shows "endpoint_bound ep' sh' a b"
  using assms session_valid_cong [of ep' ep sh' sh] by (simp add: endpoint_bound_def)

lemma queues_clean_send:
  assumes "queues_clean g sh" and "shared_wf sh" and "endpoint_wf ep" and "endpoint_bound ep sh a b"
    and "shm_generation sh = g" and "unat len \<le> length bs"
    and "mailmsg_endpoint_send ep sh ctx p ty (Some bs) len res = Some (c, ep', sh', ctx', res')"
  shows "queues_clean g sh'"
proof -
  from assms(4) have gen: "ep_generation ep = g" "ep_generation ep \<noteq> 0"
    using assms(5) by (auto elim: endpoint_boundD)
  let ?m = "sent_message ep ty bs len"
  have new: "frame_status (seal ?m) = 0" "msg_generation (seal ?m) = g" if "len \<le> 28"
    using that gen by (simp_all add: sent_message_def frame_status_seal send_message_valid)
  have frames: "ring_frames (shared_ring (set_shared_ring sh tx p (ring_after_push (shared_ring sh tx p) ?m)) x q) =
      ring_frames (shared_ring sh x q) @ (if tx = x \<and> p = q then [seal ?m] else [])"
    if "p < 4" "q < 4" "ring_depth (shared_ring sh tx p) < 7" for tx x q
    using that assms(2) by (auto simp: shared_ring_set ring_frames_after_push shared_ring_wf)
  from send_shape [OF assms(2,3,6,7)] show ?thesis
  proof (elim disjE conjE exE)
    assume "sh' = sh"
    with assms(1) show ?thesis by simp
  next
    fix tx
    assume "p < 4" "len \<le> 28" "ring_depth (shared_ring sh tx p) < 7"
      and "sh' = set_shared_ring sh tx p (ring_after_push (shared_ring sh tx p) ?m)"
    with assms(1) new frames show ?thesis
      by (auto simp: queues_clean_def split: if_splits)
  qed
qed

lemma queues_clean_receive:
  assumes "queues_clean g sh" and "shared_wf sh" and "endpoint_wf ep"
    and "mailmsg_endpoint_receive ep sh p m = Some (c, ep', sh', m')"
  shows "queues_clean g sh'"
proof -
  have "queues_clean g (set_shared_ring sh rx p (ring_after_pop (shared_ring sh rx p)))"
    if "p < 4" "ring_frames (shared_ring sh rx p) = f # fs" for rx f fs
  proof -
    have "ring_frames (ring_after_pop (shared_ring sh rx p)) = fs"
      using that assms(2) by (simp add: ring_frames_Cons(1) shared_ring_wf)
    moreover have "frame_status x = 0 \<and> msg_generation x = g" if "x \<in> set fs" for x
      using assms(1) that \<open>p < 4\<close> \<open>ring_frames (shared_ring sh rx p) = f # fs\<close>
      unfolding queues_clean_def by (metis list.set_intros(2))
    ultimately show ?thesis
      using assms(1,2) that(1) unfolding queues_clean_def by (auto simp: shared_ring_set split: if_splits)
  qed
  then show ?thesis
    using assms by (cases rule: receive_cases [OF assms(2,3), of p m]) auto
qed

lemma session_inv_send_linux:
  assumes "session_inv g l c sh" and "unat len \<le> length bs"
    and "mailmsg_endpoint_send l sh ctx p ty (Some bs) len res = Some (r, l', sh', ctx', res')"
  shows "session_inv g l' c sh'"
proof -
  from assms(1) have inv: "shared_wf sh" "endpoint_wf l"
    by (simp_all add: session_inv_def endpoint_stats_ok_def)
  note fr = send_frame [OF inv assms(2,3)]
  from assms(1) have "endpoint_bound l' sh' Linux_to_cpu3 Cpu3_to_linux"
    "endpoint_bound c sh' Cpu3_to_linux Linux_to_cpu3"
    using fr by (auto simp: session_inv_def intro: endpoint_bound_cong)
  moreover have "queues_clean g sh'" "endpoint_stats_ok l'"
    using assms inv by (auto simp: session_inv_def intro: queues_clean_send send_stats_ok)
  ultimately show ?thesis using assms(1) fr by (simp add: session_inv_def)
qed

lemma session_inv_send_cpu3:
  assumes "session_inv g l c sh" and "unat len \<le> length bs"
    and "mailmsg_endpoint_send c sh ctx p ty (Some bs) len res = Some (r, c', sh', ctx', res')"
  shows "session_inv g l c' sh'"
proof -
  from assms(1) have inv: "shared_wf sh" "endpoint_wf c"
    by (simp_all add: session_inv_def endpoint_stats_ok_def)
  note fr = send_frame [OF inv assms(2,3)]
  from assms(1) have "endpoint_bound l sh' Linux_to_cpu3 Cpu3_to_linux"
    "endpoint_bound c' sh' Cpu3_to_linux Linux_to_cpu3"
    using fr by (auto simp: session_inv_def intro: endpoint_bound_cong)
  moreover have "queues_clean g sh'" "endpoint_stats_ok c'"
    using assms inv by (auto simp: session_inv_def intro: queues_clean_send send_stats_ok)
  ultimately show ?thesis using assms(1) fr by (simp add: session_inv_def)
qed

lemma session_inv_receive:
  assumes "session_inv g l c sh"
  shows "mailmsg_endpoint_receive l sh p m = Some (r, l', sh', m') \<Longrightarrow> session_inv g l' c sh'"
    and "mailmsg_endpoint_receive c sh p m = Some (r2, c', sh2, m2) \<Longrightarrow> session_inv g l c' sh2"
proof -
  from assms have inv: "shared_wf sh" "endpoint_wf l" "endpoint_wf c" "queues_clean g sh"
    "endpoint_stats_ok l" "endpoint_stats_ok c"
    by (simp_all add: session_inv_def endpoint_stats_ok_def)
  {
    assume r: "mailmsg_endpoint_receive l sh p m = Some (r, l', sh', m')"
    note fr = receive_keeps [OF inv(1,2) r] queues_clean_receive [OF inv(4,1,2) r] receive_stats_ok [OF inv(5,1) r]
    from assms fr show "session_inv g l' c sh'"
      by (auto simp: session_inv_def intro: endpoint_bound_cong)
  next
    assume r: "mailmsg_endpoint_receive c sh p m = Some (r2, c', sh2, m2)"
    note fr = receive_keeps [OF inv(1,3) r] queues_clean_receive [OF inv(4,1,3) r] receive_stats_ok [OF inv(6,1) r]
    from assms fr show "session_inv g l c' sh2"
      by (auto simp: session_inv_def intro: endpoint_bound_cong)
  }
qed

lemma bound_endpoint_stats_ok: "g \<noteq> 0 \<Longrightarrow> endpoint_stats_ok (bound_endpoint role g nf)"
  unfolding bound_endpoint_def
  by (subst bind_ok) (simp_all add: endpoint_stats_ok_def, simp add: endpoint_wf_def)

lemma queues_clean_fresh: "queues_clean g (fresh_shared g)"
  unfolding queues_clean_def by auto

lemma session_inv_init:
  "g \<noteq> 0 \<Longrightarrow> session_inv g (bound_endpoint MAILMSG_ENDPOINT_LINUX g nl)
      (bound_endpoint MAILMSG_ENDPOINT_CPU3 g nc) (fresh_shared g)"
  using bound_endpoint_bound [of g MAILMSG_ENDPOINT_LINUX nl] bound_endpoint_bound [of g MAILMSG_ENDPOINT_CPU3 nc]
  by (simp add: session_inv_def bound_endpoint_stats_ok queues_clean_fresh)

lemma session_invariant: "mailmsg_session g nl nc l c sh \<Longrightarrow> session_inv g l c sh"
  by (induction rule: mailmsg_session.induct)
     (blast intro: session_inv_init session_inv_send_linux session_inv_send_cpu3 session_inv_receive)+

text \<open>Claim C17.
  In every state that two endpoints of one session reach by sending and receiving in
  any order, the shared memory is well-formed, every queued frame is complete, intact
  and of the current generation, and the accounting of both endpoints is consistent:
  each enqueued frame counts as exactly one sent, coalesced or failed doorbell, and no
  high-water mark exceeds seven.
\<close>

theorem session_keeps_queues_clean:
  assumes "mailmsg_session g nl nc l c sh"
  shows "shared_wf sh \<and> queues_clean g sh \<and> endpoint_stats_ok l \<and> endpoint_stats_ok c \<and>
    shm_generation sh = g \<and> g \<noteq> 0"
  using session_invariant [OF assms] by (auto simp: session_inv_def elim: endpoint_boundD)

theorem session_keeps_queues_clean_witness:
  "shared_wf (fresh_shared 7) \<and> queues_clean 7 (fresh_shared 7) \<and>
   endpoint_stats_ok (bound_endpoint MAILMSG_ENDPOINT_LINUX 7 silent_bell) \<and>
   endpoint_stats_ok (bound_endpoint MAILMSG_ENDPOINT_CPU3 7 silent_bell) \<and>
   shm_generation (fresh_shared 7) = 7 \<and> (7::u32) \<noteq> 0"
  by (rule session_keeps_queues_clean [OF mailmsg_session.bound]) simp

text \<open>
  In every reachable state of a session a receive on any of the four priorities
  returns, and its result is 0 with the oldest queued frame or EMPTY; the codes for
  incomplete, corrupt, invalid and stale frames do not occur between two peers that
  keep to the protocol.
\<close>

lemma session_receive_ok_or_empty:
  assumes "mailmsg_session g nl nc l c sh" and "p < 4"
  shows "\<exists>r c' sh' m'. mailmsg_endpoint_receive c sh p m = Some (r, c', sh', m') \<and>
    (case ring_frames (shared_ring sh Linux_to_cpu3 p) of
       [] \<Rightarrow> r = MAILMSG_RING_EMPTY \<and> sh' = sh
     | f # fs \<Rightarrow> r = MAILMSG_ENDPOINT_OK \<and> m' = f \<and> ring_frames (shared_ring sh' Linux_to_cpu3 p) = fs)"
proof -
  from session_invariant [OF assms(1)] have wf: "shared_wf sh" and cl: "queues_clean g sh"
    and ewf: "endpoint_wf c" and bd: "endpoint_bound c sh Cpu3_to_linux Linux_to_cpu3"
    and g: "shm_generation sh = g"
    by (simp_all add: session_inv_def endpoint_stats_ok_def)
  from bd have ep: "ep_rx c = Some Linux_to_cpu3" "mailmsg_endpoint_session_valid c sh = 0"
    by (simp_all add: endpoint_bound_def)
  with g have gen: "ep_generation c = g" using session_valid_0D(2) by metis
  show ?thesis
  proof (cases "ring_frames (shared_ring sh Linux_to_cpu3 p)")
    case Nil
    with receive_empty [OF ep wf assms(2)] show ?thesis by simp
  next
    case (Cons f fs)
    then have f: "frame_status f = 0 \<and> msg_generation f = g"
      using cl assms(2) unfolding queues_clean_def by (metis list.set_intros(1))
    with receive_frame [OF ep wf assms(2) ewf Cons, of m] gen Cons show ?thesis
      by (simp add: receive_status_def receive_depth [OF wf assms(2) Cons])
  qed
qed

text \<open>Claim C38.
  Whatever value the 32-bit counter has reached, the numbers that an endpoint assigns
  from there on are never zero, and two of them are equal exactly when they are a
  multiple of \<open>2^32 - 1\<close> calls apart: the wrap skips zero and repeats nothing within
  \<open>2^32 - 1\<close> consecutive frames.
\<close>

theorem sequence_numbers_distinct:
  "nth_sequence ep i \<noteq> 0 \<and>
   (nth_sequence ep i = nth_sequence ep j \<longleftrightarrow> i mod (2 ^ 32 - 1) = j mod (2 ^ 32 - 1))"
proof -
  have unat_nth: "unat (nth_sequence ep k) = Suc ((unat (ep_next_sequence ep) + k) mod (2 ^ 32 - 1))" for k
    by (simp only: nth_sequence_eq unat_next_seq_pow)
  have "nth_sequence ep i = nth_sequence ep j \<longleftrightarrow> unat (nth_sequence ep i) = unat (nth_sequence ep j)"
    by (simp add: word_unat_eq_iff)
  also have "\<dots> \<longleftrightarrow> i mod (2 ^ 32 - 1) = j mod (2 ^ 32 - 1)"
    by (simp only: unat_nth nat.inject add_mod_cancel_left)
  finally show ?thesis by (simp add: nth_sequence_eq)
qed

end
