(* ===== verification/Amp_Mailbox.thy ===== *)
theory Amp_Mailbox
  imports Mailmsg_Endpoint
begin

text \<open>
  The mailbox0 registers and the Linux side of the doorbell: the channel array of the
  driver (\<^verbatim>\<open>lzamp_amp_mailmsg.c\<close>), the direct doorbell write and the notification
  backend with its fault injection.

  The registers are a map from offsets to values, and what a register write does to
  them is a parameter \<open>wr\<close>, since the mailbox is hardware.  What the code relies on is
  the locale \<open>mailbox_hw\<close>: a status bit is set by the write of the channel's DAT
  register, cleared by writing a one to it, and left alone by all other writes.  The
  driver has one mailbox controller, so \<open>mbox_regs[0]\<close> is the only register file.
\<close>

subsection \<open>Registers\<close>

type_synonym mbox_regs = "u32 \<Rightarrow> u32"
type_synonym mmio_write = "mbox_regs \<Rightarrow> u32 \<Rightarrow> u32 \<Rightarrow> mbox_regs"

abbreviation (input) A2B_INTEN :: u32 where "A2B_INTEN \<equiv> 0x00"
abbreviation (input) A2B_STATUS :: u32 where "A2B_STATUS \<equiv> 0x04"
abbreviation (input) B2A_STATUS :: u32 where "B2A_STATUS \<equiv> 0x2c"

definition A2B_CMD :: "u32 \<Rightarrow> u32" where "A2B_CMD ch = 0x08 + ch * 8"
definition A2B_DAT :: "u32 \<Rightarrow> u32" where "A2B_DAT ch = 0x0c + ch * 8"
definition B2A_CMD :: "u32 \<Rightarrow> u32" where "B2A_CMD ch = 0x30 + ch * 8"
definition B2A_DAT :: "u32 \<Rightarrow> u32" where "B2A_DAT ch = 0x34 + ch * 8"

abbreviation BIT :: "u32 \<Rightarrow> u32" where "BIT n \<equiv> push_bit (unat n) 1"

definition a2b_pending :: "mbox_regs \<Rightarrow> u32 \<Rightarrow> bool" where
  "a2b_pending regs ch \<longleftrightarrow> bit (regs A2B_STATUS) (unat ch)"

definition b2a_pending :: "mbox_regs \<Rightarrow> u32 \<Rightarrow> bool" where
  "b2a_pending regs ch \<longleftrightarrow> bit (regs B2A_STATUS) (unat ch)"

locale mailbox_hw =
  fixes wr :: mmio_write
  assumes a2b_dat_status: "ch < 4 \<Longrightarrow> wr regs (A2B_DAT ch) v A2B_STATUS = regs A2B_STATUS OR BIT ch"
    and a2b_cmd_status: "ch < 4 \<Longrightarrow> wr regs (A2B_CMD ch) v A2B_STATUS = regs A2B_STATUS"
    and a2b_w1c: "wr regs A2B_STATUS v A2B_STATUS = regs A2B_STATUS AND NOT v"
    and b2a_dat_status: "ch < 4 \<Longrightarrow> wr regs (B2A_DAT ch) v B2A_STATUS = regs B2A_STATUS OR BIT ch"
    and b2a_cmd_status: "ch < 4 \<Longrightarrow> wr regs (B2A_CMD ch) v B2A_STATUS = regs B2A_STATUS"
    and b2a_w1c: "wr regs B2A_STATUS v B2A_STATUS = regs B2A_STATUS AND NOT v"
    and a2b_b2a: "ch < 4 \<Longrightarrow> wr regs (A2B_DAT ch) v B2A_STATUS = regs B2A_STATUS"
      "ch < 4 \<Longrightarrow> wr regs (A2B_CMD ch) v B2A_STATUS = regs B2A_STATUS"
      "wr regs A2B_STATUS v B2A_STATUS = regs B2A_STATUS"
    and b2a_a2b: "ch < 4 \<Longrightarrow> wr regs (B2A_DAT ch) v A2B_STATUS = regs A2B_STATUS"
      "ch < 4 \<Longrightarrow> wr regs (B2A_CMD ch) v A2B_STATUS = regs A2B_STATUS"
      "wr regs B2A_STATUS v A2B_STATUS = regs A2B_STATUS"
    and inten_status: "wr regs A2B_INTEN v A2B_STATUS = regs A2B_STATUS"
      "wr regs A2B_INTEN v B2A_STATUS = regs B2A_STATUS"
    and a2b_cmd_holds: "ch < 4 \<Longrightarrow> wr regs (A2B_CMD ch) v (A2B_CMD ch) = v"
    and a2b_dat_holds: "ch < 4 \<Longrightarrow> wr regs (A2B_DAT ch) v (A2B_DAT ch) = v"
    and a2b_dat_cmd: "ch < 4 \<Longrightarrow> wr regs (A2B_DAT ch) v (A2B_CMD ch) = regs (A2B_CMD ch)"

text \<open>The register block itself: plain storage, two doorbell status words, write-one-to-clear.\<close>

definition rk_mbox_write :: mmio_write where
  "rk_mbox_write regs off v =
     (if off = A2B_STATUS \<or> off = B2A_STATUS then regs(off := regs off AND NOT v)
      else if off \<in> {A2B_DAT 0, A2B_DAT 1, A2B_DAT 2, A2B_DAT 3}
      then regs(off := v, A2B_STATUS := regs A2B_STATUS OR BIT ((off - 0x0c) div 8))
      else if off \<in> {B2A_DAT 0, B2A_DAT 1, B2A_DAT 2, B2A_DAT 3}
      then regs(off := v, B2A_STATUS := regs B2A_STATUS OR BIT ((off - 0x34) div 8))
      else regs(off := v))"

lemma ch_cases:
  assumes "ch < (4::u32)"
  obtains "ch = 0" | "ch = 1" | "ch = 2" | "ch = 3"
proof -
  have "unat ch = 0 \<or> unat ch = 1 \<or> unat ch = 2 \<or> unat ch = 3"
    using assms by (simp add: word_less_nat_alt) linarith
  then have "ch = 0 \<or> ch = 1 \<or> ch = 2 \<or> ch = 3"
    by (simp add: word_unat_eq_iff)
  with that show ?thesis by blast
qed

interpretation rk: mailbox_hw rk_mbox_write
  by unfold_locales
    (auto elim!: ch_cases simp: rk_mbox_write_def A2B_CMD_def A2B_DAT_def B2A_CMD_def B2A_DAT_def)

lemma bit_1_u32: "bit (1 :: u32) n \<longleftrightarrow> n = 0"
  by (simp add: bit_1_iff)

lemma bit_or_BIT: "ch < 4 \<Longrightarrow> c < 4 \<Longrightarrow> bit (w OR BIT ch) (unat c) \<longleftrightarrow> bit w (unat c) \<or> c = ch" for w :: u32
  by (auto simp: bit_simps word_unat_eq_iff dest: less_trans [OF unat_less_4])

lemmas bit_or_exp = bit_or_BIT [unfolded push_bit_eq_mult mult_1]

lemma and_BIT_iff: "ch < 4 \<Longrightarrow> w AND BIT ch \<noteq> 0 \<longleftrightarrow> bit w (unat ch)" for w :: u32
  by (simp add: and_exp_eq_0_iff_not_bit push_bit_eq_mult)

subsection \<open>The channels of the driver\<close>

text \<open>
  One entry of \<open>data->mbox\<close>.  The pointers to the mailbox client and to the parent are
  left out; \<open>chan_held\<close> says that \<open>chan\<close> is a requested channel and not NULL.
\<close>

record r1_amp_mbox_channel =
  chan_held :: bool
  tx_msg_cmd :: u32
  tx_msg_data :: u32
  ch_index :: u32
  ch_controller :: u32
  controller_channel :: u32
  rx_count :: u32
  rx_last_cmd :: u32
  rx_last_data :: u32
  tx_ret :: int
  tx_count :: u32
  ch_notify_result :: int
  notify_sent_count :: u32
  notify_coalesced_count :: u32
  notify_failed_count :: u32

text \<open>
  The part of \<open>struct r1_amp_cpu_on_data\<close> that the notification backend reads and
  writes; it is the context that the endpoint hands to the backend.
\<close>

record amp_notify_context =
  mbox :: "r1_amp_mbox_channel list"
  mbox_regs0 :: mbox_regs
  notify_inject_priority :: u32
  notify_inject_errno :: int
  notify_inject_remaining :: u32
  lifecycle_notify_bypass :: bool
  mailmsg_last_notify_result :: int

abbreviation (input) R1_AMP_MAILMSG_DOORBELL :: u32 where "R1_AMP_MAILMSG_DOORBELL \<equiv> 0xa2b10000"
abbreviation (input) R1_AMP_MBOX_CHANNELS :: u32 where "R1_AMP_MBOX_CHANNELS \<equiv> 4"

definition upd_channel ::
  "(r1_amp_mbox_channel \<Rightarrow> r1_amp_mbox_channel) \<Rightarrow> u32 \<Rightarrow> amp_notify_context \<Rightarrow> amp_notify_context" where
  "upd_channel f i c = c\<lparr>mbox := (mbox c)[unat i := f (mbox c ! unat i)]\<rparr>"

text \<open>The argument \<open>channel\<close> is \<open>&data->mbox[i]\<close>.\<close>

definition r1_amp_mbox_direct_send_locked ::
  "mmio_write \<Rightarrow> amp_notify_context \<Rightarrow> u32 \<Rightarrow> u32 \<Rightarrow> u32 \<Rightarrow> int \<times> amp_notify_context" where
  "r1_amp_mbox_direct_send_locked wr c i command value =
     (let ch = controller_channel (mbox c ! unat i); status = mbox_regs0 c A2B_STATUS in
      if status AND BIT ch \<noteq> 0
      then (- EBUSY, upd_channel (\<lambda>ch. ch\<lparr>tx_ret := - EBUSY\<rparr>) i c)
      else
        let c = upd_channel (\<lambda>ch. ch\<lparr>tx_msg_cmd := command, tx_msg_data := value\<rparr>) i c;
            c = c\<lparr>mbox_regs0 := wr (mbox_regs0 c) (A2B_CMD ch) command\<rparr>;
            c = c\<lparr>mbox_regs0 := wr (mbox_regs0 c) (A2B_DAT ch) value\<rparr>
        in (0, upd_channel (\<lambda>ch. ch\<lparr>tx_ret := 0, tx_count := tx_count ch + 1\<rparr>) i c))"

definition mailmsg_notify_locked ::
  "mmio_write \<Rightarrow> amp_notify_context \<Rightarrow> u32 \<Rightarrow> int \<times> amp_notify_context" where
  "mailmsg_notify_locked wr c priority =
     (if \<not> lifecycle_notify_bypass c \<and> notify_inject_remaining c \<noteq> 0 \<and>
         notify_inject_priority c = priority
      then
        let c = c\<lparr>notify_inject_remaining := notify_inject_remaining c - 1\<rparr>;
            result = notify_inject_errno c;
            c = upd_channel (\<lambda>ch. ch\<lparr>tx_ret := result, notify_failed_count := notify_failed_count ch + 1,
                                      ch_notify_result := result\<rparr>) priority c
        in (result, c\<lparr>mailmsg_last_notify_result := result\<rparr>)
      else
        let (result, c) = r1_amp_mbox_direct_send_locked wr c priority
                            (R1_AMP_MAILMSG_DOORBELL OR priority) priority;
            (result, c) =
              (if result = - EBUSY
               then (MAILMSG_NOTIFY_COALESCED,
                     upd_channel (\<lambda>ch. ch\<lparr>notify_coalesced_count := notify_coalesced_count ch + 1\<rparr>) priority c)
               else if result < 0
               then (result, upd_channel (\<lambda>ch. ch\<lparr>notify_failed_count := notify_failed_count ch + 1\<rparr>) priority c)
               else (MAILMSG_NOTIFY_SENT,
                     upd_channel (\<lambda>ch. ch\<lparr>notify_sent_count := notify_sent_count ch + 1\<rparr>) priority c));
            c = upd_channel (\<lambda>ch. ch\<lparr>ch_notify_result := result\<rparr>) priority c
        in (result, c\<lparr>mailmsg_last_notify_result := result\<rparr>))"

definition mailmsg_linux_notify :: "mmio_write \<Rightarrow> amp_notify_context \<Rightarrow> u32 \<Rightarrow> int \<times> amp_notify_context" where
  "mailmsg_linux_notify wr context priority = mailmsg_notify_locked wr context priority"

definition mailmsg_linux_notify_ops :: "mmio_write \<Rightarrow> amp_notify_context mailmsg_notify_ops" where
  "mailmsg_linux_notify_ops wr = \<lparr>nops_notify = Some (mailmsg_linux_notify wr), nops_enable_rx = None\<rparr>"

subsection \<open>The Linux doorbell\<close>

text \<open>
  The context invariant: four channels, channel \<open>i\<close> wired to controller channel \<open>i\<close>,
  and an injected result that is a negative errno, as \<open>mailmsg_notify_inject_store\<close>
  checks.
\<close>

definition context_wf :: "amp_notify_context \<Rightarrow> bool" where
  "context_wf c \<longleftrightarrow> length (mbox c) = 4 \<and>
     (\<forall>i < 4. controller_channel (mbox c ! i) = word_of_nat i) \<and> notify_inject_errno c < 0"

definition linux_bell_pending :: "amp_notify_context \<Rightarrow> u32 \<Rightarrow> bool" where
  "linux_bell_pending c p \<longleftrightarrow> a2b_pending (mbox_regs0 c) p"

lemma upd_channel_simps [simp]:
  "mbox_regs0 (upd_channel f i c) = mbox_regs0 c"
  "notify_inject_priority (upd_channel f i c) = notify_inject_priority c"
  "notify_inject_errno (upd_channel f i c) = notify_inject_errno c"
  "notify_inject_remaining (upd_channel f i c) = notify_inject_remaining c"
  "lifecycle_notify_bypass (upd_channel f i c) = lifecycle_notify_bypass c"
  "length (mbox (upd_channel f i c)) = length (mbox c)"
  by (simp_all add: upd_channel_def)

lemma context_wf_upd_channel [simp]:
  assumes "\<And>ch. controller_channel (f ch) = controller_channel ch"
  shows "context_wf (upd_channel f i c) = context_wf c"
proof -
  have "controller_channel ((mbox c)[unat i := f (mbox c ! unat i)] ! j) = controller_channel (mbox c ! j)" for j
    using assms by (cases "unat i < length (mbox c)"; cases "j = unat i") (simp_all add: list_update_beyond not_less)
  then show ?thesis by (simp add: context_wf_def upd_channel_def)
qed

lemma context_wf_fields [simp]:
  "context_wf (c\<lparr>mbox_regs0 := r\<rparr>) = context_wf c"
  "context_wf (c\<lparr>notify_inject_remaining := n\<rparr>) = context_wf c"
  "context_wf (c\<lparr>mailmsg_last_notify_result := e\<rparr>) = context_wf c"
  "context_wf (c\<lparr>lifecycle_notify_bypass := b\<rparr>) = context_wf c"
  "context_wf (c\<lparr>notify_inject_priority := u\<rparr>) = context_wf c"
  by (simp_all add: context_wf_def)

lemma context_channel: "context_wf c \<Longrightarrow> p < 4 \<Longrightarrow> controller_channel (mbox c ! unat p) = p"
  by (simp add: context_wf_def)

text \<open>The three outcomes of a notification, with the registers they leave behind.\<close>

lemma notify_locked_cases:
  assumes "context_wf c" and "p < 4"
  obtains (injected) c' where "\<not> lifecycle_notify_bypass c" "notify_inject_remaining c \<noteq> 0" "notify_inject_priority c = p"
      "mailmsg_notify_locked wr c p = (notify_inject_errno c, c')" "mbox_regs0 c' = mbox_regs0 c"
      "notify_inject_remaining c' = notify_inject_remaining c - 1"
      "context_wf c'"
  | (coalesced) c' where "a2b_pending (mbox_regs0 c) p"
      "mailmsg_notify_locked wr c p = (MAILMSG_NOTIFY_COALESCED, c')" "mbox_regs0 c' = mbox_regs0 c"
      "notify_inject_remaining c' = notify_inject_remaining c"
      "context_wf c'"
  | (sent) c' where "\<not> a2b_pending (mbox_regs0 c) p"
      "mailmsg_notify_locked wr c p = (MAILMSG_NOTIFY_SENT, c')"
      "mbox_regs0 c' = wr (wr (mbox_regs0 c) (A2B_CMD p) (R1_AMP_MAILMSG_DOORBELL OR p)) (A2B_DAT p) p"
      "notify_inject_remaining c' = notify_inject_remaining c"
      "context_wf c'"
proof -
  note ch = context_channel [OF assms]
  note defs = mailmsg_notify_locked_def r1_amp_mbox_direct_send_locked_def Let_def ch
  show thesis
  proof (cases "\<not> lifecycle_notify_bypass c \<and> notify_inject_remaining c \<noteq> 0 \<and> notify_inject_priority c = p")
    case True
    then show thesis using assms by (intro injected [of "snd (mailmsg_notify_locked wr c p)"]) (auto simp: mailmsg_notify_locked_def Let_def)
  next
    case False
    show thesis
    proof (cases "a2b_pending (mbox_regs0 c) p")
      case True
      then have "mbox_regs0 c A2B_STATUS AND BIT p \<noteq> 0"
        using and_BIT_iff [OF assms(2), of "mbox_regs0 c A2B_STATUS"] by (simp add: a2b_pending_def)
      with True False assms show thesis by (intro coalesced [of "snd (mailmsg_notify_locked wr c p)"]) (auto simp: defs)
    next
      case pend: False
      then have "mbox_regs0 c A2B_STATUS AND BIT p = 0"
        using and_BIT_iff [OF assms(2), of "mbox_regs0 c A2B_STATUS"] by (simp add: a2b_pending_def)
      with pend False assms show thesis by (intro sent [of "snd (mailmsg_notify_locked wr c p)"]) (auto simp: defs)
    qed
  qed
qed

context mailbox_hw
begin

lemma a2b_pending_doorbell:
  "p < 4 \<Longrightarrow> q < 4 \<Longrightarrow>
   a2b_pending (wr (wr regs (A2B_CMD p) u) (A2B_DAT p) v) q \<longleftrightarrow> a2b_pending regs q \<or> q = p"
  by (simp add: a2b_pending_def a2b_dat_status a2b_cmd_status bit_or_exp)

end

sublocale mailbox_hw \<subseteq> linux: doorbell "mailmsg_linux_notify wr" linux_bell_pending context_wf
proof
  fix c :: amp_notify_context and p q :: u32
  assume ok: "context_wf c" "p < 4"
  show "context_wf (snd (mailmsg_linux_notify wr c p))"
    by (rule notify_locked_cases [OF ok, of wr]) (simp_all add: mailmsg_linux_notify_def)
  show "linux_bell_pending (snd (mailmsg_linux_notify wr c p)) p"
    if "mailmsg_notify_accepted (fst (mailmsg_linux_notify wr c p))"
    using that ok
    by (cases rule: notify_locked_cases [OF ok, of wr])
       (auto simp: mailmsg_linux_notify_def linux_bell_pending_def a2b_pending_doorbell context_wf_def
                   mailmsg_notify_accepted_def)
  show "linux_bell_pending (snd (mailmsg_linux_notify wr c p)) q" if "q < 4" "linux_bell_pending c q"
    using that ok
    by (cases rule: notify_locked_cases [OF ok, of wr])
       (auto simp: mailmsg_linux_notify_def linux_bell_pending_def a2b_pending_doorbell)
qed

end
