(* ===== verification/Amp_Page.thy ===== *)
theory Amp_Page
  imports Mailmsg_Endpoint
begin

text \<open>
  The shared carveout: the image area that Linux fills before CPU_ON and, at
  \<open>status_offset\<close>, the state page with one cache line per purpose and the MailMsg
  region.  Both sides declare the same lines (\<^verbatim>\<open>lzamp_amp_mailmsg.c\<close>,
  \<^verbatim>\<open>app/src/main.c\<close>); the reserved padding bytes are never read and left out.

  Cache maintenance and barriers have no effect on this coherent memory.
\<close>

record amp_payload_line =
  pl_command :: u32
  pl_value :: u32
  pl_status :: int
  pl_result :: u32

record amp_commit_line =
  cl_sequence :: u64
  cl_sequence_inv :: u64

record amp_mbox_observation_line =
  ob_magic :: u32
  ob_a2b_status :: u32
  ob_command :: u32
  ob_data :: u32

record mailmsg_tx_full_observation =
  tf_magic :: u32
  tf_commit :: u32
  tf_commit_inv :: u32
  tf_full_count :: u32
  tf_last_priority :: u32
  tf_last_type :: u32
  tf_last_result :: int

record mailmsg_worker_observation_line =
  wo_magic :: u32
  wo_commit :: u32
  wo_commit_inv :: u32
  wo_irq_count :: u32
  wo_wake_count :: u32
  wo_drain_count :: u32
  wo_message_count :: u32
  wo_empty_wake_count :: u32
  wo_last_pending :: u32
  wo_pending_now :: u32
  wo_last_priority :: u32

record amp_page =
  pg_image :: "u8 list"
  pg_status_magic :: u64
  pg_status_current_el :: u64
  pg_req_payload :: amp_payload_line
  pg_req_commit :: amp_commit_line
  pg_rsp_payload :: amp_payload_line
  pg_rsp_commit :: amp_commit_line
  pg_mbox_obs :: amp_mbox_observation_line
  pg_tx_full_obs :: mailmsg_tx_full_observation
  pg_worker_obs :: mailmsg_worker_observation_line
  pg_mailmsg :: mailmsg_shared

abbreviation (input) MAILMSG_TX_FULL_OBSERVATION_MAGIC :: u32
  where "MAILMSG_TX_FULL_OBSERVATION_MAGIC \<equiv> 0x4d46554c"
abbreviation (input) MAILMSG_WORKER_OBSERVATION_MAGIC :: u32
  where "MAILMSG_WORKER_OBSERVATION_MAGIC \<equiv> 0x4d455654"

definition zero_payload_line :: amp_payload_line where
  "zero_payload_line = \<lparr>pl_command = 0, pl_value = 0, pl_status = 0, pl_result = 0\<rparr>"

definition zero_commit_line :: amp_commit_line where
  "zero_commit_line = \<lparr>cl_sequence = 0, cl_sequence_inv = 0\<rparr>"

definition zero_mbox_obs :: amp_mbox_observation_line where
  "zero_mbox_obs = \<lparr>ob_magic = 0, ob_a2b_status = 0, ob_command = 0, ob_data = 0\<rparr>"

definition zero_tx_full_obs :: mailmsg_tx_full_observation where
  "zero_tx_full_obs = \<lparr>tf_magic = 0, tf_commit = 0, tf_commit_inv = 0, tf_full_count = 0,
     tf_last_priority = 0, tf_last_type = 0, tf_last_result = 0\<rparr>"

definition zero_worker_obs :: mailmsg_worker_observation_line where
  "zero_worker_obs = \<lparr>wo_magic = 0, wo_commit = 0, wo_commit_inv = 0, wo_irq_count = 0,
     wo_wake_count = 0, wo_drain_count = 0, wo_message_count = 0, wo_empty_wake_count = 0,
     wo_last_pending = 0, wo_pending_now = 0, wo_last_priority = 0\<rparr>"

definition zero_shared :: mailmsg_shared where
  "zero_shared = \<lparr>shm_magic = 0, shm_version = 0, shm_generation = 0,
     linux_to_cpu3 = replicate 4 empty_ring, cpu3_to_linux = replicate 4 empty_ring\<rparr>"

text \<open>\<open>memset(r1_amp_status_ptr(data), 0, R1_AMP_STATE_SIZE)\<close>: everything but the image area.\<close>

definition zero_state_page :: "amp_page \<Rightarrow> amp_page" where
  "zero_state_page pg = pg\<lparr>pg_status_magic := 0, pg_status_current_el := 0,
     pg_req_payload := zero_payload_line, pg_req_commit := zero_commit_line,
     pg_rsp_payload := zero_payload_line, pg_rsp_commit := zero_commit_line,
     pg_mbox_obs := zero_mbox_obs, pg_tx_full_obs := zero_tx_full_obs,
     pg_worker_obs := zero_worker_obs, pg_mailmsg := zero_shared\<rparr>"

subsection \<open>Line snapshots\<close>

text \<open>
  A reader accepts a diagnostics line when the magic matches, the commit word is
  non-zero and the same in two reads, and its complement matches.  The two reads are
  given as two states of the line, since the peer may write in between.
\<close>

definition tx_full_valid :: "mailmsg_tx_full_observation \<Rightarrow> mailmsg_tx_full_observation \<Rightarrow> bool" where
  "tx_full_valid first second \<longleftrightarrow> tf_magic first = MAILMSG_TX_FULL_OBSERVATION_MAGIC \<and>
     tf_commit first \<noteq> 0 \<and> tf_commit first = tf_commit second \<and>
     tf_commit_inv second = NOT (tf_commit second)"

definition worker_valid :: "mailmsg_worker_observation_line \<Rightarrow> mailmsg_worker_observation_line \<Rightarrow> bool" where
  "worker_valid first second \<longleftrightarrow> wo_magic first = MAILMSG_WORKER_OBSERVATION_MAGIC \<and>
     wo_commit first \<noteq> 0 \<and> wo_commit first = wo_commit second \<and>
     wo_commit_inv second = NOT (wo_commit second)"

lemma zero_lines_invalid [simp]:
  "\<not> tx_full_valid zero_tx_full_obs l" "\<not> worker_valid zero_worker_obs k"
  by (simp_all add: tx_full_valid_def worker_valid_def zero_tx_full_obs_def zero_worker_obs_def)

lemma shared_wf_zero [simp]: "shared_wf zero_shared"
  by (simp add: shared_wf_def zero_shared_def)

end
