(* ===== verification/Amp_State.thy ===== *)
theory Amp_State
  imports Amp_Mailbox Amp_Page
begin

text \<open>
  The state of the Linux driver (\<open>struct r1_amp_cpu_on_data\<close> of
  \<^verbatim>\<open>lzamp_amp_mailmsg.c\<close>), its environment, and the operations that the other parts of
  the driver share: the state names, the data-plane gate, the wake-ups of the readers,
  the affinity refresh and the mailbox callback.

  Every operation runs under \<open>data->lock\<close> and is one step on the state; the carveout is
  passed along as \<open>pg\<close>.  A result \<open>None\<close> is a crash (an access outside an array, a call
  through a NULL operation) or a loop that does not end.  \<open>control_work\<close>, \<open>affinity_work\<close>
  and \<open>lifecycle_timeout_work\<close> are pending marks: \<open>schedule_work\<close> sets the first,
  \<open>mod_delayed_work\<close> sets the delay of the others and \<open>cancel_delayed_work\<close> clears it.
  \<open>uc_rx_wait\<close> counts the \<open>wake_up_interruptible\<close> calls on the wait queue.
\<close>

subsection \<open>Data\<close>

datatype r1_amp_mailmsg_session_state =
    R1_AMP_MAILMSG_UNARMED
  | R1_AMP_MAILMSG_STARTING
  | R1_AMP_MAILMSG_START_TIMEOUT
  | R1_AMP_MAILMSG_ACTIVE
  | R1_AMP_MAILMSG_STOPPING
  | R1_AMP_MAILMSG_STOP_TIMEOUT
  | R1_AMP_MAILMSG_OFFLINE

record r1_amp_mailmsg_user_channel =
  uc_priority :: u32
  uc_rx_wait :: nat
  uc_rx_generation :: u32
  uc_reader_open_count :: u32
  uc_registered :: bool

record r1_amp_mailmsg_user_file =
  uf_channel :: u32
  reader_claimed :: bool

record r1_amp_cpu_on_data =
  d_ctx :: amp_notify_context
  mbox_a2b_at_tx_status :: u32
  mbox_a2b_at_tx_cmd :: u32
  mbox_a2b_at_tx_data :: u32
  carveout_phys :: u64
  carveout_size :: u64
  mpidr :: u64
  entry :: u64
  image_size :: u32
  status_offset :: u32
  image_written :: u64
  affinity_state :: int
  cpu_on_ret :: int
  affinity_queried :: bool
  affinity_seen_on :: bool
  cpu_on_attempted :: bool
  mailmsg_state :: r1_amp_mailmsg_session_state
  affinity_work :: "u64 option"
  control_work :: bool
  lifecycle_timeout_work :: "u64 option"
  affinity_monitor_count :: u32
  affinity_monitor_error_count :: u32
  session_generation :: u32
  peer_generation :: u32
  session_result :: int
  stop_request_sequence :: u32
  stop_reply_type :: u32
  stop_result :: int
  stop_notify_result :: int
  lifecycle_deadline :: u64
  next_sequence :: u64
  d_endpoint :: "amp_notify_context mailmsg_endpoint"
  d_notify_endpoint :: "amp_notify_context mailmsg_notify_endpoint"
  mailmsg_user :: "r1_amp_mailmsg_user_channel list"
  mailmsg_user_open_count :: u32
  mailmsg_user_removing :: bool

text \<open>
  What the driver asks of the kernel and the firmware: the PSCI operations, which may
  be absent, the successive readings of \<open>jiffies\<close> during one handler, the conversion of
  milliseconds, and the mailbox register block.
\<close>

record amp_env =
  psci_affinity_info :: "(u64 \<Rightarrow> int) option"
  psci_cpu_on :: "(u64 \<Rightarrow> u64 \<Rightarrow> int) option"
  jiffies :: "nat \<Rightarrow> u64"
  msecs_to_jiffies :: "u32 \<Rightarrow> u64"
  mbox_write :: mmio_write

abbreviation (input) PSCI_0_2_AFFINITY_LEVEL_ON :: int where "PSCI_0_2_AFFINITY_LEVEL_ON \<equiv> 0"
abbreviation (input) PSCI_0_2_AFFINITY_LEVEL_OFF :: int where "PSCI_0_2_AFFINITY_LEVEL_OFF \<equiv> 1"
abbreviation (input) PSCI_0_2_AFFINITY_LEVEL_ON_PENDING :: int where "PSCI_0_2_AFFINITY_LEVEL_ON_PENDING \<equiv> 2"
abbreviation (input) R1_AMP_AFFINITY_MONITOR_MS :: u32 where "R1_AMP_AFFINITY_MONITOR_MS \<equiv> 1000"
abbreviation (input) R1_AMP_LIFECYCLE_TIMEOUT_MS :: u32 where "R1_AMP_LIFECYCLE_TIMEOUT_MS \<equiv> 5000"

text \<open>The wrap-safe comparisons of \<^verbatim>\<open>linux/jiffies.h\<close>: the sign of the difference.\<close>

definition time_after_eq :: "u64 \<Rightarrow> u64 \<Rightarrow> bool" where
  "time_after_eq a b \<longleftrightarrow> 0 \<le> sint (a - b)"

definition time_before :: "u64 \<Rightarrow> u64 \<Rightarrow> bool" where
  "time_before a b \<longleftrightarrow> sint (a - b) < 0"

subsection \<open>Names and the gate\<close>

definition r1_amp_psci_state_name :: "int \<Rightarrow> string" where
  "r1_amp_psci_state_name state =
     (if state = PSCI_0_2_AFFINITY_LEVEL_ON then ''on''
      else if state = PSCI_0_2_AFFINITY_LEVEL_OFF then ''off''
      else if state = PSCI_0_2_AFFINITY_LEVEL_ON_PENDING then ''on-pending''
      else ''error'')"

fun r1_amp_mailmsg_state_name :: "r1_amp_mailmsg_session_state \<Rightarrow> string" where
  "r1_amp_mailmsg_state_name R1_AMP_MAILMSG_UNARMED = ''unarmed''"
| "r1_amp_mailmsg_state_name R1_AMP_MAILMSG_STARTING = ''starting''"
| "r1_amp_mailmsg_state_name R1_AMP_MAILMSG_START_TIMEOUT = ''start-timeout''"
| "r1_amp_mailmsg_state_name R1_AMP_MAILMSG_ACTIVE = ''active''"
| "r1_amp_mailmsg_state_name R1_AMP_MAILMSG_STOPPING = ''stopping''"
| "r1_amp_mailmsg_state_name R1_AMP_MAILMSG_STOP_TIMEOUT = ''stop-timeout''"
| "r1_amp_mailmsg_state_name R1_AMP_MAILMSG_OFFLINE = ''offline''"

definition r1_amp_mailmsg_data_gate_locked :: "r1_amp_cpu_on_data \<Rightarrow> int" where
  "r1_amp_mailmsg_data_gate_locked data =
     (case mailmsg_state data of
        R1_AMP_MAILMSG_ACTIVE \<Rightarrow> 0
      | R1_AMP_MAILMSG_STARTING \<Rightarrow> - EAGAIN
      | R1_AMP_MAILMSG_START_TIMEOUT \<Rightarrow> - ETIMEDOUT
      | R1_AMP_MAILMSG_STOPPING \<Rightarrow> - ESHUTDOWN
      | R1_AMP_MAILMSG_STOP_TIMEOUT \<Rightarrow> - ETIMEDOUT
      | R1_AMP_MAILMSG_OFFLINE \<Rightarrow> - ENOLINK
      | R1_AMP_MAILMSG_UNARMED \<Rightarrow> - ENOLINK)"

text \<open>The test that occurs three times in the driver: CPU3 may be executing.\<close>

definition peer_may_run :: "r1_amp_mailmsg_session_state \<Rightarrow> bool" where
  "peer_may_run s \<longleftrightarrow> \<not> (s \<noteq> R1_AMP_MAILMSG_STARTING \<and> s \<noteq> R1_AMP_MAILMSG_START_TIMEOUT \<and>
     s \<noteq> R1_AMP_MAILMSG_ACTIVE \<and> s \<noteq> R1_AMP_MAILMSG_STOPPING \<and> s \<noteq> R1_AMP_MAILMSG_STOP_TIMEOUT)"

definition lifecycle_pending :: "r1_amp_mailmsg_session_state \<Rightarrow> bool" where
  "lifecycle_pending s \<longleftrightarrow> s = R1_AMP_MAILMSG_STARTING \<or> s = R1_AMP_MAILMSG_STOPPING"

subsection \<open>Wake-ups\<close>

definition upd_user ::
  "(r1_amp_mailmsg_user_channel \<Rightarrow> r1_amp_mailmsg_user_channel) \<Rightarrow> u32 \<Rightarrow> r1_amp_cpu_on_data \<Rightarrow> r1_amp_cpu_on_data" where
  "upd_user f p d = d\<lparr>mailmsg_user := (mailmsg_user d)[unat p := f (mailmsg_user d ! unat p)]\<rparr>"

text \<open>\<open>atomic_inc(&rx_generation); wake_up_interruptible(&rx_wait)\<close>.\<close>

definition wake_reader :: "r1_amp_mailmsg_user_channel \<Rightarrow> r1_amp_mailmsg_user_channel" where
  "wake_reader u = u\<lparr>uc_rx_generation := uc_rx_generation u + 1, uc_rx_wait := Suc (uc_rx_wait u)\<rparr>"

definition wake_readers :: "r1_amp_cpu_on_data \<Rightarrow> r1_amp_cpu_on_data" where
  "wake_readers = fold (upd_user wake_reader) [0, 1, 2, 3]"

definition r1_amp_mbox_rx_callback ::
  "u32 \<Rightarrow> (u32 \<times> u32) option \<Rightarrow> r1_amp_cpu_on_data \<Rightarrow> r1_amp_cpu_on_data" where
  "r1_amp_mbox_rx_callback i message d =
     (let d = (case message of None \<Rightarrow> d
               | Some (cmd, dat) \<Rightarrow>
                   d\<lparr>d_ctx := upd_channel (\<lambda>ch. ch\<lparr>rx_last_cmd := cmd, rx_last_data := dat\<rparr>) i (d_ctx d)\<rparr>);
          d = d\<lparr>d_ctx := upd_channel (\<lambda>ch. ch\<lparr>rx_count := rx_count ch + 1\<rparr>) i (d_ctx d)\<rparr>;
          d = upd_user wake_reader (ch_index (mbox (d_ctx d) ! unat i)) d
      in if mailmsg_state d = R1_AMP_MAILMSG_STARTING \<or> mailmsg_state d = R1_AMP_MAILMSG_STOPPING
         then d\<lparr>control_work := True\<rparr> else d)"

definition r1_amp_mailmsg_mark_offline_locked :: "r1_amp_cpu_on_data \<Rightarrow> r1_amp_cpu_on_data" where
  "r1_amp_mailmsg_mark_offline_locked d =
     (if \<not> peer_may_run (mailmsg_state d) then d
      else wake_readers (d\<lparr>mailmsg_state := R1_AMP_MAILMSG_OFFLINE, lifecycle_timeout_work := None\<rparr>))"

definition r1_amp_refresh_affinity_locked :: "amp_env \<Rightarrow> r1_amp_cpu_on_data \<Rightarrow> (int \<times> r1_amp_cpu_on_data) option" where
  "r1_amp_refresh_affinity_locked env d = do {
     affinity_info \<leftarrow> psci_affinity_info env;
     let state = affinity_info (mpidr d);
     let d = d\<lparr>affinity_state := state, affinity_queried := True\<rparr>;
     let d = (if state = PSCI_0_2_AFFINITY_LEVEL_ON \<or> state = PSCI_0_2_AFFINITY_LEVEL_ON_PENDING
              then d\<lparr>affinity_seen_on := True\<rparr> else d);
     Some (state,
       if cpu_on_ret d = 0 \<and> affinity_seen_on d \<and> state = PSCI_0_2_AFFINITY_LEVEL_OFF
       then r1_amp_mailmsg_mark_offline_locked d else d) }"

definition r1_amp_affinity_work :: "amp_env \<Rightarrow> r1_amp_cpu_on_data \<Rightarrow> r1_amp_cpu_on_data option" where
  "r1_amp_affinity_work env d =
     (let d = d\<lparr>affinity_work := None\<rparr> in
      if \<not> peer_may_run (mailmsg_state d) \<or> mailmsg_user_removing d then Some d
      else do {
        let d = d\<lparr>affinity_monitor_count := affinity_monitor_count d + 1\<rparr>;
        (state, d) \<leftarrow> r1_amp_refresh_affinity_locked env d;
        let d = (if state < 0 then d\<lparr>affinity_monitor_error_count := affinity_monitor_error_count d + 1\<rparr> else d);
        let d = (if lifecycle_pending (mailmsg_state d) then d\<lparr>control_work := True\<rparr> else d);
        Some (if peer_may_run (mailmsg_state d) \<and> \<not> mailmsg_user_removing d
              then d\<lparr>affinity_work := Some (msecs_to_jiffies env R1_AMP_AFFINITY_MONITOR_MS)\<rparr> else d) })"

definition r1_amp_mailmsg_set_timeout_locked :: "r1_amp_cpu_on_data \<Rightarrow> r1_amp_cpu_on_data" where
  "r1_amp_mailmsg_set_timeout_locked d =
     wake_readers
       (if mailmsg_state d = R1_AMP_MAILMSG_STARTING
        then d\<lparr>session_result := - ETIMEDOUT, mailmsg_state := R1_AMP_MAILMSG_START_TIMEOUT\<rparr>
        else if mailmsg_state d = R1_AMP_MAILMSG_STOPPING
        then d\<lparr>stop_result := - ETIMEDOUT, mailmsg_state := R1_AMP_MAILMSG_STOP_TIMEOUT\<rparr>
        else d)"

text \<open>\<open>affinity_state_show\<close> queries PSCI on every read; its output is the state.\<close>

definition affinity_state_show ::
  "amp_env \<Rightarrow> r1_amp_cpu_on_data \<Rightarrow> ((int + (u64 \<times> string \<times> int)) \<times> r1_amp_cpu_on_data) option" where
  "affinity_state_show env d =
     (case psci_affinity_info env of None \<Rightarrow> Some (Inl (- EOPNOTSUPP), d)
      | Some _ \<Rightarrow> do {
          (state, d) \<leftarrow> r1_amp_refresh_affinity_locked env d;
          Some (Inr (mpidr d, r1_amp_psci_state_name state, state), d) })"

subsection \<open>Invariants\<close>

text \<open>
  \<open>driver_wf\<close>: the arrays have their declared length and the wiring of \<open>probe\<close>, the
  endpoint notifies through the mailbox backend, the image written so far is within the
  image area, and the MailMsg region is well-formed.
\<close>

definition users_wf :: "r1_amp_mailmsg_user_channel list \<Rightarrow> bool" where
  "users_wf us \<longleftrightarrow> length us = 4 \<and>
     (\<forall>i < 4. uc_priority (us ! i) = word_of_nat i \<and> uc_reader_open_count (us ! i) \<le> 1)"

definition channels_wf :: "amp_notify_context \<Rightarrow> bool" where
  "channels_wf c \<longleftrightarrow> context_wf c \<and> (\<forall>i < 4. ch_index (mbox c ! i) = word_of_nat i)"

definition linux_backend :: "mmio_write \<Rightarrow> amp_notify_context mailmsg_notify_endpoint" where
  "linux_backend wr = backend (mailmsg_linux_notify wr)"

definition driver_wf :: "mmio_write \<Rightarrow> r1_amp_cpu_on_data \<Rightarrow> amp_page \<Rightarrow> bool" where
  "driver_wf wr d pg \<longleftrightarrow> channels_wf (d_ctx d) \<and> users_wf (mailmsg_user d) \<and>
     endpoint_wf (d_endpoint d) \<and> d_notify_endpoint d = linux_backend wr \<and>
     (ep_notify (d_endpoint d) = None \<or> ep_notify (d_endpoint d) = Some (linux_backend wr)) \<and>
     image_written d \<le> ucast (image_size d) \<and> unat (image_size d) \<le> length (pg_image pg) \<and>
     shared_wf (pg_mailmsg pg)"

text \<open>
  \<open>lifecycle_inv\<close>: before the first CPU_ON and after a failed one the driver is unarmed;
  while CPU3 may run the affinity monitor is armed and the endpoint is bound to the
  announced session; a pending start or stop has its timeout armed; and the data plane
  is open, or about to close, only for a peer that confirmed this generation.
\<close>

definition lifecycle_inv :: "r1_amp_cpu_on_data \<Rightarrow> amp_page \<Rightarrow> bool" where
  "lifecycle_inv d pg \<longleftrightarrow> \<not> mailmsg_user_removing d \<and> \<not> lifecycle_notify_bypass (d_ctx d) \<and>
     (mailmsg_state d = R1_AMP_MAILMSG_UNARMED \<longrightarrow> cpu_on_ret d \<noteq> 0) \<and>
     (mailmsg_state d \<noteq> R1_AMP_MAILMSG_UNARMED \<longrightarrow> cpu_on_attempted d \<and> cpu_on_ret d = 0) \<and>
     (peer_may_run (mailmsg_state d) \<longrightarrow> affinity_work d \<noteq> None \<and>
        ep_generation (d_endpoint d) = session_generation d \<and> ep_notify (d_endpoint d) \<noteq> None \<and>
        endpoint_bound (d_endpoint d) (pg_mailmsg pg) Linux_to_cpu3 Cpu3_to_linux) \<and>
     (lifecycle_pending (mailmsg_state d) \<longrightarrow> lifecycle_timeout_work d \<noteq> None) \<and>
     (mailmsg_state d \<in> {R1_AMP_MAILMSG_ACTIVE, R1_AMP_MAILMSG_STOPPING, R1_AMP_MAILMSG_STOP_TIMEOUT} \<longrightarrow>
        peer_generation d = session_generation d \<and> affinity_seen_on d)"

lemmas state_simps = peer_may_run_def lifecycle_pending_def

lemma peer_may_run_simps [simp]:
  "\<not> peer_may_run R1_AMP_MAILMSG_UNARMED" "\<not> peer_may_run R1_AMP_MAILMSG_OFFLINE"
  "peer_may_run R1_AMP_MAILMSG_STARTING" "peer_may_run R1_AMP_MAILMSG_START_TIMEOUT"
  "peer_may_run R1_AMP_MAILMSG_ACTIVE" "peer_may_run R1_AMP_MAILMSG_STOPPING"
  "peer_may_run R1_AMP_MAILMSG_STOP_TIMEOUT"
  "lifecycle_pending R1_AMP_MAILMSG_STARTING" "lifecycle_pending R1_AMP_MAILMSG_STOPPING"
  "\<not> lifecycle_pending R1_AMP_MAILMSG_UNARMED" "\<not> lifecycle_pending R1_AMP_MAILMSG_START_TIMEOUT"
  "\<not> lifecycle_pending R1_AMP_MAILMSG_ACTIVE" "\<not> lifecycle_pending R1_AMP_MAILMSG_STOP_TIMEOUT"
  "\<not> lifecycle_pending R1_AMP_MAILMSG_OFFLINE"
  by (simp_all add: state_simps)

lemma lifecycle_pending_may_run: "lifecycle_pending s \<Longrightarrow> peer_may_run s"
  by (cases s) simp_all

lemma gate_0_iff: "r1_amp_mailmsg_data_gate_locked d = 0 \<longleftrightarrow> mailmsg_state d = R1_AMP_MAILMSG_ACTIVE"
  by (simp add: r1_amp_mailmsg_data_gate_locked_def split: r1_amp_mailmsg_session_state.split)

lemma gate_errnos: "r1_amp_mailmsg_data_gate_locked d \<in> {0, - EAGAIN, - ETIMEDOUT, - ESHUTDOWN, - ENOLINK}"
  by (simp add: r1_amp_mailmsg_data_gate_locked_def split: r1_amp_mailmsg_session_state.split)

lemma time_before_iff: "time_before a b \<longleftrightarrow> \<not> time_after_eq a b"
  by (auto simp: time_before_def time_after_eq_def)

subsection \<open>Wake-ups touch the user channels only\<close>

definition wake_list :: "r1_amp_mailmsg_user_channel list \<Rightarrow> r1_amp_mailmsg_user_channel list" where
  "wake_list us = fold (\<lambda>p us. us[unat p := wake_reader (us ! unat p)]) [0, 1, 2, 3 :: u32] us"

lemma wake_readers_eq [simp]: "wake_readers d = d\<lparr>mailmsg_user := wake_list (mailmsg_user d)\<rparr>"
  by (simp add: wake_readers_def wake_list_def upd_user_def)

lemma list4_cases:
  assumes "length us = 4"
  obtains a b c e where "us = [a, b, c, e]"
  using assms that by (auto simp: numeral_eq_Suc length_Suc_conv)

lemma wake_list_map: "length us = 4 \<Longrightarrow> wake_list us = map wake_reader us"
  by (auto simp: wake_list_def elim: list4_cases)

lemma users_wf_wake [simp]: "users_wf (wake_list us) = users_wf us"
proof -
  have "length (wake_list us) = length us" by (simp add: wake_list_def)
  then show ?thesis
    by (cases "length us = 4") (auto simp: users_wf_def wake_list_map wake_reader_def)
qed

lemma users_wf_update:
  assumes "users_wf us" and "\<And>u. uc_priority (f u) = uc_priority u"
    and "unat p < 4 \<Longrightarrow> uc_reader_open_count (us ! unat p) \<le> 1 \<Longrightarrow> uc_reader_open_count (f (us ! unat p)) \<le> 1"
  shows "users_wf (us[unat p := f (us ! unat p)])"
proof (cases "unat p < 4")
  case True
  with assms show ?thesis by (auto simp: users_wf_def nth_list_update)
next
  case False
  with assms show ?thesis by (simp add: users_wf_def list_update_beyond)
qed

lemma channels_wf_fields [simp]:
  "channels_wf (c\<lparr>mbox_regs0 := r\<rparr>) = channels_wf c"
  "channels_wf (c\<lparr>notify_inject_remaining := n\<rparr>) = channels_wf c"
  "channels_wf (c\<lparr>mailmsg_last_notify_result := e\<rparr>) = channels_wf c"
  "channels_wf (c\<lparr>lifecycle_notify_bypass := b\<rparr>) = channels_wf c"
  "channels_wf (c\<lparr>notify_inject_priority := u\<rparr>) = channels_wf c"
  by (simp_all add: channels_wf_def)

lemma channels_wf_upd_channel [simp]:
  assumes "\<And>ch. controller_channel (f ch) = controller_channel ch" "\<And>ch. ch_index (f ch) = ch_index ch"
  shows "channels_wf (upd_channel f i c) = channels_wf c"
proof -
  have "ch_index ((mbox c)[unat i := f (mbox c ! unat i)] ! j) = ch_index (mbox c ! j)" for j
    using assms by (cases "unat i < length (mbox c)"; cases "j = unat i") (simp_all add: list_update_beyond not_less)
  then show ?thesis using assms by (simp add: channels_wf_def) (simp add: upd_channel_def)
qed

subsection \<open>The shared helpers keep the invariants\<close>

lemma lifecycle_fields [simp]:
  "driver_wf wr (d\<lparr>affinity_state := i\<rparr>) pg = driver_wf wr d pg"
  "driver_wf wr (d\<lparr>affinity_queried := b\<rparr>) pg = driver_wf wr d pg"
  "driver_wf wr (d\<lparr>affinity_seen_on := b\<rparr>) pg = driver_wf wr d pg"
  "driver_wf wr (d\<lparr>mailmsg_state := s\<rparr>) pg = driver_wf wr d pg"
  "driver_wf wr (d\<lparr>affinity_work := w\<rparr>) pg = driver_wf wr d pg"
  "driver_wf wr (d\<lparr>control_work := b\<rparr>) pg = driver_wf wr d pg"
  "driver_wf wr (d\<lparr>lifecycle_timeout_work := w\<rparr>) pg = driver_wf wr d pg"
  "driver_wf wr (d\<lparr>session_result := i\<rparr>) pg = driver_wf wr d pg"
  "driver_wf wr (d\<lparr>stop_result := i\<rparr>) pg = driver_wf wr d pg"
  "driver_wf wr (d\<lparr>affinity_monitor_count := u\<rparr>) pg = driver_wf wr d pg"
  "driver_wf wr (d\<lparr>affinity_monitor_error_count := u\<rparr>) pg = driver_wf wr d pg"
  "driver_wf wr (d\<lparr>mailmsg_user := wake_list (mailmsg_user d)\<rparr>) pg = driver_wf wr d pg"
  by (simp_all add: driver_wf_def)

lemma seen_on_if: "(if P then d\<lparr>affinity_seen_on := True\<rparr> else d) = d\<lparr>affinity_seen_on := P \<or> affinity_seen_on d\<rparr>"
  by simp

lemma seen_on_same:
  "affinity_seen_on d \<Longrightarrow> d\<lparr>affinity_state := i, affinity_queried := b, affinity_seen_on := True\<rparr> =
     d\<lparr>affinity_state := i, affinity_queried := b\<rparr>"
  "\<not> affinity_seen_on d \<Longrightarrow> d\<lparr>affinity_state := i, affinity_queried := b, affinity_seen_on := False\<rparr> =
     d\<lparr>affinity_state := i, affinity_queried := b\<rparr>"
  by simp_all

lemma refresh_affinity_cases:
  assumes "psci_affinity_info env = Some q"
  obtains (stays) b where "r1_amp_refresh_affinity_locked env d =
      Some (q (mpidr d), d\<lparr>affinity_state := q (mpidr d), affinity_queried := True, affinity_seen_on := b\<rparr>)"
      "affinity_seen_on d \<Longrightarrow> b" "q (mpidr d) = 1 \<Longrightarrow> b = affinity_seen_on d"
      "q (mpidr d) = 1 \<Longrightarrow> cpu_on_ret d = 0 \<Longrightarrow> peer_may_run (mailmsg_state d) \<Longrightarrow> \<not> affinity_seen_on d"
  | (offline) "r1_amp_refresh_affinity_locked env d =
      Some (1, d\<lparr>affinity_state := 1, affinity_queried := True, mailmsg_state := R1_AMP_MAILMSG_OFFLINE,
        lifecycle_timeout_work := None, mailmsg_user := wake_list (mailmsg_user d)\<rparr>)"
      "q (mpidr d) = 1" "cpu_on_ret d = 0" "affinity_seen_on d" "peer_may_run (mailmsg_state d)"
proof -
  let ?s = "q (mpidr d)" and ?b = "q (mpidr d) = 0 \<or> q (mpidr d) = 2 \<or> affinity_seen_on d"
  let ?d = "d\<lparr>affinity_state := ?s, affinity_queried := True, affinity_seen_on := ?b\<rparr>"
  have eq: "r1_amp_refresh_affinity_locked env d =
      Some (?s, if cpu_on_ret d = 0 \<and> ?b \<and> ?s = 1 then r1_amp_mailmsg_mark_offline_locked ?d else ?d)"
    unfolding r1_amp_refresh_affinity_locked_def assms bind.bind_lunit Let_def seen_on_if
    by (cases "affinity_seen_on d"; cases "?s = 0"; cases "?s = 2") (simp_all add: seen_on_same)
  show thesis
  proof (cases "cpu_on_ret d = 0 \<and> affinity_seen_on d \<and> ?s = 1 \<and> peer_may_run (mailmsg_state d)")
    case True
    then have "?d = d\<lparr>affinity_state := 1, affinity_queried := True\<rparr>" by simp
    with True eq show thesis by (intro offline) (simp_all add: r1_amp_mailmsg_mark_offline_locked_def)
  next
    case False
    have "(if cpu_on_ret d = 0 \<and> ?b \<and> ?s = 1 then r1_amp_mailmsg_mark_offline_locked ?d else ?d) = ?d"
    proof (cases "cpu_on_ret d = 0 \<and> ?b \<and> ?s = 1")
      case True
      with False have "\<not> peer_may_run (mailmsg_state ?d)" by auto
      then show ?thesis by (simp only: r1_amp_mailmsg_mark_offline_locked_def if_True not_False_eq_True if_cancel)
    qed (simp only: if_False)
    with eq have "r1_amp_refresh_affinity_locked env d = Some (?s, ?d)" by simp
    then show thesis by (rule stays) (use False in auto)
  qed
qed

end
