(* ===== verification/Mailmsg_Drain.thy ===== *)
theory Mailmsg_Drain
  imports Mailmsg_Endpoint
begin

text \<open>
  What the receive loops of both sides share: a receive on a bound endpoint by the head
  of the queue, and the relation between the states before and after a number of
  receives on one priority.
\<close>

definition same_session :: "'c mailmsg_endpoint \<Rightarrow> mailmsg_shared \<Rightarrow> 'c mailmsg_endpoint \<Rightarrow> mailmsg_shared \<Rightarrow> bool" where
  "same_session ep sh ep' sh' \<longleftrightarrow> shared_wf sh' \<and> endpoint_wf ep' \<and>
     ep_shared ep' = ep_shared ep \<and> ep_tx ep' = ep_tx ep \<and> ep_rx ep' = ep_rx ep \<and>
     ep_memory_ops ep' = ep_memory_ops ep \<and> ep_notify ep' = ep_notify ep \<and> ep_generation ep' = ep_generation ep \<and>
     shm_magic sh' = shm_magic sh \<and> shm_version sh' = shm_version sh \<and> shm_generation sh' = shm_generation sh"

definition drained :: "ring_array \<Rightarrow> u32 \<Rightarrow> 'c mailmsg_endpoint \<Rightarrow> mailmsg_shared \<Rightarrow> 'c mailmsg_endpoint \<Rightarrow> mailmsg_shared \<Rightarrow> bool" where
  "drained rx p ep sh ep' sh' \<longleftrightarrow> same_session ep sh ep' sh' \<and> ep_next_sequence ep' = ep_next_sequence ep \<and>
     (\<forall>a q. q < 4 \<longrightarrow> a \<noteq> rx \<or> q \<noteq> p \<longrightarrow> shared_ring sh' a q = shared_ring sh a q)"

lemma same_session_refl: "shared_wf sh \<Longrightarrow> endpoint_wf ep \<Longrightarrow> same_session ep sh ep sh"
  by (simp add: same_session_def)

lemma same_session_trans:
  "same_session ep sh ep' sh' \<Longrightarrow> same_session ep' sh' ep'' sh'' \<Longrightarrow> same_session ep sh ep'' sh''"
  by (simp add: same_session_def)

lemma same_session_bound:
  "same_session ep sh ep' sh' \<Longrightarrow> endpoint_bound ep' sh' tx rx = endpoint_bound ep sh tx rx"
  by (simp add: same_session_def endpoint_bound_def mailmsg_endpoint_session_valid_def)

lemma drained_refl: "shared_wf sh \<Longrightarrow> endpoint_wf ep \<Longrightarrow> drained rx p ep sh ep sh"
  by (simp add: drained_def same_session_refl)

lemma drained_trans:
  "drained rx p ep sh ep' sh' \<Longrightarrow> drained rx p ep' sh' ep'' sh'' \<Longrightarrow> drained rx p ep sh ep'' sh''"
  by (auto simp: drained_def intro: same_session_trans)

lemma drained_session: "drained rx p ep sh ep' sh' \<Longrightarrow> same_session ep sh ep' sh'"
  by (simp add: drained_def)

text \<open>The three outcomes of a receive on a bound endpoint.\<close>

lemma bound_receive_cases:
  assumes "endpoint_bound ep sh tx rx" and "shared_wf sh" and "endpoint_wf ep" and "p < 4"
  obtains (empty) "ring_frames (shared_ring sh rx p) = []"
      "mailmsg_endpoint_receive ep sh p m = Some (MAILMSG_RING_EMPTY, ep, sh, m)"
  | (incomplete) f fs ep' where "ring_frames (shared_ring sh rx p) = f # fs"
      "frame_status f = MAILMSG_RING_INCOMPLETE"
      "mailmsg_endpoint_receive ep sh p m = Some (MAILMSG_RING_INCOMPLETE, ep', sh, m)"
      "drained rx p ep sh ep' sh"
  | (frame) f fs ep' sh' where "ring_frames (shared_ring sh rx p) = f # fs"
      "frame_status f \<noteq> MAILMSG_RING_INCOMPLETE"
      "mailmsg_endpoint_receive ep sh p m = Some (receive_status (ep_generation ep) f, ep', sh', f)"
      "drained rx p ep sh ep' sh'" "ring_frames (shared_ring sh' rx p) = fs"
proof -
  from assms(1) have ep: "ep_rx ep = Some rx" "mailmsg_endpoint_session_valid ep sh = 0"
    by (simp_all add: endpoint_bound_def)
  show thesis
  proof (cases "ring_frames (shared_ring sh rx p)")
    case Nil
    with ep assms show thesis by (intro empty) (simp_all add: receive_empty)
  next
    case (Cons f fs)
    show thesis
    proof (cases "frame_status f = MAILMSG_RING_INCOMPLETE")
      case True
      show thesis
        by (rule incomplete [OF Cons True receive_incomplete [OF ep assms(2,4) Cons True]])
           (use assms in \<open>simp add: drained_def same_session_def\<close>)
    next
      case False
      note r = receive_frame [OF ep assms(2,4,3) Cons False, of m]
      show thesis
      proof (rule frame [OF Cons False r])
        show "drained rx p ep sh (upd_stats (received_stats (receive_status (ep_generation ep) f)) p ep)
            (set_shared_ring sh rx p (ring_after_pop (shared_ring sh rx p)))"
          using assms receive_keeps [OF assms(2,3) r]
          by (auto simp: drained_def same_session_def shared_ring_set)
        show "ring_frames (shared_ring (set_shared_ring sh rx p (ring_after_pop (shared_ring sh rx p))) rx p) = fs"
          using assms Cons ring_frames_Cons(1) [OF shared_ring_wf [OF assms(2,4)] Cons]
          by (simp add: shared_ring_set)
      qed
    qed
  qed
qed

lemma receive_status_not_empty: "receive_status g f \<noteq> MAILMSG_RING_EMPTY"
  and receive_status_incomplete:
    "frame_status f \<noteq> MAILMSG_RING_INCOMPLETE \<Longrightarrow> receive_status g f \<noteq> MAILMSG_RING_INCOMPLETE"
  by (simp_all add: receive_status_def frame_status_def)

text \<open>A frame error is a wire-level code or a stale frame, never a session error.\<close>

lemma receive_status_range:
  "frame_status f \<noteq> MAILMSG_RING_INCOMPLETE \<Longrightarrow>
   receive_status g f \<in> {0, MAILMSG_RING_BAD_CRC, MAILMSG_RING_INVALID, MAILMSG_ENDPOINT_STALE_FRAME}"
  by (auto simp: receive_status_def frame_status_def split: if_splits)

lemma ring_frames_wf:
  assumes "ring_wf r" and "f \<in> set (ring_frames r)"
  shows "message_wf f"
proof -
  from assms(2) obtain i where "f = rb_slot r ! ((unat (rb_consumer r) + i) mod 8)" by (auto simp: ring_frames_def)
  moreover have "(unat (rb_consumer r) + i) mod 8 < length (rb_slot r)" using assms(1) by (simp add: ring_wf_def)
  ultimately show ?thesis using assms(1) by (auto simp: ring_wf_def)
qed

lemma receive_ok_frame:
  assumes "receive_status g f = 0"
  shows "frame_status f = 0" "msg_generation f = g" "msg_length f \<le> 28"
  using assms by (auto simp: receive_status_def frame_status_def frame_valid_def split: if_splits)

lemma receive_ok_payload:
  assumes "shared_wf sh" and "p < 4" and "f \<in> set (ring_frames (shared_ring sh a p))" and "receive_status g f = 0"
  shows "length (msg_payload f) = 28" "unat (msg_length f) \<le> 28"
  using ring_frames_wf [OF shared_ring_wf [OF assms(1,2)] assms(3)] receive_ok_frame(3) [OF assms(4)]
  by (simp_all add: message_wf_def word_le_nat_alt)

end
