(* ===== verification/Amp_Lifecycle.thy ===== *)
theory Amp_Lifecycle
  imports Amp_State Mailmsg_Drain
begin

text \<open>
  The CPU lifecycle of the driver: start, the work items that wait for SESSION_READY and
  for the stop reply, the timeout, the controlled stop and rearm.
\<close>

subsection \<open>Kernel helpers\<close>

text \<open>\<open>sysfs_streq\<close>: equality up to one trailing newline; strings carry no NUL here.\<close>

fun sysfs_streq :: "string \<Rightarrow> string \<Rightarrow> bool" where
  "sysfs_streq [] [] = True"
| "sysfs_streq [] (y # ys) = (y = CHR 0x0A \<and> ys = [])"
| "sysfs_streq (x # xs) [] = (x = CHR 0x0A \<and> xs = [])"
| "sysfs_streq (x # xs) (y # ys) = (x = y \<and> sysfs_streq xs ys)"

definition mailmsg_linux_memory_ops :: mailmsg_memory_ops where
  "mailmsg_linux_memory_ops = both_hooks"

definition mailmsg_ring_result_to_errno :: "int \<Rightarrow> int" where
  "mailmsg_ring_result_to_errno result =
     (if result = MAILMSG_RING_OK then 0
      else if result = MAILMSG_RING_EMPTY then - ENODATA
      else if result = MAILMSG_RING_FULL then - ENOSPC
      else if result = MAILMSG_RING_INCOMPLETE then - EAGAIN
      else if result = MAILMSG_RING_BAD_CRC then - EBADMSG
      else if result = MAILMSG_RING_INVALID then - EPROTO
      else if result = MAILMSG_ENDPOINT_INVALID then - EINVAL
      else if result = MAILMSG_ENDPOINT_PROTOCOL_MISMATCH then - EPROTO
      else if result = MAILMSG_ENDPOINT_STALE_SESSION \<or> result = MAILMSG_ENDPOINT_STALE_FRAME then - ESTALE
      else - EIO)"

subsection \<open>Waiting for the peer\<close>

text \<open>
  One valid frame in \<open>r1_amp_mailmsg_control_work\<close>; the second component says that the
  loop goes on.  \<open>n\<close> is the number of \<open>jiffies\<close> readings so far.
\<close>

definition session_ready_matches :: "r1_amp_cpu_on_data \<Rightarrow> mailmsg_message \<Rightarrow> bool" where
  "session_ready_matches d response \<longleftrightarrow>
     \<not> (msg_type response \<noteq> MAILMSG_MSG_SESSION_READY \<or> msg_length response < MAILMSG_SESSION_BYTES \<or>
        mailmsg_payload_u32 (msg_payload response) MAILMSG_SESSION_GENERATION_OFFSET \<noteq> session_generation d \<or>
        mailmsg_payload_u32 (msg_payload response) MAILMSG_SESSION_VERSION_OFFSET \<noteq> MAILMSG_PROTOCOL_VERSION)"

definition stop_reply_matches :: "r1_amp_cpu_on_data \<Rightarrow> mailmsg_message \<Rightarrow> bool" where
  "stop_reply_matches d response \<longleftrightarrow>
     \<not> (msg_type response \<noteq> MAILMSG_MSG_STOP_READY \<and> msg_type response \<noteq> MAILMSG_MSG_STOP_REFUSED \<or>
        msg_length response < MAILMSG_FEEDBACK_BYTES \<or>
        mailmsg_payload_u32 (msg_payload response) MAILMSG_FEEDBACK_SEQUENCE_OFFSET \<noteq> stop_request_sequence d)"

definition control_frame ::
  "amp_env \<Rightarrow> nat \<Rightarrow> r1_amp_cpu_on_data \<Rightarrow> mailmsg_message \<Rightarrow> r1_amp_cpu_on_data \<times> bool" where
  "control_frame env n d response =
     (if time_after_eq (jiffies env n) (lifecycle_deadline d)
      then ((r1_amp_mailmsg_set_timeout_locked d)\<lparr>lifecycle_timeout_work := None\<rparr>, False)
      else if mailmsg_state d = R1_AMP_MAILMSG_STARTING
      then if \<not> session_ready_matches d response then (d, True)
           else (d\<lparr>peer_generation := session_generation d, session_result := 0, affinity_seen_on := True,
                   mailmsg_state := R1_AMP_MAILMSG_ACTIVE, lifecycle_timeout_work := None\<rparr>, False)
      else if \<not> stop_reply_matches d response then (d, True)
      else if msg_type response = MAILMSG_MSG_STOP_READY
      then (d\<lparr>stop_reply_type := msg_type response, stop_result := 0,
              lifecycle_deadline := jiffies env (Suc n) + msecs_to_jiffies env R1_AMP_LIFECYCLE_TIMEOUT_MS,
              lifecycle_timeout_work := Some (msecs_to_jiffies env R1_AMP_LIFECYCLE_TIMEOUT_MS)\<rparr>, False)
      else (d\<lparr>stop_reply_type := msg_type response, stop_result := - ECANCELED,
              mailmsg_state := R1_AMP_MAILMSG_ACTIVE, lifecycle_timeout_work := None\<rparr>, False))"

definition control_error :: "r1_amp_cpu_on_data \<Rightarrow> int \<Rightarrow> r1_amp_cpu_on_data \<times> bool" where
  "control_error d ret =
     (if ret = MAILMSG_ENDPOINT_STALE_FRAME then (d, True)
      else
        (if mailmsg_state d = R1_AMP_MAILMSG_STARTING
         then d\<lparr>session_result := mailmsg_ring_result_to_errno ret\<rparr>
         else d\<lparr>stop_result := mailmsg_ring_result_to_errno ret\<rparr>,
         \<not> ret \<le> MAILMSG_ENDPOINT_INVALID))"

text \<open>
  The \<open>for (;;)\<close> loop.  With a producer index beyond the slots it need not end, hence the
  option domain: lemma \<open>control_loop_spec\<close> shows that it ends on rings with indices in range,
  lemma \<open>control_loop_spins\<close> of \<open>Amp_Handshake\<close> that it does not on a ring whose producer index
  is no slot and whose slots hold damaged or stale frames.
\<close>

partial_function (option) control_loop ::
  "amp_env \<Rightarrow> nat \<Rightarrow> r1_amp_cpu_on_data \<Rightarrow> amp_page \<Rightarrow> mailmsg_message \<Rightarrow> (r1_amp_cpu_on_data \<times> amp_page) option" where
  "control_loop env n d pg response = do {
     (ret, ep, sh, response) \<leftarrow> mailmsg_endpoint_receive (d_endpoint d) (pg_mailmsg pg) MAILMSG_PRIO_CRITICAL response;
     let d = d\<lparr>d_endpoint := ep\<rparr>;
     let pg = pg\<lparr>pg_mailmsg := sh\<rparr>;
     if ret = MAILMSG_RING_EMPTY \<or> ret = MAILMSG_RING_INCOMPLETE then Some (d, pg)
     else do {
       let (d', more) = (if ret \<noteq> 0 then control_error d ret else control_frame env n d response);
       if more then control_loop env (if ret \<noteq> 0 then n else Suc n) d' pg response
       else Some (d', pg) } }"

definition r1_amp_mailmsg_control_work ::
  "amp_env \<Rightarrow> mailmsg_message \<Rightarrow> r1_amp_cpu_on_data \<Rightarrow> amp_page \<Rightarrow> (r1_amp_cpu_on_data \<times> amp_page) option" where
  "r1_amp_mailmsg_control_work env response d pg =
     (let d = d\<lparr>control_work := False\<rparr> in
      if mailmsg_state d \<noteq> R1_AMP_MAILMSG_STARTING \<and> mailmsg_state d \<noteq> R1_AMP_MAILMSG_STOPPING
      then Some (d, pg)
      else if time_after_eq (jiffies env 0) (lifecycle_deadline d)
      then Some ((r1_amp_mailmsg_set_timeout_locked d)\<lparr>lifecycle_timeout_work := None\<rparr>, pg)
      else control_loop env 1 d pg response)"

definition r1_amp_mailmsg_lifecycle_timeout_work ::
  "amp_env \<Rightarrow> r1_amp_cpu_on_data \<Rightarrow> r1_amp_cpu_on_data option" where
  "r1_amp_mailmsg_lifecycle_timeout_work env d =
     (let d = d\<lparr>lifecycle_timeout_work := None\<rparr> in
      if mailmsg_state d \<noteq> R1_AMP_MAILMSG_STARTING \<and> mailmsg_state d \<noteq> R1_AMP_MAILMSG_STOPPING then Some d
      else if time_before (jiffies env 0) (lifecycle_deadline d)
      then Some (d\<lparr>lifecycle_timeout_work := Some (lifecycle_deadline d - jiffies env 1)\<rparr>)
      else if mailmsg_state d = R1_AMP_MAILMSG_STOPPING \<and> stop_reply_type d = MAILMSG_MSG_STOP_READY
      then do {
        (_, d) \<leftarrow> r1_amp_refresh_affinity_locked env d;
        Some (if mailmsg_state d = R1_AMP_MAILMSG_OFFLINE then d else r1_amp_mailmsg_set_timeout_locked d) }
      else Some (r1_amp_mailmsg_set_timeout_locked d))"

subsection \<open>Start, stop, rearm\<close>

definition start_store ::
  "amp_env \<Rightarrow> string \<Rightarrow> int \<Rightarrow> r1_amp_cpu_on_data \<Rightarrow> amp_page \<Rightarrow> (int \<times> r1_amp_cpu_on_data \<times> amp_page) option" where
  "start_store env buf count d pg =
     (if \<not> sysfs_streq buf ''start'' then Some (- EINVAL, d, pg)
      else if mailmsg_user_removing d then Some (- ENODEV, d, pg)
      else if cpu_on_attempted d then Some (- EALREADY, d, pg)
      else if image_written d \<noteq> ucast (image_size d) then Some (- ENODATA, d, pg)
      else case (psci_affinity_info env, psci_cpu_on env) of
        (Some _, Some cpu_on) \<Rightarrow> do {
          (_, d) \<leftarrow> r1_amp_refresh_affinity_locked env d;
          if affinity_state d \<noteq> PSCI_0_2_AFFINITY_LEVEL_OFF then Some (- EBUSY, d, pg)
          else do {
            let g = session_generation d + 1;
            let g = (if g = 0 then g + 1 else g);
            let d = d\<lparr>session_generation := g\<rparr>;
            let pg = zero_state_page pg;
            let pg = pg\<lparr>pg_mailmsg := (pg_mailmsg pg)\<lparr>shm_magic := MAILMSG_PROTOCOL_MAGIC,
                          shm_version := MAILMSG_PROTOCOL_VERSION, shm_generation := session_generation d\<rparr>\<rparr>;
            let (ret, ep) = mailmsg_endpoint_bind (d_endpoint d) (Some (pg_mailmsg pg))
                              (Some mailmsg_linux_memory_ops) (Some (d_notify_endpoint d))
                              (Some MAILMSG_ENDPOINT_LINUX);
            let d = d\<lparr>d_endpoint := ep\<rparr>;
            if ret \<noteq> 0 then Some (- EPROTO, d, pg)
            else do {
              let d = d\<lparr>peer_generation := 0, session_result := - EINPROGRESS, stop_request_sequence := 0,
                        stop_reply_type := 0, stop_result := - EAGAIN, stop_notify_result := - EAGAIN,
                        mailmsg_state := R1_AMP_MAILMSG_STARTING,
                        d_ctx := (d_ctx d)\<lparr>lifecycle_notify_bypass := False\<rparr>,
                        affinity_seen_on := False, cpu_on_attempted := True,
                        cpu_on_ret := cpu_on (mpidr d) (entry d)\<rparr>;
              let d = (if cpu_on_ret d \<noteq> 0
                       then d\<lparr>mailmsg_state := R1_AMP_MAILMSG_UNARMED, session_result := cpu_on_ret d\<rparr>
                       else d\<lparr>lifecycle_deadline := jiffies env 0 + msecs_to_jiffies env R1_AMP_LIFECYCLE_TIMEOUT_MS,
                              affinity_work := Some (msecs_to_jiffies env R1_AMP_AFFINITY_MONITOR_MS),
                              lifecycle_timeout_work := Some (msecs_to_jiffies env R1_AMP_LIFECYCLE_TIMEOUT_MS)\<rparr>);
              Some (if cpu_on_ret d \<noteq> 0 then cpu_on_ret d else count, d, pg) } } }
      | _ \<Rightarrow> Some (- EOPNOTSUPP, d, pg))"

text \<open>The preflight loop; \<open>None\<close> is that all priorities passed.\<close>

fun stop_preflight_rings :: "r1_amp_cpu_on_data \<Rightarrow> mailmsg_shared \<Rightarrow> u32 list \<Rightarrow> int option" where
  "stop_preflight_rings d sh [] = None"
| "stop_preflight_rings d sh (p # ps) =
     (let ret = mailmsg_endpoint_has_received (d_endpoint d) sh p in
      if ret \<noteq> MAILMSG_RING_EMPTY then Some (if 0 < ret then - EBUSY else mailmsg_ring_result_to_errno ret)
      else
        let ret = mailmsg_ring_has_data (Some (shared_ring sh Linux_to_cpu3 p)) (Some mailmsg_linux_memory_ops) in
        if ret \<noteq> MAILMSG_RING_EMPTY then Some (if 0 < ret then - EBUSY else mailmsg_ring_result_to_errno ret)
        else stop_preflight_rings d sh ps)"

definition r1_amp_mailmsg_stop_preflight_locked :: "r1_amp_cpu_on_data \<Rightarrow> mailmsg_shared \<Rightarrow> int" where
  "r1_amp_mailmsg_stop_preflight_locked d sh =
     (if mailmsg_user_open_count d \<noteq> 0 then - EBUSY
      else if ep_tx (d_endpoint d) = None \<or> ep_rx (d_endpoint d) = None then - EPROTO
      else case stop_preflight_rings d sh [0, 1, 2, 3] of
        Some ret \<Rightarrow> ret
      | None \<Rightarrow> if mbox_regs0 (d_ctx d) A2B_STATUS AND 0xf \<noteq> 0 then - EBUSY else 0)"

definition mailmsg_stop_store ::
  "amp_env \<Rightarrow> string \<Rightarrow> int \<Rightarrow> r1_amp_cpu_on_data \<Rightarrow> amp_page \<Rightarrow> (int \<times> r1_amp_cpu_on_data \<times> amp_page) option" where
  "mailmsg_stop_store env buf count d pg =
     (if \<not> sysfs_streq buf ''stop'' then Some (- EINVAL, d, pg)
      else if mailmsg_state d = R1_AMP_MAILMSG_OFFLINE then Some (- ENOLINK, d, pg)
      else if mailmsg_state d \<noteq> R1_AMP_MAILMSG_ACTIVE then Some (- EBUSY, d, pg)
      else
        let ret = r1_amp_mailmsg_stop_preflight_locked d (pg_mailmsg pg) in
        if ret \<noteq> 0 then Some (ret, d, pg)
        else do {
          let d = d\<lparr>mailmsg_state := R1_AMP_MAILMSG_STOPPING, stop_request_sequence := 0, stop_reply_type := 0,
                    stop_result := - EINPROGRESS, stop_notify_result := - EINPROGRESS,
                    d_ctx := (d_ctx d)\<lparr>lifecycle_notify_bypass := True\<rparr>\<rparr>;
          (ret, ep, sh, ctx, send_result) \<leftarrow>
            mailmsg_endpoint_send (d_endpoint d) (pg_mailmsg pg) (d_ctx d) MAILMSG_PRIO_CRITICAL
              MAILMSG_MSG_STOP_REQUEST None 0 zero_result;
          let d = d\<lparr>d_endpoint := ep, d_ctx := ctx\<lparr>lifecycle_notify_bypass := False\<rparr>\<rparr>;
          let pg = pg\<lparr>pg_mailmsg := sh\<rparr>;
          if ret \<noteq> 0 then
            let err = (if ret \<le> MAILMSG_ENDPOINT_INVALID then mailmsg_ring_result_to_errno ret
                       else mailmsg_ring_result_to_errno (queue_result send_result))
            in Some (if err \<noteq> 0 then err else count,
                     d\<lparr>mailmsg_state := R1_AMP_MAILMSG_ACTIVE, stop_result := err\<rparr>, pg)
          else
            let nr = notify_result send_result;
                ret = (if \<not> mailmsg_notify_accepted nr \<and> nr < 0 then nr else 0)
            in Some (if ret \<noteq> 0 then ret else count,
                     d\<lparr>stop_request_sequence := res_sequence send_result, stop_notify_result := nr,
                       lifecycle_deadline := jiffies env 0 + msecs_to_jiffies env R1_AMP_LIFECYCLE_TIMEOUT_MS,
                       lifecycle_timeout_work := Some (msecs_to_jiffies env R1_AMP_LIFECYCLE_TIMEOUT_MS)\<rparr>, pg) })"

definition rearm_store ::
  "amp_env \<Rightarrow> string \<Rightarrow> int \<Rightarrow> r1_amp_cpu_on_data \<Rightarrow> (int \<times> r1_amp_cpu_on_data) option" where
  "rearm_store env buf count d =
     (if \<not> sysfs_streq buf ''rearm'' then Some (- EINVAL, d)
      else if \<not> cpu_on_attempted d then Some (- EINVAL, d)
      else if mailmsg_user_open_count d \<noteq> 0 then Some (- EBUSY, d)
      else if psci_affinity_info env = None then Some (- EOPNOTSUPP, d)
      else do {
        (_, d) \<leftarrow> r1_amp_refresh_affinity_locked env d;
        if affinity_state d \<noteq> PSCI_0_2_AFFINITY_LEVEL_OFF then Some (- EBUSY, d)
        else if mbox_regs0 (d_ctx d) A2B_STATUS \<noteq> 0 then Some (- EBUSY, d)
        else
          Some (count,
            d\<lparr>d_endpoint := zero_endpoint, lifecycle_timeout_work := None, image_written := 0,
              cpu_on_attempted := False, cpu_on_ret := - EAGAIN, affinity_seen_on := False,
              mailmsg_state := R1_AMP_MAILMSG_UNARMED, peer_generation := 0, session_result := - EAGAIN,
              next_sequence := 0, stop_request_sequence := 0, stop_reply_type := 0,
              stop_result := - EAGAIN, stop_notify_result := - EAGAIN,
              d_ctx := (d_ctx d)\<lparr>mailmsg_last_notify_result := - EAGAIN, notify_inject_remaining := 0,
                                 lifecycle_notify_bypass := False\<rparr>\<rparr>) })"

subsection \<open>The control loop as a scan of the queue\<close>

text \<open>
  What the loop does, on the list of frames that the p0 ring of CPU3 holds: the state it
  ends in and the frames it leaves.
\<close>

fun control_scan ::
  "amp_env \<Rightarrow> nat \<Rightarrow> r1_amp_cpu_on_data \<Rightarrow> mailmsg_message list \<Rightarrow> r1_amp_cpu_on_data \<times> mailmsg_message list" where
  "control_scan env n d [] = (d, [])"
| "control_scan env n d (f # fs) =
     (if frame_status f = MAILMSG_RING_INCOMPLETE then (d, f # fs)
      else
        let ret = receive_status (ep_generation (d_endpoint d)) f;
            (d', more) = (if ret \<noteq> 0 then control_error d ret else control_frame env n d f)
        in if more then control_scan env (if ret \<noteq> 0 then n else Suc n) d' fs else (d', fs))"

lemma matches_endpoint [simp]:
  "session_ready_matches (d\<lparr>d_endpoint := e\<rparr>) f = session_ready_matches d f"
  "stop_reply_matches (d\<lparr>d_endpoint := e\<rparr>) f = stop_reply_matches d f"
  by (simp_all add: session_ready_matches_def stop_reply_matches_def)

lemma set_timeout_endpoint:
  "r1_amp_mailmsg_set_timeout_locked (d\<lparr>d_endpoint := e\<rparr>) = (r1_amp_mailmsg_set_timeout_locked d)\<lparr>d_endpoint := e\<rparr>"
  by (simp add: r1_amp_mailmsg_set_timeout_locked_def)

lemma control_error_endpoint:
  "control_error (d\<lparr>d_endpoint := e\<rparr>) r = (fst (control_error d r)\<lparr>d_endpoint := e\<rparr>, snd (control_error d r))"
  by (simp add: control_error_def)

lemma control_frame_endpoint:
  "control_frame env n (d\<lparr>d_endpoint := e\<rparr>) f =
     (fst (control_frame env n d f)\<lparr>d_endpoint := e\<rparr>, snd (control_frame env n d f))"
  by (simp add: control_frame_def set_timeout_endpoint)

lemma control_keeps_endpoint [simp]:
  "d_endpoint (fst (control_error d r)) = d_endpoint d"
  "d_endpoint (fst (control_frame env n d f)) = d_endpoint d"
  by (simp_all add: control_error_def control_frame_def r1_amp_mailmsg_set_timeout_locked_def)

lemma control_scan_endpoint:
  assumes "ep_generation e = ep_generation (d_endpoint d)"
  shows "control_scan env n (d\<lparr>d_endpoint := e\<rparr>) fs =
    (fst (control_scan env n d fs)\<lparr>d_endpoint := e\<rparr>, snd (control_scan env n d fs))"
  using assms
proof (induction fs arbitrary: n d)
  case (Cons f fs)
  then show ?case
    by (simp add: Let_def control_error_endpoint control_frame_endpoint split_beta)
qed simp

lemma control_loop_spec:
  assumes "endpoint_bound (d_endpoint d) (pg_mailmsg pg) tx rx" and "shared_wf (pg_mailmsg pg)"
    and "endpoint_wf (d_endpoint d)"
  shows "\<exists>ep' sh'. control_loop env n d pg m =
      Some (fst (control_scan env n d (ring_frames (shared_ring (pg_mailmsg pg) rx 0)))\<lparr>d_endpoint := ep'\<rparr>,
            pg\<lparr>pg_mailmsg := sh'\<rparr>) \<and>
    drained rx 0 (d_endpoint d) (pg_mailmsg pg) ep' sh' \<and>
    ring_frames (shared_ring sh' rx 0) = snd (control_scan env n d (ring_frames (shared_ring (pg_mailmsg pg) rx 0)))"
  using assms
proof (induction "ring_frames (shared_ring (pg_mailmsg pg) rx 0)" arbitrary: n d pg m)
  case Nil
  from bound_receive_cases [OF Nil(2-4), of 0 m] Nil(1)
  have "mailmsg_endpoint_receive (d_endpoint d) (pg_mailmsg pg) 0 m =
      Some (MAILMSG_RING_EMPTY, d_endpoint d, pg_mailmsg pg, m)" by force
  with Nil have "control_loop env n d pg m = Some (d, pg)"
    by (subst control_loop.simps) simp
  moreover have "drained rx 0 (d_endpoint d) (pg_mailmsg pg) (d_endpoint d) (pg_mailmsg pg)"
    using Nil by (intro drained_refl)
  ultimately show ?case
    using Nil(1) by (intro exI [of _ "d_endpoint d"] exI [of _ "pg_mailmsg pg"]) auto
next
  case (Cons f fs)
  show ?case
  proof (cases rule: bound_receive_cases [OF Cons(3-5), of 0 m, case_names zero empty incomplete frame])
    case (incomplete f' fs' ep')
    then have "control_loop env n d pg m = Some (d\<lparr>d_endpoint := ep'\<rparr>, pg)"
      by (subst control_loop.simps) simp
    with incomplete show ?thesis
      by (intro exI [of _ ep'] exI [of _ "pg_mailmsg pg"]) auto
  next
    case (frame f' fs' ep' sh')
    from frame(1) Cons(2) have f: "f' = f" "fs' = fs" by auto
    let ?ret = "receive_status (ep_generation (d_endpoint d)) f" and ?pg = "pg\<lparr>pg_mailmsg := sh'\<rparr>"
    obtain d1 more n1 where c: "(if ?ret \<noteq> 0 then control_error d ?ret else control_frame env n d f) = (d1, more)"
      and n1: "(if ?ret \<noteq> 0 then n else Suc n) = n1" by (metis surj_pair)
    then have ep1: "d_endpoint d1 = d_endpoint d"
      using control_keeps_endpoint by (metis fst_conv)
    have c': "(if ?ret \<noteq> 0 then control_error (d\<lparr>d_endpoint := ep'\<rparr>) ?ret
              else control_frame env n (d\<lparr>d_endpoint := ep'\<rparr>) f) = (d1\<lparr>d_endpoint := ep'\<rparr>, more)"
      using c by (auto simp: control_error_endpoint control_frame_endpoint split: if_splits)
    have step: "control_loop env n d pg m =
        (if more then control_loop env n1 (d1\<lparr>d_endpoint := ep'\<rparr>) ?pg f else Some (d1\<lparr>d_endpoint := ep'\<rparr>, ?pg))"
      by (subst control_loop.simps)
         (simp add: frame(3) [unfolded f] c' [unfolded f] n1 receive_status_not_empty
           receive_status_incomplete [OF frame(2) [unfolded f]] del: if_not_P)
    have scan: "control_scan env n d (f # fs) = (if more then control_scan env n1 d1 fs else (d1, fs))"
      using frame(2) f c n1 by (simp add: Let_def)
    have ses: "same_session (d_endpoint d) (pg_mailmsg pg) ep' sh'" using frame(4) by (rule drained_session)
    then have wf: "endpoint_bound ep' sh' tx rx" "shared_wf sh'" "endpoint_wf ep'"
      "ep_generation ep' = ep_generation (d_endpoint d1)"
      using Cons(3) same_session_bound [OF ses] by (simp_all add: same_session_def ep1)
    show ?thesis
    proof (cases more)
      case False
      then show ?thesis
        using frame(4,5) unfolding Cons(2) [symmetric] step scan f
        by (intro exI [of _ ep'] exI [of _ sh']) auto
    next
      case True
      from Cons(1) [of ?pg "d1\<lparr>d_endpoint := ep'\<rparr>" n1 f] frame(5) f wf
      obtain ep'' sh'' where "control_loop env n1 (d1\<lparr>d_endpoint := ep'\<rparr>) ?pg f =
          Some (fst (control_scan env n1 (d1\<lparr>d_endpoint := ep'\<rparr>) fs)\<lparr>d_endpoint := ep''\<rparr>, pg\<lparr>pg_mailmsg := sh''\<rparr>)"
        "drained rx 0 ep' sh' ep'' sh''"
        "ring_frames (shared_ring sh'' rx 0) = snd (control_scan env n1 (d1\<lparr>d_endpoint := ep'\<rparr>) fs)"
        by auto
      with True drained_trans [OF frame(4)] show ?thesis
        unfolding Cons(2) [symmetric] step scan f control_scan_endpoint [OF wf(4)] by auto
    qed
  qed (use Cons(2) in auto)
qed

text \<open>
  A scan either goes on waiting, or it ends at a valid frame of the current generation:
  with a timeout, or because that frame is the reply the driver waits for.
\<close>

definition awaiting :: "r1_amp_cpu_on_data \<Rightarrow> r1_amp_cpu_on_data \<Rightarrow> bool" where
  "awaiting d d1 \<longleftrightarrow> d1 = d\<lparr>session_result := session_result d1, stop_result := stop_result d1\<rparr>"

lemma awaiting_refl [simp]: "awaiting d d"
  by (simp add: awaiting_def)

lemma awaiting_fields:
  assumes "awaiting d d1"
  obtains a b where "d1 = d\<lparr>session_result := a, stop_result := b\<rparr>"
  using assms unfolding awaiting_def by blast

lemma awaiting_trans:
  assumes "awaiting d d1" and "awaiting d1 d2"
  shows "awaiting d d2"
proof -
  from assms(1) obtain a b where 1: "d1 = d\<lparr>session_result := a, stop_result := b\<rparr>" by (rule awaiting_fields)
  from assms(2) obtain a' b' where 2: "d2 = d1\<lparr>session_result := a', stop_result := b'\<rparr>" by (rule awaiting_fields)
  show ?thesis unfolding awaiting_def 2 1 by simp
qed

lemma awaiting_endpoint: "awaiting d d1 \<Longrightarrow> d_endpoint d1 = d_endpoint d"
  by (erule awaiting_fields) simp

lemma control_error_waits: "awaiting d (fst (control_error d r))"
  by (simp add: awaiting_def control_error_def)

lemma control_frame_more: "snd (control_frame env n d f) \<Longrightarrow> fst (control_frame env n d f) = d"
  by (cases "time_after_eq (jiffies env n) (lifecycle_deadline d)"; cases "mailmsg_state d = R1_AMP_MAILMSG_STARTING";
      cases "session_ready_matches d f"; cases "stop_reply_matches d f"; cases "msg_type f = MAILMSG_MSG_STOP_READY")
     (simp_all add: control_frame_def)

lemma control_error_more:
  assumes "frame_status f \<noteq> MAILMSG_RING_INCOMPLETE" and "receive_status g f \<noteq> 0"
  shows "snd (control_error d (receive_status g f))"
  using receive_status_range [OF assms(1), of g] assms(2) by (auto simp: control_error_def)

lemma control_scan_frame:
  assumes "frame_status f \<noteq> MAILMSG_RING_INCOMPLETE"
  shows "control_scan env n d (f # fs) =
    (if receive_status (ep_generation (d_endpoint d)) f \<noteq> 0
     then control_scan env n (fst (control_error d (receive_status (ep_generation (d_endpoint d)) f))) fs
     else if snd (control_frame env n d f) then control_scan env (Suc n) d fs
     else (fst (control_frame env n d f), fs))"
  using assms control_error_more [OF assms] control_frame_more [of env n d f]
  by (simp add: split_beta)

lemma control_scan_awaiting:
  assumes "awaiting d d1"
  shows "awaiting d (fst (control_scan env n d1 fs)) \<or>
    (\<exists>d2 f k. awaiting d d2 \<and> f \<in> set fs \<and> receive_status (ep_generation (d_endpoint d)) f = 0 \<and>
      fst (control_scan env n d1 fs) = fst (control_frame env k d2 f) \<and> \<not> snd (control_frame env k d2 f))"
  using assms
proof (induction fs arbitrary: n d1)
  case (Cons f fs)
  note ep = awaiting_endpoint [OF Cons(2)]
  let ?r = "receive_status (ep_generation (d_endpoint d)) f"
  consider "frame_status f = MAILMSG_RING_INCOMPLETE"
    | (err) "frame_status f \<noteq> MAILMSG_RING_INCOMPLETE" "?r \<noteq> 0"
    | (more) "frame_status f \<noteq> MAILMSG_RING_INCOMPLETE" "?r = 0" "snd (control_frame env n d1 f)"
    | (stop) "frame_status f \<noteq> MAILMSG_RING_INCOMPLETE" "?r = 0" "\<not> snd (control_frame env n d1 f)"
    by blast
  then show ?case
  proof cases
    case err
    from Cons(1) [OF awaiting_trans [OF Cons(2) control_error_waits], of n ?r] err show ?thesis
      unfolding control_scan_frame [OF err(1)] ep by auto
  next
    case more
    from Cons(1) [OF Cons(2), of "Suc n"] more show ?thesis unfolding control_scan_frame [OF more(1)] ep by auto
  next
    case stop
    with Cons(2) show ?thesis unfolding control_scan_frame [OF stop(1)] ep by auto
  qed (use Cons(2) in simp)
qed simp

lemmas control_scan_result = control_scan_awaiting [OF awaiting_refl]

subsection \<open>Outcomes of the work items\<close>

definition driver_inv :: "mmio_write \<Rightarrow> r1_amp_cpu_on_data \<Rightarrow> amp_page \<Rightarrow> bool" where
  "driver_inv wr d pg \<longleftrightarrow> driver_wf wr d pg \<and> lifecycle_inv d pg"

definition timed_out :: "r1_amp_cpu_on_data \<Rightarrow> r1_amp_cpu_on_data" where
  "timed_out d = (r1_amp_mailmsg_set_timeout_locked d)\<lparr>lifecycle_timeout_work := None\<rparr>"

lemma driver_inv_bound:
  "driver_inv wr d pg \<Longrightarrow> peer_may_run (mailmsg_state d) \<Longrightarrow>
   endpoint_bound (d_endpoint d) (pg_mailmsg pg) Linux_to_cpu3 Cpu3_to_linux"
  "driver_inv wr d pg \<Longrightarrow> shared_wf (pg_mailmsg pg)" "driver_inv wr d pg \<Longrightarrow> endpoint_wf (d_endpoint d)"
  "driver_inv wr d pg \<Longrightarrow> channels_wf (d_ctx d)"
  by (simp_all add: driver_inv_def lifecycle_inv_def driver_wf_def)

lemma driver_inv_endpoint:
  assumes "driver_inv wr d pg" and "same_session (d_endpoint d) (pg_mailmsg pg) ep' sh'"
  shows "driver_inv wr (d\<lparr>d_endpoint := ep'\<rparr>) (pg\<lparr>pg_mailmsg := sh'\<rparr>)"
  using assms same_session_bound [OF assms(2)]
  by (simp add: driver_inv_def driver_wf_def lifecycle_inv_def) (simp add: same_session_def)

lemma driver_inv_results [simp]:
  "driver_inv wr (d\<lparr>session_result := a\<rparr>) pg = driver_inv wr d pg"
  "driver_inv wr (d\<lparr>stop_result := b\<rparr>) pg = driver_inv wr d pg"
  "driver_inv wr (d\<lparr>control_work := c\<rparr>) pg = driver_inv wr d pg"
  "driver_inv wr (d\<lparr>affinity_monitor_count := u\<rparr>) pg = driver_inv wr d pg"
  "driver_inv wr (d\<lparr>affinity_monitor_error_count := u\<rparr>) pg = driver_inv wr d pg"
  by (simp_all add: driver_inv_def driver_wf_def lifecycle_inv_def)

lemma awaiting_inv:
  assumes "awaiting d d1"
  shows "driver_inv wr d1 pg = driver_inv wr d pg" and "mailmsg_state d1 = mailmsg_state d"
    and "session_ready_matches d1 f = session_ready_matches d f"
    and "stop_reply_matches d1 f = stop_reply_matches d f"
    and "lifecycle_deadline d1 = lifecycle_deadline d" and "session_generation d1 = session_generation d"
  using assms by (auto elim!: awaiting_fields simp: session_ready_matches_def stop_reply_matches_def)

lemma set_timeout_inv:
  assumes "driver_inv wr d pg" and "lifecycle_pending (mailmsg_state d)"
  shows "driver_inv wr (timed_out d) pg" "driver_inv wr (r1_amp_mailmsg_set_timeout_locked d) pg"
  using assms
  by (cases "mailmsg_state d";
      simp add: driver_inv_def driver_wf_def lifecycle_inv_def timed_out_def r1_amp_mailmsg_set_timeout_locked_def)+

lemma control_frame_inv:
  assumes "driver_inv wr d pg" and "lifecycle_pending (mailmsg_state d)"
  shows "driver_inv wr (fst (control_frame env n d f)) pg"
proof (cases "time_after_eq (jiffies env n) (lifecycle_deadline d)")
  case True
  then show ?thesis using set_timeout_inv(1) [OF assms] by (simp add: control_frame_def timed_out_def)
next
  case False
  then show ?thesis using assms
    by (cases "mailmsg_state d";
        simp add: driver_inv_def driver_wf_def lifecycle_inv_def control_frame_def split del: if_split;
        cases "session_ready_matches d f"; cases "stop_reply_matches d f"; cases "msg_type f = MAILMSG_MSG_STOP_READY"; simp)
qed

lemma control_work_cases:
  assumes "driver_inv wr d pg"
  obtains (idle) "\<not> lifecycle_pending (mailmsg_state d)"
      "r1_amp_mailmsg_control_work env m d pg = Some (d\<lparr>control_work := False\<rparr>, pg)"
  | (expired) "lifecycle_pending (mailmsg_state d)" "time_after_eq (jiffies env 0) (lifecycle_deadline d)"
      "r1_amp_mailmsg_control_work env m d pg = Some (timed_out (d\<lparr>control_work := False\<rparr>), pg)"
  | (scan) ep' sh' d' where "lifecycle_pending (mailmsg_state d)" "\<not> time_after_eq (jiffies env 0) (lifecycle_deadline d)"
      "control_scan env 1 (d\<lparr>control_work := False\<rparr>) (ring_frames (shared_ring (pg_mailmsg pg) Cpu3_to_linux 0)) =
        (d', ring_frames (shared_ring sh' Cpu3_to_linux 0))"
      "r1_amp_mailmsg_control_work env m d pg = Some (d'\<lparr>d_endpoint := ep'\<rparr>, pg\<lparr>pg_mailmsg := sh'\<rparr>)"
      "drained Cpu3_to_linux 0 (d_endpoint d) (pg_mailmsg pg) ep' sh'"
proof (cases "lifecycle_pending (mailmsg_state d)")
  case False
  then show thesis by (intro idle) (simp_all add: r1_amp_mailmsg_control_work_def lifecycle_pending_def)
next
  case pend: True
  show thesis
  proof (cases "time_after_eq (jiffies env 0) (lifecycle_deadline d)")
    case True
    with pend show thesis
      by (intro expired) (auto simp: r1_amp_mailmsg_control_work_def lifecycle_pending_def timed_out_def Let_def)
  next
    case False
    let ?d = "d\<lparr>control_work := False\<rparr>"
    note b = driver_inv_bound [OF assms]
    from control_loop_spec [of ?d pg Linux_to_cpu3 Cpu3_to_linux env 1 m] b(1) [OF lifecycle_pending_may_run [OF pend]] b(2,3)
    obtain ep' sh' where r: "control_loop env 1 ?d pg m =
        Some (fst (control_scan env 1 ?d (ring_frames (shared_ring (pg_mailmsg pg) Cpu3_to_linux 0)))\<lparr>d_endpoint := ep'\<rparr>,
              pg\<lparr>pg_mailmsg := sh'\<rparr>)"
      "drained Cpu3_to_linux 0 (d_endpoint d) (pg_mailmsg pg) ep' sh'"
      "ring_frames (shared_ring sh' Cpu3_to_linux 0) =
        snd (control_scan env 1 ?d (ring_frames (shared_ring (pg_mailmsg pg) Cpu3_to_linux 0)))" by auto
    show thesis
    proof (rule scan [OF pend False _ _ r(2)])
      show "control_scan env 1 ?d (ring_frames (shared_ring (pg_mailmsg pg) Cpu3_to_linux 0)) =
        (fst (control_scan env 1 ?d (ring_frames (shared_ring (pg_mailmsg pg) Cpu3_to_linux 0))),
         ring_frames (shared_ring sh' Cpu3_to_linux 0))" by (simp only: r(3) prod.collapse)
      show "r1_amp_mailmsg_control_work env m d pg =
        Some (fst (control_scan env 1 ?d (ring_frames (shared_ring (pg_mailmsg pg) Cpu3_to_linux 0)))\<lparr>d_endpoint := ep'\<rparr>,
              pg\<lparr>pg_mailmsg := sh'\<rparr>)"
        using pend False r(1) by (auto simp: r1_amp_mailmsg_control_work_def lifecycle_pending_def Let_def)
    qed
  qed
qed

subsection \<open>The lifecycle graph\<close>

text \<open>
  The edges of the session state machine.  A rearm may pass through OFFLINE within one
  call, so it is also an edge from every state in which CPU3 may run.
\<close>

definition lifecycle_edge :: "r1_amp_mailmsg_session_state \<Rightarrow> r1_amp_mailmsg_session_state \<Rightarrow> bool" where
  "lifecycle_edge s s' \<longleftrightarrow> s = s' \<or>
     s = R1_AMP_MAILMSG_UNARMED \<and> s' = R1_AMP_MAILMSG_STARTING \<or>
     s = R1_AMP_MAILMSG_STARTING \<and> s' \<in> {R1_AMP_MAILMSG_ACTIVE, R1_AMP_MAILMSG_START_TIMEOUT} \<or>
     s = R1_AMP_MAILMSG_ACTIVE \<and> s' = R1_AMP_MAILMSG_STOPPING \<or>
     s = R1_AMP_MAILMSG_STOPPING \<and> s' \<in> {R1_AMP_MAILMSG_ACTIVE, R1_AMP_MAILMSG_STOP_TIMEOUT} \<or>
     peer_may_run s \<and> s' = R1_AMP_MAILMSG_OFFLINE \<or>
     s \<noteq> R1_AMP_MAILMSG_UNARMED \<and> s' = R1_AMP_MAILMSG_UNARMED"

lemma lifecycle_edge_refl [simp]: "lifecycle_edge s s"
  by (simp add: lifecycle_edge_def)

lemma set_timeout_state:
  "mailmsg_state (r1_amp_mailmsg_set_timeout_locked d) =
     (case mailmsg_state d of R1_AMP_MAILMSG_STARTING \<Rightarrow> R1_AMP_MAILMSG_START_TIMEOUT
      | R1_AMP_MAILMSG_STOPPING \<Rightarrow> R1_AMP_MAILMSG_STOP_TIMEOUT | s \<Rightarrow> s)"
  by (simp add: r1_amp_mailmsg_set_timeout_locked_def split: r1_amp_mailmsg_session_state.split)

lemma timed_out_state [simp]: "mailmsg_state (timed_out d) = mailmsg_state (r1_amp_mailmsg_set_timeout_locked d)"
  by (simp add: timed_out_def)

lemma control_frame_state:
  assumes "\<not> snd (control_frame env n d f)" and "lifecycle_pending (mailmsg_state d)"
  shows "mailmsg_state (fst (control_frame env n d f)) =
    (if time_after_eq (jiffies env n) (lifecycle_deadline d)
     then mailmsg_state (r1_amp_mailmsg_set_timeout_locked d)
     else if mailmsg_state d = R1_AMP_MAILMSG_STOPPING \<and> msg_type f = MAILMSG_MSG_STOP_READY
     then R1_AMP_MAILMSG_STOPPING else R1_AMP_MAILMSG_ACTIVE)"
    "time_after_eq (jiffies env n) (lifecycle_deadline d) \<or>
     mailmsg_state d = R1_AMP_MAILMSG_STARTING \<and> session_ready_matches d f \<or>
     mailmsg_state d = R1_AMP_MAILMSG_STOPPING \<and> stop_reply_matches d f"
  using assms unfolding control_frame_def lifecycle_pending_def
  by (simp_all split: if_split_asm)

lemma control_work_inv:
  assumes "driver_inv wr d pg" and "r1_amp_mailmsg_control_work env m d pg = Some (d', pg')"
  shows "driver_inv wr d' pg'" "lifecycle_edge (mailmsg_state d) (mailmsg_state d')"
proof -
  let ?d = "d\<lparr>control_work := False\<rparr>"
  have "driver_inv wr d' pg' \<and> lifecycle_edge (mailmsg_state d) (mailmsg_state d')"
  proof (cases rule: control_work_cases [OF assms(1), of env m, case_names idle expired scan])
    case idle
    with assms show ?thesis by auto
  next
    case expired
    then show ?thesis using assms set_timeout_inv(1) [of wr ?d pg]
      by (auto simp: lifecycle_pending_def set_timeout_state lifecycle_edge_def)
  next
    case (scan ep' sh' d1)
    let ?fs = "ring_frames (shared_ring (pg_mailmsg pg) Cpu3_to_linux 0)"
    have out: "d' = d1\<lparr>d_endpoint := ep'\<rparr>" "pg' = pg\<lparr>pg_mailmsg := sh'\<rparr>" using scan(4) assms(2) by auto
    have d1: "d1 = fst (control_scan env 1 ?d ?fs)" using scan(3) by simp
    have "driver_inv wr d1 pg \<and> d_endpoint d1 = d_endpoint d \<and> lifecycle_edge (mailmsg_state d) (mailmsg_state d1)"
      using control_scan_result [of ?d env 1 ?fs]
    proof (elim disjE exE conjE)
      assume "awaiting ?d (fst (control_scan env 1 ?d ?fs))"
      with d1 have a: "awaiting ?d d1" by simp
      from awaiting_inv(1) [OF a, of wr pg] awaiting_inv(2) [OF a] awaiting_endpoint [OF a] assms(1)
      show ?thesis by simp
    next
      fix d2 f k
      assume a: "awaiting ?d d2" and "fst (control_scan env 1 ?d ?fs) = fst (control_frame env k d2 f)"
        and s: "\<not> snd (control_frame env k d2 f)"
      with d1 have d1': "d1 = fst (control_frame env k d2 f)" by simp
      have d2: "driver_inv wr d2 pg" "mailmsg_state d2 = mailmsg_state d" "d_endpoint d2 = d_endpoint d"
        using awaiting_inv(1) [OF a, of wr pg] awaiting_inv(2) [OF a] awaiting_endpoint [OF a] assms(1) by simp_all
      then have p: "lifecycle_pending (mailmsg_state d2)" using scan(1) by simp
      have "lifecycle_edge (mailmsg_state d2) (mailmsg_state d1)"
        using p unfolding d1' control_frame_state(1) [OF s p]
        by (auto simp: lifecycle_pending_def set_timeout_state lifecycle_edge_def)
      with control_frame_inv [OF d2(1) p, of env k f] d1' d2 show ?thesis by simp
    qed
    then show ?thesis unfolding out
      using driver_inv_endpoint [of wr d1 pg ep' sh'] drained_session [OF scan(5)] by simp
  qed
  then show "driver_inv wr d' pg'" "lifecycle_edge (mailmsg_state d) (mailmsg_state d')" by simp_all
qed

lemma refresh_affinity_inv:
  assumes "driver_inv wr d pg" and "r1_amp_refresh_affinity_locked env d = Some (st, d')"
  shows "driver_inv wr d' pg" "mailmsg_state d' = mailmsg_state d \<or>
    peer_may_run (mailmsg_state d) \<and> mailmsg_state d' = R1_AMP_MAILMSG_OFFLINE"
    "d_ctx d' = d_ctx d" "cpu_on_attempted d' = cpu_on_attempted d" "affinity_state d' = st"
proof -
  from assms(2) obtain q where q: "psci_affinity_info env = Some q"
    by (auto simp: r1_amp_refresh_affinity_locked_def split: bind_splits)
  have "driver_inv wr d' pg \<and> (mailmsg_state d' = mailmsg_state d \<or>
    peer_may_run (mailmsg_state d) \<and> mailmsg_state d' = R1_AMP_MAILMSG_OFFLINE) \<and>
    d_ctx d' = d_ctx d \<and> cpu_on_attempted d' = cpu_on_attempted d \<and> affinity_state d' = st"
  proof (cases rule: refresh_affinity_cases [OF q, of d, case_names stays offline])
    case (stays b)
    then show ?thesis using assms by (auto simp: driver_inv_def driver_wf_def lifecycle_inv_def)
  next
    case offline
    then show ?thesis using assms by (auto simp: driver_inv_def driver_wf_def lifecycle_inv_def)
  qed
  then show "driver_inv wr d' pg" "mailmsg_state d' = mailmsg_state d \<or>
    peer_may_run (mailmsg_state d) \<and> mailmsg_state d' = R1_AMP_MAILMSG_OFFLINE"
    "d_ctx d' = d_ctx d" "cpu_on_attempted d' = cpu_on_attempted d" "affinity_state d' = st"
    by simp_all
qed

lemma affinity_work_cases:
  assumes "psci_affinity_info env = Some q" and "\<not> mailmsg_user_removing d"
  obtains (idle) "\<not> peer_may_run (mailmsg_state d)" "r1_amp_affinity_work env d = Some (d\<lparr>affinity_work := None\<rparr>)"
  | (stays) b e c where "peer_may_run (mailmsg_state d)" "affinity_seen_on d \<Longrightarrow> b" "r1_amp_affinity_work env d =
      Some (d\<lparr>affinity_work := Some (msecs_to_jiffies env R1_AMP_AFFINITY_MONITOR_MS),
        affinity_monitor_count := affinity_monitor_count d + 1, affinity_state := q (mpidr d),
        affinity_queried := True, affinity_seen_on := b, affinity_monitor_error_count := e, control_work := c\<rparr>)"
  | (offline) "peer_may_run (mailmsg_state d)" "affinity_seen_on d" "q (mpidr d) = 1" "r1_amp_affinity_work env d =
      Some (d\<lparr>affinity_work := None, affinity_monitor_count := affinity_monitor_count d + 1, affinity_state := 1,
        affinity_queried := True, mailmsg_state := R1_AMP_MAILMSG_OFFLINE, lifecycle_timeout_work := None,
        mailmsg_user := wake_list (mailmsg_user d)\<rparr>)"
proof -
  let ?d = "d\<lparr>affinity_work := None, affinity_monitor_count := affinity_monitor_count d + 1\<rparr>"
  show thesis
  proof (cases "peer_may_run (mailmsg_state d)")
    case False
    then show thesis by (rule idle) (simp add: r1_amp_affinity_work_def False)
  next
    case run: True
    show thesis
    proof (cases rule: refresh_affinity_cases [OF assms(1), of ?d, case_names stays offline])
      case (stays b)
      let ?e = "if q (mpidr d) < 0 then affinity_monitor_error_count d + 1 else affinity_monitor_error_count d"
      let ?c = "lifecycle_pending (mailmsg_state d) \<or> control_work d"
      have "r1_amp_affinity_work env d =
        Some (d\<lparr>affinity_work := Some (msecs_to_jiffies env R1_AMP_AFFINITY_MONITOR_MS),
          affinity_monitor_count := affinity_monitor_count d + 1, affinity_state := q (mpidr d),
          affinity_queried := True, affinity_seen_on := b, affinity_monitor_error_count := ?e, control_work := ?c\<rparr>)"
        using run assms(2) stays(1)
        by (cases "lifecycle_pending (mailmsg_state d)"; cases "q (mpidr d) < 0")
           (simp_all add: r1_amp_affinity_work_def)
      with run stays(2) show thesis by (intro that(2)) simp_all
    next
      case offline
      then show thesis
        using run assms(2) by (intro that(3)) (simp_all add: r1_amp_affinity_work_def)
    qed
  qed
qed

lemma affinity_work_inv:
  assumes "driver_inv wr d pg" and "r1_amp_affinity_work env d = Some d'" and "psci_affinity_info env = Some q"
  shows "driver_inv wr d' pg" "lifecycle_edge (mailmsg_state d) (mailmsg_state d')"
proof -
  from assms(1) have rem: "\<not> mailmsg_user_removing d" by (simp add: driver_inv_def lifecycle_inv_def)
  have "driver_inv wr d' pg \<and> lifecycle_edge (mailmsg_state d) (mailmsg_state d')"
  proof (cases rule: affinity_work_cases [OF assms(3) rem, case_names idle stays offline])
    case idle
    have out: "d' = d\<lparr>affinity_work := None\<rparr>" using idle(2) assms(2) by simp
    show ?thesis using assms(1) idle(1) unfolding out
      by (simp add: driver_inv_def driver_wf_def lifecycle_inv_def)
  next
    case (stays b e c)
    have out: "d' = d\<lparr>affinity_work := Some (msecs_to_jiffies env R1_AMP_AFFINITY_MONITOR_MS),
        affinity_monitor_count := affinity_monitor_count d + 1, affinity_state := q (mpidr d),
        affinity_queried := True, affinity_seen_on := b, affinity_monitor_error_count := e, control_work := c\<rparr>"
      using stays(3) assms(2) by (simp only: option.inject)
    show ?thesis using assms(1) stays(1,2) unfolding out
      by (auto simp: driver_inv_def driver_wf_def lifecycle_inv_def)
  next
    case offline
    have out: "d' = d\<lparr>affinity_work := None, affinity_monitor_count := affinity_monitor_count d + 1, affinity_state := 1,
        affinity_queried := True, mailmsg_state := R1_AMP_MAILMSG_OFFLINE, lifecycle_timeout_work := None,
        mailmsg_user := wake_list (mailmsg_user d)\<rparr>"
      using offline(4) assms(2) by (simp only: option.inject)
    show ?thesis using assms(1) offline(1) unfolding out
      by (auto simp: driver_inv_def driver_wf_def lifecycle_inv_def lifecycle_edge_def)
  qed
  then show "driver_inv wr d' pg" "lifecycle_edge (mailmsg_state d) (mailmsg_state d')" by simp_all
qed

end
