(* ===== verification/Amp_Session.thy ===== *)
theory Amp_Session
  imports Amp_Lifecycle
begin

text \<open>
  The lifecycle entry points keep the invariant and move along the lifecycle graph; what
  opens and closes the data plane.
\<close>

subsection \<open>Timeout\<close>

lemma timeout_work_cases:
  assumes "psci_affinity_info env = Some q"
  obtains (idle) "\<not> lifecycle_pending (mailmsg_state d)"
      "r1_amp_mailmsg_lifecycle_timeout_work env d = Some (d\<lparr>lifecycle_timeout_work := None\<rparr>)"
  | (early) "lifecycle_pending (mailmsg_state d)" "time_before (jiffies env 0) (lifecycle_deadline d)"
      "r1_amp_mailmsg_lifecycle_timeout_work env d =
        Some (d\<lparr>lifecycle_timeout_work := Some (lifecycle_deadline d - jiffies env 1)\<rparr>)"
  | (offline) "mailmsg_state d = R1_AMP_MAILMSG_STOPPING" "stop_reply_type d = MAILMSG_MSG_STOP_READY"
      "affinity_seen_on d" "q (mpidr d) = 1" "r1_amp_mailmsg_lifecycle_timeout_work env d =
        Some (d\<lparr>lifecycle_timeout_work := None, affinity_state := 1, affinity_queried := True,
          mailmsg_state := R1_AMP_MAILMSG_OFFLINE, mailmsg_user := wake_list (mailmsg_user d)\<rparr>)"
  | (expired) a i b where "lifecycle_pending (mailmsg_state d)" "\<not> time_before (jiffies env 0) (lifecycle_deadline d)"
      "affinity_seen_on d \<Longrightarrow> b" "r1_amp_mailmsg_lifecycle_timeout_work env d =
        Some (timed_out (d\<lparr>affinity_state := i, affinity_queried := a, affinity_seen_on := b\<rparr>))"
proof -
  let ?d = "d\<lparr>lifecycle_timeout_work := None\<rparr>"
  have timed: "timed_out x = r1_amp_mailmsg_set_timeout_locked (x\<lparr>lifecycle_timeout_work := None\<rparr>)" for x
    by (simp add: timed_out_def r1_amp_mailmsg_set_timeout_locked_def)
  show thesis
  proof (cases "lifecycle_pending (mailmsg_state d)")
    case False
    then show thesis
      by (intro idle) (simp_all add: r1_amp_mailmsg_lifecycle_timeout_work_def lifecycle_pending_def)
  next
    case pend: True
    show thesis
    proof (cases "time_before (jiffies env 0) (lifecycle_deadline d)")
      case True
      with pend show thesis
        by (intro early) (auto simp: r1_amp_mailmsg_lifecycle_timeout_work_def lifecycle_pending_def)
    next
      case late: False
      show thesis
      proof (cases "mailmsg_state d = R1_AMP_MAILMSG_STOPPING \<and> stop_reply_type d = MAILMSG_MSG_STOP_READY")
        case False
        have "d\<lparr>affinity_state := affinity_state d, affinity_queried := affinity_queried d,
            affinity_seen_on := affinity_seen_on d\<rparr> = d" by simp
        with False pend late show thesis
          by (intro expired [of "affinity_seen_on d" "affinity_queried d" "affinity_state d"])
             (auto simp: r1_amp_mailmsg_lifecycle_timeout_work_def lifecycle_pending_def timed)
      next
        case ready: True
        show thesis
        proof (cases rule: refresh_affinity_cases [OF assms, of ?d, case_names stays offline])
          case (stays b)
          have "d\<lparr>lifecycle_timeout_work := None, affinity_state := q (mpidr d), affinity_queried := True,
              affinity_seen_on := b\<rparr> = d\<lparr>affinity_state := q (mpidr d), affinity_queried := True,
              affinity_seen_on := b, lifecycle_timeout_work := None\<rparr>" by simp
          with stays ready late pend show thesis
            by (intro expired [of b True "q (mpidr d)"])
               (simp_all add: r1_amp_mailmsg_lifecycle_timeout_work_def timed)
        next
          case offline
          with ready late show thesis
            by (intro that(3)) (simp_all add: r1_amp_mailmsg_lifecycle_timeout_work_def)
        qed
      qed
    qed
  qed
qed

lemma timeout_work_inv:
  assumes "driver_inv wr d pg" and "r1_amp_mailmsg_lifecycle_timeout_work env d = Some d'"
    and "psci_affinity_info env = Some q"
  shows "driver_inv wr d' pg" "lifecycle_edge (mailmsg_state d) (mailmsg_state d')"
proof -
  have "driver_inv wr d' pg \<and> lifecycle_edge (mailmsg_state d) (mailmsg_state d')"
  proof (cases rule: timeout_work_cases [OF assms(3), of d, case_names idle early offline expired])
    case idle
    have out: "d' = d\<lparr>lifecycle_timeout_work := None\<rparr>" using idle(2) assms(2) by simp
    show ?thesis using assms(1) idle(1) unfolding out by (simp add: driver_inv_def driver_wf_def lifecycle_inv_def)
  next
    case early
    have out: "d' = d\<lparr>lifecycle_timeout_work := Some (lifecycle_deadline d - jiffies env 1)\<rparr>"
      using early(3) assms(2) by (simp only: option.inject)
    show ?thesis using assms(1) unfolding out by (simp add: driver_inv_def driver_wf_def lifecycle_inv_def)
  next
    case offline
    have out: "d' = d\<lparr>lifecycle_timeout_work := None, affinity_state := 1, affinity_queried := True,
          mailmsg_state := R1_AMP_MAILMSG_OFFLINE, mailmsg_user := wake_list (mailmsg_user d)\<rparr>"
      using offline(5) assms(2) by (simp only: option.inject)
    show ?thesis using assms(1) offline(1) unfolding out
      by (simp add: driver_inv_def driver_wf_def lifecycle_inv_def lifecycle_edge_def)
  next
    case (expired a i b)
    let ?d = "d\<lparr>affinity_state := i, affinity_queried := a, affinity_seen_on := b\<rparr>"
    have out: "d' = timed_out ?d" using expired(4) assms(2) by (simp only: option.inject)
    have "driver_inv wr ?d pg" using assms(1) expired(3)
      by (auto simp: driver_inv_def driver_wf_def lifecycle_inv_def)
    then have "driver_inv wr d' pg" unfolding out using expired(1) by (intro set_timeout_inv(1)) simp_all
    moreover have "lifecycle_edge (mailmsg_state d) (mailmsg_state d')"
      using expired(1) unfolding out by (auto simp: lifecycle_pending_def set_timeout_state lifecycle_edge_def)
    ultimately show ?thesis ..
  qed
  then show "driver_inv wr d' pg" "lifecycle_edge (mailmsg_state d) (mailmsg_state d')" by simp_all
qed

subsection \<open>Start and rearm\<close>

definition next_generation :: "u32 \<Rightarrow> u32" where
  "next_generation g = (if g + 1 = 0 then 1 else g + 1)"

lemma next_generation_nonzero [simp]: "next_generation g \<noteq> 0"
  by (simp add: next_generation_def)

lemma next_generation_changes [simp]: "next_generation g \<noteq> g"
  by (auto simp: next_generation_def)

text \<open>The state after the session has been announced and CPU_ON was issued.\<close>

definition started :: "amp_env \<Rightarrow> int \<Rightarrow> r1_amp_cpu_on_data \<Rightarrow> r1_amp_cpu_on_data" where
  "started env ret d =
     (let g = next_generation (session_generation d);
          d = d\<lparr>session_generation := g, d_endpoint := bound_endpoint MAILMSG_ENDPOINT_LINUX g (mailmsg_linux_notify (mbox_write env)),
                peer_generation := 0, stop_request_sequence := 0, stop_reply_type := 0, stop_result := - EAGAIN,
                stop_notify_result := - EAGAIN, d_ctx := (d_ctx d)\<lparr>lifecycle_notify_bypass := False\<rparr>,
                affinity_state := 1, affinity_queried := True,
                affinity_seen_on := False, cpu_on_attempted := True, cpu_on_ret := ret\<rparr>
      in if ret \<noteq> 0 then d\<lparr>mailmsg_state := R1_AMP_MAILMSG_UNARMED, session_result := ret\<rparr>
         else d\<lparr>mailmsg_state := R1_AMP_MAILMSG_STARTING, session_result := - EINPROGRESS,
                lifecycle_deadline := jiffies env 0 + msecs_to_jiffies env R1_AMP_LIFECYCLE_TIMEOUT_MS,
                affinity_work := Some (msecs_to_jiffies env R1_AMP_AFFINITY_MONITOR_MS),
                lifecycle_timeout_work := Some (msecs_to_jiffies env R1_AMP_LIFECYCLE_TIMEOUT_MS)\<rparr>)"

lemma zero_shared_fresh:
  "zero_shared\<lparr>shm_magic := MAILMSG_PROTOCOL_MAGIC, shm_version := MAILMSG_PROTOCOL_VERSION, shm_generation := g\<rparr> =
   fresh_shared g"
  by (simp add: zero_shared_def fresh_shared_def)

lemma bind_fresh:
  assumes "endpoint_wf ep" and "g \<noteq> 0"
  shows "mailmsg_endpoint_bind ep (Some (fresh_shared g)) (Some both_hooks) (Some (backend nf)) (Some role) =
    (0, bound_endpoint role g nf)"
proof -
  have "endpoint_wf ep \<Longrightarrow> ep\<lparr>ep_shared := True, ep_tx := t, ep_rx := r, ep_memory_ops := o', ep_notify := n, ep_next_sequence := 0,
      ep_generation := g, ep_stats := st\<rparr> = \<lparr>ep_shared = True, ep_tx = t, ep_rx = r, ep_memory_ops = o', ep_notify = n,
      ep_next_sequence = 0, ep_generation = g, ep_stats = st\<rparr>" for t r o' n st and ep :: "'a mailmsg_endpoint"
    by simp
  then show ?thesis unfolding bound_endpoint_def using assms by (simp add: bind_ok)
qed

lemma start_issued:
  assumes "driver_inv (mbox_write env) d pg" and "sysfs_streq buf ''start''" and "\<not> cpu_on_attempted d"
    and "image_written d = ucast (image_size d)" and "psci_affinity_info env = Some q" and "psci_cpu_on env = Some cpu_on"
    and "q (mpidr d) = 1"
  shows "start_store env buf count d pg =
    Some (if cpu_on (mpidr d) (entry d) \<noteq> 0 then cpu_on (mpidr d) (entry d) else count, started env (cpu_on (mpidr d) (entry d)) d,
      (zero_state_page pg)\<lparr>pg_mailmsg := fresh_shared (next_generation (session_generation d))\<rparr>)"
proof -
  have inv: "\<not> mailmsg_user_removing d" "d_notify_endpoint d = linux_backend (mbox_write env)" "endpoint_wf (d_endpoint d)"
    using assms(1) by (simp_all add: driver_inv_def driver_wf_def lifecycle_inv_def)
  have st: "mailmsg_state d = R1_AMP_MAILMSG_UNARMED" using assms(1,3) unfolding driver_inv_def lifecycle_inv_def by blast
  show ?thesis
  proof (cases rule: refresh_affinity_cases [OF assms(5), of d, case_names stays offline])
    case (stays b)
    with assms inv show ?thesis
      by (simp add: start_store_def Let_def zero_state_page_def zero_shared_fresh mailmsg_linux_memory_ops_def
          linux_backend_def bind_fresh started_def next_generation_def)
  qed (use st in simp)
qed

lemma start_cases:
  assumes "driver_inv (mbox_write env) d pg"
  obtains (refused) e where "start_store env buf count d pg = Some (e, d, pg)"
      "e \<in> {- EINVAL, - EALREADY, - ENODATA, - EOPNOTSUPP}"
  | (busy) q b where "\<not> cpu_on_attempted d" "psci_affinity_info env = Some q" "q (mpidr d) \<noteq> 1"
      "start_store env buf count d pg = Some (- EBUSY,
        d\<lparr>affinity_state := q (mpidr d), affinity_queried := True, affinity_seen_on := b\<rparr>, pg)"
  | (issued) q cpu_on ret where "\<not> cpu_on_attempted d" "image_written d = ucast (image_size d)"
      "psci_affinity_info env = Some q" "psci_cpu_on env = Some cpu_on" "q (mpidr d) = 1"
      "ret = cpu_on (mpidr d) (entry d)"
      "start_store env buf count d pg = Some (if ret \<noteq> 0 then ret else count, started env ret d,
        (zero_state_page pg)\<lparr>pg_mailmsg := fresh_shared (next_generation (session_generation d))\<rparr>)"
proof -
  from assms have inv: "\<not> mailmsg_user_removing d" "endpoint_wf (d_endpoint d)"
    "d_notify_endpoint d = linux_backend (mbox_write env)"
    by (simp_all add: driver_inv_def driver_wf_def lifecycle_inv_def)
  show thesis
  proof (cases "sysfs_streq buf ''start'' \<and> \<not> cpu_on_attempted d \<and> image_written d = ucast (image_size d) \<and>
      psci_affinity_info env \<noteq> None \<and> psci_cpu_on env \<noteq> None")
    case False
    show thesis
    proof (rule refused)
      let ?e = "if \<not> sysfs_streq buf ''start'' then - EINVAL else if cpu_on_attempted d then - EALREADY
        else if image_written d \<noteq> ucast (image_size d) then - ENODATA else - EOPNOTSUPP"
      show "start_store env buf count d pg = Some (?e, d, pg)"
        using False inv(1) by (auto simp: start_store_def split: option.split)
    qed auto
  next
    case True
    then obtain q cpu_on where ps: "psci_affinity_info env = Some q" "psci_cpu_on env = Some cpu_on" by auto
    from assms True have st: "mailmsg_state d = R1_AMP_MAILMSG_UNARMED" "cpu_on_ret d \<noteq> 0"
      unfolding driver_inv_def lifecycle_inv_def by blast+
    show thesis
    proof (cases rule: refresh_affinity_cases [OF ps(1), of d, case_names stays offline])
      case (stays b)
      show thesis
      proof (cases "q (mpidr d) = 1")
        case off: True
        let ?ret = "cpu_on (mpidr d) (entry d)"
        have "start_store env buf count d pg = Some (if ?ret \<noteq> 0 then ?ret else count, started env ?ret d,
            (zero_state_page pg)\<lparr>pg_mailmsg := fresh_shared (next_generation (session_generation d))\<rparr>)"
          using True off by (intro start_issued [OF assms _ _ _ ps]) simp_all
        with True ps off show thesis by (intro issued [of q cpu_on ?ret]) simp_all
      next
        case on: False
        with True inv ps stays(1) show thesis
          by (intro busy [of q b]) (simp_all add: start_store_def)
      qed
    qed (use st in simp)
  qed
qed

lemma bound_fresh_linux:
  assumes "g \<noteq> 0"
  shows "endpoint_bound (bound_endpoint MAILMSG_ENDPOINT_LINUX g nf) (fresh_shared g) Linux_to_cpu3 Cpu3_to_linux"
    "ep_generation (bound_endpoint MAILMSG_ENDPOINT_LINUX g nf) = g"
    "ep_notify (bound_endpoint MAILMSG_ENDPOINT_LINUX g nf) = Some (backend nf)"
    "ep_next_sequence (bound_endpoint MAILMSG_ENDPOINT_LINUX g nf) = 0"
    "endpoint_wf (bound_endpoint MAILMSG_ENDPOINT_LINUX g nf)"
  using bound_endpoint_bound [OF assms, of MAILMSG_ENDPOINT_LINUX nf] assms
  unfolding bound_endpoint_def by (simp_all add: bind_ok) (simp add: endpoint_wf_def)

lemma started_inv:
  assumes "driver_inv (mbox_write env) d pg" and "\<not> cpu_on_attempted d"
  shows "driver_inv (mbox_write env) (started env ret d)
    ((zero_state_page pg)\<lparr>pg_mailmsg := fresh_shared (next_generation (session_generation d))\<rparr>)"
  using assms bound_fresh_linux [of "next_generation (session_generation d)" "mailmsg_linux_notify (mbox_write env)"]
  by (simp add: driver_inv_def driver_wf_def lifecycle_inv_def started_def Let_def zero_state_page_def linux_backend_def)

lemma start_inv:
  assumes "driver_inv (mbox_write env) d pg" and "start_store env buf count d pg = Some (r, d', pg')"
  shows "driver_inv (mbox_write env) d' pg'" "lifecycle_edge (mailmsg_state d) (mailmsg_state d')"
proof -
  have "driver_inv (mbox_write env) d' pg' \<and> lifecycle_edge (mailmsg_state d) (mailmsg_state d')"
  proof (cases rule: start_cases [OF assms(1), of buf count, case_names refused busy issued])
    case (refused e)
    with assms show ?thesis by (simp only: option.inject prod.inject) simp
  next
    case (busy q b)
    from assms(1) busy(1) have un: "mailmsg_state d = R1_AMP_MAILMSG_UNARMED"
      unfolding driver_inv_def lifecycle_inv_def by blast
    have out: "d' = d\<lparr>affinity_state := q (mpidr d), affinity_queried := True, affinity_seen_on := b\<rparr>" "pg' = pg"
      using busy(4) assms(2) by (simp_all only: option.inject prod.inject)
    show ?thesis using assms(1) un unfolding out by (simp add: driver_inv_def driver_wf_def lifecycle_inv_def)
  next
    case (issued q cpu_on ret)
    have out: "d' = started env ret d"
      "pg' = (zero_state_page pg)\<lparr>pg_mailmsg := fresh_shared (next_generation (session_generation d))\<rparr>"
      using issued(7) assms(2) by (simp_all only: option.inject prod.inject)
    from assms(1) issued(1) have "mailmsg_state d = R1_AMP_MAILMSG_UNARMED"
      unfolding driver_inv_def lifecycle_inv_def by blast
    then show ?thesis using started_inv [OF assms(1) issued(1), of ret] unfolding out
      by (simp add: lifecycle_edge_def started_def Let_def)
  qed
  then show "driver_inv (mbox_write env) d' pg'" "lifecycle_edge (mailmsg_state d) (mailmsg_state d')" by simp_all
qed

definition rearmed :: "r1_amp_cpu_on_data \<Rightarrow> r1_amp_cpu_on_data" where
  "rearmed d = d\<lparr>d_endpoint := zero_endpoint, lifecycle_timeout_work := None, image_written := 0,
     cpu_on_attempted := False, cpu_on_ret := - EAGAIN, affinity_seen_on := False,
     mailmsg_state := R1_AMP_MAILMSG_UNARMED, peer_generation := 0, session_result := - EAGAIN,
     next_sequence := 0, stop_request_sequence := 0, stop_reply_type := 0,
     stop_result := - EAGAIN, stop_notify_result := - EAGAIN,
     d_ctx := (d_ctx d)\<lparr>mailmsg_last_notify_result := - EAGAIN, notify_inject_remaining := 0,
                        lifecycle_notify_bypass := False\<rparr>\<rparr>"

lemma rearm_cases:
  obtains (refused) e where "rearm_store env buf count d = Some (e, d)" "e \<in> {- EINVAL, - EBUSY, - EOPNOTSUPP}"
  | (busy) st d1 where "cpu_on_attempted d" "r1_amp_refresh_affinity_locked env d = Some (st, d1)"
      "affinity_state d1 \<noteq> 1 \<or> mbox_regs0 (d_ctx d1) A2B_STATUS \<noteq> 0"
      "rearm_store env buf count d = Some (- EBUSY, d1)"
  | (rearmed) d1 st where "cpu_on_attempted d" "mailmsg_user_open_count d = 0"
      "r1_amp_refresh_affinity_locked env d = Some (st, d1)"
      "affinity_state d1 = 1" "mbox_regs0 (d_ctx d1) A2B_STATUS = 0"
      "rearm_store env buf count d = Some (count, rearmed d1)"
proof -
  show thesis
  proof (cases "sysfs_streq buf ''rearm'' \<and> cpu_on_attempted d \<and> mailmsg_user_open_count d = 0 \<and>
      psci_affinity_info env \<noteq> None")
    case False
    then show thesis
      by (intro refused [of "if \<not> sysfs_streq buf ''rearm'' then - EINVAL else if \<not> cpu_on_attempted d then - EINVAL
            else if mailmsg_user_open_count d \<noteq> 0 then - EBUSY else - EOPNOTSUPP"])
         (auto simp: rearm_store_def)
  next
    case True
    then obtain q where q: "psci_affinity_info env = Some q" by auto
    then obtain st d1 where r: "r1_amp_refresh_affinity_locked env d = Some (st, d1)"
      using refresh_affinity_cases [of env q d] by metis
    show thesis
    proof (cases "affinity_state d1 \<noteq> 1 \<or> mbox_regs0 (d_ctx d1) A2B_STATUS \<noteq> 0")
      case err: True
      with True q r show thesis by (intro busy [of st d1]) (auto simp: rearm_store_def)
    next
      case ok: False
      with True q r show thesis by (intro that(3) [of st d1]) (simp_all add: rearm_store_def rearmed_def)
    qed
  qed
qed

lemma rearmed_inv:
  assumes "driver_inv wr d pg"
  shows "driver_inv wr (rearmed d) pg"
  using assms by (simp add: driver_inv_def driver_wf_def lifecycle_inv_def rearmed_def) (simp add: zero_endpoint_def)

lemma rearm_inv:
  assumes "driver_inv wr d pg" and "rearm_store env buf count d = Some (r, d')"
  shows "driver_inv wr d' pg" "lifecycle_edge (mailmsg_state d) (mailmsg_state d')"
proof -
  have "driver_inv wr d' pg \<and> lifecycle_edge (mailmsg_state d) (mailmsg_state d')"
  proof (cases rule: rearm_cases [of env buf count d, case_names refused busy rearmed])
    case (refused e)
    with assms show ?thesis by (simp only: option.inject prod.inject) simp
  next
    case (busy st d1)
    from refresh_affinity_inv [OF assms(1) busy(2)] busy(4) assms(2) show ?thesis
      by (auto simp: lifecycle_edge_def)
  next
    case (rearmed d1 st)
    have "d' = rearmed d1" using rearmed(6) assms(2) by simp
    moreover have "mailmsg_state d \<noteq> R1_AMP_MAILMSG_UNARMED \<or> mailmsg_state d = R1_AMP_MAILMSG_UNARMED" by blast
    ultimately show ?thesis
      using rearmed_inv [OF refresh_affinity_inv(1) [OF assms(1) rearmed(3)]]
      by (auto simp: lifecycle_edge_def rearmed_def)
  qed
  then show "driver_inv wr d' pg" "lifecycle_edge (mailmsg_state d) (mailmsg_state d')" by simp_all
qed

subsection \<open>The controlled stop\<close>

text \<open>
  The frame that \<open>send\<close> leaves behind on the Linux side: the endpoint and the context
  keep their invariants, whatever the result.
\<close>

lemma linux_send_inv:
  assumes "driver_inv wr d pg" and "unat len \<le> length bs"
    and "mailmsg_endpoint_send (d_endpoint d) (pg_mailmsg pg) c p ty (Some bs) len res = Some (r, ep', sh', c', res')"
    and "channels_wf c"
  shows "same_session (d_endpoint d) (pg_mailmsg pg) ep' sh'" "channels_wf c'"
    "lifecycle_notify_bypass c' = lifecycle_notify_bypass c"
proof -
  note wf = driver_inv_bound(2,3) [OF assms(1)]
  show "same_session (d_endpoint d) (pg_mailmsg pg) ep' sh'"
    using send_frame [OF wf assms(2,3)] by (simp add: same_session_def)
  have keep: "channels_wf (snd (mailmsg_notify ne c p)) \<and>
      lifecycle_notify_bypass (snd (mailmsg_notify ne c p)) = lifecycle_notify_bypass c"
    if "ne = None \<or> ne = Some (linux_backend wr)" for ne
  proof -
    have "channels_wf (snd (mailmsg_notify_locked wr c p)) \<and>
        lifecycle_notify_bypass (snd (mailmsg_notify_locked wr c p)) = lifecycle_notify_bypass c"
      using assms(4) by (simp add: mailmsg_notify_locked_def r1_amp_mbox_direct_send_locked_def Let_def)
    with that assms(4) show ?thesis
      by (cases "4 \<le> p") (auto simp: mailmsg_notify_def linux_backend_def backend_def mailmsg_linux_notify_def)
  qed
  have ne: "ep_notify (d_endpoint d) = None \<or> ep_notify (d_endpoint d) = Some (linux_backend wr)"
    using assms(1) by (simp add: driver_inv_def driver_wf_def)
  have "channels_wf c' \<and> lifecycle_notify_bypass c' = lifecycle_notify_bypass c"
    using assms(3,4) keep [OF ne]
    by (cases rule: send_cases [OF wf assms(2), of c p ty res]) auto
  then show "channels_wf c'" "lifecycle_notify_bypass c' = lifecycle_notify_bypass c" by simp_all
qed

text \<open>The three outcomes of a stop request: refused, not queued, or queued.\<close>

definition stopping :: "r1_amp_cpu_on_data \<Rightarrow> r1_amp_cpu_on_data" where
  "stopping d = d\<lparr>mailmsg_state := R1_AMP_MAILMSG_STOPPING, stop_request_sequence := 0, stop_reply_type := 0,
     stop_result := - EINPROGRESS, stop_notify_result := - EINPROGRESS\<rparr>"

lemma stop_cases:
  assumes "driver_inv wr d pg"
  obtains (refused) e where "mailmsg_stop_store env buf count d pg = Some (e, d, pg)"
      "mailmsg_state d \<noteq> R1_AMP_MAILMSG_ACTIVE \<or> \<not> sysfs_streq buf ''stop'' \<or>
       r1_amp_mailmsg_stop_preflight_locked d (pg_mailmsg pg) \<noteq> 0"
  | (unsent) e err ep sh c where "mailmsg_state d = R1_AMP_MAILMSG_ACTIVE"
      "mailmsg_stop_store env buf count d pg = Some (e,
        (stopping d)\<lparr>d_endpoint := ep, d_ctx := c\<lparr>lifecycle_notify_bypass := False\<rparr>,
          mailmsg_state := R1_AMP_MAILMSG_ACTIVE, stop_result := err\<rparr>, pg\<lparr>pg_mailmsg := sh\<rparr>)"
      "same_session (d_endpoint d) (pg_mailmsg pg) ep sh" "channels_wf c"
  | (queued) r ep sh c res where "mailmsg_state d = R1_AMP_MAILMSG_ACTIVE"
      "mailmsg_endpoint_send (d_endpoint d) (pg_mailmsg pg) ((d_ctx d)\<lparr>lifecycle_notify_bypass := True\<rparr>)
        MAILMSG_PRIO_CRITICAL MAILMSG_MSG_STOP_REQUEST None 0 zero_result = Some (0, ep, sh, c, res)"
      "mailmsg_stop_store env buf count d pg = Some (r,
        (stopping d)\<lparr>d_endpoint := ep, d_ctx := c\<lparr>lifecycle_notify_bypass := False\<rparr>,
          stop_request_sequence := res_sequence res, stop_notify_result := notify_result res,
          lifecycle_deadline := jiffies env 0 + msecs_to_jiffies env R1_AMP_LIFECYCLE_TIMEOUT_MS,
          lifecycle_timeout_work := Some (msecs_to_jiffies env R1_AMP_LIFECYCLE_TIMEOUT_MS)\<rparr>, pg\<lparr>pg_mailmsg := sh\<rparr>)"
      "same_session (d_endpoint d) (pg_mailmsg pg) ep sh" "channels_wf c"
      "r = (if \<not> mailmsg_notify_accepted (notify_result res) \<and> notify_result res < 0 then notify_result res else count)"
proof -
  let ?c = "(d_ctx d)\<lparr>lifecycle_notify_bypass := True\<rparr>"
  show thesis
  proof (cases "sysfs_streq buf ''stop'' \<and> mailmsg_state d = R1_AMP_MAILMSG_ACTIVE \<and>
      r1_amp_mailmsg_stop_preflight_locked d (pg_mailmsg pg) = 0")
    case False
    then show thesis
      by (intro refused [of "if \<not> sysfs_streq buf ''stop'' then - EINVAL
            else if mailmsg_state d = R1_AMP_MAILMSG_OFFLINE then - ENOLINK
            else if mailmsg_state d \<noteq> R1_AMP_MAILMSG_ACTIVE then - EBUSY
            else r1_amp_mailmsg_stop_preflight_locked d (pg_mailmsg pg)"])
         (auto simp: mailmsg_stop_store_def)
  next
    case True
    note wf = driver_inv_bound [OF assms]
    obtain ret ep sh c res where s: "mailmsg_endpoint_send (d_endpoint d) (pg_mailmsg pg) ?c 0 5 (Some []) 0 zero_result =
        Some (ret, ep, sh, c, res)"
      by (rule send_cases [OF wf(2,3), of 0 "[]" ?c 0 5 zero_result]) (auto intro: that)
    have inv: "same_session (d_endpoint d) (pg_mailmsg pg) ep sh" "channels_wf c"
      using linux_send_inv [OF assms _ s] wf(4) by simp_all
    show thesis
    proof (cases "ret = 0")
      case ok: True
      show thesis
      proof (rule queued [OF _ _ _ inv refl])
        show "mailmsg_stop_store env buf count d pg = Some
          (if \<not> mailmsg_notify_accepted (notify_result res) \<and> notify_result res < 0 then notify_result res else count,
           (stopping d)\<lparr>d_endpoint := ep, d_ctx := c\<lparr>lifecycle_notify_bypass := False\<rparr>,
             stop_request_sequence := res_sequence res, stop_notify_result := notify_result res,
             lifecycle_deadline := jiffies env 0 + msecs_to_jiffies env R1_AMP_LIFECYCLE_TIMEOUT_MS,
             lifecycle_timeout_work := Some (msecs_to_jiffies env R1_AMP_LIFECYCLE_TIMEOUT_MS)\<rparr>, pg\<lparr>pg_mailmsg := sh\<rparr>)"
          using True s ok by (simp add: mailmsg_stop_store_def send_null_payload stopping_def Let_def)
      qed (use True s ok in \<open>simp_all add: send_null_payload\<close>)
    next
      case err: False
      let ?err = "if ret \<le> MAILMSG_ENDPOINT_INVALID then mailmsg_ring_result_to_errno ret
                  else mailmsg_ring_result_to_errno (queue_result res)"
      show thesis
        by (rule unsent [OF _ _ inv, of "if ?err \<noteq> 0 then ?err else count" ?err])
           (use True s err in \<open>simp_all add: mailmsg_stop_store_def send_null_payload stopping_def Let_def\<close>)
    qed
  qed
qed

lemma stop_inv:
  assumes "driver_inv wr d pg" and "mailmsg_stop_store env buf count d pg = Some (r, d', pg')"
  shows "driver_inv wr d' pg'" "lifecycle_edge (mailmsg_state d) (mailmsg_state d')"
proof -
  have "driver_inv wr d' pg' \<and> lifecycle_edge (mailmsg_state d) (mailmsg_state d')"
  proof (cases rule: stop_cases [OF assms(1), of env buf count, case_names refused unsent queued])
    case (refused e)
    with assms show ?thesis by (simp only: option.inject prod.inject) simp
  next
    case (unsent e err ep sh c)
    let ?d = "d\<lparr>d_endpoint := ep\<rparr>"
    have out: "d' = (stopping d)\<lparr>d_endpoint := ep, d_ctx := c\<lparr>lifecycle_notify_bypass := False\<rparr>,
        mailmsg_state := R1_AMP_MAILMSG_ACTIVE, stop_result := err\<rparr>" "pg' = pg\<lparr>pg_mailmsg := sh\<rparr>"
      using unsent(2) assms(2) by (simp_all only: option.inject prod.inject)
    from driver_inv_endpoint [OF assms(1) unsent(3)] unsent(1,4) show ?thesis unfolding out
      by (simp add: driver_inv_def driver_wf_def lifecycle_inv_def stopping_def)
  next
    case (queued r' ep sh c res)
    have out: "d' = (stopping d)\<lparr>d_endpoint := ep, d_ctx := c\<lparr>lifecycle_notify_bypass := False\<rparr>,
          stop_request_sequence := res_sequence res, stop_notify_result := notify_result res,
          lifecycle_deadline := jiffies env 0 + msecs_to_jiffies env R1_AMP_LIFECYCLE_TIMEOUT_MS,
          lifecycle_timeout_work := Some (msecs_to_jiffies env R1_AMP_LIFECYCLE_TIMEOUT_MS)\<rparr>"
        "pg' = pg\<lparr>pg_mailmsg := sh\<rparr>"
      using queued(3) assms(2) by (simp_all only: option.inject prod.inject)
    from driver_inv_endpoint [OF assms(1) queued(4)] queued(1,5) show ?thesis unfolding out
      by (simp add: driver_inv_def driver_wf_def lifecycle_inv_def stopping_def lifecycle_edge_def)
  qed
  then show "driver_inv wr d' pg'" "lifecycle_edge (mailmsg_state d) (mailmsg_state d')" by simp_all
qed

end
