(* ===== verification/Amp_User.thy ===== *)
theory Amp_User
  imports Amp_Session
begin

text \<open>
  The character devices \<^verbatim>\<open>/dev/mailmsg-p0\<close> to \<^verbatim>\<open>/dev/mailmsg-p3\<close>: open, release, the
  exclusive reader, read, write, poll and the registration of the devices.

  A blocking read is a sequence of steps: one pass of its loop either returns or waits
  for the receive generation of the channel to change, and \<open>r1_amp_mailmsg_user_read_resume\<close>
  is the continuation after the wait.  The success of the copies from and to user memory,
  of the allocation and of \<open>misc_register\<close> are arguments.
\<close>

subsection \<open>Data\<close>

abbreviation (input) MAILMSG_USER_PAYLOAD_BYTES :: nat where "MAILMSG_USER_PAYLOAD_BYTES \<equiv> 32"
abbreviation (input) USER_FRAME_SIZE :: u64 where "USER_FRAME_SIZE \<equiv> 48"
abbreviation (input) EPOLLIN :: u32 where "EPOLLIN \<equiv> 0x01"
abbreviation (input) EPOLLERR :: u32 where "EPOLLERR \<equiv> 0x08"
abbreviation (input) EPOLLHUP :: u32 where "EPOLLHUP \<equiv> 0x10"
abbreviation (input) EPOLLRDNORM :: u32 where "EPOLLRDNORM \<equiv> 0x40"

record mailmsg_user_frame =
  fr_priority :: u32
  fr_type :: u32
  fr_sequence :: u32
  fr_length :: u32
  fr_payload :: "u8 list"

datatype user_read_outcome =
    Read_return int "mailmsg_user_frame option"
  | Read_wait u32

subsection \<open>Operations\<close>

definition r1_amp_mailmsg_user_open ::
  "bool \<Rightarrow> u32 \<Rightarrow> r1_amp_cpu_on_data \<Rightarrow> int \<times> r1_amp_mailmsg_user_file option \<times> r1_amp_cpu_on_data" where
  "r1_amp_mailmsg_user_open alloc_ok channel d =
     (if \<not> alloc_ok then (- ENOMEM, None, d)
      else if mailmsg_user_removing d then (- ENODEV, None, d)
      else
        let ret = r1_amp_mailmsg_data_gate_locked d in
        if ret \<noteq> 0 then (ret, None, d)
        else (0, Some \<lparr>uf_channel = channel, reader_claimed = False\<rparr>,
              d\<lparr>mailmsg_user_open_count := mailmsg_user_open_count d + 1\<rparr>))"

definition r1_amp_mailmsg_user_release ::
  "r1_amp_mailmsg_user_file \<Rightarrow> r1_amp_cpu_on_data \<Rightarrow> int \<times> r1_amp_cpu_on_data" where
  "r1_amp_mailmsg_user_release user_file d =
     (let d = (if reader_claimed user_file
               then upd_user (\<lambda>u. u\<lparr>uc_reader_open_count := uc_reader_open_count u - 1\<rparr>) (uf_channel user_file) d
               else d)
      in (0, d\<lparr>mailmsg_user_open_count := mailmsg_user_open_count d - 1\<rparr>))"

definition r1_amp_mailmsg_user_claim_reader ::
  "r1_amp_mailmsg_user_file \<Rightarrow> r1_amp_cpu_on_data \<Rightarrow> int \<times> r1_amp_mailmsg_user_file \<times> r1_amp_cpu_on_data" where
  "r1_amp_mailmsg_user_claim_reader user_file d =
     (if reader_claimed user_file then (0, user_file, d)
      else if uc_reader_open_count (mailmsg_user d ! unat (uf_channel user_file)) \<noteq> 0 then (- EBUSY, user_file, d)
      else (0, user_file\<lparr>reader_claimed := True\<rparr>,
            upd_user (\<lambda>u. u\<lparr>uc_reader_open_count := uc_reader_open_count u + 1\<rparr>) (uf_channel user_file) d))"

text \<open>The record handed to user space: zeroed, then the message bytes copied in.\<close>

definition user_frame_of :: "u32 \<Rightarrow> mailmsg_message \<Rightarrow> mailmsg_user_frame" where
  "user_frame_of priority message =
     \<lparr>fr_priority = priority, fr_type = msg_type message, fr_sequence = msg_sequence message,
      fr_length = msg_length message,
      fr_payload = take (unat (msg_length message)) (msg_payload message) @
        replicate (MAILMSG_USER_PAYLOAD_BYTES - unat (msg_length message)) 0\<rparr>"

text \<open>One pass of the loop in \<open>read\<close>; \<open>fault\<close> is a failing \<open>copy_to_user\<close>.\<close>

definition user_read_pass ::
  "bool \<Rightarrow> bool \<Rightarrow> mailmsg_message \<Rightarrow> r1_amp_mailmsg_user_file \<Rightarrow> r1_amp_cpu_on_data \<Rightarrow> amp_page \<Rightarrow>
   (user_read_outcome \<times> r1_amp_cpu_on_data \<times> amp_page) option" where
  "user_read_pass nonblock fault message user_file d pg =
     (let channel = mailmsg_user d ! unat (uf_channel user_file);
          generation = uc_rx_generation channel;
          gate = r1_amp_mailmsg_data_gate_locked d in do {
      (ret, ep, sh, message) \<leftarrow>
        (if gate = 0 then mailmsg_endpoint_receive (d_endpoint d) (pg_mailmsg pg) (uc_priority channel) message
         else Some (gate, d_endpoint d, pg_mailmsg pg, message));
      let d = d\<lparr>d_endpoint := ep\<rparr>;
      let pg = pg\<lparr>pg_mailmsg := sh\<rparr>;
      if ret = 0 then
        if length (msg_payload message) < unat (msg_length message) then None
        else if fault then Some (Read_return (- EFAULT) None, d, pg)
        else Some (Read_return 48 (Some (user_frame_of (uc_priority channel) message)), d, pg)
      else Some
        (if ret = - EAGAIN then Read_return ret None
         else if ret = - ENOLINK \<or> ret = - ESHUTDOWN then Read_return ret None
         else if ret \<noteq> MAILMSG_RING_EMPTY then Read_return (mailmsg_ring_result_to_errno ret) None
         else if nonblock then Read_return (- EAGAIN) None
         else Read_wait generation, d, pg) })"

definition r1_amp_mailmsg_user_read ::
  "u64 \<Rightarrow> bool \<Rightarrow> bool \<Rightarrow> mailmsg_message \<Rightarrow> r1_amp_mailmsg_user_file \<Rightarrow> r1_amp_cpu_on_data \<Rightarrow> amp_page \<Rightarrow>
   (user_read_outcome \<times> r1_amp_mailmsg_user_file \<times> r1_amp_cpu_on_data \<times> amp_page) option" where
  "r1_amp_mailmsg_user_read count nonblock fault message user_file d pg =
     (if count \<noteq> USER_FRAME_SIZE then Some (Read_return (- EINVAL) None, user_file, d, pg)
      else
        let (ret, user_file, d) = r1_amp_mailmsg_user_claim_reader user_file d in
        if ret \<noteq> 0 then Some (Read_return ret None, user_file, d, pg)
        else do {
          (out, d, pg) \<leftarrow> user_read_pass nonblock fault message user_file d pg;
          Some (out, user_file, d, pg) })"

text \<open>
  After \<open>wait_event_interruptible(rx_wait, rx_generation != generation)\<close>: a signal gives
  its negative code \<open>sig\<close>; otherwise the condition holds and the loop goes round.
\<close>

definition user_read_ready :: "r1_amp_mailmsg_user_file \<Rightarrow> u32 \<Rightarrow> r1_amp_cpu_on_data \<Rightarrow> bool" where
  "user_read_ready user_file generation d \<longleftrightarrow>
     uc_rx_generation (mailmsg_user d ! unat (uf_channel user_file)) \<noteq> generation"

definition r1_amp_mailmsg_user_read_resume ::
  "int \<Rightarrow> bool \<Rightarrow> bool \<Rightarrow> mailmsg_message \<Rightarrow> r1_amp_mailmsg_user_file \<Rightarrow> r1_amp_cpu_on_data \<Rightarrow> amp_page \<Rightarrow>
   (user_read_outcome \<times> r1_amp_cpu_on_data \<times> amp_page) option" where
  "r1_amp_mailmsg_user_read_resume sig nonblock fault message user_file d pg =
     (if sig \<noteq> 0 then Some (Read_return sig None, d, pg)
      else user_read_pass nonblock fault message user_file d pg)"

text \<open>\<open>frame\<close> is \<open>None\<close> when \<open>copy_from_user\<close> fails.\<close>

definition r1_amp_mailmsg_user_write ::
  "u64 \<Rightarrow> mailmsg_user_frame option \<Rightarrow> r1_amp_mailmsg_user_file \<Rightarrow> r1_amp_cpu_on_data \<Rightarrow> amp_page \<Rightarrow>
   (int \<times> r1_amp_cpu_on_data \<times> amp_page) option" where
  "r1_amp_mailmsg_user_write count frame user_file d pg =
     (if count \<noteq> USER_FRAME_SIZE then Some (- EINVAL, d, pg)
      else case frame of None \<Rightarrow> Some (- EFAULT, d, pg)
      | Some frame \<Rightarrow>
          let channel = mailmsg_user d ! unat (uf_channel user_file) in
          if fr_priority frame \<noteq> uc_priority channel \<or> MAILMSG_PAYLOAD_BYTES < fr_length frame
          then Some (- EINVAL, d, pg)
          else
            let gate = r1_amp_mailmsg_data_gate_locked d in do {
            (ret, ep, sh, ctx, send_result) \<leftarrow>
              (if gate = 0
               then mailmsg_endpoint_send (d_endpoint d) (pg_mailmsg pg) (d_ctx d) (uc_priority channel)
                      (fr_type frame) (Some (fr_payload frame)) (fr_length frame) zero_result
               else Some (gate, d_endpoint d, pg_mailmsg pg, d_ctx d, zero_result));
            let d = d\<lparr>d_endpoint := ep, d_ctx := ctx\<rparr>;
            let pg = pg\<lparr>pg_mailmsg := sh\<rparr>;
            Some (if ret = - EAGAIN \<or> ret = - ENOLINK \<or> ret = - ESHUTDOWN then ret
                  else if ret \<noteq> 0
                  then if ret \<le> MAILMSG_ENDPOINT_INVALID then mailmsg_ring_result_to_errno ret
                       else mailmsg_ring_result_to_errno (queue_result send_result)
                  else 48, d, pg) })"

definition r1_amp_mailmsg_user_poll ::
  "r1_amp_mailmsg_user_file \<Rightarrow> r1_amp_cpu_on_data \<Rightarrow> amp_page \<Rightarrow> u32 \<times> r1_amp_mailmsg_user_file \<times> r1_amp_cpu_on_data" where
  "r1_amp_mailmsg_user_poll user_file d pg =
     (let (ret, user_file, d) = r1_amp_mailmsg_user_claim_reader user_file d;
          channel = mailmsg_user d ! unat (uf_channel user_file) in
      if ret \<noteq> 0 then (EPOLLERR, user_file, d)
      else
        (if mailmsg_state d = R1_AMP_MAILMSG_OFFLINE \<or> mailmsg_state d = R1_AMP_MAILMSG_STOPPING
         then EPOLLHUP OR EPOLLERR
         else if mailmsg_state d = R1_AMP_MAILMSG_STARTING then EPOLLERR
         else if mailmsg_state d = R1_AMP_MAILMSG_ACTIVE \<and>
                 0 < mailmsg_endpoint_has_received (d_endpoint d) (pg_mailmsg pg) (uc_priority channel)
         then EPOLLIN OR EPOLLRDNORM
         else 0, user_file, d))"

subsection \<open>Registration\<close>

definition r1_amp_unregister_mailmsg_user :: "r1_amp_cpu_on_data \<Rightarrow> r1_amp_cpu_on_data" where
  "r1_amp_unregister_mailmsg_user d =
     fold (\<lambda>p d. if uc_registered (mailmsg_user d ! unat p)
                 then upd_user (\<lambda>u. u\<lparr>uc_registered := False\<rparr>) p d else d) [0, 1, 2, 3] d"

fun register_from :: "(u32 \<Rightarrow> int) \<Rightarrow> u32 list \<Rightarrow> r1_amp_cpu_on_data \<Rightarrow> int \<times> r1_amp_cpu_on_data" where
  "register_from misc_register [] d = (0, d)"
| "register_from misc_register (p # ps) d =
     (if misc_register p \<noteq> 0 then (misc_register p, r1_amp_unregister_mailmsg_user d)
      else register_from misc_register ps (upd_user (\<lambda>u. u\<lparr>uc_registered := True\<rparr>) p d))"

definition r1_amp_register_mailmsg_user :: "(u32 \<Rightarrow> int) \<Rightarrow> r1_amp_cpu_on_data \<Rightarrow> int \<times> r1_amp_cpu_on_data" where
  "r1_amp_register_mailmsg_user misc_register d = register_from misc_register [0, 1, 2, 3] d"

subsection \<open>Invariants\<close>

lemma driver_inv_send:
  assumes "driver_inv wr d pg" and "same_session (d_endpoint d) (pg_mailmsg pg) ep' sh'"
    and "channels_wf c'" and "lifecycle_notify_bypass c' = lifecycle_notify_bypass (d_ctx d)"
  shows "driver_inv wr (d\<lparr>d_endpoint := ep', d_ctx := c'\<rparr>) (pg\<lparr>pg_mailmsg := sh'\<rparr>)"
  using assms driver_inv_endpoint [OF assms(1,2)]
  by (simp add: driver_inv_def driver_wf_def lifecycle_inv_def)

lemma user_channel:
  assumes "driver_inv wr d pg" and "i < 4"
  shows "uc_priority (mailmsg_user d ! unat i) = i" "unat i < length (mailmsg_user d)"
  using assms by (simp_all add: driver_inv_def driver_wf_def users_wf_def)

text \<open>One pass of a read, by the state of the queue.\<close>

lemma user_read_pass_gate:
  assumes "mailmsg_state d \<noteq> R1_AMP_MAILMSG_ACTIVE"
  shows "user_read_pass nonblock fault m uf d pg =
    Some (Read_return (if mailmsg_state d \<in> {R1_AMP_MAILMSG_START_TIMEOUT, R1_AMP_MAILMSG_STOP_TIMEOUT} then - EIO
                       else r1_amp_mailmsg_data_gate_locked d) None, d, pg)"
  using assms by (cases "mailmsg_state d")
    (simp_all add: user_read_pass_def r1_amp_mailmsg_data_gate_locked_def mailmsg_ring_result_to_errno_def Let_def)

lemma user_read_pass_cases:
  assumes "driver_inv wr d pg" and "mailmsg_state d = R1_AMP_MAILMSG_ACTIVE" and "uf_channel uf < 4"
  obtains (empty) "ring_frames (shared_ring (pg_mailmsg pg) Cpu3_to_linux (uf_channel uf)) = []"
      "user_read_pass nonblock fault m uf d pg =
        Some (if nonblock then Read_return (- EAGAIN) None
              else Read_wait (uc_rx_generation (mailmsg_user d ! unat (uf_channel uf))), d, pg)"
  | (incomplete) f fs ep where "ring_frames (shared_ring (pg_mailmsg pg) Cpu3_to_linux (uf_channel uf)) = f # fs"
      "frame_status f = MAILMSG_RING_INCOMPLETE" "same_session (d_endpoint d) (pg_mailmsg pg) ep (pg_mailmsg pg)"
      "user_read_pass nonblock fault m uf d pg = Some (Read_return (- EAGAIN) None, d\<lparr>d_endpoint := ep\<rparr>, pg)"
  | (bad) f fs ep sh where "ring_frames (shared_ring (pg_mailmsg pg) Cpu3_to_linux (uf_channel uf)) = f # fs"
      "receive_status (session_generation d) f \<noteq> 0" "drained Cpu3_to_linux (uf_channel uf) (d_endpoint d) (pg_mailmsg pg) ep sh"
      "ring_frames (shared_ring sh Cpu3_to_linux (uf_channel uf)) = fs"
      "user_read_pass nonblock fault m uf d pg =
        Some (Read_return (mailmsg_ring_result_to_errno (receive_status (session_generation d) f)) None,
              d\<lparr>d_endpoint := ep\<rparr>, pg\<lparr>pg_mailmsg := sh\<rparr>)"
      "frame_status f \<noteq> MAILMSG_RING_INCOMPLETE"
  | (frame) f fs ep sh where "ring_frames (shared_ring (pg_mailmsg pg) Cpu3_to_linux (uf_channel uf)) = f # fs"
      "receive_status (session_generation d) f = 0" "drained Cpu3_to_linux (uf_channel uf) (d_endpoint d) (pg_mailmsg pg) ep sh"
      "ring_frames (shared_ring sh Cpu3_to_linux (uf_channel uf)) = fs"
      "user_read_pass nonblock fault m uf d pg =
        Some (if fault then Read_return (- EFAULT) None
              else Read_return 48 (Some (user_frame_of (uf_channel uf) f)), d\<lparr>d_endpoint := ep\<rparr>, pg\<lparr>pg_mailmsg := sh\<rparr>)"
proof -
  from assms have b: "endpoint_bound (d_endpoint d) (pg_mailmsg pg) Linux_to_cpu3 Cpu3_to_linux"
    "shared_wf (pg_mailmsg pg)" "endpoint_wf (d_endpoint d)" "ep_generation (d_endpoint d) = session_generation d"
    by (simp_all add: driver_inv_def driver_wf_def lifecycle_inv_def)
  note ch = user_channel(1) [OF assms(1,3)]
  note defs = user_read_pass_def r1_amp_mailmsg_data_gate_locked_def assms(2) ch Let_def
  show thesis
  proof (cases rule: bound_receive_cases [OF b(1-3) assms(3), of m, case_names empty incomplete frame])
    case empty
    then show thesis by (intro that(1)) (simp_all add: defs)
  next
    case (incomplete f fs ep)
    then show thesis
      by (intro that(2) [OF incomplete(1,2) drained_session]) (simp_all add: defs mailmsg_ring_result_to_errno_def)
  next
    case (frame f fs ep sh)
    note st = receive_status_range [OF frame(2), of "session_generation d"]
    show thesis
    proof (cases "receive_status (session_generation d) f = 0")
      case True
      have len: "\<not> length (msg_payload f) < unat (msg_length f)"
        using receive_ok_payload [OF b(2) assms(3) _ True, of Cpu3_to_linux] frame(1) by simp
      with True frame b(4) show thesis by (intro that(4) [of f fs ep sh]) (simp_all add: defs)
    next
      case False
      with frame b(4) st show thesis by (intro that(3) [of f fs ep sh]) (auto simp: defs)
    qed
  qed
qed

text \<open>A write, by the state of the transmit ring.\<close>

lemma user_write_gate:
  assumes "mailmsg_state d \<noteq> R1_AMP_MAILMSG_ACTIVE"
    and "fr_priority frame = uc_priority (mailmsg_user d ! unat (uf_channel uf))" and "fr_length frame \<le> 28"
  shows "r1_amp_mailmsg_user_write 48 (Some frame) uf d pg =
    Some (if mailmsg_state d \<in> {R1_AMP_MAILMSG_START_TIMEOUT, R1_AMP_MAILMSG_STOP_TIMEOUT} then - EIO
          else r1_amp_mailmsg_data_gate_locked d, d, pg)"
  using assms by (cases "mailmsg_state d")
    (simp_all add: r1_amp_mailmsg_user_write_def r1_amp_mailmsg_data_gate_locked_def mailmsg_ring_result_to_errno_def Let_def)

lemma user_write_cases:
  assumes "driver_inv wr d pg" and "mailmsg_state d = R1_AMP_MAILMSG_ACTIVE" and "uf_channel uf < 4"
    and "fr_priority frame = uf_channel uf" and "fr_length frame \<le> 28" and "length (fr_payload frame) = 32"
  obtains (full) ep where "ring_depth (shared_ring (pg_mailmsg pg) Linux_to_cpu3 (uf_channel uf)) = 7"
      "r1_amp_mailmsg_user_write 48 (Some frame) uf d pg = Some (- ENOSPC, d\<lparr>d_endpoint := ep\<rparr>, pg)"
      "same_session (d_endpoint d) (pg_mailmsg pg) ep (pg_mailmsg pg)"
  | (queued) nr ctx ep m where "ring_depth (shared_ring (pg_mailmsg pg) Linux_to_cpu3 (uf_channel uf)) < 7"
      "mailmsg_linux_notify wr (d_ctx d) (uf_channel uf) = (nr, ctx)"
      "m = sent_message (d_endpoint d) (fr_type frame) (fr_payload frame) (fr_length frame)"
      "r1_amp_mailmsg_user_write 48 (Some frame) uf d pg =
        Some (48, d\<lparr>d_endpoint := ep, d_ctx := ctx\<rparr>, pg\<lparr>pg_mailmsg := set_shared_ring (pg_mailmsg pg) Linux_to_cpu3 (uf_channel uf)
          (ring_after_push (shared_ring (pg_mailmsg pg) Linux_to_cpu3 (uf_channel uf)) m)\<rparr>)"
      "same_session (d_endpoint d) (pg_mailmsg pg) ep (set_shared_ring (pg_mailmsg pg) Linux_to_cpu3 (uf_channel uf)
          (ring_after_push (shared_ring (pg_mailmsg pg) Linux_to_cpu3 (uf_channel uf)) m))"
      "channels_wf ctx" "lifecycle_notify_bypass ctx = lifecycle_notify_bypass (d_ctx d)"
proof -
  let ?r = "shared_ring (pg_mailmsg pg) Linux_to_cpu3 (uf_channel uf)"
  from assms have b: "endpoint_bound (d_endpoint d) (pg_mailmsg pg) Linux_to_cpu3 Cpu3_to_linux"
    "shared_wf (pg_mailmsg pg)" "endpoint_wf (d_endpoint d)"
    "ep_notify (d_endpoint d) = Some (linux_backend wr)"
    by (simp_all add: driver_inv_def driver_wf_def lifecycle_inv_def) auto
  then have ep: "ep_tx (d_endpoint d) = Some Linux_to_cpu3" "mailmsg_endpoint_session_valid (d_endpoint d) (pg_mailmsg pg) = 0"
    by (simp_all add: endpoint_bound_def)
  have len: "unat (fr_length frame) \<le> length (fr_payload frame)" using assms(5,6) by (simp add: word_le_nat_alt)
  note ch = user_channel(1) [OF assms(1,3)]
  note defs = r1_amp_mailmsg_user_write_def r1_amp_mailmsg_data_gate_locked_def assms(2) ch Let_def
  show thesis
  proof (cases "ring_depth ?r = 7")
    case True
    note s = send_full [OF ep b(2) assms(3,5) len True, of "d_ctx d" "fr_type frame" zero_result]
    have "same_session (d_endpoint d) (pg_mailmsg pg) (upd_stats (\<lambda>s. s\<lparr>tx_full := tx_full s + 1\<rparr>) (uf_channel uf)
        ((d_endpoint d)\<lparr>ep_next_sequence := next_seq (ep_next_sequence (d_endpoint d))\<rparr>)) (pg_mailmsg pg)"
      using b by (simp add: same_session_def)
    with True s assms show thesis
      by (intro full) (simp_all add: defs init_result_def mailmsg_ring_result_to_errno_def)
  next
    case False
    then have lt: "ring_depth ?r < 7" using ring_depth_lt_or_full by blast
    obtain nr ctx where nf: "mailmsg_linux_notify wr (d_ctx d) (uf_channel uf) = (nr, ctx)" by (metis surj_pair)
    have n: "mailmsg_notify (ep_notify (d_endpoint d)) (d_ctx d) (uf_channel uf) = (nr, ctx)"
      using assms(3) nf by (simp add: b(4) mailmsg_notify_def linux_backend_def backend_def)
    note s = send_ok [OF ep b(2,3) assms(3,5) len lt n, of "fr_type frame" zero_result]
    note inv = linux_send_inv [OF assms(1) len s driver_inv_bound(4) [OF assms(1)]]
    show thesis
      by (rule queued [OF lt nf refl _ inv]) (use s assms in \<open>simp add: defs\<close>)
  qed
qed

end
