(* ===== verification/Amp_Probe.thy ===== *)
theory Amp_Probe
  imports Amp_User
begin

text \<open>
  Binding the driver: the launch geometry from the device tree, the mailbox channels, the
  sysfs attributes and the character devices, with the unwinding on failure.

  The outcome of every call into the kernel is part of \<open>probe_env\<close>; a call that returns an
  error code is the code.  Allocations with \<open>devm_\<close> are released by the device core and
  need no unwinding.
\<close>

subsection \<open>Mailbox channels\<close>

definition zero_channel :: r1_amp_mbox_channel where
  "zero_channel = \<lparr>chan_held = False, tx_msg_cmd = 0, tx_msg_data = 0, ch_index = 0, ch_controller = 0,
     controller_channel = 0, rx_count = 0, rx_last_cmd = 0, rx_last_data = 0, tx_ret = 0, tx_count = 0,
     ch_notify_result = 0, notify_sent_count = 0, notify_coalesced_count = 0, notify_failed_count = 0\<rparr>"

abbreviation (input) R1_AMP_MBOX_CHANNELS_PER_CONTROLLER :: u32 where "R1_AMP_MBOX_CHANNELS_PER_CONTROLLER \<equiv> 4"

definition r1_amp_free_mbox_channels :: "amp_notify_context \<Rightarrow> amp_notify_context" where
  "r1_amp_free_mbox_channels c =
     fold (\<lambda>i c. if chan_held (mbox c ! unat i) then upd_channel (\<lambda>ch. ch\<lparr>chan_held := False\<rparr>) i c else c)
       [0, 1, 2, 3] c"

fun request_from :: "(u32 \<Rightarrow> int) \<Rightarrow> u32 list \<Rightarrow> amp_notify_context \<Rightarrow> int \<times> amp_notify_context" where
  "request_from request_channel [] c = (0, c\<lparr>mailmsg_last_notify_result := - EAGAIN\<rparr>)"
| "request_from request_channel (i # is) c =
     (let c = upd_channel (\<lambda>ch. ch\<lparr>ch_index := i, ch_controller := i div R1_AMP_MBOX_CHANNELS_PER_CONTROLLER,
                controller_channel := i mod R1_AMP_MBOX_CHANNELS_PER_CONTROLLER, rx_count := 0,
                tx_ret := - EAGAIN, ch_notify_result := - EAGAIN\<rparr>) i c
      in if request_channel i \<noteq> 0
         then (request_channel i, r1_amp_free_mbox_channels (upd_channel (\<lambda>ch. ch\<lparr>chan_held := False\<rparr>) i c))
         else request_from request_channel is (upd_channel (\<lambda>ch. ch\<lparr>chan_held := True\<rparr>) i c))"

definition r1_amp_request_mbox_channels :: "(u32 \<Rightarrow> int) \<Rightarrow> amp_notify_context \<Rightarrow> int \<times> amp_notify_context" where
  "r1_amp_request_mbox_channels request_channel c = request_from request_channel [0, 1, 2, 3] c"

subsection \<open>Probe\<close>

record probe_env =
  pe_target_mpidr :: "u64 option"
  pe_zephyr_entry :: "u64 option"
  pe_zephyr_image_size :: "u32 option"
  pe_status_offset :: "u32 option"
  pe_memory_region :: bool
  pe_rmem :: "(u64 \<times> u64) option"
  pe_kzalloc :: bool
  pe_memremap :: int
  pe_mbox_phandle :: bool
  pe_mbox_resource :: int
  pe_mbox_regs :: "mbox_regs option"
  pe_request_channel :: "u32 \<Rightarrow> int"
  pe_create_file :: "string \<Rightarrow> int"
  pe_misc_register :: "u32 \<Rightarrow> int"

abbreviation (input) R1_AMP_A55_CORE3_MPIDR :: u64 where "R1_AMP_A55_CORE3_MPIDR \<equiv> 0x300"

text \<open>\<open>R1_AMP_MAILMSG_OFF + sizeof(struct mailmsg_shared)\<close>: eight rings of 424 bytes behind three words.\<close>

abbreviation (input) R1_AMP_STATE_SIZE :: u64 where "R1_AMP_STATE_SIZE \<equiv> 0x200 + 3404"

definition r1_amp_map_mbox_regs :: "probe_env \<Rightarrow> int \<times> mbox_regs option" where
  "r1_amp_map_mbox_regs env =
     (if \<not> pe_mbox_phandle env then (- EINVAL, None)
      else if pe_mbox_resource env \<noteq> 0 then (pe_mbox_resource env, None)
      else case pe_mbox_regs env of None \<Rightarrow> (- ENOMEM, None) | Some regs \<Rightarrow> (0, Some regs))"

definition geometry_ok :: "u64 \<Rightarrow> u64 \<Rightarrow> u64 \<Rightarrow> u32 \<Rightarrow> u32 \<Rightarrow> bool" where
  "geometry_ok base sz en isize soff \<longleftrightarrow>
     \<not> (isize = 0 \<or> soff < isize \<or> sz - R1_AMP_STATE_SIZE < ucast soff \<or> en < base \<or> base + sz \<le> en)"

text \<open>The state behind \<open>kzalloc\<close> and the assignments of \<open>probe\<close>.\<close>

definition probe_data :: "mmio_write \<Rightarrow> u64 \<Rightarrow> u64 \<Rightarrow> u64 \<Rightarrow> u64 \<Rightarrow> u32 \<Rightarrow> u32 \<Rightarrow> mbox_regs \<Rightarrow> r1_amp_cpu_on_data" where
  "probe_data wr base sz mp en isize soff regs =
     \<lparr>d_ctx = \<lparr>mbox = replicate 4 zero_channel, mbox_regs0 = regs, notify_inject_priority = 0,
        notify_inject_errno = - EIO, notify_inject_remaining = 0, lifecycle_notify_bypass = False,
        mailmsg_last_notify_result = 0\<rparr>,
      mbox_a2b_at_tx_status = 0, mbox_a2b_at_tx_cmd = 0, mbox_a2b_at_tx_data = 0,
      carveout_phys = base, carveout_size = sz, mpidr = mp, entry = en, image_size = isize,
      status_offset = soff, image_written = 0, affinity_state = 0, cpu_on_ret = - EAGAIN,
      affinity_queried = False, affinity_seen_on = False, cpu_on_attempted = False,
      mailmsg_state = R1_AMP_MAILMSG_UNARMED, affinity_work = None, control_work = False,
      lifecycle_timeout_work = None, affinity_monitor_count = 0, affinity_monitor_error_count = 0,
      session_generation = 0, peer_generation = 0, session_result = - EAGAIN, stop_request_sequence = 0,
      stop_reply_type = 0, stop_result = - EAGAIN, stop_notify_result = - EAGAIN, lifecycle_deadline = 0,
      next_sequence = 0, d_endpoint = zero_endpoint,
      d_notify_endpoint = \<lparr>ne_ops = Some (mailmsg_linux_notify_ops wr)\<rparr>,
      mailmsg_user = map (\<lambda>p. \<lparr>uc_priority = p, uc_rx_wait = 0, uc_rx_generation = 0,
        uc_reader_open_count = 0, uc_registered = False\<rparr>) [0, 1, 2, 3],
      mailmsg_user_open_count = 0, mailmsg_user_removing = False\<rparr>"

text \<open>
  The tail of \<open>probe\<close> returns the code, the driver data once set as \<open>drvdata\<close>, and the
  sysfs files that exist.  \<open>device_create_file\<close> adds a file when the kernel call succeeds
  and otherwise jumps to the error label it is given; \<open>device_remove_file\<close> takes a file away.
\<close>

type_synonym probe_result = "int \<times> r1_amp_cpu_on_data option \<times> string list"

definition device_remove_file :: "string \<Rightarrow> string list \<Rightarrow> string list" where
  "device_remove_file a files = removeAll a files"

definition device_create_file ::
  "probe_env \<Rightarrow> string \<Rightarrow> string list \<Rightarrow> (int \<Rightarrow> string list \<Rightarrow> probe_result) \<Rightarrow>
   (string list \<Rightarrow> probe_result) \<Rightarrow> probe_result" where
  "device_create_file env a files err continue =
     (if pe_create_file env a \<noteq> 0 then err (pe_create_file env a) files else continue (a # files))"

text \<open>
  The error labels of \<open>probe\<close>, the last one first: each label removes its own file and
  falls through to the label below it.
\<close>

definition err_image :: "r1_amp_cpu_on_data \<Rightarrow> int \<Rightarrow> string list \<Rightarrow> probe_result" where
  "err_image d ret files =
     (ret, Some (d\<lparr>d_ctx := r1_amp_free_mbox_channels (d_ctx d)\<rparr>), device_remove_file ''image'' files)"

definition err_status :: "r1_amp_cpu_on_data \<Rightarrow> int \<Rightarrow> string list \<Rightarrow> probe_result" where
  "err_status d ret files = err_image d ret (device_remove_file ''status'' files)"

definition err_mailmsg_stats :: "r1_amp_cpu_on_data \<Rightarrow> int \<Rightarrow> string list \<Rightarrow> probe_result" where
  "err_mailmsg_stats d ret files = err_status d ret (device_remove_file ''mailmsg_stats'' files)"

definition err_affinity_state :: "r1_amp_cpu_on_data \<Rightarrow> int \<Rightarrow> string list \<Rightarrow> probe_result" where
  "err_affinity_state d ret files = err_mailmsg_stats d ret (device_remove_file ''affinity_state'' files)"

definition err_start :: "r1_amp_cpu_on_data \<Rightarrow> int \<Rightarrow> string list \<Rightarrow> probe_result" where
  "err_start d ret files = err_affinity_state d ret (device_remove_file ''start'' files)"

definition err_rearm :: "r1_amp_cpu_on_data \<Rightarrow> int \<Rightarrow> string list \<Rightarrow> probe_result" where
  "err_rearm d ret files = err_start d ret (device_remove_file ''rearm'' files)"

definition err_ping :: "r1_amp_cpu_on_data \<Rightarrow> int \<Rightarrow> string list \<Rightarrow> probe_result" where
  "err_ping d ret files = err_rearm d ret (device_remove_file ''ping'' files)"

definition err_response :: "r1_amp_cpu_on_data \<Rightarrow> int \<Rightarrow> string list \<Rightarrow> probe_result" where
  "err_response d ret files = err_ping d ret (device_remove_file ''response'' files)"

definition err_doorbell :: "r1_amp_cpu_on_data \<Rightarrow> int \<Rightarrow> string list \<Rightarrow> probe_result" where
  "err_doorbell d ret files = err_response d ret (device_remove_file ''doorbell'' files)"

definition err_mailmsg_ping :: "r1_amp_cpu_on_data \<Rightarrow> int \<Rightarrow> string list \<Rightarrow> probe_result" where
  "err_mailmsg_ping d ret files = err_doorbell d ret (device_remove_file ''mailmsg_ping'' files)"

definition err_mailmsg_stop :: "r1_amp_cpu_on_data \<Rightarrow> int \<Rightarrow> string list \<Rightarrow> probe_result" where
  "err_mailmsg_stop d ret files = err_mailmsg_ping d ret (device_remove_file ''mailmsg_stop'' files)"

definition err_mailmsg_crc_inject :: "r1_amp_cpu_on_data \<Rightarrow> int \<Rightarrow> string list \<Rightarrow> probe_result" where
  "err_mailmsg_crc_inject d ret files = err_mailmsg_stop d ret (device_remove_file ''mailmsg_crc_inject'' files)"

definition err_mailmsg_notify_inject :: "r1_amp_cpu_on_data \<Rightarrow> int \<Rightarrow> string list \<Rightarrow> probe_result" where
  "err_mailmsg_notify_inject d ret files = err_mailmsg_crc_inject d ret (device_remove_file ''mailmsg_notify_inject'' files)"

definition err_mailmsg_queue_push :: "r1_amp_cpu_on_data \<Rightarrow> int \<Rightarrow> string list \<Rightarrow> probe_result" where
  "err_mailmsg_queue_push d ret files = err_mailmsg_notify_inject d ret (device_remove_file ''mailmsg_queue_push'' files)"

definition err_mailmsg_response :: "r1_amp_cpu_on_data \<Rightarrow> int \<Rightarrow> string list \<Rightarrow> probe_result" where
  "err_mailmsg_response d ret files = err_mailmsg_queue_push d ret (device_remove_file ''mailmsg_response'' files)"

text \<open>The part of \<open>probe\<close> behind the register mapping.\<close>

definition probe_attach :: "probe_env \<Rightarrow> r1_amp_cpu_on_data \<Rightarrow> probe_result" where
  "probe_attach env d =
     (let (ret, ctx) = r1_amp_request_mbox_channels (pe_request_channel env) (d_ctx d);
          d = d\<lparr>d_ctx := ctx\<rparr>
      in if ret \<noteq> 0 then (ret, Some d, [])
         else device_create_file env ''image'' [] (\<lambda>ret files. (ret, Some d, files)) (\<lambda>files.
              device_create_file env ''status'' files (err_image d) (\<lambda>files.
              device_create_file env ''mailmsg_stats'' files (err_status d) (\<lambda>files.
              device_create_file env ''affinity_state'' files (err_mailmsg_stats d) (\<lambda>files.
              device_create_file env ''start'' files (err_affinity_state d) (\<lambda>files.
              device_create_file env ''rearm'' files (err_start d) (\<lambda>files.
              device_create_file env ''ping'' files (err_rearm d) (\<lambda>files.
              device_create_file env ''response'' files (err_ping d) (\<lambda>files.
              device_create_file env ''doorbell'' files (err_response d) (\<lambda>files.
              device_create_file env ''mailmsg_ping'' files (err_doorbell d) (\<lambda>files.
              device_create_file env ''mailmsg_stop'' files (err_mailmsg_ping d) (\<lambda>files.
              device_create_file env ''mailmsg_crc_inject'' files (err_mailmsg_stop d) (\<lambda>files.
              device_create_file env ''mailmsg_notify_inject'' files (err_mailmsg_crc_inject d) (\<lambda>files.
              device_create_file env ''mailmsg_queue_push'' files (err_mailmsg_notify_inject d) (\<lambda>files.
              device_create_file env ''mailmsg_response'' files (err_mailmsg_queue_push d) (\<lambda>files.
              let (ret, d) = r1_amp_register_mailmsg_user (pe_misc_register env) d in
              if ret \<noteq> 0 then err_mailmsg_response d ret files
              else (0, Some d, files)))))))))))))))))"

definition r1_amp_cpu_on_probe ::
  "mmio_write \<Rightarrow> probe_env \<Rightarrow> int \<times> r1_amp_cpu_on_data option \<times> string list" where
  "r1_amp_cpu_on_probe wr env =
     (case (pe_target_mpidr env, pe_zephyr_entry env, pe_zephyr_image_size env, pe_status_offset env) of
        (Some mp, Some en, Some isize, Some soff) \<Rightarrow>
          if mp \<noteq> R1_AMP_A55_CORE3_MPIDR then (- EINVAL, None, [])
          else if \<not> pe_memory_region env then (- EINVAL, None, [])
          else (case pe_rmem env of None \<Rightarrow> (- ENODEV, None, [])
          | Some (base, sz) \<Rightarrow>
              if \<not> geometry_ok base sz en isize soff then (- EINVAL, None, [])
              else if \<not> pe_kzalloc env then (- ENOMEM, None, [])
              else if pe_memremap env \<noteq> 0 then (pe_memremap env, None, [])
              else (case r1_amp_map_mbox_regs env of
                (ret, None) \<Rightarrow> (ret, None, [])
              | (_, Some regs) \<Rightarrow>
                  probe_attach env (probe_data wr base sz mp en isize soff regs)))
      | _ \<Rightarrow> (- EINVAL, None, []))"

text \<open>A board description on which every call succeeds, and the carveout it describes.\<close>

definition board_env :: probe_env where
  "board_env = \<lparr>pe_target_mpidr = Some 0x300, pe_zephyr_entry = Some 0x10000000, pe_zephyr_image_size = Some 4,
     pe_status_offset = Some 0x2000, pe_memory_region = True, pe_rmem = Some (0x10000000, 0x100000),
     pe_kzalloc = True, pe_memremap = 0, pe_mbox_phandle = True, pe_mbox_resource = 0,
     pe_mbox_regs = Some (\<lambda>_. 0), pe_request_channel = (\<lambda>_. 0), pe_create_file = (\<lambda>_. 0), pe_misc_register = (\<lambda>_. 0)\<rparr>"

definition board_page :: amp_page where
  "board_page = \<lparr>pg_image = replicate 4 0, pg_status_magic = 0, pg_status_current_el = 0,
     pg_req_payload = zero_payload_line, pg_req_commit = zero_commit_line, pg_rsp_payload = zero_payload_line,
     pg_rsp_commit = zero_commit_line, pg_mbox_obs = zero_mbox_obs, pg_tx_full_obs = zero_tx_full_obs,
     pg_worker_obs = zero_worker_obs, pg_mailmsg = zero_shared\<rparr>"

definition board_data :: "mmio_write \<Rightarrow> r1_amp_cpu_on_data" where
  "board_data wr = the (fst (snd (r1_amp_cpu_on_probe wr board_env)))"

subsection \<open>Properties\<close>

lemma mbox_upd_channel [simp]:
  "mbox (upd_channel f i c) = (mbox c)[unat i := f (mbox c ! unat i)]"
  "mailmsg_last_notify_result (upd_channel f i c) = mailmsg_last_notify_result c"
  by (simp_all add: upd_channel_def)

text \<open>Either all four channels are held and wired, or none is held.\<close>

lemma request_channels_cases:
  assumes "mbox c = replicate 4 zero_channel" and "notify_inject_errno c < 0"
  obtains (failed) r c' where "r1_amp_request_mbox_channels req c = (r, c')" "r \<noteq> 0" "\<forall>i < 4. \<not> chan_held (mbox c' ! i)"
      "map req [0, 1, 2, 3] \<noteq> [0, 0, 0, 0]" "length (mbox c') = 4"
  | (held) c' where "r1_amp_request_mbox_channels req c = (0, c')" "\<forall>i < 4. chan_held (mbox c' ! i)" "channels_wf c'"
      "lifecycle_notify_bypass c' = lifecycle_notify_bypass c" "mbox_regs0 c' = mbox_regs0 c"
      "mailmsg_last_notify_result c' = - EAGAIN" "map req [0, 1, 2, 3] = [0, 0, 0, 0]"
proof -
  have four4: "(\<forall>i < 4. P i) \<longleftrightarrow> P 0 \<and> P 1 \<and> P 2 \<and> P (3::nat)" for P
    by (auto simp: numeral_eq_Suc less_Suc_eq)
  have four_list: "replicate 4 x = [x, x, x, x]" for x :: r1_amp_mbox_channel
    by (simp add: numeral_eq_Suc)
  show thesis
  proof (cases "req 0 = 0 \<and> req 1 = 0 \<and> req 2 = 0 \<and> req 3 = 0")
    case True
    then have "fst (r1_amp_request_mbox_channels req c) = 0"
      by (simp add: r1_amp_request_mbox_channels_def Let_def)
    then have r: "r1_amp_request_mbox_channels req c = (0, snd (r1_amp_request_mbox_channels req c))" by (simp add: prod_eq_iff)
    show thesis
      by (rule held [OF r]; insert True assms; simp add: r1_amp_request_mbox_channels_def Let_def four4 channels_wf_def context_wf_def zero_channel_def four_list)
  next
    case False
    then have r: "fst (r1_amp_request_mbox_channels req c) \<noteq> 0"
      by (auto simp: r1_amp_request_mbox_channels_def Let_def)
    have "\<forall>i < 4. \<not> chan_held (mbox (snd (r1_amp_request_mbox_channels req c)) ! i)"
      using False assms
      by (cases "req 0 = 0"; cases "req 1 = 0"; cases "req 2 = 0")
         (simp_all add: r1_amp_request_mbox_channels_def r1_amp_free_mbox_channels_def Let_def four4 zero_channel_def four_list)
    moreover have "length (mbox (snd (r1_amp_request_mbox_channels req c))) = 4"
      using assms
      by (cases "req 0 = 0"; cases "req 1 = 0"; cases "req 2 = 0"; cases "req 3 = 0")
         (simp_all add: r1_amp_request_mbox_channels_def r1_amp_free_mbox_channels_def Let_def)
    ultimately show thesis using failed [OF prod.collapse [symmetric] r] False by simp
  qed
qed

lemma free_channels_released:
  assumes "length (mbox c) = 4" and "i < 4"
  shows "\<not> chan_held (mbox (r1_amp_free_mbox_channels c) ! i)"
proof -
  from assms(1) obtain a b e f where m: "mbox c = [a, b, e, f]" by (rule list4_cases)
  have four4: "(\<forall>i < 4. P i) \<longleftrightarrow> P 0 \<and> P 1 \<and> P 2 \<and> P (3::nat)" for P
    by (auto simp: numeral_eq_Suc less_Suc_eq)
  have "\<forall>i < 4. \<not> chan_held (mbox (r1_amp_free_mbox_channels c) ! i)"
    unfolding four4 by (simp add: r1_amp_free_mbox_channels_def m)
  with assms(2) show ?thesis by blast
qed

text \<open>Every label undoes all that was done before the call that jumps to it.\<close>

lemmas err_label_defs = err_image_def err_status_def err_mailmsg_stats_def err_affinity_state_def
  err_start_def err_rearm_def err_ping_def err_response_def err_doorbell_def err_mailmsg_ping_def
  err_mailmsg_stop_def err_mailmsg_crc_inject_def err_mailmsg_notify_inject_def
  err_mailmsg_queue_push_def err_mailmsg_response_def

lemmas probe_eval = r1_amp_cpu_on_probe_def geometry_ok_def r1_amp_map_mbox_regs_def probe_attach_def
  device_create_file_def r1_amp_request_mbox_channels_def r1_amp_register_mailmsg_user_def Let_def

abbreviation (input) sysfs_files :: "string list" where
  "sysfs_files \<equiv> [''mailmsg_response'', ''mailmsg_queue_push'', ''mailmsg_notify_inject'',
     ''mailmsg_crc_inject'', ''mailmsg_stop'', ''mailmsg_ping'', ''doorbell'', ''response'', ''ping'', ''rearm'',
     ''start'', ''affinity_state'', ''mailmsg_stats'', ''status'', ''image'']"

lemma err_mailmsg_response_all:
  "err_mailmsg_response d r sysfs_files = (r, Some (d\<lparr>d_ctx := r1_amp_free_mbox_channels (d_ctx d)\<rparr>), [])"
  by (simp add: err_label_defs device_remove_file_def)

lemma probe_attach_files:
  assumes "r1_amp_request_mbox_channels (pe_request_channel env) (d_ctx d) = (0, c)"
    and "pe_create_file env ''image'' = 0" and "\<not> list_all (\<lambda>a. pe_create_file env a = 0) sysfs_files"
  shows "\<exists>r. r \<noteq> 0 \<and>
    probe_attach env d = (r, Some (d\<lparr>d_ctx := r1_amp_free_mbox_channels c\<rparr>), [])"
  using assms by (auto simp: probe_attach_def device_create_file_def err_label_defs device_remove_file_def Let_def)

lemma probe_attach_users:
  assumes "r1_amp_request_mbox_channels (pe_request_channel env) (d_ctx d) = (0, c)"
    and "list_all (\<lambda>a. pe_create_file env a = 0) sysfs_files"
  shows "probe_attach env d =
    (let (r, d') = r1_amp_register_mailmsg_user (pe_misc_register env) (d\<lparr>d_ctx := c\<rparr>) in
     if r \<noteq> 0 then (r, Some (d'\<lparr>d_ctx := r1_amp_free_mbox_channels (d_ctx d')\<rparr>), [])
     else (0, Some d', sysfs_files))"
  using assms by (simp add: probe_attach_def device_create_file_def err_mailmsg_response_all Let_def split: prod.split)

definition users_registered :: "bool \<Rightarrow> r1_amp_cpu_on_data \<Rightarrow> bool" where
  "users_registered b d \<longleftrightarrow> (\<forall>i < 4. uc_registered (mailmsg_user d ! i) = b)"

definition fresh_users :: "r1_amp_mailmsg_user_channel list" where
  "fresh_users = map (\<lambda>p. \<lparr>uc_priority = p, uc_rx_wait = 0, uc_rx_generation = 0,
     uc_reader_open_count = 0, uc_registered = False\<rparr>) [0, 1, 2, 3]"

lemma register_users_cases:
  assumes "mailmsg_user d = fresh_users"
  obtains (failed) r us where "r1_amp_register_mailmsg_user reg d = (r, d\<lparr>mailmsg_user := us\<rparr>)" "r \<noteq> 0"
      "users_registered False (d\<lparr>mailmsg_user := us\<rparr>)"
  | (ok) us where "r1_amp_register_mailmsg_user reg d = (0, d\<lparr>mailmsg_user := us\<rparr>)"
      "users_registered True (d\<lparr>mailmsg_user := us\<rparr>)" "users_wf us"
proof -
  have four4: "(\<forall>i < 4. P i) \<longleftrightarrow> P 0 \<and> P 1 \<and> P 2 \<and> P (3::nat)" for P
    by (auto simp: numeral_eq_Suc less_Suc_eq)
  note defs = r1_amp_register_mailmsg_user_def r1_amp_unregister_mailmsg_user_def upd_user_def assms fresh_users_def
    users_registered_def users_wf_def four4
  let ?x = "r1_amp_register_mailmsg_user reg d"
  have shape: "snd ?x = d\<lparr>mailmsg_user := mailmsg_user (snd ?x)\<rparr>"
    by (cases "reg 0 = 0"; cases "reg 1 = 0"; cases "reg 2 = 0"; cases "reg 3 = 0") (simp_all add: defs)
  show thesis
  proof (cases "reg 0 = 0 \<and> reg 1 = 0 \<and> reg 2 = 0 \<and> reg 3 = 0")
    case True
    then have "fst ?x = 0" "users_registered True (snd ?x)" "users_wf (mailmsg_user (snd ?x))" by (simp_all add: defs)
    with shape ok [of "mailmsg_user (snd ?x)"] show thesis by (metis prod.collapse)
  next
    case False
    then have "fst ?x \<noteq> 0" "users_registered False (snd ?x)"
      by (cases "reg 0 = 0"; cases "reg 1 = 0"; cases "reg 2 = 0"; simp add: defs)+
    with shape failed [of "fst ?x" "mailmsg_user (snd ?x)"] show thesis by (metis prod.collapse)
  qed
qed

lemma probe_data_simps [simp]:
  "mailmsg_user (probe_data wr base sz mp en isize soff regs) = fresh_users"
  "mbox (d_ctx (probe_data wr base sz mp en isize soff regs)) = replicate 4 zero_channel"
  "notify_inject_errno (d_ctx (probe_data wr base sz mp en isize soff regs)) = - EIO"
  "lifecycle_notify_bypass (d_ctx (probe_data wr base sz mp en isize soff regs)) = False"
  by (simp_all add: probe_data_def fresh_users_def)

lemma probe_eq:
  obtains (refused) e where "e < 0 \<or> e = pe_memremap env \<and> e \<noteq> 0 \<or> e = pe_mbox_resource env \<and> e \<noteq> 0"
      "r1_amp_cpu_on_probe wr env = (e, None, [])"
  | (attach) base sz mp en isize soff regs where "pe_rmem env = Some (base, sz)" "pe_target_mpidr env = Some mp"
      "pe_zephyr_entry env = Some en" "pe_zephyr_image_size env = Some isize" "pe_status_offset env = Some soff"
      "mp = R1_AMP_A55_CORE3_MPIDR" "geometry_ok base sz en isize soff"
      "r1_amp_cpu_on_probe wr env = probe_attach env (probe_data wr base sz mp en isize soff regs)"
proof -
  show thesis
  proof (cases "\<exists>mp en isize soff base sz regs. pe_target_mpidr env = Some mp \<and> pe_zephyr_entry env = Some en \<and>
      pe_zephyr_image_size env = Some isize \<and> pe_status_offset env = Some soff \<and> mp = R1_AMP_A55_CORE3_MPIDR \<and>
      pe_memory_region env \<and> pe_rmem env = Some (base, sz) \<and> geometry_ok base sz en isize soff \<and> pe_kzalloc env \<and>
      pe_memremap env = 0 \<and> r1_amp_map_mbox_regs env = (0, Some regs)")
    case True
    then obtain mp en isize soff base sz regs where t: "pe_target_mpidr env = Some mp" "pe_zephyr_entry env = Some en"
      "pe_zephyr_image_size env = Some isize" "pe_status_offset env = Some soff" "mp = R1_AMP_A55_CORE3_MPIDR"
      "pe_memory_region env" "pe_rmem env = Some (base, sz)" "geometry_ok base sz en isize soff" "pe_kzalloc env"
      "pe_memremap env = 0" "r1_amp_map_mbox_regs env = (0, Some regs)" by auto
    have "r1_amp_cpu_on_probe wr env = probe_attach env (probe_data wr base sz mp en isize soff regs)"
      unfolding r1_amp_cpu_on_probe_def t by (simp add: t)
    with t show thesis by (intro attach)
  next
    case False
    have "\<exists>e. (e < 0 \<or> e = pe_memremap env \<and> e \<noteq> 0 \<or> e = pe_mbox_resource env \<and> e \<noteq> 0) \<and>
        r1_amp_cpu_on_probe wr env = (e, None, [])"
      using False
      by (cases "pe_target_mpidr env"; cases "pe_zephyr_entry env"; cases "pe_zephyr_image_size env";
          cases "pe_status_offset env"; cases "pe_rmem env"; cases "pe_mbox_regs env")
         (auto simp: r1_amp_cpu_on_probe_def r1_amp_map_mbox_regs_def)
    with refused show thesis by blast
  qed
qed

lemma probe_attach_cases:
  assumes "mailmsg_user d = fresh_users" and "mbox (d_ctx d) = replicate 4 zero_channel" and "notify_inject_errno (d_ctx d) < 0"
  obtains (no_channels) r d' where "probe_attach env d = (r, Some d', [])" "r \<noteq> 0"
      "\<forall>i < 4. \<not> chan_held (mbox (d_ctx d') ! i)" "users_registered False d'" "length (mbox (d_ctx d')) = 4"
      "map (pe_request_channel env) [0, 1, 2, 3] \<noteq> [0, 0, 0, 0] \<or> pe_create_file env ''image'' = 0"
  | (no_image) c where "pe_create_file env ''image'' \<noteq> 0" "\<forall>i < 4. chan_held (mbox c ! i)" "channels_wf c"
      "map (pe_request_channel env) [0, 1, 2, 3] = [0, 0, 0, 0]"
      "probe_attach env d = (pe_create_file env ''image'', Some (d\<lparr>d_ctx := c\<rparr>), [])" "users_registered False (d\<lparr>d_ctx := c\<rparr>)"
  | (ok) c us where "probe_attach env d = (0, Some (d\<lparr>d_ctx := c, mailmsg_user := us\<rparr>), sysfs_files)"
      "\<forall>i < 4. chan_held (mbox c ! i)" "channels_wf c" "lifecycle_notify_bypass c = lifecycle_notify_bypass (d_ctx d)"
      "users_wf us" "users_registered True (d\<lparr>d_ctx := c, mailmsg_user := us\<rparr>)" "mbox_regs0 c = mbox_regs0 (d_ctx d)"
proof -
  have fresh: "users_registered False (d\<lparr>d_ctx := c\<rparr>)" for c
    using assms(1) by (auto simp: users_registered_def fresh_users_def numeral_eq_Suc less_Suc_eq)
  show thesis
  proof (cases rule: request_channels_cases [OF assms(2,3), of "pe_request_channel env", case_names failed held])
    case (failed r c')
    with fresh show thesis by (intro no_channels [of r "d\<lparr>d_ctx := c'\<rparr>"]) (simp_all add: probe_attach_def)
  next
    case (held c')
    have len: "length (mbox c') = 4" using held(3) by (simp add: channels_wf_def context_wf_def)
    have len': "length (mbox (r1_amp_free_mbox_channels c')) = 4"
      using len by (simp add: r1_amp_free_mbox_channels_def)
    note rel = free_channels_released [OF len] len'
    show thesis
    proof (cases "pe_create_file env ''image'' = 0")
      case False
      with held fresh show thesis by (intro no_image [of c']) (simp_all add: probe_attach_def device_create_file_def)
    next
      case img: True
      show thesis
      proof (cases "list_all (\<lambda>a. pe_create_file env a = 0) sysfs_files")
        case False
        from probe_attach_files [OF held(1) img this] obtain r where
          "r \<noteq> 0" "probe_attach env d = (r, Some (d\<lparr>d_ctx := r1_amp_free_mbox_channels c'\<rparr>), [])" by blast
        with img rel fresh show thesis
          by (intro no_channels [of r "d\<lparr>d_ctx := r1_amp_free_mbox_channels c'\<rparr>"]) simp_all
      next
        case True
        note attach = probe_attach_users [OF held(1) True]
        have us: "mailmsg_user (d\<lparr>d_ctx := c'\<rparr>) = fresh_users" using assms(1) by simp
        show thesis
        proof (cases rule: register_users_cases [OF us, of "pe_misc_register env", case_names failed ok])
          case (failed r us)
          with img attach rel show thesis
            by (intro no_channels [of r "d\<lparr>d_ctx := r1_amp_free_mbox_channels c', mailmsg_user := us\<rparr>"])
               (simp_all add: users_registered_def)
        next
          case (ok us)
          with held attach show thesis by (intro that(3) [of us c']) simp_all
        qed
      qed
    qed
  qed
qed

lemma all_channels: "length xs = 4 \<Longrightarrow> list_all P xs \<longleftrightarrow> (\<forall>i < 4. P (xs ! i))"
  "length xs = 4 \<Longrightarrow> list_ex P xs \<longleftrightarrow> (\<exists>i < 4. P (xs ! i))"
  by (simp_all add: list_all_length list_ex_length)

lemma probe_data_inv:
  assumes "channels_wf c" and "\<not> lifecycle_notify_bypass c" and "users_wf us"
    and "unat isize \<le> length (pg_image pg)" and "shared_wf (pg_mailmsg pg)"
  shows "driver_inv wr (probe_data wr base sz mp en isize soff regs\<lparr>d_ctx := c, mailmsg_user := us\<rparr>) pg"
  using assms unfolding driver_inv_def driver_wf_def lifecycle_inv_def probe_data_def
  by (simp add: linux_backend_def backend_def mailmsg_linux_notify_ops_def) (simp add: zero_endpoint_def)

lemma probe_established:
  assumes "r1_amp_cpu_on_probe wr env = (0, Some d, files)" and "unat (image_size d) \<le> length (pg_image pg)"
    and "shared_wf (pg_mailmsg pg)"
  shows "driver_inv wr d pg \<and> mailmsg_state d = R1_AMP_MAILMSG_UNARMED \<and> list_all chan_held (mbox (d_ctx d)) \<and>
    users_registered True d \<and> files = sysfs_files"
proof (cases rule: probe_eq [of env wr, case_names refused attach])
  case (refused e)
  with assms(1) show ?thesis by simp
next
  case (attach base sz mp en isize soff regs)
  let ?d = "probe_data wr base sz mp en isize soff regs"
  have us: "mailmsg_user ?d = fresh_users" "mbox (d_ctx ?d) = replicate 4 zero_channel" "notify_inject_errno (d_ctx ?d) < 0"
    by simp_all
  show ?thesis
  proof (cases rule: probe_attach_cases [OF us, of env, case_names no_channels no_image ok])
    case (ok c us)
    have out: "d = ?d\<lparr>d_ctx := c, mailmsg_user := us\<rparr>" "files = sysfs_files"
      using ok(1) attach(8) assms(1) by simp_all
    have "length (mbox c) = 4" using ok(3) by (simp add: channels_wf_def context_wf_def)
    moreover have "driver_inv wr d pg"
      unfolding out by (rule probe_data_inv) (use ok assms(2,3) out in \<open>simp_all add: probe_data_def\<close>)
    ultimately show ?thesis
      using ok(2,6) out by (simp add: all_channels) (simp add: probe_data_def)
  qed (use attach(8) assms in simp_all)
qed

lemma board_probe_ok: "fst (r1_amp_cpu_on_probe wr board_env) = 0"
  by (simp add: board_env_def probe_eval)

lemma board_probe:
  obtains d files where "r1_amp_cpu_on_probe wr board_env = (0, Some d, files)" "board_data wr = d"
    "unat (image_size d) \<le> length (pg_image board_page)" "shared_wf (pg_mailmsg board_page)"
proof -
  have "fst (snd (r1_amp_cpu_on_probe wr board_env)) \<noteq> None" "image_size (board_data wr) = 4"
    by (simp_all add: board_data_def board_env_def probe_eval probe_data_def upd_user_def)
  then obtain d files where "r1_amp_cpu_on_probe wr board_env = (0, Some d, files)" "image_size d = 4" "board_data wr = d"
    using board_probe_ok [of wr] by (cases "r1_amp_cpu_on_probe wr board_env") (auto simp: board_data_def)
  with that [of d files] show thesis by (simp add: board_page_def)
qed

text \<open>Claim C39.
  A probe on a complete device-tree node, in which every call into the kernel succeeds and
  the launch geometry is accepted, returns 0 and leaves a driver that satisfies the driver
  invariant for every carveout whose image area has the announced size and whose rings hold
  indices in range, whatever else the carveout holds.  The geometry is the one of the
  device tree, the session is unarmed, all four mailbox channels are held and carry their
  index, all four character devices are registered, and the fifteen sysfs files exist.
\<close>

theorem probe_success:
  assumes "pe_target_mpidr env = Some 0x300" and "pe_zephyr_entry env = Some en"
    and "pe_zephyr_image_size env = Some isize" and "pe_status_offset env = Some soff"
    and "pe_memory_region env" and "pe_rmem env = Some (base, sz)" and "geometry_ok base sz en isize soff"
    and "pe_kzalloc env" and "pe_memremap env = 0" and "pe_mbox_phandle env" and "pe_mbox_resource env = 0"
    and "pe_mbox_regs env = Some regs" and "map (pe_request_channel env) [0, 1, 2, 3] = [0, 0, 0, 0]"
    and "\<And>a. pe_create_file env a = 0" and "map (pe_misc_register env) [0, 1, 2, 3] = [0, 0, 0, 0]"
    and "unat isize \<le> length (pg_image pg)" and "shared_wf (pg_mailmsg pg)"
  shows "\<exists>d. r1_amp_cpu_on_probe wr env = (0, Some d,
      [''mailmsg_response'', ''mailmsg_queue_push'', ''mailmsg_notify_inject'', ''mailmsg_crc_inject'',
       ''mailmsg_stop'', ''mailmsg_ping'', ''doorbell'', ''response'', ''ping'', ''rearm'', ''start'',
       ''affinity_state'', ''mailmsg_stats'', ''status'', ''image'']) \<and>
    driver_inv wr d pg \<and> mailmsg_state d = R1_AMP_MAILMSG_UNARMED \<and>
    mpidr d = 0x300 \<and> entry d = en \<and> image_size d = isize \<and> status_offset d = soff \<and>
    carveout_phys d = base \<and> carveout_size d = sz \<and> mbox_regs0 (d_ctx d) = regs \<and>
    map ch_index (mbox (d_ctx d)) = [0, 1, 2, 3] \<and> list_all chan_held (mbox (d_ctx d)) \<and>
    map uc_priority (mailmsg_user d) = [0, 1, 2, 3] \<and> list_all uc_registered (mailmsg_user d)"
proof -
  let ?d = "probe_data wr base sz 0x300 en isize soff regs"
  let ?x = "probe_attach env ?d"
  have four_list: "replicate 4 x = [x, x, x, x]" for x :: r1_amp_mbox_channel
    by (simp add: numeral_eq_Suc)
  have probe: "r1_amp_cpu_on_probe wr env = ?x"
    using assms(1-12) by (simp add: r1_amp_cpu_on_probe_def r1_amp_map_mbox_regs_def)
  note defs = probe_attach_def device_create_file_def r1_amp_request_mbox_channels_def
    r1_amp_register_mailmsg_user_def Let_def probe_data_def upd_user_def zero_channel_def four_list
  have code: "fst ?x = 0" and some: "fst (snd ?x) \<noteq> None"
    using assms(13-15) by (simp_all add: defs)
  then obtain d files where x: "?x = (0, Some d, files)" by (cases ?x) auto
  have d: "d = the (fst (snd ?x))" by (simp add: x)
  have "mpidr d = 0x300" "entry d = en" "image_size d = isize" "status_offset d = soff"
    "carveout_phys d = base" "carveout_size d = sz" "mbox_regs0 (d_ctx d) = regs"
    "map ch_index (mbox (d_ctx d)) = [0, 1, 2, 3]" "map uc_priority (mailmsg_user d) = [0, 1, 2, 3]"
    "list_all uc_registered (mailmsg_user d)"
    unfolding d using assms(13-15) by (simp_all add: defs)
  moreover have "unat (image_size d) \<le> length (pg_image pg)" using calculation assms(16) by simp
  note probe_established [OF _ this assms(17), of wr env files]
  ultimately show ?thesis using probe x by simp
qed

theorem probe_success_witness:
  "\<exists>d. r1_amp_cpu_on_probe rk_mbox_write board_env = (0, Some d,
      [''mailmsg_response'', ''mailmsg_queue_push'', ''mailmsg_notify_inject'', ''mailmsg_crc_inject'',
       ''mailmsg_stop'', ''mailmsg_ping'', ''doorbell'', ''response'', ''ping'', ''rearm'', ''start'',
       ''affinity_state'', ''mailmsg_stats'', ''status'', ''image'']) \<and>
    driver_inv rk_mbox_write d board_page \<and> mailmsg_state d = R1_AMP_MAILMSG_UNARMED \<and>
    mpidr d = 0x300 \<and> entry d = 0x10000000 \<and> image_size d = 4 \<and> status_offset d = 0x2000 \<and>
    carveout_phys d = 0x10000000 \<and> carveout_size d = 0x100000 \<and> mbox_regs0 (d_ctx d) = (\<lambda>_. 0) \<and>
    map ch_index (mbox (d_ctx d)) = [0, 1, 2, 3] \<and> list_all chan_held (mbox (d_ctx d)) \<and>
    map uc_priority (mailmsg_user d) = [0, 1, 2, 3] \<and> list_all uc_registered (mailmsg_user d)"
  by (rule probe_success) (simp_all add: board_env_def board_page_def geometry_ok_def)

text \<open>Claim C40.
  A probe that fails after the driver data exist leaves no sysfs file and no character
  device behind.  It leaves mailbox channels requested in exactly one case: when all four
  were granted and creating the binary \<open>image\<close> attribute failed; that path returns without
  \<open>r1_amp_free_mbox_channels\<close>.
\<close>

theorem probe_failure_unwinds:
  assumes "r1_amp_cpu_on_probe wr env = (r, Some d, files)" and "r \<noteq> 0"
  shows "files = [] \<and> users_registered False d \<and>
    (list_ex chan_held (mbox (d_ctx d)) \<longleftrightarrow>
     map (pe_request_channel env) [0, 1, 2, 3] = [0, 0, 0, 0] \<and> pe_create_file env ''image'' \<noteq> 0)"
proof (cases rule: probe_eq [of env wr, case_names refused attach])
  case (refused e)
  with assms(1) show ?thesis by simp
next
  case (attach base sz mp en isize soff regs)
  let ?d = "probe_data wr base sz mp en isize soff regs"
  have us: "mailmsg_user ?d = fresh_users" "mbox (d_ctx ?d) = replicate 4 zero_channel" "notify_inject_errno (d_ctx ?d) < 0"
    by simp_all
  show ?thesis
  proof (cases rule: probe_attach_cases [OF us, of env, case_names no_channels no_image ok])
    case (no_channels r' d')
    have out: "d = d'" "files = []" using no_channels(1) attach(8) assms(1) by simp_all
    have "\<not> list_ex chan_held (mbox (d_ctx d'))" using no_channels(3,5) by (simp add: all_channels)
    with no_channels(4,6) show ?thesis unfolding out by auto
  next
    case (no_image c)
    have out: "d = ?d\<lparr>d_ctx := c\<rparr>" "files = []" using no_image(5) attach(8) assms(1) by simp_all
    have len: "length (mbox c) = 4" using no_image(3) by (simp add: channels_wf_def context_wf_def)
    have "list_ex chan_held (mbox c)" using no_image(2) by (auto simp: all_channels(2) [OF len] intro: exI [of _ 0])
    with no_image(1,4,6) show ?thesis unfolding out by simp
  next
    case (ok c us)
    with attach(8) assms show ?thesis by simp
  qed
qed

theorem probe_failure_unwinds_witness:
  "\<exists>d d'.
    r1_amp_cpu_on_probe rk_mbox_write
      (board_env\<lparr>pe_create_file := (\<lambda>a. if a = ''doorbell'' then - ENOMEM else 0)\<rparr>) = (- ENOMEM, Some d, []) \<and>
    users_registered False d \<and> \<not> list_ex chan_held (mbox (d_ctx d)) \<and>
    r1_amp_cpu_on_probe rk_mbox_write (board_env\<lparr>pe_create_file := (\<lambda>_. - ENOMEM)\<rparr>) = (- ENOMEM, Some d', []) \<and>
    users_registered False d' \<and> list_ex chan_held (mbox (d_ctx d'))"
proof -
  let ?e = "board_env\<lparr>pe_create_file := (\<lambda>a. if a = ''doorbell'' then - ENOMEM else 0)\<rparr>"
  let ?e' = "board_env\<lparr>pe_create_file := (\<lambda>_. - ENOMEM)\<rparr>"
  have "fst (r1_amp_cpu_on_probe rk_mbox_write ?e) = - ENOMEM" "fst (snd (r1_amp_cpu_on_probe rk_mbox_write ?e)) \<noteq> None"
    "fst (r1_amp_cpu_on_probe rk_mbox_write ?e') = - ENOMEM" "fst (snd (r1_amp_cpu_on_probe rk_mbox_write ?e')) \<noteq> None"
    by (simp_all add: board_env_def probe_eval err_label_defs)
  then obtain d files d' files' where p: "r1_amp_cpu_on_probe rk_mbox_write ?e = (- ENOMEM, Some d, files)"
    and p': "r1_amp_cpu_on_probe rk_mbox_write ?e' = (- ENOMEM, Some d', files')"
    by (cases "r1_amp_cpu_on_probe rk_mbox_write ?e"; cases "r1_amp_cpu_on_probe rk_mbox_write ?e'") auto
  have "pe_create_file ?e ''image'' = 0"
    "map (pe_request_channel ?e') [0, 1, 2, 3] = [0, 0, 0, 0] \<and> pe_create_file ?e' ''image'' \<noteq> 0"
    by (simp_all add: board_env_def)
  with probe_failure_unwinds [OF p] probe_failure_unwinds [OF p'] p p' show ?thesis by auto
qed

end
