(* ===== verification/Amp_Sysfs.thy ===== *)
theory Amp_Sysfs
  imports Amp_User
begin

text \<open>
  The sysfs attributes of the driver beside start, stop and rearm: the image upload, the
  status and statistics reports, the legacy one-shot ping, the raw doorbell, and the test
  hooks of the MailMsg transport.

  What \<open>sscanf\<close> and \<open>kstrtou32\<close> make of the input is an argument.  A report is the tuple
  of values that the format string prints.
\<close>

subsection \<open>Image upload\<close>

text \<open>
  \<open>off\<close> is the \<open>loff_t\<close> file position, compared with the \<open>size_t\<close> counter as an unsigned
  value; the number of bytes is the length of the buffer.  \<open>None\<close> is a copy beyond the
  image area of the carveout.  The cache clean and the instruction-cache flush after the last
  byte do not change the coherent page and are no operations here.
\<close>

definition image_write ::
  "u64 \<Rightarrow> u8 list \<Rightarrow> r1_amp_cpu_on_data \<Rightarrow> amp_page \<Rightarrow> (int \<times> r1_amp_cpu_on_data \<times> amp_page) option" where
  "image_write off buf d pg =
     (let count = word_of_nat (length buf) :: u64 in
      if mailmsg_user_removing d then Some (- ENODEV, d, pg)
      else if cpu_on_attempted d then Some (- EBUSY, d, pg)
      else if off \<noteq> image_written d then Some (- ESPIPE, d, pg)
      else if ucast (image_size d) - image_written d < count then Some (- EFBIG, d, pg)
      else if length (pg_image pg) < unat off + length buf then None
      else Some (int (length buf), d\<lparr>image_written := image_written d + count\<rparr>,
                 pg\<lparr>pg_image := take (unat off) (pg_image pg) @ buf @ drop (unat off + length buf) (pg_image pg)\<rparr>))"

subsection \<open>Reports\<close>

record status_report =
  sr_image_written :: u64
  sr_image_size :: u32
  sr_affinity :: string
  sr_affinity_state :: int
  sr_affinity_seen_on :: bool
  sr_mailmsg_state :: string
  sr_session_generation :: u32
  sr_peer_generation :: u32
  sr_session_result :: int
  sr_stop_request_sequence :: u32
  sr_stop_reply_type :: u32
  sr_stop_result :: int
  sr_stop_notify_result :: int
  sr_monitor_count :: u32
  sr_monitor_error_count :: u32
  sr_cpu_on_attempted :: bool
  sr_cpu_on_ret :: int
  sr_channels :: "(u32 \<times> u32 \<times> u32 \<times> u32 \<times> int \<times> int \<times> u32 \<times> u32 \<times> u32) list"
  sr_a2b_now :: u32
  sr_last_notify :: int
  sr_inject :: "u32 \<times> int \<times> u32"
  sr_tx_full :: "bool \<times> u32 \<times> u32 \<times> u32 \<times> u32 \<times> int"
  sr_worker :: "bool \<times> u32 \<times> u32 \<times> u32 \<times> u32 \<times> u32 \<times> u32 \<times> u32 \<times> u32 \<times> u32"
  sr_observation :: "u32 \<times> u32 \<times> u32 \<times> u32"
  sr_magic :: u64
  sr_current_el :: u64

text \<open>
  The diagnostics lines are read twice, with the cache invalidated in between, while CPU3
  may write them: \<open>pg\<close> is the page at the first reading of each line, \<open>tf2\<close> and \<open>wo2\<close> are
  the two lines at the second.
\<close>

definition status_show ::
  "r1_amp_cpu_on_data \<Rightarrow> amp_page \<Rightarrow> mailmsg_tx_full_observation \<Rightarrow> mailmsg_worker_observation_line \<Rightarrow> status_report" where
  "status_show d pg tf2 wo2 =
     (let c = d_ctx d; ob = pg_mbox_obs pg; tf = pg_tx_full_obs pg; wo = pg_worker_obs pg in
      \<lparr>sr_image_written = image_written d, sr_image_size = image_size d,
       sr_affinity = (if affinity_queried d then r1_amp_psci_state_name (affinity_state d) else ''not-queried''),
       sr_affinity_state = affinity_state d, sr_affinity_seen_on = affinity_seen_on d,
       sr_mailmsg_state = r1_amp_mailmsg_state_name (mailmsg_state d),
       sr_session_generation = session_generation d, sr_peer_generation = peer_generation d,
       sr_session_result = session_result d, sr_stop_request_sequence = stop_request_sequence d,
       sr_stop_reply_type = stop_reply_type d, sr_stop_result = stop_result d,
       sr_stop_notify_result = stop_notify_result d, sr_monitor_count = affinity_monitor_count d,
       sr_monitor_error_count = affinity_monitor_error_count d, sr_cpu_on_attempted = cpu_on_attempted d,
       sr_cpu_on_ret = cpu_on_ret d,
       sr_channels = map (\<lambda>i. let ch = mbox c ! i in
         (rx_count ch, rx_last_cmd ch, rx_last_data ch, tx_count ch, tx_ret ch, ch_notify_result ch,
          notify_sent_count ch, notify_coalesced_count ch, notify_failed_count ch)) [0..<4],
       sr_a2b_now = mbox_regs0 c A2B_STATUS, sr_last_notify = mailmsg_last_notify_result c,
       sr_inject = (notify_inject_priority c, notify_inject_errno c, notify_inject_remaining c),
       sr_tx_full = (tx_full_valid tf tf2, tf_commit tf2, tf_full_count tf, tf_last_priority tf,
         tf_last_type tf, tf_last_result tf),
       sr_worker = (worker_valid wo wo2, wo_commit wo2, wo_irq_count wo, wo_wake_count wo, wo_drain_count wo,
         wo_message_count wo, wo_empty_wake_count wo, wo_last_pending wo, wo_pending_now wo, wo_last_priority wo),
       sr_observation = (ob_magic ob, ob_a2b_status ob, ob_command ob, ob_data ob),
       sr_magic = pg_status_magic pg, sr_current_el = pg_status_current_el pg\<rparr>)"

definition mailmsg_stats_show ::
  "r1_amp_cpu_on_data \<Rightarrow> amp_page \<Rightarrow> (u32 \<times> mailmsg_priority_stats \<times> int \<times> int) list" where
  "mailmsg_stats_show d pg =
     map (\<lambda>priority.
       let stats = ep_stats (d_endpoint d) ! unat priority;
           (tx_depth, rx_depth) =
             (case (ep_tx (d_endpoint d), ep_rx (d_endpoint d)) of
                (Some tx, Some rx) \<Rightarrow>
                  (mailmsg_ring_count (Some (shared_ring (pg_mailmsg pg) tx priority)) (Some mailmsg_linux_memory_ops),
                   mailmsg_ring_count (Some (shared_ring (pg_mailmsg pg) rx priority)) (Some mailmsg_linux_memory_ops))
              | _ \<Rightarrow> (- 1, - 1))
       in (priority, stats, tx_depth, rx_depth)) [0, 1, 2, 3]"

subsection \<open>Legacy ping and raw doorbell\<close>

abbreviation (input) R1_AMP_CMD_PING :: u32 where "R1_AMP_CMD_PING \<equiv> 1"
abbreviation (input) R1_AMP_MBOX_TX_CHANNEL :: u32 where "R1_AMP_MBOX_TX_CHANNEL \<equiv> 3"

definition ping_store ::
  "amp_env \<Rightarrow> int + u32 \<Rightarrow> int \<Rightarrow> r1_amp_cpu_on_data \<Rightarrow> amp_page \<Rightarrow> int \<times> r1_amp_cpu_on_data \<times> amp_page" where
  "ping_store env parsed count d pg =
     (case parsed of Inl ret \<Rightarrow> (ret, d, pg)
      | Inr value \<Rightarrow>
          if mailmsg_state d \<noteq> R1_AMP_MAILMSG_UNARMED then (- EOPNOTSUPP, d, pg)
          else
            let ret = r1_amp_mailmsg_data_gate_locked d in
            if ret \<noteq> 0 then (ret, d, pg)
            else
              let sequence = next_sequence d + 1;
                  sequence = (if sequence = 0 then sequence + 1 else sequence);
                  d = d\<lparr>next_sequence := sequence\<rparr>;
                  pg = pg\<lparr>pg_req_payload := zero_payload_line\<lparr>pl_command := R1_AMP_CMD_PING, pl_value := value\<rparr>\<rparr>;
                  pg = pg\<lparr>pg_req_commit := \<lparr>cl_sequence = sequence, cl_sequence_inv = NOT sequence\<rparr>\<rparr>;
                  pg = pg\<lparr>pg_mbox_obs := zero_mbox_obs\<rparr>;
                  (ret, ctx) = r1_amp_mbox_direct_send_locked (mbox_write env) (d_ctx d) R1_AMP_MBOX_TX_CHANNEL
                                 R1_AMP_CMD_PING value;
                  d = d\<lparr>d_ctx := ctx\<rparr>
              in if ret < 0 then (ret, d, pg)
                 else (count, d\<lparr>mbox_a2b_at_tx_status := mbox_regs0 ctx A2B_STATUS,
                                mbox_a2b_at_tx_cmd := mbox_regs0 ctx (A2B_CMD R1_AMP_MBOX_TX_CHANNEL),
                                mbox_a2b_at_tx_data := mbox_regs0 ctx (A2B_DAT R1_AMP_MBOX_TX_CHANNEL)\<rparr>, pg))"

definition doorbell_store ::
  "amp_env \<Rightarrow> (u32 \<times> u32) option \<Rightarrow> int \<Rightarrow> r1_amp_cpu_on_data \<Rightarrow> int \<times> r1_amp_cpu_on_data" where
  "doorbell_store env parsed count d =
     (case parsed of None \<Rightarrow> (- EINVAL, d)
      | Some (index, value) \<Rightarrow>
          if R1_AMP_MBOX_CHANNELS \<le> index then (- EINVAL, d)
          else
            let ret = r1_amp_mailmsg_data_gate_locked d in
            if ret \<noteq> 0 then (ret, d)
            else
              let (ret, ctx) = r1_amp_mbox_direct_send_locked (mbox_write env) (d_ctx d) index
                                 (0xa2b00000 OR index) value
              in (if ret < 0 then ret else count, d\<lparr>d_ctx := ctx\<rparr>))"

subsection \<open>MailMsg test hooks\<close>

text \<open>\<open>None\<close> is a write outside the slot array.\<close>

definition mailmsg_linux_ring_push ::
  "mailmsg_ring \<Rightarrow> mailmsg_message \<Rightarrow> bool \<Rightarrow> (int \<times> mailmsg_ring) option" where
  "mailmsg_linux_ring_push ring message corrupt_payload =
     (let producer = rb_producer ring; nxt = (producer + 1) mod MAILMSG_RING_SLOTS in
      if msg_generation message = 0 \<or> msg_sequence message = 0 \<or> MAILMSG_PAYLOAD_BYTES < msg_length message
      then Some (- EINVAL, ring)
      else if nxt = rb_consumer ring then Some (- ENOSPC, ring)
      else if MAILMSG_RING_SLOTS \<le> producer then None
      else
        let slot = message\<lparr>msg_commit := 0\<rparr>;
            slot = slot\<lparr>msg_crc32 := mailmsg_frame_crc32 slot\<rparr>;
            slot = (if corrupt_payload
                    then slot\<lparr>msg_payload := (msg_payload slot)[0 := msg_payload slot ! 0 XOR 0xff]\<rparr> else slot);
            slot = slot\<lparr>msg_commit := msg_sequence message\<rparr>
        in Some (0, ring\<lparr>rb_slot := (rb_slot ring)[unat producer := slot], rb_producer := nxt\<rparr>))"

definition mailmsg_test_enqueue_locked ::
  "u32 \<Rightarrow> u32 \<Rightarrow> bool \<Rightarrow> r1_amp_cpu_on_data \<Rightarrow> amp_page \<Rightarrow> (int \<times> r1_amp_cpu_on_data \<times> amp_page) option" where
  "mailmsg_test_enqueue_locked priority value corrupt_payload d pg =
     (let shared = pg_mailmsg pg; ep = d_endpoint d in
      if shm_magic shared \<noteq> MAILMSG_PROTOCOL_MAGIC \<or> shm_version shared \<noteq> MAILMSG_PROTOCOL_VERSION \<or>
         shm_generation shared \<noteq> ep_generation ep
      then Some (- EPROTO, d, pg)
      else do {
        let sequence = ep_next_sequence ep + 1;
        let sequence = (if sequence = 0 then sequence + 1 else sequence);
        let d = d\<lparr>d_endpoint := ep\<lparr>ep_next_sequence := sequence\<rparr>\<rparr>;
        let request = zero_message\<lparr>msg_type := MAILMSG_MSG_PING, msg_generation := ep_generation ep,
                        msg_sequence := sequence, msg_length := 4,
                        msg_payload := mailmsg_store_payload_u32 (msg_payload zero_message) 0 value\<rparr>;
        (ret, ring) \<leftarrow> mailmsg_linux_ring_push (shared_ring shared Linux_to_cpu3 priority) request corrupt_payload;
        Some (ret, d, pg\<lparr>pg_mailmsg := set_shared_ring shared Linux_to_cpu3 priority ring\<rparr>) })"

definition mailmsg_send_ping ::
  "amp_env \<Rightarrow> (u32 \<times> u32) option \<Rightarrow> int \<Rightarrow> bool \<Rightarrow> r1_amp_cpu_on_data \<Rightarrow> amp_page \<Rightarrow>
   (int \<times> r1_amp_cpu_on_data \<times> amp_page) option" where
  "mailmsg_send_ping env parsed count corrupt_payload d pg =
     (case parsed of None \<Rightarrow> Some (- EINVAL, d, pg)
      | Some (priority, value) \<Rightarrow>
          if MAILMSG_PRIORITY_COUNT \<le> priority then Some (- EINVAL, d, pg)
          else
            let ret = r1_amp_mailmsg_data_gate_locked d in
            if ret \<noteq> 0 then Some (ret, d, pg)
            else if corrupt_payload then do {
              (ret, d, pg) \<leftarrow> mailmsg_test_enqueue_locked priority value True d pg;
              if ret \<noteq> 0 then Some (ret, d, pg)
              else
                let (ret, ctx) = mailmsg_notify_locked (mbox_write env) (d_ctx d) priority
                in Some (count, d\<lparr>d_ctx := ctx\<rparr>, pg) }
            else do {
              let payload = mailmsg_store_payload_u32 (replicate 4 0) 0 value;
              (ret, ep, sh, ctx, send_result) \<leftarrow>
                mailmsg_endpoint_send (d_endpoint d) (pg_mailmsg pg) (d_ctx d) priority MAILMSG_MSG_PING
                  (Some payload) 4 zero_result;
              let d = d\<lparr>d_endpoint := ep, d_ctx := ctx\<rparr>;
              let pg = pg\<lparr>pg_mailmsg := sh\<rparr>;
              Some (if ret \<noteq> 0
                    then if ret \<le> MAILMSG_ENDPOINT_INVALID then mailmsg_ring_result_to_errno ret
                         else mailmsg_ring_result_to_errno (queue_result send_result)
                    else count, d, pg) })"

definition mailmsg_ping_store ::
  "amp_env \<Rightarrow> (u32 \<times> u32) option \<Rightarrow> int \<Rightarrow> r1_amp_cpu_on_data \<Rightarrow> amp_page \<Rightarrow> (int \<times> r1_amp_cpu_on_data \<times> amp_page) option" where
  "mailmsg_ping_store env parsed count d pg = mailmsg_send_ping env parsed count False d pg"

definition mailmsg_crc_inject_store ::
  "amp_env \<Rightarrow> (u32 \<times> u32) option \<Rightarrow> int \<Rightarrow> r1_amp_cpu_on_data \<Rightarrow> amp_page \<Rightarrow> (int \<times> r1_amp_cpu_on_data \<times> amp_page) option" where
  "mailmsg_crc_inject_store env parsed count d pg = mailmsg_send_ping env parsed count True d pg"

abbreviation (input) MAX_ERRNO :: int where "MAX_ERRNO \<equiv> 4095"

definition mailmsg_notify_inject_store ::
  "string \<Rightarrow> (u32 \<times> int \<times> u32) option \<Rightarrow> int \<Rightarrow> r1_amp_cpu_on_data \<Rightarrow> int \<times> r1_amp_cpu_on_data" where
  "mailmsg_notify_inject_store buf parsed count d =
     (if sysfs_streq buf ''clear'' then (count, d\<lparr>d_ctx := (d_ctx d)\<lparr>notify_inject_remaining := 0\<rparr>\<rparr>)
      else case parsed of None \<Rightarrow> (- EINVAL, d)
      | Some (priority, injected_errno, remaining) \<Rightarrow>
          if MAILMSG_PRIORITY_COUNT \<le> priority \<or> 0 \<le> injected_errno \<or> injected_errno < - MAX_ERRNO \<or>
             remaining = 0 \<or> 1000 < remaining
          then (- EINVAL, d)
          else
            let ret = r1_amp_mailmsg_data_gate_locked d in
            if ret \<noteq> 0 then (ret, d)
            else (count, d\<lparr>d_ctx := (d_ctx d)\<lparr>notify_inject_priority := priority,
                    notify_inject_errno := injected_errno, notify_inject_remaining := remaining\<rparr>\<rparr>))"

definition mailmsg_queue_push_store ::
  "(u32 \<times> u32) option \<Rightarrow> int \<Rightarrow> r1_amp_cpu_on_data \<Rightarrow> amp_page \<Rightarrow> (int \<times> r1_amp_cpu_on_data \<times> amp_page) option" where
  "mailmsg_queue_push_store parsed count d pg =
     (case parsed of None \<Rightarrow> Some (- EINVAL, d, pg)
      | Some (priority, value) \<Rightarrow>
          if MAILMSG_PRIORITY_COUNT \<le> priority then Some (- EINVAL, d, pg)
          else do {
            let gate = r1_amp_mailmsg_data_gate_locked d;
            (ret, d, pg) \<leftarrow> (if gate = 0 then mailmsg_test_enqueue_locked priority value False d pg
                            else Some (gate, d, pg));
            Some (if ret \<noteq> 0 then ret else count, d, pg) })"

subsection \<open>Draining the reverse rings\<close>

datatype response_line =
    Response_error u32 int
  | Response_feedback u32 u32 u32 u32 int
  | Response_value u32 u32 u32 u32

datatype response_report =
    Report_reason string
  | Report_lines "response_line list"

definition response_line_of :: "u32 \<Rightarrow> mailmsg_message \<Rightarrow> response_line" where
  "response_line_of priority response =
     (if (msg_type response = MAILMSG_MSG_ACK \<or> msg_type response = MAILMSG_MSG_NACK) \<and>
         MAILMSG_FEEDBACK_BYTES \<le> msg_length response
      then Response_feedback priority (msg_type response) (msg_sequence response)
             (mailmsg_payload_u32 (msg_payload response) MAILMSG_FEEDBACK_SEQUENCE_OFFSET)
             (sint (mailmsg_payload_u32 (msg_payload response) MAILMSG_FEEDBACK_STATUS_OFFSET))
      else Response_value priority (msg_type response) (msg_sequence response)
             (if 4 \<le> msg_length response then mailmsg_payload_u32 (msg_payload response) 0 else 0))"

partial_function (option) drain_responses ::
  "u32 \<Rightarrow> r1_amp_cpu_on_data \<Rightarrow> amp_page \<Rightarrow> mailmsg_message \<Rightarrow> response_line list \<Rightarrow>
   (response_line list \<times> r1_amp_cpu_on_data \<times> amp_page \<times> mailmsg_message) option" where
  "drain_responses priority d pg response acc = do {
     (ret, ep, sh, response) \<leftarrow> mailmsg_endpoint_receive (d_endpoint d) (pg_mailmsg pg) priority response;
     let d = d\<lparr>d_endpoint := ep\<rparr>;
     let pg = pg\<lparr>pg_mailmsg := sh\<rparr>;
     if ret = MAILMSG_RING_EMPTY then Some (acc, d, pg, response)
     else if ret \<noteq> 0 then
       if ret = MAILMSG_RING_INCOMPLETE \<or> ret \<le> MAILMSG_ENDPOINT_INVALID
       then Some (acc @ [Response_error priority ret], d, pg, response)
       else drain_responses priority d pg response (acc @ [Response_error priority ret])
     else drain_responses priority d pg response (acc @ [response_line_of priority response]) }"

fun drain_priorities ::
  "u32 list \<Rightarrow> r1_amp_cpu_on_data \<Rightarrow> amp_page \<Rightarrow> mailmsg_message \<Rightarrow> response_line list \<Rightarrow>
   (response_line list \<times> r1_amp_cpu_on_data \<times> amp_page) option" where
  "drain_priorities [] d pg response acc = Some (acc, d, pg)"
| "drain_priorities (p # ps) d pg response acc = do {
     (acc, d, pg, response) \<leftarrow> drain_responses p d pg response acc;
     drain_priorities ps d pg response acc }"

definition mailmsg_response_show ::
  "mailmsg_message \<Rightarrow> r1_amp_cpu_on_data \<Rightarrow> amp_page \<Rightarrow> (response_report \<times> r1_amp_cpu_on_data \<times> amp_page) option" where
  "mailmsg_response_show response d pg =
     (if ep_rx (d_endpoint d) = None then Some (Report_reason ''protocol-not-ready'', d, pg)
      else if r1_amp_mailmsg_data_gate_locked d \<noteq> 0
      then Some (Report_reason
        (case mailmsg_state d of
           R1_AMP_MAILMSG_STARTING \<Rightarrow> ''lifecycle-pending''
         | R1_AMP_MAILMSG_STOPPING \<Rightarrow> ''lifecycle-pending''
         | R1_AMP_MAILMSG_START_TIMEOUT \<Rightarrow> ''lifecycle-timeout''
         | R1_AMP_MAILMSG_STOP_TIMEOUT \<Rightarrow> ''lifecycle-timeout''
         | R1_AMP_MAILMSG_OFFLINE \<Rightarrow> ''offline''
         | _ \<Rightarrow> ''unarmed''), d, pg)
      else do {
        (lines, d, pg) \<leftarrow> drain_priorities [0, 1, 2, 3] d pg response [];
        Some (if lines = [] then Report_reason ''empty'' else Report_lines lines, d, pg) })"

text \<open>The legacy response line: request sequence, response sequence, validity and the payload.\<close>

definition response_show :: "r1_amp_cpu_on_data \<Rightarrow> amp_page \<Rightarrow> u64 \<times> u64 \<times> bool \<times> u32 \<times> u32 \<times> int \<times> u32" where
  "response_show d pg =
     (let sequence = cl_sequence (pg_rsp_commit pg);
          valid = (sequence \<noteq> 0 \<and> cl_sequence_inv (pg_rsp_commit pg) = NOT sequence);
          pl = (if valid then pg_rsp_payload pg else zero_payload_line)
      in (next_sequence d, sequence, valid, pl_command pl, pl_value pl, pl_status pl, pl_result pl))"

subsection \<open>The private push of the driver\<close>

text \<open>
  \<open>mailmsg_linux_ring_push\<close> duplicates \<open>mailmsg_ring_push\<close> with errno results; without the
  fault it is the same function.
\<close>

definition push_errno :: "int \<Rightarrow> int" where
  "push_errno c = (if c = MAILMSG_RING_INVALID then - EINVAL else if c = MAILMSG_RING_FULL then - ENOSPC else c)"

lemma linux_ring_push_eq:
  "mailmsg_linux_ring_push r m False = map_option (\<lambda>(c, r'). (push_errno c, r')) (mailmsg_ring_push r m)"
  by (simp add: mailmsg_linux_ring_push_def mailmsg_ring_push_def mailmsg_next_def push_errno_def Let_def)

definition flip_payload :: "mailmsg_message \<Rightarrow> mailmsg_message" where
  "flip_payload m = m\<lparr>msg_payload := (msg_payload m)[0 := msg_payload m ! 0 XOR 0xff]\<rparr>"

lemma flip_payload_simps [simp]:
  "msg_generation (flip_payload m) = msg_generation m" "msg_type (flip_payload m) = msg_type m"
  "msg_sequence (flip_payload m) = msg_sequence m" "msg_length (flip_payload m) = msg_length m"
  "msg_crc32 (flip_payload m) = msg_crc32 m" "msg_commit (flip_payload m) = msg_commit m"
  "message_wf (flip_payload m) = message_wf m" "frame_valid (flip_payload m) = frame_valid m"
  by (simp_all add: flip_payload_def message_wf_def frame_valid_def)

lemma flip_payload_crc32:
  assumes "message_wf m"
  shows "mailmsg_frame_crc32 m \<noteq> mailmsg_frame_crc32 (flip_payload m)"
proof -
  obtain x xs where p: "msg_payload m = x # xs"
    using assms by (cases "msg_payload m") (simp_all add: message_wf_def)
  let ?pre = "le_bytes (msg_generation m) @ le_bytes (msg_type m) @ le_bytes (msg_sequence m) @ le_bytes (msg_length m)"
  have b: "frame_bytes m = ?pre @ [x] @ xs" "frame_bytes (flip_payload m) = ?pre @ [x XOR 0xff] @ xs"
    by (simp_all add: frame_bytes_def flip_payload_def p)
  have "x XOR 0xff \<noteq> x XOR 0" unfolding word_xor_left_cancel by simp
  then have "[x] \<noteq> [x XOR 0xff]" by simp
  with frame_crc32_window [OF b] show ?thesis by simp
qed

lemma flipped_status: "frame_valid m \<Longrightarrow> message_wf m \<Longrightarrow> frame_status (flip_payload (seal m)) = MAILMSG_RING_BAD_CRC"
  using flip_payload_crc32 [of "seal m"] by (simp add: frame_status_def) (simp add: seal_def)

lemma linux_ring_push_corrupt:
  assumes "ring_wf r" and "frame_valid m" and "ring_depth r < 7"
  shows "mailmsg_linux_ring_push r m True = Some (0, ring_put r (flip_payload (seal m)))"
proof -
  have "mailmsg_next (rb_producer r) \<noteq> rb_consumer r"
    using assms(1,3) ring_depth_full by force
  moreover have eq: "flip_payload (seal m) = (flip_payload (m\<lparr>msg_crc32 := mailmsg_frame_crc32 m\<rparr>))\<lparr>msg_commit := msg_sequence m\<rparr>"
    by (simp add: flip_payload_def seal_def)
  ultimately show ?thesis
    using assms(2) ring_wfD(4) [OF assms(1)] unfolding eq
    by (simp add: mailmsg_linux_ring_push_def mailmsg_next_def frame_valid_def Let_def ring_put_def flip_payload_def not_le not_less)
qed

lemma linux_ring_push_cases:
  assumes "ring_wf r" and "frame_valid m" and "message_wf m"
  obtains (full) "ring_depth r = 7" "mailmsg_linux_ring_push r m b = Some (- ENOSPC, r)"
  | (ok) f where "ring_depth r < 7" "f = (if b then flip_payload (seal m) else seal m)"
      "mailmsg_linux_ring_push r m b = Some (0, ring_put r f)" "message_wf f"
proof (cases "ring_depth r = 7")
  case True
  then have "mailmsg_next (rb_producer r) = rb_consumer r" using ring_depth_full [OF assms(1)] by simp
  with True assms show thesis
    by (intro full) (simp_all add: mailmsg_linux_ring_push_def mailmsg_next_def frame_valid_def Let_def not_less)
next
  case False
  then have "ring_depth r < 7" using ring_depth_lt_or_full by blast
  with assms ring_push_ok [OF assms(1,2)] linux_ring_push_corrupt [OF assms(1,2)] show thesis
    by (intro ok [of "if b then flip_payload (seal m) else seal m"])
       (auto simp: linux_ring_push_eq ring_after_push_def push_errno_def)
qed

subsection \<open>Invariants of the entry points\<close>

lemma sequence_let:
  "(let s = n + 1; s = (if s = 0 then s + 1 else s) in f s) = f (next_seq n)"
  by (simp add: next_seq_def Let_def)

lemma test_enqueue_cases:
  assumes "driver_inv wr d pg" and "mailmsg_state d = R1_AMP_MAILMSG_ACTIVE" and "p < 4"
  obtains (full) "ring_depth (shared_ring (pg_mailmsg pg) Linux_to_cpu3 p) = 7"
      "mailmsg_test_enqueue_locked p v b d pg = Some (- ENOSPC,
        d\<lparr>d_endpoint := (d_endpoint d)\<lparr>ep_next_sequence := next_seq (ep_next_sequence (d_endpoint d))\<rparr>\<rparr>, pg)"
  | (ok) f m where "ring_depth (shared_ring (pg_mailmsg pg) Linux_to_cpu3 p) < 7"
      "m = send_message (session_generation d) MAILMSG_MSG_PING (next_seq (ep_next_sequence (d_endpoint d)))
             (mailmsg_store_payload_u32 (replicate 4 0) 0 v) 4"
      "f = (if b then flip_payload (seal m) else seal m)" "message_wf f"
      "mailmsg_test_enqueue_locked p v b d pg = Some (0,
        d\<lparr>d_endpoint := (d_endpoint d)\<lparr>ep_next_sequence := next_seq (ep_next_sequence (d_endpoint d))\<rparr>\<rparr>,
        pg\<lparr>pg_mailmsg := set_shared_ring (pg_mailmsg pg) Linux_to_cpu3 p
             (ring_put (shared_ring (pg_mailmsg pg) Linux_to_cpu3 p) f)\<rparr>)"
proof -
  from assms have b: "endpoint_bound (d_endpoint d) (pg_mailmsg pg) Linux_to_cpu3 Cpu3_to_linux"
    "shared_wf (pg_mailmsg pg)" "ep_generation (d_endpoint d) = session_generation d"
    by (simp_all add: driver_inv_def driver_wf_def lifecycle_inv_def)
  let ?n = "next_seq (ep_next_sequence (d_endpoint d))"
  let ?m = "send_message (session_generation d) MAILMSG_MSG_PING ?n (mailmsg_store_payload_u32 (replicate 4 0) 0 v) 4"
  have bytes: "mailmsg_store_payload_u32 (msg_payload zero_message) 0 v =
      mailmsg_store_payload_u32 (replicate 4 0) 0 v @ drop 4 (msg_payload zero_message)"
    by (simp add: mailmsg_store_payload_u32_def zero_message_def numeral_eq_Suc)
  have m: "zero_message\<lparr>msg_type := MAILMSG_MSG_PING, msg_generation := session_generation d, msg_sequence := ?n, msg_length := 4,
      msg_payload := mailmsg_store_payload_u32 (msg_payload zero_message) 0 v\<rparr> = ?m"
    by (simp add: send_message_def bytes)
  from b(1) have s: "shm_magic (pg_mailmsg pg) = MAILMSG_PROTOCOL_MAGIC" "shm_version (pg_mailmsg pg) = MAILMSG_PROTOCOL_VERSION"
    "shm_generation (pg_mailmsg pg) = session_generation d" "session_generation d \<noteq> 0"
    using b(3) by (auto simp: endpoint_bound_def mailmsg_endpoint_session_valid_def split: if_splits)
  have wf: "frame_valid ?m" "message_wf ?m" using s(4) by (simp_all add: send_message_valid send_message_wf)
  show thesis
  proof (cases rule: linux_ring_push_cases [OF shared_ring_wf [OF b(2) assms(3)] wf, of Linux_to_cpu3 b, case_names full ok])
    case full
    with s b(2,3) assms(3) m show thesis
      by (intro that(1)) (simp_all add: mailmsg_test_enqueue_locked_def sequence_let, simp_all add: Let_def)
  next
    case (ok f)
    with s b(2,3) assms(3) m show thesis
      by (intro that(2) [of ?m f]) (simp_all add: mailmsg_test_enqueue_locked_def sequence_let, simp_all add: Let_def)
  qed
qed

lemma direct_send_wf:
  "channels_wf (snd (r1_amp_mbox_direct_send_locked wr c i u v)) = channels_wf c"
  "lifecycle_notify_bypass (snd (r1_amp_mbox_direct_send_locked wr c i u v)) = lifecycle_notify_bypass c"
  by (simp_all add: r1_amp_mbox_direct_send_locked_def Let_def)

lemma notify_locked_wf:
  "channels_wf (snd (mailmsg_notify_locked wr c p)) = channels_wf c"
  "lifecycle_notify_bypass (snd (mailmsg_notify_locked wr c p)) = lifecycle_notify_bypass c"
  by (simp_all add: mailmsg_notify_locked_def direct_send_wf split_beta Let_def)

lemma driver_inv_context:
  assumes "driver_inv wr d pg" and "channels_wf c'" and "lifecycle_notify_bypass c' = lifecycle_notify_bypass (d_ctx d)"
  shows "driver_inv wr (d\<lparr>d_ctx := c'\<rparr>) pg"
  using assms by (simp add: driver_inv_def driver_wf_def lifecycle_inv_def)

lemma test_enqueue_inv:
  assumes "driver_inv wr d pg" and "mailmsg_state d = R1_AMP_MAILMSG_ACTIVE" and "p < 4"
  obtains r d' pg' where "mailmsg_test_enqueue_locked p v b d pg = Some (r, d', pg')"
    "driver_inv wr d' pg'" "mailmsg_state d' = mailmsg_state d" "d_ctx d' = d_ctx d"
proof -
  note wf = driver_inv_bound(2,3) [OF assms(1)]
  let ?ep = "(d_endpoint d)\<lparr>ep_next_sequence := next_seq (ep_next_sequence (d_endpoint d))\<rparr>"
  have ses: "same_session (d_endpoint d) (pg_mailmsg pg) ?ep sh"
    if "shared_wf sh" "shm_magic sh = shm_magic (pg_mailmsg pg)" "shm_version sh = shm_version (pg_mailmsg pg)"
      "shm_generation sh = shm_generation (pg_mailmsg pg)" for sh
    using wf(2) that by (simp add: same_session_def)
  show thesis
  proof (cases rule: test_enqueue_cases [OF assms, of v b, case_names full ok])
    case full
    from driver_inv_endpoint [OF assms(1) ses [of "pg_mailmsg pg"]] wf show thesis
      by (intro that [OF full(2)]) simp_all
  next
    case (ok f m)
    let ?sh = "set_shared_ring (pg_mailmsg pg) Linux_to_cpu3 p (ring_put (shared_ring (pg_mailmsg pg) Linux_to_cpu3 p) f)"
    have "same_session (d_endpoint d) (pg_mailmsg pg) ?ep ?sh"
      using wf(1) ok(4) assms(3) by (intro ses shared_wf_set ring_wf_put shared_ring_wf) simp_all
    from driver_inv_endpoint [OF assms(1) this] show thesis by (intro that [OF ok(5)]) simp_all
  qed
qed

lemma send_ping_inv:
  assumes "driver_inv (mbox_write env) d pg"
  obtains r d' pg' where "mailmsg_send_ping env parsed count b d pg = Some (r, d', pg')"
    "driver_inv (mbox_write env) d' pg'" "mailmsg_state d' = mailmsg_state d"
proof (cases "mailmsg_state d = R1_AMP_MAILMSG_ACTIVE \<and> (\<exists>p v. parsed = Some (p, v) \<and> p < 4)")
  case False
  then have "\<exists>r. mailmsg_send_ping env parsed count b d pg = Some (r, d, pg)"
    by (cases parsed; cases "mailmsg_state d")
       (auto simp: mailmsg_send_ping_def r1_amp_mailmsg_data_gate_locked_def not_less)
  with assms that show thesis by blast
next
  case True
  then obtain p v where pv: "parsed = Some (p, v)" "p < 4" and act: "mailmsg_state d = R1_AMP_MAILMSG_ACTIVE" by auto
  then have gate: "r1_amp_mailmsg_data_gate_locked d = 0" by (simp add: gate_0_iff)
  note wf = driver_inv_bound [OF assms]
  show thesis
  proof (cases b)
    case True
    obtain r d1 pg1 where e: "mailmsg_test_enqueue_locked p v True d pg = Some (r, d1, pg1)"
      "driver_inv (mbox_write env) d1 pg1" "mailmsg_state d1 = mailmsg_state d" "d_ctx d1 = d_ctx d"
      by (rule test_enqueue_inv [OF assms act pv(2)])
    let ?c = "snd (mailmsg_notify_locked (mbox_write env) (d_ctx d1) p)"
    have "driver_inv (mbox_write env) (d1\<lparr>d_ctx := ?c\<rparr>) pg1"
      using e(2) driver_inv_bound(4) [OF e(2)] by (intro driver_inv_context) (simp_all add: notify_locked_wf)
    moreover have "mailmsg_send_ping env parsed count b d pg =
        Some (if r = 0 then (count, d1\<lparr>d_ctx := ?c\<rparr>, pg1) else (r, d1, pg1))"
      using e(1) True gate pv by (simp add: mailmsg_send_ping_def split_beta)
    ultimately show thesis using e(2,3) that by (cases "r = 0") simp_all
  next
    case False
    let ?bs = "mailmsg_store_payload_u32 (replicate 4 0) 0 v"
    have len: "unat (4::u32) \<le> length ?bs" by simp
    obtain ret ep sh c res where s: "mailmsg_endpoint_send (d_endpoint d) (pg_mailmsg pg) (d_ctx d) p 1 (Some ?bs) 4 zero_result =
        Some (ret, ep, sh, c, res)"
      by (rule send_cases [OF wf(2,3) len, of "d_ctx d" p 1 zero_result]) (auto intro: that)
    note inv = linux_send_inv [OF assms len s wf(4)]
    have "\<exists>r. mailmsg_send_ping env parsed count b d pg =
        Some (r, d\<lparr>d_endpoint := ep, d_ctx := c\<rparr>, pg\<lparr>pg_mailmsg := sh\<rparr>)"
      using s False gate pv by (simp add: mailmsg_send_ping_def)
    then obtain r where r: "mailmsg_send_ping env parsed count b d pg =
        Some (r, d\<lparr>d_endpoint := ep, d_ctx := c\<rparr>, pg\<lparr>pg_mailmsg := sh\<rparr>)" ..
    from driver_inv_send [OF assms inv] show thesis by (intro that [OF r]) simp_all
  qed
qed

lemma queue_push_inv:
  assumes "driver_inv wr d pg"
  obtains r d' pg' where "mailmsg_queue_push_store parsed count d pg = Some (r, d', pg')"
    "driver_inv wr d' pg'" "mailmsg_state d' = mailmsg_state d"
proof (cases "mailmsg_state d = R1_AMP_MAILMSG_ACTIVE \<and> (\<exists>p v. parsed = Some (p, v) \<and> p < 4)")
  case False
  then have "\<exists>r. mailmsg_queue_push_store parsed count d pg = Some (r, d, pg)"
    by (cases parsed; cases "mailmsg_state d")
       (auto simp: mailmsg_queue_push_store_def r1_amp_mailmsg_data_gate_locked_def not_less)
  with assms that show thesis by blast
next
  case True
  then obtain p v where pv: "parsed = Some (p, v)" "p < 4" and act: "mailmsg_state d = R1_AMP_MAILMSG_ACTIVE" by auto
  then have gate: "r1_amp_mailmsg_data_gate_locked d = 0" by (simp add: gate_0_iff)
  obtain r d1 pg1 where e: "mailmsg_test_enqueue_locked p v False d pg = Some (r, d1, pg1)"
    "driver_inv wr d1 pg1" "mailmsg_state d1 = mailmsg_state d"
    by (rule test_enqueue_inv [OF assms act pv(2)])
  with gate pv have "mailmsg_queue_push_store parsed count d pg = Some (if r \<noteq> 0 then r else count, d1, pg1)"
    by (simp add: mailmsg_queue_push_store_def)
  from that [OF this] e(2,3) show thesis by blast
qed

lemma inject_inv:
  assumes "driver_inv wr d pg"
  shows "driver_inv wr (snd (mailmsg_notify_inject_store buf parsed count d)) pg"
    "mailmsg_state (snd (mailmsg_notify_inject_store buf parsed count d)) = mailmsg_state d"
proof -
  have "channels_wf ((d_ctx d)\<lparr>notify_inject_priority := p, notify_inject_errno := e, notify_inject_remaining := n\<rparr>)"
    if "e < 0" for p e n
    using driver_inv_bound(4) [OF assms] that by (simp add: channels_wf_def context_wf_def)
  then show "driver_inv wr (snd (mailmsg_notify_inject_store buf parsed count d)) pg"
    using assms driver_inv_bound(4) [OF assms]
    by (auto simp: mailmsg_notify_inject_store_def Let_def not_le split: option.split intro!: driver_inv_context)
  show "mailmsg_state (snd (mailmsg_notify_inject_store buf parsed count d)) = mailmsg_state d"
    by (simp add: mailmsg_notify_inject_store_def Let_def split: option.split prod.split)
qed

lemma doorbell_inv:
  assumes "driver_inv (mbox_write env) d pg"
  shows "driver_inv (mbox_write env) (snd (doorbell_store env parsed count d)) pg"
    "mailmsg_state (snd (doorbell_store env parsed count d)) = mailmsg_state d"
proof -
  note wf = driver_inv_bound(4) [OF assms]
  show "driver_inv (mbox_write env) (snd (doorbell_store env parsed count d)) pg"
    using assms wf
    by (auto simp: doorbell_store_def Let_def split_beta direct_send_wf split: option.split intro!: driver_inv_context)
  show "mailmsg_state (snd (doorbell_store env parsed count d)) = mailmsg_state d"
    by (simp add: doorbell_store_def Let_def split_beta split: option.split)
qed

text \<open>The two guards of \<open>ping_store\<close> exclude each other: the request is never made.\<close>

lemma ping_never_sent:
  "ping_store env (Inr value) count d pg =
     (if mailmsg_state d = R1_AMP_MAILMSG_UNARMED then - ENOLINK else - EOPNOTSUPP, d, pg)"
  by (simp add: ping_store_def r1_amp_mailmsg_data_gate_locked_def)

lemma ping_state: "ping_store env parsed count d pg = (r, d', pg') \<Longrightarrow> d' = d \<and> pg' = pg"
  by (cases parsed) (auto simp: ping_never_sent, simp_all add: ping_store_def)

subsection \<open>The image upload\<close>

declare unat_ucast_u64 [simp]

lemma image_write_cases:
  assumes "driver_inv wr d pg" and "length buf < 2 ^ 64"
  obtains (refused) e where "image_write off buf d pg = Some (e, d, pg)" "e \<in> {- EBUSY, - ESPIPE, - EFBIG}"
  | (written) "\<not> cpu_on_attempted d" "off = image_written d" "unat (image_written d) + length buf \<le> unat (image_size d)"
      "image_write off buf d pg = Some (int (length buf), d\<lparr>image_written := image_written d + word_of_nat (length buf)\<rparr>,
        pg\<lparr>pg_image := take (unat off) (pg_image pg) @ buf @ drop (unat off + length buf) (pg_image pg)\<rparr>)"
      "unat (image_written d + word_of_nat (length buf)) = unat (image_written d) + length buf"
proof -
  from assms(1) have inv: "\<not> mailmsg_user_removing d" "image_written d \<le> ucast (image_size d)"
    "unat (image_size d) \<le> length (pg_image pg)"
    by (simp_all add: driver_inv_def driver_wf_def lifecycle_inv_def)
  have ulen: "unat (word_of_nat (length buf) :: u64) = length buf" using assms(2) by (simp add: unat_of_nat take_bit_nat_eq_self)
  show thesis
  proof (cases "\<not> cpu_on_attempted d \<and> off = image_written d \<and> \<not> ucast (image_size d) - image_written d < (word_of_nat (length buf) :: u64)")
    case False
    then show thesis using inv(1)
      by (intro refused [of "if cpu_on_attempted d then - EBUSY else if off \<noteq> image_written d then - ESPIPE else - EFBIG"])
         (auto simp: image_write_def Let_def)
  next
    case True
    then have "unat (word_of_nat (length buf) :: u64) \<le> unat (ucast (image_size d) - image_written d)"
      by (simp add: not_less word_le_nat_alt)
    then have fits: "unat (image_written d) + length buf \<le> unat (image_size d)"
      using inv(2) ulen by (simp add: unat_sub word_le_nat_alt)
    have "unat (image_written d) + unat (word_of_nat (length buf) :: u64) < 2 ^ 64"
      using fits ulen unat_lt32 [of "image_size d"] by simp
    then have "unat (image_written d + word_of_nat (length buf)) = unat (image_written d) + length buf"
      using ulen by (simp add: unat_word_ariths)
    with True fits inv show thesis by (intro written) (simp_all add: image_write_def Let_def)
  qed
qed

lemma image_write_inv:
  assumes "driver_inv wr d pg" and "length buf < 2 ^ 64"
  obtains r d' pg' where "image_write off buf d pg = Some (r, d', pg')"
    "driver_inv wr d' pg'" "mailmsg_state d' = mailmsg_state d"
proof (cases rule: image_write_cases [OF assms, of off, case_names refused written])
  case (refused e)
  with assms that show thesis by blast
next
  case written
  have len: "unat (image_size d) \<le> length (pg_image pg)" using assms(1) by (simp add: driver_inv_def driver_wf_def)
  have "image_written d + word_of_nat (length buf) \<le> ucast (image_size d)"
    using written(3,5) by (simp add: word_le_nat_alt)
  with assms(1) written(2,3) len
  have "driver_inv wr (d\<lparr>image_written := image_written d + word_of_nat (length buf)\<rparr>)
    (pg\<lparr>pg_image := take (unat off) (pg_image pg) @ buf @ drop (unat off + length buf) (pg_image pg)\<rparr>)"
    by (simp add: driver_inv_def driver_wf_def lifecycle_inv_def)
  from that [OF written(4) this] show thesis by simp
qed

text \<open>Uploading a list of chunks, each at the current position.\<close>

fun image_upload ::
  "u8 list list \<Rightarrow> r1_amp_cpu_on_data \<Rightarrow> amp_page \<Rightarrow> (int list \<times> r1_amp_cpu_on_data \<times> amp_page) option" where
  "image_upload [] d pg = Some ([], d, pg)"
| "image_upload (buf # bufs) d pg = do {
     (r, d, pg) \<leftarrow> image_write (image_written d) buf d pg;
     (rs, d, pg) \<leftarrow> image_upload bufs d pg;
     Some (r # rs, d, pg) }"

definition image_patched :: "nat \<Rightarrow> u8 list \<Rightarrow> amp_page \<Rightarrow> amp_page" where
  "image_patched n bs pg = pg\<lparr>pg_image := take n (pg_image pg) @ bs @ drop (n + length bs) (pg_image pg)\<rparr>"

lemma image_patched_append:
  assumes "n + length bs \<le> length (pg_image pg)"
  shows "image_patched (n + length bs) cs (image_patched n bs pg) = image_patched n (bs @ cs) pg"
  using assms by (simp add: image_patched_def ac_simps)

lemma image_upload_appends:
  assumes "driver_inv wr d pg" and "\<not> cpu_on_attempted d"
    and "unat (image_written d) + length (concat bufs) \<le> unat (image_size d)"
  shows "image_upload bufs d pg = Some (map (\<lambda>b. int (length b)) bufs,
      d\<lparr>image_written := image_written d + word_of_nat (length (concat bufs))\<rparr>,
      image_patched (unat (image_written d)) (concat bufs) pg) \<and>
    unat (image_written d + word_of_nat (length (concat bufs))) = unat (image_written d) + length (concat bufs) \<and>
    driver_inv wr (d\<lparr>image_written := image_written d + word_of_nat (length (concat bufs))\<rparr>)
      (image_patched (unat (image_written d)) (concat bufs) pg)"
  using assms
proof (induction bufs arbitrary: d pg)
  case Nil
  have "image_patched n [] pg = pg" for n by (simp add: image_patched_def)
  with Nil show ?case by simp
next
  case (Cons buf bufs)
  from Cons.prems have le: "unat (image_written d) + length buf + length (concat bufs) \<le> unat (image_size d)" by simp
  have lt: "length buf < 2 ^ 64" using le unat_lt32 [of "image_size d"] by simp
  have len: "unat (image_size d) \<le> length (pg_image pg)" "image_written d \<le> ucast (image_size d)" "\<not> mailmsg_user_removing d"
    using Cons.prems(1) by (simp_all add: driver_inv_def driver_wf_def lifecycle_inv_def)
  show ?case
  proof (cases rule: image_write_cases [OF Cons.prems(1) lt, of "image_written d", case_names refused written])
    case (refused e)
    have "\<not> ucast (image_size d) - image_written d < (word_of_nat (length buf) :: u64)"
      using le lt len(2) by (simp add: not_less word_le_nat_alt unat_sub unat_of_nat take_bit_nat_eq_self)
    with refused Cons.prems(2) len le show ?thesis by (auto simp: image_write_def Let_def)
  next
    case written
    let ?d = "d\<lparr>image_written := image_written d + word_of_nat (length buf)\<rparr>"
    let ?pg = "image_patched (unat (image_written d)) buf pg"
    note wr = written(4) [folded image_patched_def]
    have inv: "driver_inv wr ?d ?pg"
      using image_write_inv [OF Cons.prems(1) lt, of "image_written d"] wr by auto
    have patched: "image_patched (unat (image_written d) + length buf) (concat bufs) ?pg =
        image_patched (unat (image_written d)) (concat (buf # bufs)) pg"
      using image_patched_append [of "unat (image_written d)" buf pg] len(1) le by simp
    have "unat (image_written ?d) + length (concat bufs) \<le> unat (image_size ?d)" using le written(5) by simp
    from Cons.IH [OF inv _ this] Cons.prems(2) wr written(5) patched show ?thesis
      by (simp add: ac_simps)
  qed
qed

end
