(* ===== verification/Amp_Response.thy ===== *)
theory Amp_Response
  imports Amp_Sysfs
begin

text \<open>
  Draining the reverse rings (\<open>mailmsg_response_show\<close>): the loop returns on well-formed
  memory and reports the queued frames in order.
\<close>

subsection \<open>One priority\<close>

text \<open>
  The lines that one priority contributes and the frames that stay queued: the drain ends
  at an incomplete frame, which stays, and behind a stale one, which is consumed.
\<close>

fun drain_lines :: "u32 \<Rightarrow> u32 \<Rightarrow> mailmsg_message list \<Rightarrow> response_line list \<times> mailmsg_message list" where
  "drain_lines g p [] = ([], [])"
| "drain_lines g p (f # fs) =
     (let ret = receive_status g f in
      if frame_status f = MAILMSG_RING_INCOMPLETE then ([Response_error p MAILMSG_RING_INCOMPLETE], f # fs)
      else if ret = MAILMSG_ENDPOINT_STALE_FRAME then ([Response_error p ret], fs)
      else
        let (lines, rest) = drain_lines g p fs
        in ((if ret \<noteq> 0 then Response_error p ret else response_line_of p f) # lines, rest))"

lemma drain_responses_spec:
  assumes "endpoint_bound (d_endpoint d) (pg_mailmsg pg) tx rx" and "shared_wf (pg_mailmsg pg)"
    and "endpoint_wf (d_endpoint d)" and "p < 4"
  shows "\<exists>ep' sh' m'. drain_responses p d pg m acc =
      Some (acc @ fst (drain_lines (ep_generation (d_endpoint d)) p (ring_frames (shared_ring (pg_mailmsg pg) rx p))),
            d\<lparr>d_endpoint := ep'\<rparr>, pg\<lparr>pg_mailmsg := sh'\<rparr>, m') \<and>
    drained rx p (d_endpoint d) (pg_mailmsg pg) ep' sh' \<and>
    ring_frames (shared_ring sh' rx p) =
      snd (drain_lines (ep_generation (d_endpoint d)) p (ring_frames (shared_ring (pg_mailmsg pg) rx p)))"
  using assms
proof (induction "ring_frames (shared_ring (pg_mailmsg pg) rx p)" arbitrary: d pg m acc)
  case Nil
  from bound_receive_cases [OF Nil(2-5), of m] Nil(1)
  have "mailmsg_endpoint_receive (d_endpoint d) (pg_mailmsg pg) p m =
      Some (MAILMSG_RING_EMPTY, d_endpoint d, pg_mailmsg pg, m)" by force
  then have "drain_responses p d pg m acc = Some (acc, d, pg, m)"
    by (subst drain_responses.simps) simp
  moreover have "drained rx p (d_endpoint d) (pg_mailmsg pg) (d_endpoint d) (pg_mailmsg pg)"
    using Nil by (intro drained_refl)
  ultimately show ?case
    using Nil(1) by (intro exI [of _ "d_endpoint d"] exI [of _ "pg_mailmsg pg"] exI [of _ m]) auto
next
  case (Cons f fs)
  let ?g = "ep_generation (d_endpoint d)"
  show ?case
  proof (cases rule: bound_receive_cases [OF Cons(3-6), of m, case_names empty incomplete frame])
    case (incomplete f' fs' ep')
    then have "drain_responses p d pg m acc =
        Some (acc @ [Response_error p MAILMSG_RING_INCOMPLETE], d\<lparr>d_endpoint := ep'\<rparr>, pg, m)"
      by (subst drain_responses.simps) simp
    with incomplete Cons(2) show ?thesis
      by (intro exI [of _ ep'] exI [of _ "pg_mailmsg pg"] exI [of _ m]) auto
  next
    case (frame f' fs' ep' sh')
    from frame(1) Cons(2) have f: "f' = f" "fs' = fs" by auto
    let ?ret = "receive_status ?g f" and ?pg = "pg\<lparr>pg_mailmsg := sh'\<rparr>" and ?d = "d\<lparr>d_endpoint := ep'\<rparr>"
    let ?line = "if ?ret \<noteq> 0 then Response_error p ?ret else response_line_of p f"
    note st = receive_status_range [OF frame(2) [unfolded f], of ?g]
    have step: "drain_responses p d pg m acc =
        (if ?ret = MAILMSG_ENDPOINT_STALE_FRAME then Some (acc @ [Response_error p ?ret], ?d, ?pg, f)
         else drain_responses p ?d ?pg f (acc @ [?line]))"
      using st by (subst drain_responses.simps) (auto simp: frame(3) [unfolded f])
    have ses: "same_session (d_endpoint d) (pg_mailmsg pg) ep' sh'" using frame(4) by (rule drained_session)
    then have wf: "endpoint_bound ep' sh' tx rx" "shared_wf sh'" "endpoint_wf ep'" "ep_generation ep' = ?g"
      using Cons(3) same_session_bound [OF ses] by (simp_all add: same_session_def)
    show ?thesis
    proof (cases "?ret = MAILMSG_ENDPOINT_STALE_FRAME")
      case True
      then show ?thesis
        using frame(2,4,5) unfolding Cons(2) [symmetric] step f
        by (intro exI [of _ ep'] exI [of _ sh'] exI [of _ f]) auto
    next
      case False
      from Cons(1) [of ?pg ?d f "acc @ [?line]"] frame(5) f wf Cons(6)
      obtain ep'' sh'' m'' where "drain_responses p ?d ?pg f (acc @ [?line]) =
          Some (acc @ ?line # fst (drain_lines ?g p fs), d\<lparr>d_endpoint := ep''\<rparr>, pg\<lparr>pg_mailmsg := sh''\<rparr>, m'')"
        "drained rx p ep' sh' ep'' sh''" "ring_frames (shared_ring sh'' rx p) = snd (drain_lines ?g p fs)"
        by auto
      with False frame(2) drained_trans [OF frame(4)] show ?thesis
        unfolding Cons(2) [symmetric] step f by (auto simp: Let_def split_beta)
    qed
  qed (use Cons(2) in auto)
qed

subsection \<open>All priorities\<close>

lemma drain_priorities_spec:
  assumes "driver_inv wr d pg" and "mailmsg_state d = R1_AMP_MAILMSG_ACTIVE" and "\<forall>p \<in> set ps. p < 4" and "distinct ps"
  shows "\<exists>d' pg'. drain_priorities ps d pg m acc =
      Some (acc @ concat (map (\<lambda>p. fst (drain_lines (session_generation d) p
              (ring_frames (shared_ring (pg_mailmsg pg) Cpu3_to_linux p)))) ps), d', pg') \<and>
    driver_inv wr d' pg' \<and> mailmsg_state d' = mailmsg_state d \<and> session_generation d' = session_generation d \<and>
    (\<forall>p < 4. shared_ring (pg_mailmsg pg') Linux_to_cpu3 p = shared_ring (pg_mailmsg pg) Linux_to_cpu3 p) \<and>
    (\<forall>p < 4. ring_frames (shared_ring (pg_mailmsg pg') Cpu3_to_linux p) =
       (if p \<in> set ps then snd (drain_lines (session_generation d) p (ring_frames (shared_ring (pg_mailmsg pg) Cpu3_to_linux p)))
        else ring_frames (shared_ring (pg_mailmsg pg) Cpu3_to_linux p)))"
  using assms
proof (induction ps arbitrary: d pg m acc)
  case (Cons p ps)
  from Cons.prems have b: "endpoint_bound (d_endpoint d) (pg_mailmsg pg) Linux_to_cpu3 Cpu3_to_linux"
    "shared_wf (pg_mailmsg pg)" "endpoint_wf (d_endpoint d)" "ep_generation (d_endpoint d) = session_generation d" "p < 4"
    by (simp_all add: driver_inv_def driver_wf_def lifecycle_inv_def)
  let ?g = "session_generation d" and ?L = "\<lambda>sh q. drain_lines (session_generation d) q (ring_frames (shared_ring sh Cpu3_to_linux q))"
  from drain_responses_spec [OF b(1-3,5), of m acc] b(4)
  obtain ep' sh' m' where r: "drain_responses p d pg m acc =
      Some (acc @ fst (?L (pg_mailmsg pg) p), d\<lparr>d_endpoint := ep'\<rparr>, pg\<lparr>pg_mailmsg := sh'\<rparr>, m')"
    "drained Cpu3_to_linux p (d_endpoint d) (pg_mailmsg pg) ep' sh'"
    "ring_frames (shared_ring sh' Cpu3_to_linux p) = snd (?L (pg_mailmsg pg) p)" by auto
  let ?d = "d\<lparr>d_endpoint := ep'\<rparr>" and ?pg = "pg\<lparr>pg_mailmsg := sh'\<rparr>"
  have inv: "driver_inv wr ?d ?pg" by (rule driver_inv_endpoint [OF Cons.prems(1) drained_session [OF r(2)]])
  have other: "shared_ring sh' a q = shared_ring (pg_mailmsg pg) a q" if "q < 4" "a \<noteq> Cpu3_to_linux \<or> q \<noteq> p" for a q
    using r(2) that by (simp add: drained_def)
  have "?L sh' q = ?L (pg_mailmsg pg) q" if "q \<in> set ps" for q
  proof -
    have "q < 4" "q \<noteq> p" using Cons.prems(3,4) that by auto
    with other [of q Cpu3_to_linux] show ?thesis by simp
  qed
  then have lines: "map (\<lambda>q. fst (?L sh' q)) ps = map (\<lambda>q. fst (?L (pg_mailmsg pg) q)) ps" by simp
  from Cons.IH [OF inv, of m' "acc @ fst (?L (pg_mailmsg pg) p)"] Cons.prems
  obtain d' pg' where IH: "drain_priorities ps ?d ?pg m' (acc @ fst (?L (pg_mailmsg pg) p)) =
      Some ((acc @ fst (?L (pg_mailmsg pg) p)) @ concat (map (\<lambda>q. fst (?L sh' q)) ps), d', pg')"
    "driver_inv wr d' pg'" "mailmsg_state d' = mailmsg_state d" "session_generation d' = ?g"
    "\<forall>q < 4. shared_ring (pg_mailmsg pg') Linux_to_cpu3 q = shared_ring sh' Linux_to_cpu3 q"
    "\<forall>q < 4. ring_frames (shared_ring (pg_mailmsg pg') Cpu3_to_linux q) =
       (if q \<in> set ps then snd (?L sh' q) else ring_frames (shared_ring sh' Cpu3_to_linux q))" by auto
  have "drain_priorities (p # ps) d pg m acc =
      Some (acc @ concat (map (\<lambda>q. fst (?L (pg_mailmsg pg) q)) (p # ps)), d', pg')"
    using r(1) IH(1) unfolding lines by simp
  moreover have "ring_frames (shared_ring (pg_mailmsg pg') Cpu3_to_linux q) =
       (if q \<in> set (p # ps) then snd (?L (pg_mailmsg pg) q) else ring_frames (shared_ring (pg_mailmsg pg) Cpu3_to_linux q))"
    if "q < 4" for q
    using IH(6) that r(3) other [of q Cpu3_to_linux] Cons.prems(4) by (cases "q = p") auto
  ultimately show ?case using IH(2-5) other by (intro exI [of _ d'] exI [of _ pg']) auto
qed auto

lemma response_show_inv:
  assumes "driver_inv wr d pg"
  obtains r d' pg' where "mailmsg_response_show m d pg = Some (r, d', pg')"
    "driver_inv wr d' pg'" "mailmsg_state d' = mailmsg_state d"
proof (cases "mailmsg_state d = R1_AMP_MAILMSG_ACTIVE")
  case False
  then have "\<exists>r. mailmsg_response_show m d pg = Some (r, d, pg)"
    by (simp add: mailmsg_response_show_def gate_0_iff)
  with assms that show thesis by blast
next
  case True
  have "ep_rx (d_endpoint d) \<noteq> None"
    using driver_inv_bound(1) [OF assms] True by (auto simp: endpoint_bound_def)
  with True drain_priorities_spec [OF assms True, of "[0, 1, 2, 3]" m "[]"] that show thesis
    by (fastforce simp: mailmsg_response_show_def gate_0_iff)
qed

end
