(* ===== verification/Amp_System.thy ===== *)
theory Amp_System
  imports Amp_Response
begin

text \<open>
  The Linux side as a whole: every entry point of the driver as a call on the driver
  state, the carveout and the list of open files, and the invariant of the runs.
\<close>

subsection \<open>Who has the devices open\<close>

definition user_view :: "r1_amp_cpu_on_data \<Rightarrow> u32 \<times> u32 list" where
  "user_view d = (mailmsg_user_open_count d, map uc_reader_open_count (mailmsg_user d))"

lemma map_reader_update:
  assumes "uc_reader_open_count u = uc_reader_open_count (us ! i)"
  shows "map uc_reader_open_count (us[i := u]) = map uc_reader_open_count us"
  using assms list_update_id [of "map uc_reader_open_count us" i]
  by (cases "i < length us") (simp_all add: map_update list_update_beyond)

lemma map_reader_wake [simp]: "map uc_reader_open_count (wake_list us) = map uc_reader_open_count us"
  unfolding wake_list_def by (simp add: map_reader_update wake_reader_def)

lemma user_view_upd [simp]:
  assumes "\<And>u. uc_reader_open_count (g u) = uc_reader_open_count u"
  shows "user_view (upd_user g p d) = user_view d"
  by (simp add: user_view_def upd_user_def map_reader_update assms)

lemma mark_offline_view [simp]: "user_view (r1_amp_mailmsg_mark_offline_locked d) = user_view d"
  by (simp add: r1_amp_mailmsg_mark_offline_locked_def user_view_def)

lemma set_timeout_view [simp]: "user_view (r1_amp_mailmsg_set_timeout_locked d) = user_view d"
  by (simp add: r1_amp_mailmsg_set_timeout_locked_def user_view_def)

lemma user_view_fields [simp]:
  "user_view (d\<lparr>d_ctx := c\<rparr>) = user_view d" "user_view (d\<lparr>d_endpoint := ep\<rparr>) = user_view d"
  "user_view (d\<lparr>affinity_state := i\<rparr>) = user_view d" "user_view (d\<lparr>affinity_queried := b\<rparr>) = user_view d"
  "user_view (d\<lparr>affinity_seen_on := b\<rparr>) = user_view d" "user_view (d\<lparr>affinity_work := w\<rparr>) = user_view d"
  "user_view (d\<lparr>control_work := b\<rparr>) = user_view d" "user_view (d\<lparr>lifecycle_timeout_work := w\<rparr>) = user_view d"
  "user_view (d\<lparr>affinity_monitor_count := u\<rparr>) = user_view d" "user_view (d\<lparr>affinity_monitor_error_count := u\<rparr>) = user_view d"
  "user_view (d\<lparr>mailmsg_state := s\<rparr>) = user_view d" "user_view (d\<lparr>session_result := i\<rparr>) = user_view d"
  "user_view (d\<lparr>stop_result := i\<rparr>) = user_view d" "user_view (d\<lparr>stop_reply_type := u\<rparr>) = user_view d"
  "user_view (d\<lparr>lifecycle_deadline := t\<rparr>) = user_view d" "user_view (d\<lparr>peer_generation := u\<rparr>) = user_view d"
  "user_view (d\<lparr>image_written := t\<rparr>) = user_view d" "user_view (d\<lparr>mailmsg_user := wake_list (mailmsg_user d)\<rparr>) = user_view d"
  by (simp_all add: user_view_def)

lemma refresh_view: "r1_amp_refresh_affinity_locked env d = Some (s, d') \<Longrightarrow> user_view d' = user_view d"
  by (auto simp: r1_amp_refresh_affinity_locked_def Let_def split: bind_splits)

lemma affinity_work_view: "r1_amp_affinity_work env d = Some d' \<Longrightarrow> user_view d' = user_view d"
  by (auto simp: r1_amp_affinity_work_def Let_def split: if_split_asm bind_splits dest!: refresh_view)

lemma timeout_work_view: "r1_amp_mailmsg_lifecycle_timeout_work env d = Some d' \<Longrightarrow> user_view d' = user_view d"
  by (auto simp: r1_amp_mailmsg_lifecycle_timeout_work_def Let_def split: if_split_asm bind_splits dest!: refresh_view)

lemma control_view [simp]:
  "user_view (fst (control_error d r)) = user_view d" "user_view (fst (control_frame env n d f)) = user_view d"
  by (simp_all add: control_error_def control_frame_def)

lemma control_scan_view [simp]: "user_view (fst (control_scan env n d fs)) = user_view d"
  by (induction fs arbitrary: n d) (simp_all add: Let_def split_beta)

lemma control_work_view:
  assumes "driver_inv wr d pg" and "r1_amp_mailmsg_control_work env m d pg = Some (d', pg')"
  shows "user_view d' = user_view d"
proof (cases rule: control_work_cases [OF assms(1), of env m, case_names idle expired scan])
  case (scan ep' sh' d1)
  then have "d1 = fst (control_scan env 1 (d\<lparr>control_work := False\<rparr>) (ring_frames (shared_ring (pg_mailmsg pg) Cpu3_to_linux 0)))"
    by simp
  then have "user_view d1 = user_view d" by simp
  with scan(4) assms(2) show ?thesis by auto
qed (use assms in \<open>auto simp: timed_out_def\<close>)

lemma start_view:
  assumes "start_store env buf count d pg = Some (r, d', pg')"
  shows "user_view d' = user_view d"
  using assms
  by (auto simp: start_store_def Let_def split_beta user_view_def split: if_split_asm bind_splits option.splits dest!: refresh_view)

lemma stop_view:
  assumes "mailmsg_stop_store env buf count d pg = Some (r, d', pg')"
  shows "user_view d' = user_view d"
  using assms
  by (auto simp: mailmsg_stop_store_def Let_def split_beta user_view_def split: if_split_asm bind_splits)

lemma rearm_view:
  assumes "rearm_store env buf count d = Some (r, d')"
  shows "user_view d' = user_view d"
  using assms
  by (auto simp: rearm_store_def Let_def split: if_split_asm bind_splits dest!: refresh_view)
     (simp_all add: user_view_def)

lemma rx_callback_view: "user_view (r1_amp_mbox_rx_callback i m d) = user_view d"
  by (simp add: r1_amp_mbox_rx_callback_def Let_def wake_reader_def split: option.split)

lemma image_write_view: "image_write off buf d pg = Some (r, d', pg') \<Longrightarrow> user_view d' = user_view d"
  by (auto simp: image_write_def Let_def split: if_split_asm)

lemma test_enqueue_view: "mailmsg_test_enqueue_locked p v b d pg = Some (r, d', pg') \<Longrightarrow> user_view d' = user_view d"
  by (auto simp: mailmsg_test_enqueue_locked_def Let_def split: if_split_asm bind_splits)

lemma send_ping_view: "mailmsg_send_ping env parsed count b d pg = Some (r, d', pg') \<Longrightarrow> user_view d' = user_view d"
  by (auto simp: mailmsg_send_ping_def Let_def split_beta split: option.splits if_split_asm bind_splits dest!: test_enqueue_view)

lemma queue_push_view: "mailmsg_queue_push_store parsed count d pg = Some (r, d', pg') \<Longrightarrow> user_view d' = user_view d"
  by (auto simp: mailmsg_queue_push_store_def Let_def split: option.splits if_split_asm bind_splits dest!: test_enqueue_view)

lemma inject_view: "user_view (snd (mailmsg_notify_inject_store buf parsed count d)) = user_view d"
  by (simp add: mailmsg_notify_inject_store_def Let_def split: option.split prod.split)

lemma doorbell_view: "user_view (snd (doorbell_store env parsed count d)) = user_view d"
  by (simp add: doorbell_store_def Let_def split_beta split: option.split)

lemma affinity_show_view: "affinity_state_show env d = Some (r, d') \<Longrightarrow> user_view d' = user_view d"
  by (auto simp: affinity_state_show_def split: option.splits bind_splits dest!: refresh_view)

lemma drain_responses_view:
  assumes "drain_responses p d pg m acc = Some r"
  shows "user_view (fst (snd r)) = user_view d"
proof (rule drain_responses.raw_induct [of "\<lambda>p d pg m acc r. user_view (fst (snd r)) = user_view d", OF _ assms])
  fix drain p d pg m acc r
  assume "\<And>p d pg m acc r. drain p d pg m acc = Some r \<Longrightarrow> user_view (fst (snd r)) = user_view d"
    and "(do {
     (ret, ep, sh, response) \<leftarrow> mailmsg_endpoint_receive (d_endpoint d) (pg_mailmsg pg) p m;
     let d = d\<lparr>d_endpoint := ep\<rparr>;
     let pg = pg\<lparr>pg_mailmsg := sh\<rparr>;
     if ret = MAILMSG_RING_EMPTY then Some (acc, d, pg, response)
     else if ret \<noteq> 0 then
       if ret = MAILMSG_RING_INCOMPLETE \<or> ret \<le> MAILMSG_ENDPOINT_INVALID
       then Some (acc @ [Response_error p ret], d, pg, response)
       else drain p d pg response (acc @ [Response_error p ret])
     else drain p d pg response (acc @ [response_line_of p response]) }) = Some r"
  then show "user_view (fst (snd r)) = user_view d"
    by (cases r) (auto simp: Let_def split: bind_splits if_split_asm)
qed

lemma drain_priorities_view: "drain_priorities ps d pg m acc = Some (ls, d', pg') \<Longrightarrow> user_view d' = user_view d"
proof (induction ps arbitrary: d pg m acc)
  case (Cons p ps)
  then show ?case by (auto split: bind_splits dest!: drain_responses_view)
qed simp

lemma mailmsg_response_view: "mailmsg_response_show m d pg = Some (r, d', pg') \<Longrightarrow> user_view d' = user_view d"
  by (auto simp: mailmsg_response_show_def simp del: drain_priorities.simps split: if_split_asm bind_splits
      dest!: drain_priorities_view)

subsection \<open>The entry points keep the invariant\<close>

lemma driver_inv_users:
  assumes "driver_inv wr d pg" and "users_wf us"
  shows "driver_inv wr (d\<lparr>mailmsg_user := us\<rparr>) pg" "driver_inv wr (d\<lparr>mailmsg_user_open_count := n\<rparr>) pg"
    "driver_inv wr (d\<lparr>mailmsg_user := us, mailmsg_user_open_count := n\<rparr>) pg"
  using assms by (simp_all add: driver_inv_def driver_wf_def lifecycle_inv_def)

lemma rx_callback_inv:
  assumes "driver_inv wr d pg"
  shows "driver_inv wr (r1_amp_mbox_rx_callback i m d) pg"
    "mailmsg_state (r1_amp_mbox_rx_callback i m d) = mailmsg_state d"
proof -
  have us: "users_wf (mailmsg_user d)" "channels_wf (d_ctx d)" "\<not> lifecycle_notify_bypass (d_ctx d)"
    using assms by (simp_all add: driver_inv_def driver_wf_def lifecycle_inv_def)
  have w: "users_wf ((mailmsg_user d)[unat p := wake_reader (mailmsg_user d ! unat p)])" for p
    by (rule users_wf_update [OF us(1)]) (simp_all add: wake_reader_def)
  obtain c where c: "channels_wf c" "lifecycle_notify_bypass c = lifecycle_notify_bypass (d_ctx d)"
    "r1_amp_mbox_rx_callback i m d =
      (let d = upd_user wake_reader (ch_index (mbox c ! unat i)) (d\<lparr>d_ctx := c\<rparr>) in
       if lifecycle_pending (mailmsg_state d) then d\<lparr>control_work := True\<rparr> else d)"
  proof (cases m)
    case None
    then show thesis using us
      by (intro that [of "upd_channel (\<lambda>ch. ch\<lparr>rx_count := rx_count ch + 1\<rparr>) i (d_ctx d)"])
         (simp_all add: r1_amp_mbox_rx_callback_def lifecycle_pending_def)
  next
    case (Some cd)
    obtain a b where "cd = (a, b)" by (metis surj_pair)
    with Some show thesis using us
      by (intro that [of "upd_channel (\<lambda>ch. ch\<lparr>rx_count := rx_count ch + 1\<rparr>) i
           (upd_channel (\<lambda>ch. ch\<lparr>rx_last_cmd := a, rx_last_data := b\<rparr>) i (d_ctx d))"])
         (simp_all add: r1_amp_mbox_rx_callback_def lifecycle_pending_def)
  qed
  have "driver_inv wr (d\<lparr>d_ctx := c\<rparr>) pg" by (rule driver_inv_context [OF assms c(1,2)])
  from driver_inv_users(1) [OF this w] show "driver_inv wr (r1_amp_mbox_rx_callback i m d) pg"
    by (simp add: c(3) upd_user_def Let_def)
  show "mailmsg_state (r1_amp_mbox_rx_callback i m d) = mailmsg_state d" by (simp add: c(3) upd_user_def Let_def)
qed

lemma affinity_show_inv:
  assumes "driver_inv wr d pg"
  obtains r d' where "affinity_state_show env d = Some (r, d')" "driver_inv wr d' pg"
    "lifecycle_edge (mailmsg_state d) (mailmsg_state d')"
proof (cases "psci_affinity_info env")
  case None
  then show thesis using assms by (intro that [of "Inl (- EOPNOTSUPP)" d]) (simp_all add: affinity_state_show_def)
next
  case (Some q)
  obtain st d1 where r: "r1_amp_refresh_affinity_locked env d = Some (st, d1)"
    by (rule refresh_affinity_cases [OF Some, of d])
  from refresh_affinity_inv [OF assms r] Some r show thesis
    by (intro that [of "Inr (mpidr d1, r1_amp_psci_state_name st, st)" d1])
       (auto simp: affinity_state_show_def lifecycle_edge_def)
qed

lemma user_read_pass_inv:
  assumes "driver_inv wr d pg" and "uf_channel uf < 4"
  obtains out d' pg' where "user_read_pass nonblock fault m uf d pg = Some (out, d', pg')" "driver_inv wr d' pg'"
    "mailmsg_state d' = mailmsg_state d" "user_view d' = user_view d"
proof (cases "mailmsg_state d = R1_AMP_MAILMSG_ACTIVE")
  case False
  from user_read_pass_gate [OF this, of nonblock fault m uf pg] show thesis using assms by (intro that) simp_all
next
  case True
  show thesis
  proof (cases rule: user_read_pass_cases [OF assms(1) True assms(2), of nonblock fault m, case_names empty incomplete bad frame])
    case empty
    then show thesis using assms by (intro that) simp_all
  next
    case (incomplete f fs ep)
    from driver_inv_endpoint [OF assms(1) incomplete(3)] show thesis by (intro that [OF incomplete(4)]) simp_all
  next
    case (bad f fs ep sh)
    from driver_inv_endpoint [OF assms(1) drained_session [OF bad(3)]] show thesis by (intro that [OF bad(5)]) simp_all
  next
    case (frame f fs ep sh)
    from driver_inv_endpoint [OF assms(1) drained_session [OF frame(3)]] show thesis by (intro that [OF frame(5)]) simp_all
  qed
qed

lemma user_write_inv:
  assumes "driver_inv wr d pg" and "uf_channel uf < 4" and "\<forall>f. frame = Some f \<longrightarrow> length (fr_payload f) = 32"
  obtains r d' pg' where "r1_amp_mailmsg_user_write count frame uf d pg = Some (r, d', pg')" "driver_inv wr d' pg'"
    "mailmsg_state d' = mailmsg_state d" "user_view d' = user_view d"
proof (cases "count = 48 \<and> (\<exists>f. frame = Some f \<and> fr_priority f = uf_channel uf \<and> fr_length f \<le> 28)")
  case False
  then have "\<exists>r. r1_amp_mailmsg_user_write count frame uf d pg = Some (r, d, pg)"
    using user_channel(1) [OF assms(1,2)]
    by (cases frame) (auto simp: r1_amp_mailmsg_user_write_def not_le)
  with assms(1) that show thesis by blast
next
  case True
  then obtain f where f: "count = 48" "frame = Some f" "fr_priority f = uf_channel uf" "fr_length f \<le> 28" by auto
  have len: "length (fr_payload f) = 32" using assms(3) f(2) by simp
  show thesis
  proof (cases "mailmsg_state d = R1_AMP_MAILMSG_ACTIVE")
    case False
    from user_write_gate [OF False _ f(4), of uf pg] user_channel(1) [OF assms(1,2)] f show thesis
      using assms(1) by (intro that) simp_all
  next
    case True
    show thesis
    proof (cases rule: user_write_cases [OF assms(1) True assms(2) f(3,4) len, case_names full queued])
      case (full ep)
      from driver_inv_endpoint [OF assms(1) full(3)] show thesis
        by (intro that [OF full(2) [folded f(1,2)]]) simp_all
    next
      case (queued nr ctx ep m)
      from driver_inv_send [OF assms(1) queued(5-7)] show thesis
        by (intro that [OF queued(4) [folded f(1,2)]]) simp_all
    qed
  qed
qed

subsection \<open>The system\<close>

text \<open>
  The driver, the carveout and the open files.  Every sysfs attribute, work item, callback
  and file operation is a call; \<open>Status_show\<close> carries the second readings of the two
  observation lines, and the three plain reports leave the state as it is.  \<open>Cpu3_acts\<close> is an
  action of the other core: new contents of the page and of the registers.
\<close>

record amp_system =
  sys_data :: r1_amp_cpu_on_data
  sys_page :: amp_page
  sys_files :: "r1_amp_mailmsg_user_file list"

datatype amp_call =
    Image_write u64 "u8 list"
  | Start string int
  | Stop string int
  | Rearm string int
  | Status_show mailmsg_tx_full_observation mailmsg_worker_observation_line
  | Mailmsg_stats_show
  | Response_show
  | Affinity_show
  | Ping "int + u32" int
  | Doorbell "(u32 \<times> u32) option" int
  | Mailmsg_ping "(u32 \<times> u32) option" int
  | Mailmsg_crc_inject "(u32 \<times> u32) option" int
  | Mailmsg_notify_inject string "(u32 \<times> int \<times> u32) option" int
  | Mailmsg_queue_push "(u32 \<times> u32) option" int
  | Mailmsg_response mailmsg_message
  | Control_work mailmsg_message
  | Affinity_work
  | Lifecycle_timeout_work
  | Rx_callback u32 "(u32 \<times> u32) option"
  | User_open bool u32
  | User_release nat
  | User_read nat u64 bool bool mailmsg_message
  | User_read_resume nat int bool bool mailmsg_message
  | User_write nat u64 "mailmsg_user_frame option"
  | User_poll nat
  | Cpu3_acts mbox_regs amp_page

definition with_data :: "amp_system \<Rightarrow> r1_amp_cpu_on_data \<Rightarrow> amp_page \<Rightarrow> amp_system" where
  "with_data s d pg = s\<lparr>sys_data := d, sys_page := pg\<rparr>"

fun amp_exec :: "amp_env \<Rightarrow> amp_call \<Rightarrow> amp_system \<Rightarrow> amp_system option" where
  "amp_exec env (Image_write off buf) s =
     do { (_, d, pg) \<leftarrow> image_write off buf (sys_data s) (sys_page s); Some (with_data s d pg) }"
| "amp_exec env (Start buf n) s =
     do { (_, d, pg) \<leftarrow> start_store env buf n (sys_data s) (sys_page s); Some (with_data s d pg) }"
| "amp_exec env (Stop buf n) s =
     do { (_, d, pg) \<leftarrow> mailmsg_stop_store env buf n (sys_data s) (sys_page s); Some (with_data s d pg) }"
| "amp_exec env (Rearm buf n) s =
     do { (_, d) \<leftarrow> rearm_store env buf n (sys_data s); Some (with_data s d (sys_page s)) }"
| "amp_exec env (Status_show tf2 wo2) s =
     (let _ = status_show (sys_data s) (sys_page s) tf2 wo2 in Some s)"
| "amp_exec env Mailmsg_stats_show s = (let _ = mailmsg_stats_show (sys_data s) (sys_page s) in Some s)"
| "amp_exec env Response_show s = (let _ = response_show (sys_data s) (sys_page s) in Some s)"
| "amp_exec env Affinity_show s =
     do { (_, d) \<leftarrow> affinity_state_show env (sys_data s); Some (with_data s d (sys_page s)) }"
| "amp_exec env (Ping v n) s =
     (case ping_store env v n (sys_data s) (sys_page s) of (_, d, pg) \<Rightarrow> Some (with_data s d pg))"
| "amp_exec env (Doorbell v n) s = Some (with_data s (snd (doorbell_store env v n (sys_data s))) (sys_page s))"
| "amp_exec env (Mailmsg_ping v n) s =
     do { (_, d, pg) \<leftarrow> mailmsg_ping_store env v n (sys_data s) (sys_page s); Some (with_data s d pg) }"
| "amp_exec env (Mailmsg_crc_inject v n) s =
     do { (_, d, pg) \<leftarrow> mailmsg_crc_inject_store env v n (sys_data s) (sys_page s); Some (with_data s d pg) }"
| "amp_exec env (Mailmsg_notify_inject buf v n) s =
     Some (with_data s (snd (mailmsg_notify_inject_store buf v n (sys_data s))) (sys_page s))"
| "amp_exec env (Mailmsg_queue_push v n) s =
     do { (_, d, pg) \<leftarrow> mailmsg_queue_push_store v n (sys_data s) (sys_page s); Some (with_data s d pg) }"
| "amp_exec env (Mailmsg_response m) s =
     do { (_, d, pg) \<leftarrow> mailmsg_response_show m (sys_data s) (sys_page s); Some (with_data s d pg) }"
| "amp_exec env (Control_work m) s =
     do { (d, pg) \<leftarrow> r1_amp_mailmsg_control_work env m (sys_data s) (sys_page s); Some (with_data s d pg) }"
| "amp_exec env Affinity_work s =
     do { d \<leftarrow> r1_amp_affinity_work env (sys_data s); Some (with_data s d (sys_page s)) }"
| "amp_exec env Lifecycle_timeout_work s =
     do { d \<leftarrow> r1_amp_mailmsg_lifecycle_timeout_work env (sys_data s); Some (with_data s d (sys_page s)) }"
| "amp_exec env (Rx_callback i m) s = Some (with_data s (r1_amp_mbox_rx_callback i m (sys_data s)) (sys_page s))"
| "amp_exec env (User_open a c) s =
     (case r1_amp_mailmsg_user_open a c (sys_data s) of (_, f, d) \<Rightarrow>
        Some (s\<lparr>sys_data := d, sys_files := sys_files s @ (case f of None \<Rightarrow> [] | Some f \<Rightarrow> [f])\<rparr>))"
| "amp_exec env (User_release i) s =
     (if i < length (sys_files s)
      then Some (s\<lparr>sys_data := snd (r1_amp_mailmsg_user_release (sys_files s ! i) (sys_data s)),
                   sys_files := take i (sys_files s) @ drop (Suc i) (sys_files s)\<rparr>)
      else Some s)"
| "amp_exec env (User_read i n nonblock fault m) s =
     (if i < length (sys_files s)
      then do { (_, f, d, pg) \<leftarrow> r1_amp_mailmsg_user_read n nonblock fault m (sys_files s ! i) (sys_data s) (sys_page s);
                Some ((with_data s d pg)\<lparr>sys_files := (sys_files s)[i := f]\<rparr>) }
      else Some s)"
| "amp_exec env (User_read_resume i sig nonblock fault m) s =
     (if i < length (sys_files s)
      then do { (_, d, pg) \<leftarrow>
                  r1_amp_mailmsg_user_read_resume sig nonblock fault m (sys_files s ! i) (sys_data s) (sys_page s);
                Some (with_data s d pg) }
      else Some s)"
| "amp_exec env (User_write i n frame) s =
     (if i < length (sys_files s)
      then do { (_, d, pg) \<leftarrow> r1_amp_mailmsg_user_write n frame (sys_files s ! i) (sys_data s) (sys_page s);
                Some (with_data s d pg) }
      else Some s)"
| "amp_exec env (User_poll i) s =
     (if i < length (sys_files s)
      then case r1_amp_mailmsg_user_poll (sys_files s ! i) (sys_data s) (sys_page s) of (_, f, d) \<Rightarrow>
             Some (s\<lparr>sys_data := d, sys_files := (sys_files s)[i := f]\<rparr>)
      else Some s)"
| "amp_exec env (Cpu3_acts regs pg) s =
     Some (with_data s ((sys_data s)\<lparr>d_ctx := (d_ctx (sys_data s))\<lparr>mbox_regs0 := regs\<rparr>\<rparr>) pg)"

text \<open>
  What the kernel and the other core guarantee of a call: transfer sizes are \<open>size_t\<close>
  values, the minor number is one of the four, a frame has its declared size, and CPU3
  leaves the session header and the image area alone and keeps the ring indices below
  eight.  The frames in the rings, the observation lines and the registers are arbitrary.
\<close>

fun call_ok :: "amp_call \<Rightarrow> amp_system \<Rightarrow> bool" where
  "call_ok (Image_write off buf) s \<longleftrightarrow> length buf < 2 ^ 64"
| "call_ok (User_open a c) s \<longleftrightarrow> c < 4"
| "call_ok (User_write i n frame) s \<longleftrightarrow> (case frame of None \<Rightarrow> True | Some f \<Rightarrow> length (fr_payload f) = 32)"
| "call_ok (Cpu3_acts regs pg) s \<longleftrightarrow> shared_wf (pg_mailmsg pg) \<and>
     shm_magic (pg_mailmsg pg) = shm_magic (pg_mailmsg (sys_page s)) \<and>
     shm_version (pg_mailmsg pg) = shm_version (pg_mailmsg (sys_page s)) \<and>
     shm_generation (pg_mailmsg pg) = shm_generation (pg_mailmsg (sys_page s)) \<and>
     length (pg_image pg) = length (pg_image (sys_page s))"
| "call_ok _ s \<longleftrightarrow> True"

subsection \<open>The invariant of the system\<close>

definition readers :: "u32 \<Rightarrow> r1_amp_mailmsg_user_file list \<Rightarrow> nat" where
  "readers c fs = length (filter (\<lambda>f. reader_claimed f \<and> uf_channel f = c) fs)"

definition files_ok :: "u32 \<times> u32 list \<Rightarrow> r1_amp_mailmsg_user_file list \<Rightarrow> bool" where
  "files_ok v fs \<longleftrightarrow> fst v = word_of_nat (length fs) \<and> (\<forall>f \<in> set fs. uf_channel f < 4) \<and> length (snd v) = 4 \<and>
     (\<forall>c < 4. snd v ! unat c = word_of_nat (readers c fs) \<and> readers c fs \<le> 1)"

definition sys_inv :: "mmio_write \<Rightarrow> amp_system \<Rightarrow> bool" where
  "sys_inv wr s \<longleftrightarrow> driver_inv wr (sys_data s) (sys_page s) \<and> files_ok (user_view (sys_data s)) (sys_files s)"

definition exec_ok :: "mmio_write \<Rightarrow> amp_system \<Rightarrow> amp_system option \<Rightarrow> bool" where
  "exec_ok wr s r \<longleftrightarrow> (\<exists>s'. r = Some s' \<and> sys_inv wr s' \<and>
     lifecycle_edge (mailmsg_state (sys_data s)) (mailmsg_state (sys_data s')))"

lemma exec_plain:
  assumes "sys_inv wr s" and "r = Some (with_data s d pg)" and "driver_inv wr d pg"
    and "user_view d = user_view (sys_data s)" and "lifecycle_edge (mailmsg_state (sys_data s)) (mailmsg_state d)"
  shows "exec_ok wr s r"
  using assms by (simp add: exec_ok_def sys_inv_def with_data_def)

lemma readers_simps [simp]:
  "readers c [] = 0"
  "readers c (f # fs) = (if reader_claimed f \<and> uf_channel f = c then Suc (readers c fs) else readers c fs)"
  "readers c (fs @ gs) = readers c fs + readers c gs"
  by (simp_all add: readers_def)

lemma readers_split:
  assumes "i < length fs"
  shows "readers c fs = readers c (take i fs @ drop (Suc i) fs) + readers c [fs ! i]"
    "readers c (fs[i := f]) = readers c (take i fs @ drop (Suc i) fs) + readers c [f]"
  using arg_cong [OF id_take_nth_drop [OF assms], of "readers c"]
  by (simp_all add: upd_conv_take_nth_drop [OF assms])

lemma files_ok_open:
  assumes "files_ok (n, rs) fs" and "c < 4"
  shows "files_ok (n + 1, rs) (fs @ [\<lparr>uf_channel = c, reader_claimed = False\<rparr>])"
  using assms by (simp add: files_ok_def)

lemma files_ok_release:
  assumes "files_ok (n, rs) fs" and "i < length fs" and "c = uf_channel (fs ! i)"
  shows "files_ok (n - 1, if reader_claimed (fs ! i) then rs[unat c := rs ! unat c - 1] else rs) (take i fs @ drop (Suc i) fs)"
proof -
  let ?gs = "take i fs @ drop (Suc i) fs"
  have c: "c < 4" "length rs = 4" using assms by (auto simp: files_ok_def)
  have n: "n - 1 = word_of_nat (length ?gs)"
    using assms(1,2) by (cases fs) (auto simp: files_ok_def min_def)
  have r: "readers q fs = readers q ?gs + (if reader_claimed (fs ! i) \<and> c = q then 1 else 0)" for q
    using readers_split(1) [OF assms(2), of q] assms(3) by simp
  have "set ?gs \<subseteq> set fs" by (auto dest: in_set_takeD in_set_dropD)
  moreover have "(if reader_claimed (fs ! i) then rs[unat c := rs ! unat c - 1] else rs) ! unat q = word_of_nat (readers q ?gs) \<and>
      readers q ?gs \<le> 1" if "q < 4" for q
    using assms(1) that c r [of q] by (auto simp: files_ok_def nth_list_update simp flip: word_unat_eq_iff)
  ultimately show ?thesis using assms(1) n c by (auto simp: files_ok_def)
qed

lemma files_ok_claim:
  assumes "files_ok (n, rs) fs" and "i < length fs" and "c = uf_channel (fs ! i)" and "\<not> reader_claimed (fs ! i)"
    and "rs ! unat c = 0"
  shows "files_ok (n, rs[unat c := rs ! unat c + 1]) (fs[i := (fs ! i)\<lparr>reader_claimed := True\<rparr>])"
proof -
  let ?fs = "fs[i := (fs ! i)\<lparr>reader_claimed := True\<rparr>]"
  have c: "c < 4" "length rs = 4" using assms by (auto simp: files_ok_def)
  have "readers c fs = 0" using assms(1,5) c by (auto simp: files_ok_def le_Suc_eq)
  then have r: "readers q ?fs = (if q = c then 1 else readers q fs)" for q
    using readers_split [OF assms(2), of q] assms(3,4) by auto
  have "\<forall>f \<in> set ?fs. uf_channel f < 4"
    using assms(1) nth_mem [OF assms(2)] set_update_subset_insert [of fs i "(fs ! i)\<lparr>reader_claimed := True\<rparr>"]
    by (auto simp: files_ok_def)
  moreover have "rs[unat c := rs ! unat c + 1] ! unat q = word_of_nat (readers q ?fs) \<and> readers q ?fs \<le> 1" if "q < 4" for q
    using assms(1,5) that c by (auto simp: r files_ok_def nth_list_update simp flip: word_unat_eq_iff)
  ultimately show ?thesis using assms(1) c by (auto simp: files_ok_def)
qed

subsection \<open>Every call keeps the invariant\<close>

lemma reader_map_update: "map uc_reader_open_count (us[i := u]) = (map uc_reader_open_count us)[i := uc_reader_open_count u]"
  by (simp add: map_update)

lemma open_ok:
  assumes "sys_inv wr s" and "c < 4"
  shows "exec_ok wr s (amp_exec env (User_open a c) s)"
proof -
  let ?d = "sys_data s"
  have inv: "driver_inv wr ?d (sys_page s)" "files_ok (user_view ?d) (sys_files s)" using assms(1) by (simp_all add: sys_inv_def)
  have n: "driver_inv wr (?d\<lparr>mailmsg_user_open_count := k\<rparr>) (sys_page s)" for k
    using inv(1) by (simp add: driver_inv_def driver_wf_def lifecycle_inv_def)
  show ?thesis
    using inv n files_ok_open [OF inv(2) [unfolded user_view_def] assms(2)] assms(1)
    by (auto simp: r1_amp_mailmsg_user_open_def Let_def exec_ok_def sys_inv_def user_view_def)
qed

lemma release_ok:
  assumes "sys_inv wr s"
  shows "exec_ok wr s (amp_exec env (User_release i) s)"
proof (cases "i < length (sys_files s)")
  case False
  with assms show ?thesis by (simp add: exec_ok_def)
next
  case True
  let ?d = "sys_data s" and ?f = "sys_files s ! i"
  let ?c = "uf_channel ?f"
  let ?us = "if reader_claimed ?f then (mailmsg_user ?d)[unat ?c := (mailmsg_user ?d ! unat ?c)
      \<lparr>uc_reader_open_count := uc_reader_open_count (mailmsg_user ?d ! unat ?c) - 1\<rparr>] else mailmsg_user ?d"
  have inv: "driver_inv wr ?d (sys_page s)" "files_ok (user_view ?d) (sys_files s)" using assms by (simp_all add: sys_inv_def)
  have c: "?c < 4" using inv(2) True by (simp add: files_ok_def)
  have us: "users_wf (mailmsg_user ?d)" using inv(1) by (simp add: driver_inv_def driver_wf_def)
  then have len: "unat ?c < length (mailmsg_user ?d)" using c by (simp add: users_wf_def)
  note rel = files_ok_release [OF inv(2) [unfolded user_view_def] True refl]
  have d': "snd (r1_amp_mailmsg_user_release ?f ?d) =
      ?d\<lparr>mailmsg_user := ?us, mailmsg_user_open_count := mailmsg_user_open_count ?d - 1\<rparr>"
    by (simp add: r1_amp_mailmsg_user_release_def upd_user_def Let_def)
  have "map uc_reader_open_count ?us = (if reader_claimed ?f
      then (map uc_reader_open_count (mailmsg_user ?d))[unat ?c := map uc_reader_open_count (mailmsg_user ?d) ! unat ?c - 1]
      else map uc_reader_open_count (mailmsg_user ?d))"
    using len by (simp add: reader_map_update)
  with rel have ok: "files_ok (user_view (snd (r1_amp_mailmsg_user_release ?f ?d))) (take i (sys_files s) @ drop (Suc i) (sys_files s))"
    unfolding d' by (simp add: user_view_def)
  have "uc_reader_open_count (mailmsg_user ?d ! unat ?c) = 1" if "reader_claimed ?f"
  proof -
    have "readers ?c (sys_files s) \<noteq> 0" using that readers_split(1) [OF True, of ?c] by simp
    then show ?thesis using inv(2) c len by (auto simp: files_ok_def user_view_def le_Suc_eq)
  qed
  then have "users_wf ?us" using us c by (auto simp: users_wf_def nth_list_update)
  then have "driver_inv wr (snd (r1_amp_mailmsg_user_release ?f ?d)) (sys_page s)"
    unfolding d' by (rule driver_inv_users(3) [OF inv(1)])
  with ok True show ?thesis by (simp add: exec_ok_def sys_inv_def) (simp add: d')
qed

text \<open>A claim: either refused, or the file is the one reader of its channel.\<close>

lemma claim_ok:
  assumes "sys_inv wr s" and "i < length (sys_files s)"
    and "r1_amp_mailmsg_user_claim_reader (sys_files s ! i) (sys_data s) = (ret, f, d)"
  shows "sys_inv wr (s\<lparr>sys_data := d, sys_files := (sys_files s)[i := f]\<rparr>)" "mailmsg_state d = mailmsg_state (sys_data s)"
    "uf_channel f = uf_channel (sys_files s ! i)" "uf_channel f < 4" "ret = 0 \<Longrightarrow> reader_claimed f" "ret \<in> {0, - EBUSY}"
proof -
  let ?d = "sys_data s" and ?f = "sys_files s ! i"
  let ?c = "uf_channel ?f"
  have inv: "driver_inv wr ?d (sys_page s)" "files_ok (user_view ?d) (sys_files s)" using assms(1) by (simp_all add: sys_inv_def)
  have c: "?c < 4" using inv(2) assms(2) by (simp add: files_ok_def)
  have us: "users_wf (mailmsg_user ?d)" using inv(1) by (simp add: driver_inv_def driver_wf_def)
  then have len: "unat ?c < length (mailmsg_user ?d)" using c by (simp add: users_wf_def)
  show "mailmsg_state d = mailmsg_state ?d" "uf_channel f = ?c" "ret = 0 \<Longrightarrow> reader_claimed f" "ret \<in> {0, - EBUSY}" "uf_channel f < 4"
    using assms(3) c by (auto simp: r1_amp_mailmsg_user_claim_reader_def upd_user_def split: if_split_asm)
  show "sys_inv wr (s\<lparr>sys_data := d, sys_files := (sys_files s)[i := f]\<rparr>)"
  proof (cases "\<not> reader_claimed ?f \<and> uc_reader_open_count (mailmsg_user ?d ! unat ?c) = 0")
    case False
    then have "f = ?f" "d = ?d" using assms(3) by (auto simp: r1_amp_mailmsg_user_claim_reader_def split: if_split_asm)
    with assms(1) show ?thesis by simp
  next
    case True
    let ?us = "(mailmsg_user ?d)[unat ?c := (mailmsg_user ?d ! unat ?c)\<lparr>uc_reader_open_count := uc_reader_open_count (mailmsg_user ?d ! unat ?c) + 1\<rparr>]"
    have out: "f = ?f\<lparr>reader_claimed := True\<rparr>" "d = ?d\<lparr>mailmsg_user := ?us\<rparr>"
      using True assms(3) by (simp_all add: r1_amp_mailmsg_user_claim_reader_def upd_user_def)
    have "files_ok (user_view d) ((sys_files s)[i := f])"
      using files_ok_claim [OF inv(2) [unfolded user_view_def] assms(2) refl] True len
      unfolding out by (simp add: user_view_def reader_map_update)
    moreover have "users_wf ?us" using us True c by (auto simp: users_wf_def nth_list_update)
    then have "driver_inv wr d (sys_page s)" unfolding out by (rule driver_inv_users(1) [OF inv(1)])
    ultimately show ?thesis by (simp add: sys_inv_def)
  qed
qed

lemma with_data_same [simp]:
  "sys_data (with_data s d pg) = d" "sys_page (with_data s d pg) = pg" "sys_files (with_data s d pg) = sys_files s"
  by (simp_all add: with_data_def)

lemma read_ok:
  assumes "sys_inv wr s"
  shows "exec_ok wr s (amp_exec env (User_read i n nonblock fault m) s)"
proof (cases "i < length (sys_files s) \<and> n = USER_FRAME_SIZE")
  case False
  with assms show ?thesis by (auto simp: exec_ok_def r1_amp_mailmsg_user_read_def with_data_def)
next
  case True
  then have i: "i < length (sys_files s)" "n = USER_FRAME_SIZE" by simp_all
  obtain ret f d where cl: "r1_amp_mailmsg_user_claim_reader (sys_files s ! i) (sys_data s) = (ret, f, d)" by (metis surj_pair)
  note c = claim_ok [OF assms i(1) cl]
  let ?s = "s\<lparr>sys_data := d, sys_files := (sys_files s)[i := f]\<rparr>"
  show ?thesis
  proof (cases "ret = 0")
    case False
    with i cl c(1,2) show ?thesis by (simp add: exec_ok_def r1_amp_mailmsg_user_read_def with_data_def)
  next
    case True
    from c(1) have inv: "driver_inv wr d (sys_page s)" by (simp add: sys_inv_def)
    obtain out d' pg' where r: "user_read_pass nonblock fault m f d (sys_page s) = Some (out, d', pg')" "driver_inv wr d' pg'"
      "mailmsg_state d' = mailmsg_state d" "user_view d' = user_view d"
      by (rule user_read_pass_inv [OF inv c(4)])
    show ?thesis using i cl True r c(1,2)
      by (simp add: exec_ok_def r1_amp_mailmsg_user_read_def sys_inv_def)
  qed
qed

lemma poll_ok:
  assumes "sys_inv wr s"
  shows "exec_ok wr s (amp_exec env (User_poll i) s)"
proof (cases "i < length (sys_files s)")
  case False
  with assms show ?thesis by (simp add: exec_ok_def)
next
  case True
  obtain ret f d where cl: "r1_amp_mailmsg_user_claim_reader (sys_files s ! i) (sys_data s) = (ret, f, d)" by (metis surj_pair)
  have "\<exists>m. r1_amp_mailmsg_user_poll (sys_files s ! i) (sys_data s) (sys_page s) = (m, f, d)"
    by (simp add: r1_amp_mailmsg_user_poll_def cl Let_def)
  with claim_ok(1,2) [OF assms True cl] True show ?thesis by (auto simp: exec_ok_def)
qed

lemma resume_write_ok:
  assumes "sys_inv wr s"
  shows "exec_ok wr s (amp_exec env (User_read_resume i sig nonblock fault m) s)"
    "call_ok (User_write i n frame) s \<Longrightarrow> exec_ok wr s (amp_exec env (User_write i n frame) s)"
proof -
  have inv: "driver_inv wr (sys_data s) (sys_page s)" using assms by (simp add: sys_inv_def)
  have ch: "uf_channel (sys_files s ! i) < 4" if "i < length (sys_files s)" using assms that by (simp add: sys_inv_def files_ok_def)
  show "exec_ok wr s (amp_exec env (User_read_resume i sig nonblock fault m) s)"
  proof (cases "i < length (sys_files s) \<and> sig = 0")
    case False
    with assms show ?thesis by (auto simp: exec_ok_def r1_amp_mailmsg_user_read_resume_def with_data_def)
  next
    case True
    then have i: "i < length (sys_files s)" "sig = 0" by simp_all
    obtain out d' pg' where r: "user_read_pass nonblock fault m (sys_files s ! i) (sys_data s) (sys_page s) = Some (out, d', pg')"
      "driver_inv wr d' pg'" "mailmsg_state d' = mailmsg_state (sys_data s)" "user_view d' = user_view (sys_data s)"
      by (rule user_read_pass_inv [OF inv ch [OF i(1)]])
    show ?thesis by (rule exec_plain [OF assms _ r(2,4)]) (use i r in \<open>simp_all add: r1_amp_mailmsg_user_read_resume_def\<close>)
  qed
  assume fr: "call_ok (User_write i n frame) s"
  show "exec_ok wr s (amp_exec env (User_write i n frame) s)"
  proof (cases "i < length (sys_files s)")
    case False
    with assms show ?thesis by (simp add: exec_ok_def)
  next
    case True
    have len: "\<forall>f. frame = Some f \<longrightarrow> length (fr_payload f) = 32" using fr by auto
    obtain r d' pg' where r: "r1_amp_mailmsg_user_write n frame (sys_files s ! i) (sys_data s) (sys_page s) = Some (r, d', pg')"
      "driver_inv wr d' pg'" "mailmsg_state d' = mailmsg_state (sys_data s)" "user_view d' = user_view (sys_data s)"
      by (rule user_write_inv [OF inv ch [OF True] len])
    show ?thesis by (rule exec_plain [OF assms _ r(2,4)]) (use True r in simp_all)
  qed
qed

lemma cpu3_acts_ok:
  assumes "sys_inv wr s" and "call_ok (Cpu3_acts regs pg) s"
  shows "exec_ok wr s (amp_exec env (Cpu3_acts regs pg) s)"
proof -
  let ?d = "sys_data s" and ?pg = "sys_page s"
  let ?d' = "?d\<lparr>d_ctx := (d_ctx ?d)\<lparr>mbox_regs0 := regs\<rparr>\<rparr>"
  have inv: "driver_inv wr ?d ?pg" using assms(1) by (simp add: sys_inv_def)
  note b = driver_inv_bound [OF inv]
  have ses: "same_session (d_endpoint ?d) (pg_mailmsg ?pg) (d_endpoint ?d) (pg_mailmsg pg)"
    using assms(2) b(3) by (simp add: same_session_def)
  from same_session_bound [OF this] have "driver_inv wr ?d' pg"
    using inv assms(2) by (simp add: driver_inv_def driver_wf_def lifecycle_inv_def)
  then show ?thesis by (rule exec_plain [OF assms(1), rotated]) simp_all
qed

lemma work_ok:
  assumes "sys_inv wr s" and "psci_affinity_info env = Some q"
  shows "exec_ok wr s (amp_exec env (Control_work m) s)" "exec_ok wr s (amp_exec env Affinity_work s)"
    "exec_ok wr s (amp_exec env Lifecycle_timeout_work s)"
proof -
  let ?d = "sys_data s" and ?pg = "sys_page s"
  have inv: "driver_inv wr ?d ?pg" "\<not> mailmsg_user_removing ?d"
    using assms(1) by (simp_all add: sys_inv_def driver_inv_def lifecycle_inv_def)
  obtain d pg where c: "r1_amp_mailmsg_control_work env m ?d ?pg = Some (d, pg)"
    by (rule control_work_cases [OF inv(1), of env m])
  show "exec_ok wr s (amp_exec env (Control_work m) s)"
    by (rule exec_plain [OF assms(1) _ control_work_inv(1) [OF inv(1) c] control_work_view [OF inv(1) c] control_work_inv(2) [OF inv(1) c]])
       (simp add: c)
  obtain d where a: "r1_amp_affinity_work env ?d = Some d"
    by (rule affinity_work_cases [OF assms(2) inv(2)])
  show "exec_ok wr s (amp_exec env Affinity_work s)"
    by (rule exec_plain [OF assms(1) _ affinity_work_inv(1) [OF inv(1) a assms(2)] affinity_work_view [OF a]
          affinity_work_inv(2) [OF inv(1) a assms(2)]]) (simp add: a)
  obtain d where t: "r1_amp_mailmsg_lifecycle_timeout_work env ?d = Some d"
    by (rule timeout_work_cases [OF assms(2), of ?d])
  show "exec_ok wr s (amp_exec env Lifecycle_timeout_work s)"
    by (rule exec_plain [OF assms(1) _ timeout_work_inv(1) [OF inv(1) t assms(2)] timeout_work_view [OF t]
          timeout_work_inv(2) [OF inv(1) t assms(2)]]) (simp add: t)
qed

lemma lifecycle_store_ok:
  assumes "sys_inv wr s" and "mbox_write env = wr"
  shows "exec_ok wr s (amp_exec env (Start buf n) s)" "exec_ok wr s (amp_exec env (Stop buf n) s)"
    "exec_ok wr s (amp_exec env (Rearm buf n) s)" "exec_ok wr s (amp_exec env Affinity_show s)"
proof -
  let ?d = "sys_data s" and ?pg = "sys_page s"
  have inv: "driver_inv wr ?d ?pg" using assms(1) by (simp add: sys_inv_def)
  note inv' = inv [folded assms(2)]
  obtain r d pg where a: "start_store env buf n ?d ?pg = Some (r, d, pg)" by (rule start_cases [OF inv', of buf n])
  show "exec_ok wr s (amp_exec env (Start buf n) s)"
    by (rule exec_plain [OF assms(1) _ start_inv(1) [OF inv' a, unfolded assms(2)] start_view [OF a] start_inv(2) [OF inv' a]])
       (simp add: a)
  obtain r d pg where b: "mailmsg_stop_store env buf n ?d ?pg = Some (r, d, pg)" by (rule stop_cases [OF inv, of env buf n])
  show "exec_ok wr s (amp_exec env (Stop buf n) s)"
    by (rule exec_plain [OF assms(1) _ stop_inv(1) [OF inv b] stop_view [OF b] stop_inv(2) [OF inv b]]) (simp add: b)
  obtain r d where c: "rearm_store env buf n ?d = Some (r, d)" by (rule rearm_cases [of env buf n ?d])
  show "exec_ok wr s (amp_exec env (Rearm buf n) s)"
    by (rule exec_plain [OF assms(1) _ rearm_inv(1) [OF inv c] rearm_view [OF c] rearm_inv(2) [OF inv c]]) (simp add: c)
  obtain r d where e: "affinity_state_show env ?d = Some (r, d)" "driver_inv wr d ?pg" "lifecycle_edge (mailmsg_state ?d) (mailmsg_state d)"
    by (rule affinity_show_inv [OF inv])
  show "exec_ok wr s (amp_exec env Affinity_show s)"
    by (rule exec_plain [OF assms(1) _ e(2) affinity_show_view [OF e(1)] e(3)]) (simp add: e(1))
qed

lemma sysfs_ok:
  assumes "sys_inv wr s" and "mbox_write env = wr"
  shows "length buf < 2 ^ 64 \<Longrightarrow> exec_ok wr s (amp_exec env (Image_write off buf) s)"
    "exec_ok wr s (amp_exec env (Mailmsg_ping v n) s)" "exec_ok wr s (amp_exec env (Mailmsg_crc_inject v n) s)"
    "exec_ok wr s (amp_exec env (Mailmsg_queue_push v n) s)" "exec_ok wr s (amp_exec env (Mailmsg_response m) s)"
proof -
  let ?d = "sys_data s" and ?pg = "sys_page s"
  have inv: "driver_inv wr ?d ?pg" using assms(1) by (simp add: sys_inv_def)
  note inv' = inv [folded assms(2)]
  show "exec_ok wr s (amp_exec env (Image_write off buf) s)" if buf: "length buf < 2 ^ 64"
  proof (rule image_write_inv [OF inv buf, of off])
    fix r d pg assume a: "image_write off buf ?d ?pg = Some (r, d, pg)" "driver_inv wr d pg" "mailmsg_state d = mailmsg_state ?d"
    show ?thesis by (rule exec_plain [OF assms(1) _ a(2) image_write_view [OF a(1)]]) (simp_all add: a)
  qed
  have ping: "exec_ok wr s (do { (_, d, pg) \<leftarrow> mailmsg_send_ping env v n b ?d ?pg; Some (with_data s d pg) })" for b
  proof (rule send_ping_inv [OF inv', of v n b])
    fix r d pg assume a: "mailmsg_send_ping env v n b ?d ?pg = Some (r, d, pg)" "driver_inv (mbox_write env) d pg" "mailmsg_state d = mailmsg_state ?d"
    show ?thesis by (rule exec_plain [OF assms(1) _ a(2) [unfolded assms(2)] send_ping_view [OF a(1)]]) (simp_all add: a)
  qed
  then show "exec_ok wr s (amp_exec env (Mailmsg_ping v n) s)" "exec_ok wr s (amp_exec env (Mailmsg_crc_inject v n) s)"
    by (simp_all add: mailmsg_ping_store_def mailmsg_crc_inject_store_def)
  show "exec_ok wr s (amp_exec env (Mailmsg_queue_push v n) s)"
  proof (rule queue_push_inv [OF inv, of v n])
    fix r d pg assume a: "mailmsg_queue_push_store v n ?d ?pg = Some (r, d, pg)" "driver_inv wr d pg" "mailmsg_state d = mailmsg_state ?d"
    show ?thesis by (rule exec_plain [OF assms(1) _ a(2) queue_push_view [OF a(1)]]) (simp_all add: a)
  qed
  show "exec_ok wr s (amp_exec env (Mailmsg_response m) s)"
  proof (rule response_show_inv [OF inv, of m])
    fix r d pg assume a: "mailmsg_response_show m ?d ?pg = Some (r, d, pg)" "driver_inv wr d pg" "mailmsg_state d = mailmsg_state ?d"
    show ?thesis by (rule exec_plain [OF assms(1) _ a(2) mailmsg_response_view [OF a(1)]]) (simp_all add: a)
  qed
qed

lemma show_ok:
  assumes "sys_inv wr s"
  shows "exec_ok wr s (amp_exec env (Status_show tf2 wo2) s)" "exec_ok wr s (amp_exec env Mailmsg_stats_show s)"
    "exec_ok wr s (amp_exec env Response_show s)"
  using assms by (simp_all add: exec_ok_def)

lemma exec_invariant:
  assumes "sys_inv wr s" and "mbox_write env = wr" and "psci_affinity_info env = Some q" and "call_ok call s"
  shows "exec_ok wr s (amp_exec env call s)"
proof -
  have inv: "driver_inv wr (sys_data s) (sys_page s)" using assms(1) by (simp add: sys_inv_def)
  note inv' = inv [folded assms(2)]
  show ?thesis
  proof (cases call)
    case (Ping v n)
    obtain r where "ping_store env v n (sys_data s) (sys_page s) = (r, sys_data s, sys_page s)"
      using ping_state [of env v n "sys_data s" "sys_page s"] by (metis surj_pair)
    with Ping inv show ?thesis by (intro exec_plain [OF assms(1), of _ "sys_data s" "sys_page s"]) simp_all
  next
    case (Doorbell v n)
    show ?thesis unfolding Doorbell
      by (rule exec_plain [OF assms(1) _ doorbell_inv(1) [OF inv', unfolded assms(2)] doorbell_view])
         (simp_all add: doorbell_inv(2) [OF inv'])
  next
    case (Mailmsg_notify_inject buf v n)
    show ?thesis unfolding Mailmsg_notify_inject
      by (rule exec_plain [OF assms(1) _ inject_inv(1) [OF inv] inject_view]) (simp_all add: inject_inv(2) [OF inv])
  next
    case (Rx_callback i m)
    show ?thesis unfolding Rx_callback
      by (rule exec_plain [OF assms(1) _ rx_callback_inv(1) [OF inv] rx_callback_view]) (simp_all add: rx_callback_inv(2) [OF inv])
  qed (use assms in \<open>auto simp del: amp_exec.simps intro: sysfs_ok show_ok lifecycle_store_ok work_ok open_ok release_ok read_ok poll_ok
      resume_write_ok cpu3_acts_ok\<close>)
qed

end
