(* ===== verification/Amp_Safety.thy ===== *)
theory Amp_Safety
  imports Amp_Probe Amp_System
begin

text \<open>
  Runs of the Linux side from probe on, and what they guarantee: no entry point crashes
  or hangs, the driver invariant, the lifecycle graph, the exclusive reader, and which
  call can open the data plane.

  The states of the concrete instances: \<open>session_data st g wr\<close> is the probed driver in
  session \<open>g\<close> and state \<open>st\<close>; \<open>board_kernel\<close> has the PSCI calls and a clock that stands.
\<close>

subsection \<open>Concrete states\<close>

definition session_data :: "r1_amp_mailmsg_session_state \<Rightarrow> u32 \<Rightarrow> mmio_write \<Rightarrow> r1_amp_cpu_on_data" where
  "session_data st g wr = (board_data wr)\<lparr>mailmsg_state := st, cpu_on_attempted := True, cpu_on_ret := 0,
     affinity_work := Some 0, lifecycle_timeout_work := Some 0, session_generation := g, peer_generation := g,
     affinity_seen_on := True, d_endpoint := bound_endpoint MAILMSG_ENDPOINT_LINUX g (mailmsg_linux_notify wr)\<rparr>"

definition session_page :: "u32 \<Rightarrow> amp_page" where
  "session_page g = board_page\<lparr>pg_mailmsg := fresh_shared g\<rparr>"

definition board_kernel :: "int \<Rightarrow> u64 \<Rightarrow> mmio_write \<Rightarrow> amp_env" where
  "board_kernel aff now wr = \<lparr>psci_affinity_info = Some (\<lambda>_. aff), psci_cpu_on = Some (\<lambda>_ _. 0), jiffies = (\<lambda>_. now),
     msecs_to_jiffies = (\<lambda>ms. ucast ms), mbox_write = wr\<rparr>"

lemma board_kernel_simps [simp]:
  "psci_affinity_info (board_kernel aff now wr) = Some (\<lambda>_. aff)" "psci_cpu_on (board_kernel aff now wr) = Some (\<lambda>_ _. 0)"
  "jiffies (board_kernel aff now wr) n = now" "mbox_write (board_kernel aff now wr) = wr"
  "msecs_to_jiffies (board_kernel aff now wr) ms = ucast ms"
  by (simp_all add: board_kernel_def)

lemma board_data_inv:
  "driver_inv wr (board_data wr) board_page" "mailmsg_state (board_data wr) = R1_AMP_MAILMSG_UNARMED"
proof -
  obtain d files where p: "r1_amp_cpu_on_probe wr board_env = (0, Some d, files)" "board_data wr = d"
    "unat (image_size d) \<le> length (pg_image board_page)" "shared_wf (pg_mailmsg board_page)" by (rule board_probe)
  from probe_established [OF p(1,3,4)] p(2)
  show "driver_inv wr (board_data wr) board_page" "mailmsg_state (board_data wr) = R1_AMP_MAILMSG_UNARMED" by simp_all
qed

lemma session_data_inv [wf_intros]:
  assumes "g \<noteq> 0" and "st \<noteq> R1_AMP_MAILMSG_UNARMED"
  shows "driver_inv wr (session_data st g wr) (session_page g)"
  using board_data_inv [of wr] bound_fresh_linux [OF assms(1), of "mailmsg_linux_notify wr"] assms
  by (simp add: session_data_def session_page_def driver_inv_def driver_wf_def lifecycle_inv_def linux_backend_def)

lemma session_data_simps [simp]:
  "mailmsg_state (session_data st g wr) = st" "session_generation (session_data st g wr) = g"
  "pg_mailmsg (session_page g) = fresh_shared g" "cpu_on_attempted (session_data st g wr)" "cpu_on_ret (session_data st g wr) = 0"
  "affinity_seen_on (session_data st g wr)"
  by (simp_all add: session_data_def session_page_def)

text \<open>The definitions that evaluate the probe of the board.\<close>

lemmas board_eval = board_data_def board_env_def probe_eval probe_data_def upd_user_def

lemma board_users: "mailmsg_user (board_data wr) = map (\<lambda>p. \<lparr>uc_priority = p, uc_rx_wait = 0, uc_rx_generation = 0,
    uc_reader_open_count = 0, uc_registered = True\<rparr>) [0, 1, 2, 3]" "mailmsg_user_open_count (board_data wr) = 0"
  by (simp_all add: board_eval)

lemma session_sys_inv:
  assumes "g \<noteq> 0" and "st \<noteq> R1_AMP_MAILMSG_UNARMED"
  shows "sys_inv wr \<lparr>sys_data = session_data st g wr, sys_page = session_page g, sys_files = []\<rparr>"
proof -
  have "user_view (session_data st g wr) = (0, [0, 0, 0, 0])"
    using board_users [of wr] by (simp add: user_view_def session_data_def)
  moreover have "[0, 0, 0, 0 :: u32] ! unat c = 0" if "c < 4" for c :: u32 using that by (rule ch_cases) simp_all
  ultimately show ?thesis using session_data_inv [OF assms, of wr] by (simp add: sys_inv_def files_ok_def)
qed

subsection \<open>Single calls\<close>

text \<open>Claim C1.
  Every entry point of the driver (all sysfs stores and shows, the work items, the mailbox
  callback, the file operations of the character devices), called in any state that
  satisfies the invariant, returns without crash or endless loop, keeps the invariant, and
  moves the session state along an edge of the lifecycle graph.  Between the calls CPU3 may
  leave any frames, complete, damaged or stale, in the shared rings and anything in the
  observation lines and the registers, as long as the ring indices stay below eight.
\<close>

theorem every_call_keeps_invariant:
  assumes "sys_inv wr s" and "mbox_write env = wr" and "psci_affinity_info env = Some q" and "call_ok call s"
  shows "\<exists>s'. amp_exec env call s = Some s' \<and> sys_inv wr s' \<and>
    lifecycle_edge (mailmsg_state (sys_data s)) (mailmsg_state (sys_data s'))"
  using exec_invariant [OF assms] by (simp add: exec_ok_def)

theorem every_call_keeps_invariant_witness:
  "\<exists>s'. amp_exec (board_kernel 0 0 rk_mbox_write) (Stop ''stop'' 4)
      \<lparr>sys_data = session_data R1_AMP_MAILMSG_ACTIVE 5 rk_mbox_write, sys_page = session_page 5, sys_files = []\<rparr> = Some s' \<and>
    sys_inv rk_mbox_write s' \<and> lifecycle_edge R1_AMP_MAILMSG_ACTIVE (mailmsg_state (sys_data s'))"
  using every_call_keeps_invariant [OF session_sys_inv, of 5 R1_AMP_MAILMSG_ACTIVE "board_kernel 0 0 rk_mbox_write" rk_mbox_write
      "\<lambda>_. 0" "Stop ''stop'' 4"] by (simp del: amp_exec.simps)

subsection \<open>Runs\<close>

fun amp_run :: "(amp_env \<times> amp_call) list \<Rightarrow> amp_system \<Rightarrow> amp_system option" where
  "amp_run [] s = Some s"
| "amp_run ((env, call) # cs) s = do { s \<leftarrow> amp_exec env call s; amp_run cs s }"

text \<open>A run is admissible when each call is, in the state in which it happens.\<close>

fun run_ok :: "mmio_write \<Rightarrow> (amp_env \<times> amp_call) list \<Rightarrow> amp_system \<Rightarrow> bool" where
  "run_ok wr [] s \<longleftrightarrow> True"
| "run_ok wr ((env, call) # cs) s \<longleftrightarrow> mbox_write env = wr \<and> psci_affinity_info env \<noteq> None \<and> call_ok call s \<and>
     (case amp_exec env call s of None \<Rightarrow> True | Some s' \<Rightarrow> run_ok wr cs s')"

lemma run_invariant:
  assumes "sys_inv wr s" and "run_ok wr cs s"
  shows "\<exists>s'. amp_run cs s = Some s' \<and> sys_inv wr s'"
  using assms
proof (induction cs arbitrary: s)
  case (Cons c cs)
  obtain env call where c: "c = (env, call)" by (metis surj_pair)
  with Cons.prems(2) obtain q where env: "mbox_write env = wr" "psci_affinity_info env = Some q" "call_ok call s" by auto
  obtain s1 where s1: "amp_exec env call s = Some s1" "sys_inv wr s1"
    using exec_invariant [OF Cons.prems(1) env] by (auto simp: exec_ok_def)
  with Cons c show ?case by simp
qed simp

lemma register_view: "user_view (snd (register_from reg ps d)) = user_view d"
  by (induction ps arbitrary: d) (simp_all add: r1_amp_unregister_mailmsg_user_def)

lemma probe_attach_view: "probe_attach env d = (r, Some d', files) \<Longrightarrow> user_view d' = user_view d"
  using register_view [of "pe_misc_register env" "[0, 1, 2, 3]"]
  by (auto simp: probe_attach_def device_create_file_def err_label_defs r1_amp_register_mailmsg_user_def Let_def split_beta
      simp del: register_from.simps split: if_split_asm)

lemma probed_sys_inv:
  assumes "r1_amp_cpu_on_probe wr env = (0, Some d, files)" and "unat (image_size d) \<le> length (pg_image pg)"
    and "shared_wf (pg_mailmsg pg)"
  shows "sys_inv wr \<lparr>sys_data = d, sys_page = pg, sys_files = []\<rparr>"
proof -
  have "user_view d = (0, [0, 0, 0, 0])"
  proof (cases rule: probe_eq [of env wr, case_names refused attach])
    case (attach base sz mp en isize soff regs)
    have "user_view (probe_data wr base sz mp en isize soff regs) = (0, [0, 0, 0, 0])" by (simp add: user_view_def probe_data_def)
    with probe_attach_view [of env "probe_data wr base sz mp en isize soff regs" 0 d files] attach(8) assms(1) show ?thesis by simp
  qed (use assms(1) in simp)
  moreover have "[0, 0, 0, 0 :: u32] ! unat c = 0" if "c < 4" for c :: u32 using that by (rule ch_cases) simp_all
  ultimately show ?thesis using probe_established [OF assms] by (simp add: sys_inv_def files_ok_def)
qed

text \<open>Two different open files never hold the read side of one channel at a time.\<close>

lemma readers_distinct:
  assumes "readers c fs \<le> 1" and "i < length fs" and "j < length fs" and "i \<noteq> j"
    and "reader_claimed (fs ! i)" and "uf_channel (fs ! i) = c" and "uf_channel (fs ! j) = c"
  shows "\<not> reader_claimed (fs ! j)"
proof -
  let ?gs = "take i fs @ drop (Suc i) fs"
  have "readers c ?gs = 0" using readers_split(1) [OF assms(2), of c] assms(1,5,6) by simp
  then have none: "\<forall>f \<in> set ?gs. \<not> (reader_claimed f \<and> uf_channel f = c)" by (auto simp: readers_def filter_empty_conv)
  have "fs ! j \<in> set ?gs"
  proof (cases "j < i")
    case True
    then have "take i fs ! j \<in> set (take i fs)" using assms(3) by (intro nth_mem) simp
    with True show ?thesis by simp
  next
    case False
    then have "drop (Suc i) fs ! (j - Suc i) \<in> set (drop (Suc i) fs)" using assms(3,4) by (intro nth_mem) simp
    with False assms(3,4) show ?thesis by simp
  qed
  with none assms(7) show ?thesis by blast
qed

text \<open>Claim C2.
  A driver that probed successfully survives every admissible sequence of calls: the run
  completes, the invariant holds at its end, the open count is the number of open files
  (modulo the width of the counter), and no two open files are readers of the same
  priority at once.
\<close>

theorem probed_driver_runs_safely:
  assumes "r1_amp_cpu_on_probe wr env = (0, Some d, files)" and "unat (image_size d) \<le> length (pg_image pg)"
    and "shared_wf (pg_mailmsg pg)" and "run_ok wr cs \<lparr>sys_data = d, sys_page = pg, sys_files = []\<rparr>"
  shows "\<exists>s. amp_run cs \<lparr>sys_data = d, sys_page = pg, sys_files = []\<rparr> = Some s \<and> driver_inv wr (sys_data s) (sys_page s) \<and>
    mailmsg_user_open_count (sys_data s) = word_of_nat (length (sys_files s)) \<and>
    (\<forall>i < length (sys_files s). \<forall>j < length (sys_files s).
       reader_claimed (sys_files s ! i) \<and> reader_claimed (sys_files s ! j) \<and>
       uf_channel (sys_files s ! i) = uf_channel (sys_files s ! j) \<longrightarrow> i = j)"
proof -
  obtain s where s: "amp_run cs \<lparr>sys_data = d, sys_page = pg, sys_files = []\<rparr> = Some s" "sys_inv wr s"
    using run_invariant [OF probed_sys_inv [OF assms(1-3)] assms(4)] by blast
  then have "\<forall>f \<in> set (sys_files s). readers (uf_channel f) (sys_files s) \<le> 1" by (auto simp: sys_inv_def files_ok_def)
  then have "\<forall>i < length (sys_files s). readers (uf_channel (sys_files s ! i)) (sys_files s) \<le> 1" by simp
  with s show ?thesis
    using readers_distinct [of _ "sys_files s"] by (fastforce simp: sys_inv_def files_ok_def user_view_def)
qed

theorem probed_driver_runs_safely_witness:
  "\<exists>s. amp_run [(board_kernel 1 0 rk_mbox_write, Image_write 0 [1, 2, 3, 4]), (board_kernel 1 0 rk_mbox_write, Start ''start'' 5)]
      \<lparr>sys_data = board_data rk_mbox_write, sys_page = board_page, sys_files = []\<rparr> = Some s \<and>
    driver_inv rk_mbox_write (sys_data s) (sys_page s) \<and>
    mailmsg_user_open_count (sys_data s) = word_of_nat (length (sys_files s))"
proof -
  let ?cs = "[(board_kernel 1 0 rk_mbox_write, Image_write 0 [1, 2, 3, 4]), (board_kernel 1 0 rk_mbox_write, Start ''start'' 5)]"
  obtain d files where p: "r1_amp_cpu_on_probe rk_mbox_write board_env = (0, Some d, files)" "board_data rk_mbox_write = d"
    "unat (image_size d) \<le> length (pg_image board_page)" "shared_wf (pg_mailmsg board_page)" by (rule board_probe)
  have "run_ok rk_mbox_write ?cs \<lparr>sys_data = d, sys_page = board_page, sys_files = []\<rparr>" by (simp split: option.split)
  from probed_driver_runs_safely [OF p(1,3,4) this] show ?thesis unfolding p(2) by blast
qed

subsection \<open>The data plane\<close>

text \<open>The frames that CPU3 has queued for Linux on one priority.\<close>

abbreviation rx_frames :: "amp_page \<Rightarrow> u32 \<Rightarrow> mailmsg_message list" where
  "rx_frames pg p \<equiv> ring_frames (shared_ring (pg_mailmsg pg) Cpu3_to_linux p)"

abbreviation tx_frames :: "amp_page \<Rightarrow> u32 \<Rightarrow> mailmsg_message list" where
  "tx_frames pg p \<equiv> ring_frames (shared_ring (pg_mailmsg pg) Linux_to_cpu3 p)"

definition opens_data_plane :: "r1_amp_cpu_on_data \<Rightarrow> mailmsg_message \<Rightarrow> bool" where
  "opens_data_plane d f \<longleftrightarrow> frame_status f = MAILMSG_RING_OK \<and> msg_generation f = session_generation d \<and> 8 \<le> msg_length f \<and>
     (mailmsg_state d = R1_AMP_MAILMSG_STARTING \<and> msg_type f = MAILMSG_MSG_SESSION_READY \<and>
        mailmsg_payload_u32 (msg_payload f) 0 = session_generation d \<and>
        mailmsg_payload_u32 (msg_payload f) 4 = MAILMSG_PROTOCOL_VERSION \<or>
      mailmsg_state d = R1_AMP_MAILMSG_STOPPING \<and> msg_type f = MAILMSG_MSG_STOP_REFUSED \<and>
        mailmsg_payload_u32 (msg_payload f) 0 = stop_request_sequence d)"

lemma set_timeout_not_active:
  "lifecycle_pending (mailmsg_state d) \<Longrightarrow> mailmsg_state (r1_amp_mailmsg_set_timeout_locked d) \<noteq> R1_AMP_MAILMSG_ACTIVE"
  by (auto simp: set_timeout_state lifecycle_pending_def)

lemma control_work_activates:
  assumes "driver_inv wr d pg" and "r1_amp_mailmsg_control_work env m d pg = Some (d', pg')"
    and "mailmsg_state d \<noteq> R1_AMP_MAILMSG_ACTIVE" and "mailmsg_state d' = R1_AMP_MAILMSG_ACTIVE"
  shows "\<exists>f \<in> set (rx_frames pg 0). opens_data_plane d f"
proof -
  let ?d = "d\<lparr>control_work := False\<rparr>" and ?fs = "rx_frames pg 0"
  show ?thesis
  proof (cases rule: control_work_cases [OF assms(1), of env m, case_names idle expired scan])
    case idle
    with assms show ?thesis by auto
  next
    case expired
    with assms set_timeout_not_active [of ?d] show ?thesis by auto
  next
    case (scan ep' sh' d1)
    have st: "mailmsg_state d1 = R1_AMP_MAILMSG_ACTIVE" using scan(4) assms(2,4) by auto
    have d1: "d1 = fst (control_scan env 1 ?d ?fs)" using scan(3) by simp
    have gen: "ep_generation (d_endpoint d) = session_generation d"
      using assms(1) lifecycle_pending_may_run [OF scan(1)] by (simp add: driver_inv_def lifecycle_inv_def)
    show ?thesis using control_scan_result [of ?d env 1 ?fs]
    proof (elim disjE exE conjE)
      assume "awaiting ?d (fst (control_scan env 1 ?d ?fs))"
      then have "awaiting ?d d1" using d1 by simp
      from awaiting_inv(2) [OF this] st assms(3) show ?thesis by simp
    next
      fix d2 f k
      assume a: "awaiting ?d d2" "f \<in> set ?fs" "receive_status (ep_generation (d_endpoint ?d)) f = 0"
        "fst (control_scan env 1 ?d ?fs) = fst (control_frame env k d2 f)" "\<not> snd (control_frame env k d2 f)"
      note aw = awaiting_inv(2-4) [OF a(1)]
      have p: "lifecycle_pending (mailmsg_state d2)" using aw(1) scan(1) by simp
      have "mailmsg_state (fst (control_frame env k d2 f)) = R1_AMP_MAILMSG_ACTIVE" using st d1 a(4) by simp
      moreover have "frame_status f = 0" "msg_generation f = session_generation d"
        using receive_ok_frame(1,2) [of "session_generation d" f] a(3) gen by simp_all
      ultimately have "opens_data_plane d f" using control_frame_state [OF a(5) p] set_timeout_not_active [OF p] aw
        by (auto simp: opens_data_plane_def session_ready_matches_def stop_reply_matches_def split: if_split_asm)
      with a(2) show ?thesis by blast
    qed
  qed
qed

text \<open>No other call opens the data plane.\<close>

lemma refresh_not_activates:
  "r1_amp_refresh_affinity_locked env d = Some (r, d') \<Longrightarrow> mailmsg_state d' = R1_AMP_MAILMSG_ACTIVE \<Longrightarrow> mailmsg_state d = R1_AMP_MAILMSG_ACTIVE"
  by (auto simp: r1_amp_refresh_affinity_locked_def r1_amp_mailmsg_mark_offline_locked_def Let_def split: bind_splits if_split_asm)

lemma set_timeout_activates:
  "mailmsg_state (r1_amp_mailmsg_set_timeout_locked d) = R1_AMP_MAILMSG_ACTIVE \<Longrightarrow> mailmsg_state d = R1_AMP_MAILMSG_ACTIVE"
  by (simp add: set_timeout_state split: r1_amp_mailmsg_session_state.split_asm)

lemma work_not_activates:
  "r1_amp_affinity_work env d = Some d' \<Longrightarrow> mailmsg_state d' = R1_AMP_MAILMSG_ACTIVE \<Longrightarrow> mailmsg_state d = R1_AMP_MAILMSG_ACTIVE"
  "r1_amp_mailmsg_lifecycle_timeout_work env d = Some d' \<Longrightarrow> mailmsg_state d' = R1_AMP_MAILMSG_ACTIVE \<Longrightarrow>
   mailmsg_state d = R1_AMP_MAILMSG_ACTIVE"
  by (auto simp: r1_amp_affinity_work_def r1_amp_mailmsg_lifecycle_timeout_work_def Let_def split: if_split_asm bind_splits
      dest!: refresh_not_activates set_timeout_activates)

lemma store_not_activates:
  "start_store env buf n d pg = Some (r, d', pg') \<Longrightarrow> mailmsg_state d' = R1_AMP_MAILMSG_ACTIVE \<Longrightarrow> mailmsg_state d = R1_AMP_MAILMSG_ACTIVE"
  "mailmsg_stop_store env buf n d pg = Some (r, d', pg') \<Longrightarrow> mailmsg_state d' = R1_AMP_MAILMSG_ACTIVE \<Longrightarrow> mailmsg_state d = R1_AMP_MAILMSG_ACTIVE"
  "rearm_store env buf n d = Some (r, d') \<Longrightarrow> mailmsg_state d' = R1_AMP_MAILMSG_ACTIVE \<Longrightarrow> mailmsg_state d = R1_AMP_MAILMSG_ACTIVE"
  "affinity_state_show env d = Some (x, d') \<Longrightarrow> mailmsg_state d' = R1_AMP_MAILMSG_ACTIVE \<Longrightarrow> mailmsg_state d = R1_AMP_MAILMSG_ACTIVE"
  by (auto simp: start_store_def mailmsg_stop_store_def rearm_store_def affinity_state_show_def Let_def split_beta
      split: if_split_asm bind_splits option.splits dest!: refresh_not_activates)

lemma claim_state: "r1_amp_mailmsg_user_claim_reader f d = (ret, f', d') \<Longrightarrow> mailmsg_state d' = mailmsg_state d \<and> uf_channel f' = uf_channel f"
  by (auto simp: r1_amp_mailmsg_user_claim_reader_def upd_user_def split: if_split_asm)

lemma read_pass_state: "user_read_pass nonblock fault m uf d pg = Some (out, d', pg') \<Longrightarrow> mailmsg_state d' = mailmsg_state d"
  by (auto simp: user_read_pass_def Let_def split: bind_splits if_split_asm)

lemma user_ops_state:
  "r1_amp_mailmsg_user_open a c d = (r, uf', d') \<Longrightarrow> mailmsg_state d' = mailmsg_state d"
  "mailmsg_state (snd (r1_amp_mailmsg_user_release uf d)) = mailmsg_state d"
  "r1_amp_mailmsg_user_read n nonblock fault m uf d pg = Some (out, f', d', pg') \<Longrightarrow> mailmsg_state d' = mailmsg_state d"
  "r1_amp_mailmsg_user_read_resume sig nonblock fault m uf d pg = Some (out, d', pg') \<Longrightarrow> mailmsg_state d' = mailmsg_state d"
  "r1_amp_mailmsg_user_write n frame uf d pg = Some (r, d', pg') \<Longrightarrow> mailmsg_state d' = mailmsg_state d"
  "r1_amp_mailmsg_user_poll uf d pg = (k, f', d') \<Longrightarrow> mailmsg_state d' = mailmsg_state d"
proof -
  show "r1_amp_mailmsg_user_open a c d = (r, uf', d') \<Longrightarrow> mailmsg_state d' = mailmsg_state d"
    by (auto simp: r1_amp_mailmsg_user_open_def Let_def split: if_split_asm)
  show "mailmsg_state (snd (r1_amp_mailmsg_user_release uf d)) = mailmsg_state d"
    by (simp add: r1_amp_mailmsg_user_release_def upd_user_def Let_def)
  show "r1_amp_mailmsg_user_read n nonblock fault m uf d pg = Some (out, f', d', pg') \<Longrightarrow> mailmsg_state d' = mailmsg_state d"
    by (auto simp: r1_amp_mailmsg_user_read_def split: if_split_asm bind_splits prod.splits dest!: claim_state read_pass_state)
  show "r1_amp_mailmsg_user_read_resume sig nonblock fault m uf d pg = Some (out, d', pg') \<Longrightarrow> mailmsg_state d' = mailmsg_state d"
    by (auto simp: r1_amp_mailmsg_user_read_resume_def split: if_split_asm dest!: read_pass_state)
  show "r1_amp_mailmsg_user_write n frame uf d pg = Some (r, d', pg') \<Longrightarrow> mailmsg_state d' = mailmsg_state d"
    by (auto simp: r1_amp_mailmsg_user_write_def Let_def split: if_split_asm bind_splits option.splits)
  show "r1_amp_mailmsg_user_poll uf d pg = (k, f', d') \<Longrightarrow> mailmsg_state d' = mailmsg_state d"
    by (auto simp: r1_amp_mailmsg_user_poll_def Let_def split: if_split_asm prod.splits dest!: claim_state)
qed

lemma hook_state:
  assumes "driver_inv (mbox_write env) d pg"
  shows "mailmsg_send_ping env v n b d pg = Some (r, d', pg') \<Longrightarrow> mailmsg_state d' = mailmsg_state d"
    "mailmsg_queue_push_store v n d pg = Some (r, d', pg') \<Longrightarrow> mailmsg_state d' = mailmsg_state d"
    "mailmsg_response_show m d pg = Some (x, d', pg') \<Longrightarrow> mailmsg_state d' = mailmsg_state d"
    "image_write off buf d pg = Some (r, d', pg') \<Longrightarrow> mailmsg_state d' = mailmsg_state d"
proof -
  show "mailmsg_send_ping env v n b d pg = Some (r, d', pg') \<Longrightarrow> mailmsg_state d' = mailmsg_state d"
    by (rule send_ping_inv [OF assms, of v n b]) simp
  show "mailmsg_queue_push_store v n d pg = Some (r, d', pg') \<Longrightarrow> mailmsg_state d' = mailmsg_state d"
    by (rule queue_push_inv [OF assms, of v n]) simp
  show "mailmsg_response_show m d pg = Some (x, d', pg') \<Longrightarrow> mailmsg_state d' = mailmsg_state d"
    by (rule response_show_inv [OF assms, of m]) simp
  show "image_write off buf d pg = Some (r, d', pg') \<Longrightarrow> mailmsg_state d' = mailmsg_state d"
    by (auto simp: image_write_def Let_def split: if_split_asm)
qed

lemma call_activates:
  assumes "sys_inv wr s" and "mbox_write env = wr" and "amp_exec env call s = Some s'"
    and "mailmsg_state (sys_data s) \<noteq> R1_AMP_MAILMSG_ACTIVE" and "mailmsg_state (sys_data s') = R1_AMP_MAILMSG_ACTIVE"
  shows "(\<exists>m. call = Control_work m) \<and> (\<exists>f \<in> set (rx_frames (sys_page s) 0). opens_data_plane (sys_data s) f)"
proof -
  have inv: "driver_inv wr (sys_data s) (sys_page s)" using assms(1) by (simp add: sys_inv_def)
  note inv' = inv [folded assms(2)]
  show ?thesis
  proof (cases call)
    case (Control_work m)
    with assms(3) obtain d pg where "r1_amp_mailmsg_control_work env m (sys_data s) (sys_page s) = Some (d, pg)" "s' = with_data s d pg"
      by (auto split: bind_splits)
    with control_work_activates [OF inv this(1)] assms(4,5) Control_work show ?thesis by simp
  next
    case (Ping v n)
    with assms(3-5) ping_state [of env v n "sys_data s" "sys_page s"] show ?thesis by (auto split: prod.splits)
  next
    case (Mailmsg_ping v n)
    with assms(3-5) hook_state(1) [OF inv'] show ?thesis by (auto simp: mailmsg_ping_store_def split: bind_splits)
  next
    case (Mailmsg_crc_inject v n)
    with assms(3-5) hook_state(1) [OF inv'] show ?thesis by (auto simp: mailmsg_crc_inject_store_def split: bind_splits)
  qed (use assms(3-5) inject_inv(2) [OF inv] doorbell_inv(2) [OF inv'] rx_callback_inv(2) [OF inv] user_ops_state hook_state(2-4) [OF inv']
      in \<open>auto split: bind_splits prod.splits if_split_asm dest: store_not_activates work_not_activates\<close>)
qed

end
