(* ===== verification/Cpu3_Firmware.thy ===== *)
theory Cpu3_Firmware
  imports Amp_Mailbox Amp_Page Mailmsg_Drain
begin

text \<open>
  The Zephyr application on CPU3 (\<^verbatim>\<open>firmware/zephyr/app/src/main.c\<close>): the diagnostics
  lines, the B2A doorbell, the replies, the ping-pong service, the worker thread, the A2B
  interrupt handler, CPU_OFF and the main loop.

  The globals of the program, the mailbox registers and the carveout are one record.
  Compile-time switches, the results of \<open>pm_cpu_off\<close> and of the GIC read, the exception
  level and the contents of uninitialised stack variables are the configuration.  A result
  \<open>None\<close> is an access outside an array.  \<open>c_halted\<close> says that the core has left
  \<open>mailmsg_cpu_off_after_ready\<close> for good, either powered off or in its final \<open>wfe\<close> loop.
\<close>

subsection \<open>State and configuration\<close>

record cpu3_config =
  cfg_mbox_write :: mmio_write
  cfg_current_el :: u64
  cfg_gicd_irouter :: u32
  cfg_enable_stop_control :: bool
  cfg_self_off_value :: "u32 option"
  cfg_skip_session_ready :: bool
  cfg_skip_priority :: u32
  cfg_pm_cpu_off :: "int option"
  cfg_stack_result :: mailmsg_send_result
  cfg_stack_message :: mailmsg_message

record cpu3_state =
  c_regs :: mbox_regs
  c_page :: amp_page
  mailmsg_pending_priorities :: u32
  mailmsg_irq_count :: u32
  mailmsg_work_sem :: nat
  mailmsg_rx_error_count :: u32
  mailmsg_endpoint_ready :: bool
  mailmsg_session_ready_committed :: bool
  mailmsg_session_ready_published :: bool
  cpu3_endpoint :: "mbox_regs mailmsg_endpoint"
  mailmsg_tx_full_commit :: u32
  mailmsg_tx_full_count :: u32
  mailmsg_worker_commit :: u32
  mailmsg_worker_wake_count :: u32
  mailmsg_worker_drain_count :: u32
  mailmsg_worker_message_count :: u32
  mailmsg_worker_empty_wake_count :: u32
  c_irq_enabled :: bool
  c_last_sequence :: u64
  c_heartbeat :: u64
  c_spin :: u32
  c_halted :: bool

abbreviation (input) AMP_MBOX_RAW_TEST_CMD :: u32 where "AMP_MBOX_RAW_TEST_CMD \<equiv> 0xa2b00000"
abbreviation (input) AMP_MBOX_PROTOCOL_CMD :: u32 where "AMP_MBOX_PROTOCOL_CMD \<equiv> 0xa2b10000"
abbreviation (input) AMP_MBOX_PROTOCOL_ACK :: u32 where "AMP_MBOX_PROTOCOL_ACK \<equiv> 0xb2a10000"
abbreviation (input) B2A_ACK_COMMAND :: u32 where "B2A_ACK_COMMAND \<equiv> 0xb2a00001"
abbreviation (input) MARK_A2B_INTEN_ENABLE :: u32 where "MARK_A2B_INTEN_ENABLE \<equiv> 0x41324245"
abbreviation (input) MARK_B2A_TX :: u32 where "MARK_B2A_TX \<equiv> 0x42324154"
abbreviation (input) MARK_GIC_ROUTES :: u32 where "MARK_GIC_ROUTES \<equiv> 0x52544553"
abbreviation (input) MARK_A2B_CLEAR_PROBE :: u32 where "MARK_A2B_CLEAR_PROBE \<equiv> 0x41434b43"
abbreviation (input) MARK_MAILMSG_BAD_CRC :: u32 where "MARK_MAILMSG_BAD_CRC \<equiv> 0x43524345"
abbreviation (input) MARK_MAILMSG_INVALID :: u32 where "MARK_MAILMSG_INVALID \<equiv> 0x494e564c"
abbreviation (input) MARK_EL_HIGHEST :: u64 where "MARK_EL_HIGHEST \<equiv> 0x454c4849"
abbreviation (input) MARK_EL2_INIT :: u64 where "MARK_EL2_INIT \<equiv> 0x454c3249"
abbreviation (input) MARK_EL1_INIT :: u64 where "MARK_EL1_INIT \<equiv> 0x454c3149"
abbreviation (input) MARK_MAIN :: u64 where "MARK_MAIN \<equiv> 0x414d5031"
abbreviation (input) MARK_HEARTBEAT :: u64 where "MARK_HEARTBEAT \<equiv> 0x48420000"
abbreviation (input) MARK_CPU_STOPPING :: u64 where "MARK_CPU_STOPPING \<equiv> 0x53544f50"
abbreviation (input) MARK_CPU_STOP_FAILED :: u64 where "MARK_CPU_STOP_FAILED \<equiv> 0x53544641"
abbreviation (input) AMP_CMD_PING :: u32 where "AMP_CMD_PING \<equiv> 1"
abbreviation (input) AMP_STATUS_OK :: int where "AMP_STATUS_OK \<equiv> 0"
abbreviation (input) AMP_STATUS_BAD_CMD :: int where "AMP_STATUS_BAD_CMD \<equiv> - 1"

text \<open>\<open>MAILMSG_RING_SLOTS - 1\<close>.\<close>

abbreviation (input) MAILMSG_WORKER_DRAIN_QUOTA :: nat where "MAILMSG_WORKER_DRAIN_QUOTA \<equiv> 7"

definition set_observation :: "u32 \<Rightarrow> u32 \<Rightarrow> u32 \<Rightarrow> u32 \<Rightarrow> cpu3_state \<Rightarrow> cpu3_state" where
  "set_observation status command dat magic w =
     w\<lparr>c_page := (c_page w)\<lparr>pg_mbox_obs :=
        \<lparr>ob_magic = magic, ob_a2b_status = status, ob_command = command, ob_data = dat\<rparr>\<rparr>\<rparr>"

subsection \<open>Diagnostics lines\<close>

definition mailmsg_publish_worker_observation :: "u32 \<Rightarrow> u32 \<Rightarrow> cpu3_state \<Rightarrow> cpu3_state" where
  "mailmsg_publish_worker_observation last_pending last_priority w =
     (let commit = mailmsg_worker_commit w + 1;
          commit = (if commit = 0 then commit + 1 else commit);
          w = w\<lparr>mailmsg_worker_commit := commit\<rparr>
      in w\<lparr>c_page := (c_page w)\<lparr>pg_worker_obs :=
           \<lparr>wo_magic = MAILMSG_WORKER_OBSERVATION_MAGIC, wo_commit = commit, wo_commit_inv = NOT commit,
            wo_irq_count = mailmsg_irq_count w, wo_wake_count = mailmsg_worker_wake_count w,
            wo_drain_count = mailmsg_worker_drain_count w, wo_message_count = mailmsg_worker_message_count w,
            wo_empty_wake_count = mailmsg_worker_empty_wake_count w, wo_last_pending = last_pending,
            wo_pending_now = mailmsg_pending_priorities w, wo_last_priority = last_priority\<rparr>\<rparr>\<rparr>)"

definition mailmsg_publish_tx_full_observation :: "u32 \<Rightarrow> u32 \<Rightarrow> int \<Rightarrow> cpu3_state \<Rightarrow> cpu3_state" where
  "mailmsg_publish_tx_full_observation priority ty result w =
     (let commit = mailmsg_tx_full_commit w + 1;
          commit = (if commit = 0 then commit + 1 else commit);
          w = w\<lparr>mailmsg_tx_full_commit := commit\<rparr>
      in w\<lparr>c_page := (c_page w)\<lparr>pg_tx_full_obs :=
           \<lparr>tf_magic = MAILMSG_TX_FULL_OBSERVATION_MAGIC, tf_commit = commit, tf_commit_inv = NOT commit,
            tf_full_count = mailmsg_tx_full_count w, tf_last_priority = priority, tf_last_type = ty,
            tf_last_result = result\<rparr>\<rparr>\<rparr>)"

definition mailmsg_reset_tx_full_observation :: "cpu3_state \<Rightarrow> cpu3_state" where
  "mailmsg_reset_tx_full_observation w =
     mailmsg_publish_tx_full_observation MAILMSG_PRIORITY_COUNT MAILMSG_MSG_NOP MAILMSG_RING_OK
       (w\<lparr>mailmsg_tx_full_count := 0, mailmsg_tx_full_commit := 0\<rparr>)"

definition mailmsg_record_tx_full :: "u32 \<Rightarrow> u32 \<Rightarrow> mailmsg_send_result \<Rightarrow> cpu3_state \<Rightarrow> cpu3_state" where
  "mailmsg_record_tx_full priority ty result w =
     (if queue_result result \<noteq> MAILMSG_RING_FULL then w
      else mailmsg_publish_tx_full_observation priority ty (queue_result result)
             (w\<lparr>mailmsg_tx_full_count := mailmsg_tx_full_count w + 1\<rparr>))"

subsection \<open>Sending\<close>

definition mailmsg_cpu3_notify :: "mmio_write \<Rightarrow> mbox_regs \<Rightarrow> u32 \<Rightarrow> int \<times> mbox_regs" where
  "mailmsg_cpu3_notify wr regs priority =
     (if regs B2A_STATUS AND BIT priority \<noteq> 0 then (MAILMSG_NOTIFY_COALESCED, regs)
      else
        let regs = wr regs (B2A_CMD priority) (AMP_MBOX_PROTOCOL_ACK OR priority);
            regs = wr regs (B2A_DAT priority) priority
        in (MAILMSG_NOTIFY_SENT, regs))"

definition mailmsg_cpu3_notify_endpoint :: "mmio_write \<Rightarrow> mbox_regs mailmsg_notify_endpoint" where
  "mailmsg_cpu3_notify_endpoint wr =
     \<lparr>ne_ops = Some \<lparr>nops_notify = Some (mailmsg_cpu3_notify wr), nops_enable_rx = None\<rparr>\<rparr>"

text \<open>\<open>mailmsg_endpoint_send(&cpu3_endpoint, ...)\<close> on the globals, with an uninitialised result.\<close>

definition cpu3_send ::
  "cpu3_config \<Rightarrow> u32 \<Rightarrow> u32 \<Rightarrow> u8 list \<Rightarrow> u32 \<Rightarrow> cpu3_state \<Rightarrow> (int \<times> mailmsg_send_result \<times> cpu3_state) option" where
  "cpu3_send cfg priority ty payload len w = do {
     (ret, ep, sh, regs, result) \<leftarrow>
       mailmsg_endpoint_send (cpu3_endpoint w) (pg_mailmsg (c_page w)) (c_regs w) priority ty (Some payload) len
         (cfg_stack_result cfg);
     Some (ret, result, w\<lparr>cpu3_endpoint := ep, c_page := (c_page w)\<lparr>pg_mailmsg := sh\<rparr>, c_regs := regs\<rparr>) }"

definition feedback_payload :: "u32 \<Rightarrow> u32 \<Rightarrow> u8 list" where
  "feedback_payload peer_sequence status =
     mailmsg_store_payload_u32
       (mailmsg_store_payload_u32 (replicate 8 0) MAILMSG_FEEDBACK_SEQUENCE_OFFSET peer_sequence)
       MAILMSG_FEEDBACK_STATUS_OFFSET status"

definition mailmsg_send_feedback ::
  "cpu3_config \<Rightarrow> u32 \<Rightarrow> u32 \<Rightarrow> u32 \<Rightarrow> u32 \<Rightarrow> cpu3_state \<Rightarrow> (bool \<times> cpu3_state) option" where
  "mailmsg_send_feedback cfg priority ty peer_sequence status w = do {
     (ret, result, w) \<leftarrow> cpu3_send cfg priority ty (feedback_payload peer_sequence status) MAILMSG_FEEDBACK_BYTES w;
     Some (ret = MAILMSG_ENDPOINT_OK, if ret \<noteq> 0 then mailmsg_record_tx_full priority ty result w else w) }"

definition mailmsg_send_stop_feedback ::
  "cpu3_config \<Rightarrow> u32 \<Rightarrow> u32 \<Rightarrow> u32 \<Rightarrow> cpu3_state \<Rightarrow> (bool \<times> cpu3_state) option" where
  "mailmsg_send_stop_feedback cfg ty peer_sequence status w = do {
     (ret, result, w) \<leftarrow> cpu3_send cfg MAILMSG_PRIO_CRITICAL ty (feedback_payload peer_sequence status)
                          MAILMSG_FEEDBACK_BYTES w;
     if ret \<noteq> 0 then Some (False, mailmsg_record_tx_full MAILMSG_PRIO_CRITICAL ty result w)
     else Some (mailmsg_notify_accepted (notify_result result), w) }"

definition session_payload :: "u32 \<Rightarrow> u8 list" where
  "session_payload generation =
     mailmsg_store_payload_u32
       (mailmsg_store_payload_u32 (replicate 8 0) MAILMSG_SESSION_GENERATION_OFFSET generation)
       MAILMSG_SESSION_VERSION_OFFSET MAILMSG_PROTOCOL_VERSION"

definition mailmsg_service_session_ready :: "cpu3_config \<Rightarrow> cpu3_state \<Rightarrow> cpu3_state option" where
  "mailmsg_service_session_ready cfg w =
     (if \<not> mailmsg_endpoint_ready w \<or> mailmsg_session_ready_published w then Some w
      else if mailmsg_session_ready_committed w then
        let (ret, regs) = mailmsg_cpu3_notify (cfg_mbox_write cfg) (c_regs w) MAILMSG_PRIO_CRITICAL;
            w = w\<lparr>c_regs := regs\<rparr>
        in Some (if mailmsg_notify_accepted ret then w\<lparr>mailmsg_session_ready_published := True\<rparr> else w)
      else do {
        (ret, result, w) \<leftarrow> cpu3_send cfg MAILMSG_PRIO_CRITICAL MAILMSG_MSG_SESSION_READY
                             (session_payload (ep_generation (cpu3_endpoint w))) MAILMSG_SESSION_BYTES w;
        if ret \<noteq> 0 then Some (mailmsg_record_tx_full MAILMSG_PRIO_CRITICAL MAILMSG_MSG_SESSION_READY result w)
        else Some (w\<lparr>mailmsg_session_ready_committed := True,
                     mailmsg_session_ready_published := mailmsg_notify_accepted (notify_result result)\<rparr>) })"

definition mailmsg_send_pong ::
  "cpu3_config \<Rightarrow> u32 \<Rightarrow> mailmsg_message \<Rightarrow> cpu3_state \<Rightarrow> (bool \<times> cpu3_state) option" where
  "mailmsg_send_pong cfg priority request w = do {
     let ty = (if msg_type request = MAILMSG_MSG_PING then MAILMSG_MSG_PONG else MAILMSG_MSG_NOP);
     let payload = mailmsg_store_payload_u32 (replicate 4 0) 0 (mailmsg_payload_u32 (msg_payload request) 0 + 1);
     (ret, result, w) \<leftarrow> cpu3_send cfg priority ty payload 4 w;
     Some (ret = MAILMSG_ENDPOINT_OK, if ret \<noteq> 0 then mailmsg_record_tx_full priority ty result w else w) }"

subsection \<open>Bring-up helpers\<close>

definition mailmsg_enable_a2b_channels :: "cpu3_config \<Rightarrow> cpu3_state \<Rightarrow> cpu3_state" where
  "mailmsg_enable_a2b_channels cfg w =
     (let before = c_regs w A2B_INTEN;
          w = w\<lparr>c_regs := cfg_mbox_write cfg (c_regs w) A2B_INTEN (before OR 0xf)\<rparr>;
          after = c_regs w A2B_INTEN
      in set_observation before after 1 MARK_A2B_INTEN_ENABLE w)"

definition mailmsg_snapshot_gic_routes :: "cpu3_config \<Rightarrow> cpu3_state \<Rightarrow> cpu3_state" where
  "mailmsg_snapshot_gic_routes cfg w = set_observation (cfg_gicd_irouter cfg) 100 0 MARK_GIC_ROUTES w"

definition r1_amp_checkpoint_c :: "cpu3_config \<Rightarrow> u64 \<Rightarrow> cpu3_state \<Rightarrow> cpu3_state" where
  "r1_amp_checkpoint_c cfg mark w =
     w\<lparr>c_page := (c_page w)\<lparr>pg_status_magic := mark, pg_status_current_el := cfg_current_el cfg\<rparr>\<rparr>"

definition z_arm64_el_highest_plat_init :: "cpu3_config \<Rightarrow> cpu3_state \<Rightarrow> cpu3_state" where
  "z_arm64_el_highest_plat_init cfg w = r1_amp_checkpoint_c cfg MARK_EL_HIGHEST w"

definition z_arm64_el2_plat_init :: "cpu3_config \<Rightarrow> cpu3_state \<Rightarrow> cpu3_state" where
  "z_arm64_el2_plat_init cfg w = r1_amp_checkpoint_c cfg MARK_EL2_INIT w"

definition z_arm64_el1_plat_init :: "cpu3_config \<Rightarrow> cpu3_state \<Rightarrow> cpu3_state" where
  "z_arm64_el1_plat_init cfg w = r1_amp_checkpoint_c cfg MARK_EL1_INIT w"

text \<open>
  Powering off: interrupts disabled, the pending A2B bits acknowledged, the terminal mark
  published.  \<open>pm_cpu_off\<close> does not return on success (\<open>None\<close>).
\<close>

definition mailmsg_cpu_off_after_ready :: "cpu3_config \<Rightarrow> cpu3_state \<Rightarrow> cpu3_state" where
  "mailmsg_cpu_off_after_ready cfg w =
     (let w = w\<lparr>c_irq_enabled := False\<rparr>;
          pending = c_regs w A2B_STATUS AND 0xf;
          w = (if pending \<noteq> 0 then w\<lparr>c_regs := cfg_mbox_write cfg (c_regs w) A2B_STATUS pending\<rparr> else w);
          w = r1_amp_checkpoint_c cfg MARK_CPU_STOPPING w;
          w = (case cfg_pm_cpu_off cfg of None \<Rightarrow> w
               | Some ret \<Rightarrow> r1_amp_checkpoint_c cfg (MARK_CPU_STOP_FAILED OR (ucast (word_of_int (- ret) :: u32) AND 0xffff)) w)
      in w\<lparr>c_halted := True\<rparr>)"

subsection \<open>The ping-pong service\<close>

text \<open>
  The \<open>while (handled < MAILMSG_WORKER_DRAIN_QUOTA)\<close> loop of one priority; the first
  argument is the rest of the quota.  Results: state, messages, handled.
\<close>

fun service_priority ::
  "cpu3_config \<Rightarrow> nat \<Rightarrow> u32 \<Rightarrow> mailmsg_message \<Rightarrow> u32 \<Rightarrow> nat \<Rightarrow> cpu3_state \<Rightarrow> (cpu3_state \<times> u32 \<times> nat) option" where
  "service_priority cfg 0 priority request messages handled w = Some (w, messages, handled)"
| "service_priority cfg (Suc n) priority request messages handled w = do {
     (pop_ret, ep, sh, request) \<leftarrow>
       mailmsg_endpoint_receive (cpu3_endpoint w) (pg_mailmsg (c_page w)) priority request;
     let w = w\<lparr>cpu3_endpoint := ep, c_page := (c_page w)\<lparr>pg_mailmsg := sh\<rparr>\<rparr>;
     if pop_ret \<noteq> 0 then
       if pop_ret = MAILMSG_RING_BAD_CRC \<or> pop_ret = MAILMSG_RING_INVALID then do {
         let reason = (if pop_ret = MAILMSG_RING_BAD_CRC then MAILMSG_NACK_BAD_CRC else MAILMSG_NACK_INVALID_FRAME);
         (_, w) \<leftarrow> (if mailmsg_priority_is_reliable priority
                   then mailmsg_send_feedback cfg priority MAILMSG_MSG_NACK (msg_sequence request) reason w
                   else Some (True, w));
         let w = w\<lparr>mailmsg_rx_error_count := mailmsg_rx_error_count w + 1\<rparr>;
         let w = set_observation priority reason (mailmsg_rx_error_count w)
                   (if pop_ret = MAILMSG_RING_BAD_CRC then MARK_MAILMSG_BAD_CRC else MARK_MAILMSG_INVALID) w;
         Some (w, messages + 1, Suc handled) }
       else Some (w, messages, handled)
     else do {
       let messages = messages + 1;
       let handled = Suc handled;
       if priority = MAILMSG_PRIO_CRITICAL \<and> msg_type request = MAILMSG_MSG_STOP_REQUEST then
         if msg_length request \<noteq> 0 then do {
           (_, w) \<leftarrow> mailmsg_send_stop_feedback cfg MAILMSG_MSG_STOP_REFUSED (msg_sequence request)
                      MAILMSG_STOP_REFUSED_INVALID_REQUEST w;
           service_priority cfg n priority request messages handled w }
         else if cfg_enable_stop_control cfg then do {
           (sent, w) \<leftarrow> mailmsg_send_stop_feedback cfg MAILMSG_MSG_STOP_READY (msg_sequence request) 0 w;
           if sent then Some (mailmsg_cpu_off_after_ready cfg w, messages, handled)
           else service_priority cfg n priority request messages handled w }
         else do {
           (_, w) \<leftarrow> mailmsg_send_stop_feedback cfg MAILMSG_MSG_STOP_REFUSED (msg_sequence request)
                      MAILMSG_STOP_REFUSED_BUSY w;
           service_priority cfg n priority request messages handled w }
       else if priority = MAILMSG_PRIO_CRITICAL \<and> msg_type request = MAILMSG_MSG_PING \<and> msg_length request = 4 \<and>
               cfg_self_off_value cfg = Some (mailmsg_payload_u32 (msg_payload request) 0)
       then Some (mailmsg_cpu_off_after_ready cfg w, messages, handled)
       else do {
         (_, w) \<leftarrow> (if mailmsg_priority_is_reliable priority
                   then mailmsg_send_feedback cfg priority MAILMSG_MSG_ACK (msg_sequence request) 0 w
                   else Some (True, w));
         (_, w) \<leftarrow> mailmsg_send_pong cfg priority request w;
         service_priority cfg n priority request messages handled w } } }"

text \<open>The \<open>for\<close> loop over the priorities; it ends early only when the core halts.\<close>

fun service_priorities ::
  "cpu3_config \<Rightarrow> u32 \<Rightarrow> u32 list \<Rightarrow> u32 \<Rightarrow> u32 \<Rightarrow> u32 \<Rightarrow> cpu3_state \<Rightarrow> (cpu3_state \<times> u32 \<times> u32 \<times> u32) option" where
  "service_priorities cfg pending [] messages last_priority reschedule w = Some (w, messages, last_priority, reschedule)"
| "service_priorities cfg pending (p # ps) messages last_priority reschedule w =
     (if pending AND BIT p = 0 \<or> p = cfg_skip_priority cfg
      then service_priorities cfg pending ps messages last_priority reschedule w
      else do {
        (w, messages, handled) \<leftarrow>
          service_priority cfg MAILMSG_WORKER_DRAIN_QUOTA p (cfg_stack_message cfg) messages 0 w;
        if c_halted w then Some (w, messages, p, reschedule)
        else
          let reschedule =
            (if handled = MAILMSG_WORKER_DRAIN_QUOTA \<and>
                mailmsg_endpoint_has_received (cpu3_endpoint w) (pg_mailmsg (c_page w)) p = 1
             then reschedule OR BIT p else reschedule)
          in service_priorities cfg pending ps messages p reschedule w })"

definition mailmsg_pingpong_test_service ::
  "cpu3_config \<Rightarrow> u32 \<Rightarrow> u32 \<Rightarrow> u32 \<Rightarrow> cpu3_state \<Rightarrow> (cpu3_state \<times> u32 \<times> u32 \<times> u32) option" where
  "mailmsg_pingpong_test_service cfg pending_priorities last_priority reschedule w =
     (if \<not> mailmsg_endpoint_ready w then Some (w, 0, last_priority, reschedule)
      else if \<not> cfg_skip_session_ready cfg \<and> \<not> mailmsg_session_ready_published w
      then Some (w, 0, last_priority, reschedule)
      else service_priorities cfg pending_priorities [0, 1, 2, 3] 0 last_priority reschedule w)"

subsection \<open>Worker, interrupt handler, main\<close>

text \<open>\<open>k_sem_give\<close> on a semaphore with limit one.\<close>

definition k_sem_give :: "cpu3_state \<Rightarrow> cpu3_state" where
  "k_sem_give w = w\<lparr>mailmsg_work_sem := (if mailmsg_work_sem w < 1 then mailmsg_work_sem w + 1 else mailmsg_work_sem w)\<rparr>"

text \<open>One pass of the worker's loop; with the semaphore at zero the thread sleeps.\<close>

definition mailmsg_worker :: "cpu3_config \<Rightarrow> cpu3_state \<Rightarrow> cpu3_state option" where
  "mailmsg_worker cfg w =
     (if mailmsg_work_sem w = 0 then Some w
      else
        let w = w\<lparr>mailmsg_work_sem := mailmsg_work_sem w - 1,
                  mailmsg_worker_wake_count := mailmsg_worker_wake_count w + 1\<rparr>;
            pending = mailmsg_pending_priorities w;
            w = w\<lparr>mailmsg_pending_priorities := 0\<rparr> in
        if pending = 0
        then Some (mailmsg_publish_worker_observation 0 MAILMSG_PRIORITY_COUNT
               (w\<lparr>mailmsg_worker_empty_wake_count := mailmsg_worker_empty_wake_count w + 1\<rparr>))
        else do {
          let w = w\<lparr>mailmsg_worker_drain_count := mailmsg_worker_drain_count w + 1\<rparr>;
          (w, messages, last_priority, reschedule) \<leftarrow>
            mailmsg_pingpong_test_service cfg pending MAILMSG_PRIORITY_COUNT 0 w;
          if c_halted w then Some w
          else do {
            let w = w\<lparr>mailmsg_worker_message_count := mailmsg_worker_message_count w + messages\<rparr>;
            let w = (if reschedule \<noteq> 0
                     then k_sem_give (w\<lparr>mailmsg_pending_priorities := mailmsg_pending_priorities w OR reschedule\<rparr>)
                     else w);
            Some (mailmsg_publish_worker_observation pending last_priority w) } })"

text \<open>The busy wait of the test build has no effect on the state.\<close>

definition mailmsg_mailbox_a2b_matrix_isr :: "cpu3_config \<Rightarrow> u32 \<Rightarrow> cpu3_state \<Rightarrow> cpu3_state" where
  "mailmsg_mailbox_a2b_matrix_isr cfg index w =
     (let wr = cfg_mbox_write cfg; controller = index div 4; channel = index mod 4;
          status = c_regs w A2B_STATUS; command = c_regs w (A2B_CMD channel); dat = c_regs w (A2B_DAT channel);
          w = (if command AND 0xfffffff0 \<noteq> AMP_MBOX_PROTOCOL_CMD
               then let w = w\<lparr>c_regs := wr (c_regs w) (B2A_CMD channel) (0xb2a00000 OR index)\<rparr>
                    in w\<lparr>c_regs := wr (c_regs w) (B2A_DAT channel) dat\<rparr>
               else w);
          w = w\<lparr>c_regs := wr (c_regs w) A2B_STATUS (BIT channel)\<rparr>;
          status_after = c_regs w A2B_STATUS;
          w = set_observation status status_after (push_bit 16 controller OR BIT channel) MARK_A2B_CLEAR_PROBE w
      in if command AND 0xfffffff0 = AMP_MBOX_PROTOCOL_CMD \<or> command = (AMP_MBOX_RAW_TEST_CMD OR index)
         then k_sem_give (w\<lparr>mailmsg_pending_priorities := mailmsg_pending_priorities w OR BIT channel,
                            mailmsg_irq_count := mailmsg_irq_count w + 1\<rparr>)
         else w)"

definition mailmsg_send_b2a_ack :: "cpu3_config \<Rightarrow> u32 \<Rightarrow> cpu3_state \<Rightarrow> cpu3_state" where
  "mailmsg_send_b2a_ack cfg sequence w =
     (let wr = cfg_mbox_write cfg;
          w = w\<lparr>c_regs := wr (c_regs w) (B2A_CMD 0) B2A_ACK_COMMAND\<rparr>;
          w = w\<lparr>c_regs := wr (c_regs w) (B2A_DAT 0) sequence\<rparr>
      in set_observation (c_regs w B2A_STATUS) B2A_ACK_COMMAND sequence MARK_B2A_TX w)"

text \<open>\<open>main\<close> up to its loop, from the globals of a fresh image.\<close>

definition cpu3_main_init :: "cpu3_config \<Rightarrow> cpu3_state \<Rightarrow> cpu3_state option" where
  "cpu3_main_init cfg w =
     (let w = r1_amp_checkpoint_c cfg MARK_MAIN (w\<lparr>c_last_sequence := 0, c_heartbeat := 0, c_spin := 0\<rparr>);
          (ret, ep) = mailmsg_endpoint_bind (cpu3_endpoint w) (Some (pg_mailmsg (c_page w))) (Some both_hooks)
                        (Some (mailmsg_cpu3_notify_endpoint (cfg_mbox_write cfg))) (Some MAILMSG_ENDPOINT_CPU3);
          w = w\<lparr>cpu3_endpoint := ep, mailmsg_endpoint_ready := ret = MAILMSG_ENDPOINT_OK\<rparr>;
          w = mailmsg_reset_tx_full_observation w;
          w = mailmsg_publish_worker_observation 0 MAILMSG_PRIORITY_COUNT w;
          w = mailmsg_enable_a2b_channels cfg w;
          w = mailmsg_snapshot_gic_routes cfg w;
          w = w\<lparr>c_irq_enabled := True\<rparr>
      in if mailmsg_endpoint_ready w \<and> \<not> cfg_skip_session_ready cfg
         then mailmsg_service_session_ready cfg w else Some w)"

text \<open>The legacy request of the main loop.\<close>

definition cpu3_serve_request :: "cpu3_config \<Rightarrow> cpu3_state \<Rightarrow> cpu3_state" where
  "cpu3_serve_request cfg w =
     (let sequence = cl_sequence (pg_req_commit (c_page w)); sequence_inv = cl_sequence_inv (pg_req_commit (c_page w)) in
      if sequence \<noteq> 0 \<and> sequence \<noteq> c_last_sequence w \<and> sequence_inv = NOT sequence
      then
        let command = pl_command (pg_req_payload (c_page w)); value = pl_value (pg_req_payload (c_page w));
            w = w\<lparr>c_page := (c_page w)\<lparr>pg_rsp_payload :=
                  \<lparr>pl_command = command, pl_value = value,
                   pl_status = (if command = AMP_CMD_PING then AMP_STATUS_OK else AMP_STATUS_BAD_CMD),
                   pl_result = (if command = AMP_CMD_PING then value + 1 else 0)\<rparr>\<rparr>\<rparr>;
            w = w\<lparr>c_page := (c_page w)\<lparr>pg_rsp_commit := \<lparr>cl_sequence = sequence, cl_sequence_inv = NOT sequence\<rparr>\<rparr>\<rparr>;
            w = mailmsg_send_b2a_ack cfg (ucast sequence) w
        in w\<lparr>c_last_sequence := sequence\<rparr>
      else w)"

definition cpu3_main_pass :: "cpu3_config \<Rightarrow> cpu3_state \<Rightarrow> cpu3_state option" where
  "cpu3_main_pass cfg w = do {
     let w = cpu3_serve_request cfg w;
     w \<leftarrow> (if cfg_skip_session_ready cfg then Some w else mailmsg_service_session_ready cfg w);
     let w = w\<lparr>c_spin := c_spin w + 1\<rparr>;
     Some (if c_spin w = 1000000
           then (r1_amp_checkpoint_c cfg (MARK_HEARTBEAT OR (c_heartbeat w AND 0xffff)) w)
                  \<lparr>c_heartbeat := c_heartbeat w + 1, c_spin := 0\<rparr>
           else w) }"

end
