(* ===== verification/Cpu3_Service.thy ===== *)
theory Cpu3_Service
  imports Cpu3_Firmware
begin

text \<open>
  What the firmware operations do: the B2A doorbell, one reply, the service loop as a
  queue transformer, the interrupt handler and the worker's wake-up, power-off.
\<close>

subsection \<open>The CPU3 doorbell\<close>

lemma cpu3_notify_cases:
  assumes "p < 4"
  obtains (coalesced) "b2a_pending regs p" "mailmsg_cpu3_notify wr regs p = (MAILMSG_NOTIFY_COALESCED, regs)"
  | (sent) "\<not> b2a_pending regs p" "mailmsg_cpu3_notify wr regs p =
      (MAILMSG_NOTIFY_SENT, wr (wr regs (B2A_CMD p) (AMP_MBOX_PROTOCOL_ACK OR p)) (B2A_DAT p) p)"
  using and_BIT_iff [OF assms, of "regs B2A_STATUS"] that
  by (auto simp: mailmsg_cpu3_notify_def b2a_pending_def Let_def)

context mailbox_hw
begin

lemma b2a_pending_doorbell:
  "p < 4 \<Longrightarrow> q < 4 \<Longrightarrow>
   b2a_pending (wr (wr regs (B2A_CMD p) u) (B2A_DAT p) v) q \<longleftrightarrow> b2a_pending regs q \<or> q = p"
  by (simp add: b2a_pending_def b2a_dat_status b2a_cmd_status bit_or_exp)

lemma cpu3_notify_a2b: "p < 4 \<Longrightarrow> snd (mailmsg_cpu3_notify wr regs p) A2B_STATUS = regs A2B_STATUS"
  by (rule cpu3_notify_cases [of p regs wr]) (simp_all add: b2a_a2b)

end

sublocale mailbox_hw \<subseteq> cpu3: doorbell "mailmsg_cpu3_notify wr" b2a_pending "\<lambda>_. True"
proof
  fix c :: mbox_regs and p q :: u32
  assume "p < 4"
  then show "b2a_pending (snd (mailmsg_cpu3_notify wr c p)) p"
    using b2a_pending_doorbell by (cases rule: cpu3_notify_cases [OF \<open>p < 4\<close>, of c wr]) auto
  assume "q < 4" "b2a_pending c q"
  then show "b2a_pending (snd (mailmsg_cpu3_notify wr c p)) q"
    using b2a_pending_doorbell [OF \<open>p < 4\<close>]
    by (cases rule: cpu3_notify_cases [OF \<open>p < 4\<close>, of c wr]) auto
qed auto

lemma cpu3_notify_accepted: "mailmsg_notify_accepted (fst (mailmsg_cpu3_notify wr regs p))"
  by (simp add: mailmsg_cpu3_notify_def mailmsg_notify_accepted_def Let_def)

subsection \<open>One reply\<close>

definition cpu3_backend :: "mmio_write \<Rightarrow> mbox_regs mailmsg_notify_endpoint" where
  "cpu3_backend wr = backend (mailmsg_cpu3_notify wr)"

text \<open>The firmware is bound to the announced session and notifies through the mailbox.\<close>

definition cpu3_ok :: "cpu3_config \<Rightarrow> cpu3_state \<Rightarrow> bool" where
  "cpu3_ok cfg w \<longleftrightarrow> shared_wf (pg_mailmsg (c_page w)) \<and> endpoint_wf (cpu3_endpoint w) \<and>
     endpoint_bound (cpu3_endpoint w) (pg_mailmsg (c_page w)) Cpu3_to_linux Linux_to_cpu3 \<and>
     ep_notify (cpu3_endpoint w) = Some (cpu3_backend (cfg_mbox_write cfg))"

abbreviation fw_in :: "cpu3_state \<Rightarrow> u32 \<Rightarrow> mailmsg_message list" where
  "fw_in w p \<equiv> ring_frames (shared_ring (pg_mailmsg (c_page w)) Linux_to_cpu3 p)"

abbreviation fw_out :: "cpu3_state \<Rightarrow> u32 \<Rightarrow> mailmsg_message list" where
  "fw_out w p \<equiv> ring_frames (shared_ring (pg_mailmsg (c_page w)) Cpu3_to_linux p)"

text \<open>
  An abstract reply queue: the sequence counter and the frames.  A reply takes the next
  number whether it fits or not.
\<close>

definition push_reply ::
  "u32 \<Rightarrow> u32 \<times> u8 list \<times> u32 \<Rightarrow> u32 \<times> mailmsg_message list \<Rightarrow> u32 \<times> mailmsg_message list" where
  "push_reply g r q = (case r of (ty, payload, len) \<Rightarrow>
     (next_seq (fst q), if length (snd q) < 7
       then snd q @ [seal (send_message g ty (next_seq (fst q)) payload len)] else snd q))"

text \<open>What a reply leaves alone: the configuration flags, the counters and the other queues.\<close>

definition same_service :: "u32 \<Rightarrow> cpu3_state \<Rightarrow> cpu3_state \<Rightarrow> bool" where
  "same_service p w w' \<longleftrightarrow> ep_generation (cpu3_endpoint w') = ep_generation (cpu3_endpoint w) \<and>
     mailmsg_pending_priorities w' = mailmsg_pending_priorities w \<and> mailmsg_work_sem w' = mailmsg_work_sem w \<and>
     mailmsg_endpoint_ready w' = mailmsg_endpoint_ready w \<and>
     mailmsg_session_ready_published w' = mailmsg_session_ready_published w \<and>
     mailmsg_session_ready_committed w' = mailmsg_session_ready_committed w \<and>
     c_irq_enabled w' = c_irq_enabled w \<and> c_halted w' = c_halted w \<and>
     (\<forall>q < 4. q \<noteq> p \<longrightarrow> fw_in w' q = fw_in w q \<and> fw_out w' q = fw_out w q)"

lemma same_service_refl: "same_service p w w"
  by (simp add: same_service_def)

lemma same_service_trans: "same_service p w w' \<Longrightarrow> same_service p w' w'' \<Longrightarrow> same_service p w w''"
  by (simp add: same_service_def)

lemma cpu3_send_spec:
  assumes "cpu3_ok cfg w" and "p < 4" and "len \<le> 28" and "unat len \<le> length bs"
  obtains ret result w' where "cpu3_send cfg p ty bs len w = Some (ret, result, w')" "cpu3_ok cfg w'"
    "same_service p w w'" "fw_in w' p = fw_in w p"
    "(ep_next_sequence (cpu3_endpoint w'), fw_out w' p) =
       push_reply (ep_generation (cpu3_endpoint w)) (ty, bs, len) (ep_next_sequence (cpu3_endpoint w), fw_out w p)"
    "ret = (if length (fw_out w p) < 7 then 0 else MAILMSG_RING_FULL)"
    "queue_result result = ret" "res_sequence result = (if ret = 0 then next_seq (ep_next_sequence (cpu3_endpoint w)) else 0)"
    "ret = 0 \<Longrightarrow> mailmsg_notify_accepted (notify_result result)"
    "c_regs w' = (if ret = 0 then snd (mailmsg_cpu3_notify (cfg_mbox_write cfg) (c_regs w) p) else c_regs w)"
proof -
  let ?ep = "cpu3_endpoint w" and ?sh = "pg_mailmsg (c_page w)"
  let ?r = "shared_ring (pg_mailmsg (c_page w)) Cpu3_to_linux p"
  from assms(1) have ok: "shared_wf ?sh" "endpoint_wf ?ep" "endpoint_bound ?ep ?sh Cpu3_to_linux Linux_to_cpu3"
    "ep_notify ?ep = Some (cpu3_backend (cfg_mbox_write cfg))" by (simp_all add: cpu3_ok_def)
  then have ep: "ep_tx ?ep = Some Cpu3_to_linux" "mailmsg_endpoint_session_valid ?ep ?sh = 0"
    by (simp_all add: endpoint_bound_def)
  show thesis
  proof (cases "ring_depth ?r < 7")
    case True
    obtain nr regs where nf: "mailmsg_cpu3_notify (cfg_mbox_write cfg) (c_regs w) p = (nr, regs)" by (metis surj_pair)
    have n: "mailmsg_notify (ep_notify ?ep) (c_regs w) p = (nr, regs)"
      using assms(2) nf by (simp add: ok(4) mailmsg_notify_def cpu3_backend_def backend_def)
    let ?sh' = "set_shared_ring ?sh Cpu3_to_linux p (ring_after_push ?r (sent_message ?ep ty bs len))"
    note s = send_ok [OF ep ok(1,2) assms(2-4) True n, of ty "cfg_stack_result cfg"]
    note fr = send_frame [OF ok(1,2) assms(4) s]
    have sh: "shared_ring ?sh' a q = (if a = Cpu3_to_linux \<and> q = p then ring_after_push ?r (sent_message ?ep ty bs len) else shared_ring ?sh a q)"
      if "q < 4" for a q using that ok(1) assms(2) by (auto simp: shared_ring_set)
    have out: "ring_frames (ring_after_push ?r (sent_message ?ep ty bs len)) = fw_out w p @ [seal (sent_message ?ep ty bs len)]"
      using True ok(1) assms(2) by (simp add: ring_frames_after_push shared_ring_wf)
    have acc: "mailmsg_notify_accepted nr" using cpu3_notify_accepted [of "cfg_mbox_write cfg" "c_regs w" p] nf by simp
    let ?w = "w\<lparr>cpu3_endpoint := upd_stats (sent_stats nr (Suc (ring_depth ?r))) p (?ep\<lparr>ep_next_sequence := next_seq (ep_next_sequence ?ep)\<rparr>),
        c_page := (c_page w)\<lparr>pg_mailmsg := ?sh'\<rparr>, c_regs := regs\<rparr>"
    have r1: "cpu3_send cfg p ty bs len w = Some (0, (cfg_stack_result cfg)\<lparr>queue_result := 0, notify_result := nr, notify_attempted := 1,
          res_sequence := next_seq (ep_next_sequence ?ep)\<rparr>, ?w)"
      by (simp add: cpu3_send_def s)
    have r2: "cpu3_ok cfg ?w" using ok fr(1) by (simp add: cpu3_ok_def)
    have r3: "same_service p w ?w" by (simp add: same_service_def sh)
    have r4: "fw_in ?w p = fw_in w p" using assms(2) by (simp add: sh)
    have r5: "(ep_next_sequence (cpu3_endpoint ?w), fw_out ?w p) =
       push_reply (ep_generation ?ep) (ty, bs, len) (ep_next_sequence ?ep, fw_out w p)"
      using True assms(2) by (simp add: push_reply_def sh [unfolded sent_message_def] out [unfolded sent_message_def] sent_message_def)
    show thesis by (rule that [OF r1 r2 r3 r4 r5]) (use True acc nf in simp_all)
  next
    case False
    then have full: "ring_depth ?r = 7" using ring_depth_lt_or_full by blast
    note s = send_full [OF ep ok(1) assms(2-4) full, of "c_regs w" ty "cfg_stack_result cfg"]
    let ?w = "w\<lparr>cpu3_endpoint := upd_stats (\<lambda>s. s\<lparr>tx_full := tx_full s + 1\<rparr>) p (?ep\<lparr>ep_next_sequence := next_seq (ep_next_sequence ?ep)\<rparr>)\<rparr>"
    have r1: "cpu3_send cfg p ty bs len w = Some (MAILMSG_RING_FULL, (init_result (cfg_stack_result cfg))\<lparr>queue_result := MAILMSG_RING_FULL\<rparr>, ?w)"
      by (simp add: cpu3_send_def s)
    have r2: "cpu3_ok cfg ?w" using ok by (simp add: cpu3_ok_def)
    have r3: "same_service p w ?w" by (simp add: same_service_def)
    have r5: "(ep_next_sequence (cpu3_endpoint ?w), fw_out ?w p) =
       push_reply (ep_generation ?ep) (ty, bs, len) (ep_next_sequence ?ep, fw_out w p)"
      using full by (simp add: push_reply_def)
    show thesis by (rule that [OF r1 r2 r3 _ r5]) (use full in \<open>simp_all add: init_result_def\<close>)
  qed
qed

subsection \<open>Replies of the service\<close>

lemma length_payloads [simp]: "length (feedback_payload s r) = 8" "length (session_payload g) = 8"
  by (simp_all add: feedback_payload_def session_payload_def)

lemma record_tx_full_same:
  "cpu3_ok cfg (mailmsg_record_tx_full p ty r w) = cpu3_ok cfg w"
  "same_service q w (mailmsg_record_tx_full p ty r w)"
  "cpu3_endpoint (mailmsg_record_tx_full p ty r w) = cpu3_endpoint w"
  "c_regs (mailmsg_record_tx_full p ty r w) = c_regs w"
  "pg_mailmsg (c_page (mailmsg_record_tx_full p ty r w)) = pg_mailmsg (c_page w)"
  by (simp_all add: mailmsg_record_tx_full_def mailmsg_publish_tx_full_observation_def cpu3_ok_def same_service_def Let_def)

definition pong_reply :: "mailmsg_message \<Rightarrow> u32 \<times> u8 list \<times> u32" where
  "pong_reply f = (if msg_type f = MAILMSG_MSG_PING then MAILMSG_MSG_PONG else MAILMSG_MSG_NOP,
     mailmsg_store_payload_u32 (replicate 4 0) 0 (mailmsg_payload_u32 (msg_payload f) 0 + 1), 4)"

definition ack_reply :: "mailmsg_message \<Rightarrow> u32 \<times> u8 list \<times> u32" where
  "ack_reply f = (MAILMSG_MSG_ACK, feedback_payload (msg_sequence f) 0, 8)"

text \<open>The replies to one ordinary frame: an ACK on a reliable priority, then PONG or NOP.\<close>

definition replies :: "u32 \<Rightarrow> mailmsg_message \<Rightarrow> (u32 \<times> u8 list \<times> u32) list" where
  "replies p f = (if mailmsg_priority_is_reliable p then [ack_reply f] else []) @ [pong_reply f]"

abbreviation fw_queue :: "cpu3_state \<Rightarrow> u32 \<Rightarrow> u32 \<times> mailmsg_message list" where
  "fw_queue w p \<equiv> (ep_next_sequence (cpu3_endpoint w), fw_out w p)"

lemma feedback_spec:
  assumes "cpu3_ok cfg w" and "p < 4"
  obtains b w' where "mailmsg_send_feedback cfg p ty s r w = Some (b, w')" "cpu3_ok cfg w'" "same_service p w w'"
    "fw_in w' p = fw_in w p"
    "fw_queue w' p = push_reply (ep_generation (cpu3_endpoint w)) (ty, feedback_payload s r, 8) (fw_queue w p)"
proof -
  obtain ret result w1 where r: "cpu3_send cfg p ty (feedback_payload s r) 8 w = Some (ret, result, w1)" "cpu3_ok cfg w1"
    "same_service p w w1" "fw_in w1 p = fw_in w p"
    "fw_queue w1 p = push_reply (ep_generation (cpu3_endpoint w)) (ty, feedback_payload s r, 8) (fw_queue w p)"
    by (rule cpu3_send_spec [OF assms, of 8 "feedback_payload s r" ty]) simp_all
  let ?w = "if ret \<noteq> 0 then mailmsg_record_tx_full p ty result w1 else w1"
  have "mailmsg_send_feedback cfg p ty s r w = Some (ret = 0, ?w)" by (simp add: mailmsg_send_feedback_def r(1))
  moreover have "same_service p w ?w" using r(3) by (auto intro: same_service_trans record_tx_full_same)
  ultimately show thesis using r by (intro that [of "ret = 0" ?w]) (simp_all add: record_tx_full_same)
qed

lemma pong_spec:
  assumes "cpu3_ok cfg w" and "p < 4"
  obtains b w' where "mailmsg_send_pong cfg p f w = Some (b, w')" "cpu3_ok cfg w'" "same_service p w w'"
    "fw_in w' p = fw_in w p"
    "fw_queue w' p = push_reply (ep_generation (cpu3_endpoint w)) (pong_reply f) (fw_queue w p)"
proof -
  let ?ty = "if msg_type f = MAILMSG_MSG_PING then MAILMSG_MSG_PONG else MAILMSG_MSG_NOP"
  let ?bs = "mailmsg_store_payload_u32 (replicate 4 0) 0 (mailmsg_payload_u32 (msg_payload f) 0 + 1)"
  obtain ret result w1 where r: "cpu3_send cfg p ?ty ?bs 4 w = Some (ret, result, w1)" "cpu3_ok cfg w1"
    "same_service p w w1" "fw_in w1 p = fw_in w p"
    "fw_queue w1 p = push_reply (ep_generation (cpu3_endpoint w)) (?ty, ?bs, 4) (fw_queue w p)"
    by (rule cpu3_send_spec [OF assms, of 4 ?bs ?ty]) simp_all
  let ?w = "if ret \<noteq> 0 then mailmsg_record_tx_full p ?ty result w1 else w1"
  have "mailmsg_send_pong cfg p f w = Some (ret = 0, ?w)" by (simp add: mailmsg_send_pong_def r(1))
  moreover have "same_service p w ?w" using r(3) by (auto intro: same_service_trans record_tx_full_same)
  ultimately show thesis using r by (intro that [of "ret = 0" ?w]) (simp_all add: record_tx_full_same pong_reply_def)
qed

subsection \<open>The service loop\<close>

text \<open>A frame that neither stops nor powers off the core.\<close>

definition ordinary :: "cpu3_config \<Rightarrow> u32 \<Rightarrow> mailmsg_message \<Rightarrow> bool" where
  "ordinary cfg p f \<longleftrightarrow> \<not> (p = MAILMSG_PRIO_CRITICAL \<and> msg_type f = MAILMSG_MSG_STOP_REQUEST) \<and>
     \<not> (p = MAILMSG_PRIO_CRITICAL \<and> msg_type f = MAILMSG_MSG_PING \<and> msg_length f = 4 \<and>
        cfg_self_off_value cfg = Some (mailmsg_payload_u32 (msg_payload f) 0))"

text \<open>A receive on the firmware endpoint takes the head off the input queue.\<close>

lemma fw_receive_cases:
  assumes "cpu3_ok cfg w" and "p < 4"
  obtains (empty) "fw_in w p = []"
      "mailmsg_endpoint_receive (cpu3_endpoint w) (pg_mailmsg (c_page w)) p m =
        Some (MAILMSG_RING_EMPTY, cpu3_endpoint w, pg_mailmsg (c_page w), m)"
  | (incomplete) f fs ep where "fw_in w p = f # fs" "frame_status f = MAILMSG_RING_INCOMPLETE"
      "mailmsg_endpoint_receive (cpu3_endpoint w) (pg_mailmsg (c_page w)) p m =
        Some (MAILMSG_RING_INCOMPLETE, ep, pg_mailmsg (c_page w), m)"
      "cpu3_ok cfg (w\<lparr>cpu3_endpoint := ep\<rparr>)" "same_service p w (w\<lparr>cpu3_endpoint := ep\<rparr>)"
  | (frame) f fs ep sh w' where "fw_in w p = f # fs" "frame_status f \<noteq> MAILMSG_RING_INCOMPLETE"
      "mailmsg_endpoint_receive (cpu3_endpoint w) (pg_mailmsg (c_page w)) p m =
        Some (receive_status (ep_generation (cpu3_endpoint w)) f, ep, sh, f)"
      "w' = w\<lparr>cpu3_endpoint := ep, c_page := (c_page w)\<lparr>pg_mailmsg := sh\<rparr>\<rparr>"
      "cpu3_ok cfg w'" "same_service p w w'" "fw_in w' p = fs" "fw_queue w' p = fw_queue w p" "c_regs w' = c_regs w"
proof -
  from assms(1) have ok: "shared_wf (pg_mailmsg (c_page w))" "endpoint_wf (cpu3_endpoint w)"
    "endpoint_bound (cpu3_endpoint w) (pg_mailmsg (c_page w)) Cpu3_to_linux Linux_to_cpu3"
    "ep_notify (cpu3_endpoint w) = Some (cpu3_backend (cfg_mbox_write cfg))" by (simp_all add: cpu3_ok_def)
  show thesis
  proof (cases rule: bound_receive_cases [OF ok(3,1,2) assms(2), of m, case_names empty incomplete frame])
    case empty
    then show thesis by (rule that(1))
  next
    case (incomplete f fs ep)
    note ses = same_session_bound [OF drained_session [OF incomplete(4)]]
    show thesis
      by (rule that(2) [OF incomplete(1-3)])
         (use incomplete(4) ok ses in \<open>simp_all add: cpu3_ok_def drained_def same_session_def same_service_def\<close>)
  next
    case (frame f fs ep sh)
    note ses = same_session_bound [OF drained_session [OF frame(4)]]
    let ?w = "w\<lparr>cpu3_endpoint := ep, c_page := (c_page w)\<lparr>pg_mailmsg := sh\<rparr>\<rparr>"
    have d: "shared_ring sh a q = shared_ring (pg_mailmsg (c_page w)) a q" if "q < 4" "a \<noteq> Linux_to_cpu3 \<or> q \<noteq> p" for a q
      using frame(4) that by (simp add: drained_def)
    have "cpu3_ok cfg ?w" "same_service p w ?w"
      using frame(4) ok ses d by (simp_all add: cpu3_ok_def drained_def same_session_def same_service_def)
    then show thesis
      by (rule that(3) [OF frame(1-3) refl])
         (use frame(4,5) d [OF assms(2), of Cpu3_to_linux] in \<open>simp_all add: drained_def\<close>)
  qed
qed

lemma service_ordinary_step:
  assumes "cpu3_ok cfg w" and "p < 4" and "ordinary cfg p f"
  obtains w' where
    "(do { (_, w) \<leftarrow> (if mailmsg_priority_is_reliable p
                   then mailmsg_send_feedback cfg p MAILMSG_MSG_ACK (msg_sequence f) 0 w else Some (True, w));
           (_, w) \<leftarrow> mailmsg_send_pong cfg p f w; k w }) = k w'"
    "cpu3_ok cfg w'" "same_service p w w'" "fw_in w' p = fw_in w p"
    "fw_queue w' p = fold (push_reply (ep_generation (cpu3_endpoint w))) (replies p f) (fw_queue w p)"
proof (cases "mailmsg_priority_is_reliable p")
  case True
  obtain b1 w1 where 1: "mailmsg_send_feedback cfg p MAILMSG_MSG_ACK (msg_sequence f) 0 w = Some (b1, w1)" "cpu3_ok cfg w1"
    "same_service p w w1" "fw_in w1 p = fw_in w p"
    "fw_queue w1 p = push_reply (ep_generation (cpu3_endpoint w)) (ack_reply f) (fw_queue w p)"
    unfolding ack_reply_def by (rule feedback_spec [OF assms(1,2)])
  obtain b2 w2 where 2: "mailmsg_send_pong cfg p f w1 = Some (b2, w2)" "cpu3_ok cfg w2"
    "same_service p w1 w2" "fw_in w2 p = fw_in w1 p"
    "fw_queue w2 p = push_reply (ep_generation (cpu3_endpoint w1)) (pong_reply f) (fw_queue w1 p)"
    by (rule pong_spec [OF 1(2) assms(2)])
  have gen: "ep_generation (cpu3_endpoint w1) = ep_generation (cpu3_endpoint w)" using 1(3) by (simp add: same_service_def)
  show thesis
    by (rule that [of w2]) (use True 1 2 gen in \<open>simp_all add: replies_def same_service_trans [OF 1(3) 2(3)]\<close>)
next
  case False
  obtain b2 w2 where 2: "mailmsg_send_pong cfg p f w = Some (b2, w2)" "cpu3_ok cfg w2"
    "same_service p w w2" "fw_in w2 p = fw_in w p"
    "fw_queue w2 p = push_reply (ep_generation (cpu3_endpoint w)) (pong_reply f) (fw_queue w p)"
    by (rule pong_spec [OF assms(1,2)])
  show thesis by (rule that [of w2]) (use False 2 in \<open>simp_all add: replies_def\<close>)
qed

lemma service_priority_ordinary:
  assumes "cpu3_ok cfg w" and "p < 4" and "length (fw_in w p) \<le> n"
    and "\<forall>f \<in> set (fw_in w p). receive_status (ep_generation (cpu3_endpoint w)) f = 0 \<and> ordinary cfg p f"
  shows "\<exists>w'. service_priority cfg n p m msgs h w =
      Some (w', msgs + word_of_nat (length (fw_in w p)), h + length (fw_in w p)) \<and>
    cpu3_ok cfg w' \<and> same_service p w w' \<and> fw_in w' p = [] \<and>
    fw_queue w' p = fold (push_reply (ep_generation (cpu3_endpoint w))) (concat (map (replies p) (fw_in w p))) (fw_queue w p)"
  using assms
proof (induction "fw_in w p" arbitrary: n m msgs h w)
  case Nil
  show ?case
  proof (cases n)
    case 0
    with Nil show ?thesis by (intro exI [of _ w]) (simp add: same_service_refl del: length_ring_frames)
  next
    case (Suc n')
    have "service_priority cfg n p m msgs h w = Some (w, msgs, h)"
      by (cases rule: fw_receive_cases [OF Nil(2,3), of m]) (use Nil(1) Suc in auto)
    with Nil(1) [symmetric] Nil(2) show ?thesis by (intro exI [of _ w]) (simp add: same_service_refl del: length_ring_frames)
  qed
next
  case (Cons f fs)
  note fs = Cons(2) [symmetric]
  obtain n' where n: "n = Suc n'" "length fs \<le> n'" using Cons(5) fs by (cases n) (auto simp del: length_ring_frames)
  have f: "receive_status (ep_generation (cpu3_endpoint w)) f = 0" "ordinary cfg p f" using Cons(6) fs by auto
  show ?case
  proof (cases rule: fw_receive_cases [OF Cons(3,4), of m, case_names empty incomplete frame])
    case (incomplete f' fs' ep)
    with f fs show ?thesis by (auto simp: receive_status_def)
  next
    case (frame f' fs' ep sh w1)
    have eq: "f' = f" "fs' = fs" using frame(1) fs by auto
    note frame = frame [unfolded eq]
    obtain w2 where s: "(do { (_, w) \<leftarrow> (if mailmsg_priority_is_reliable p
                   then mailmsg_send_feedback cfg p MAILMSG_MSG_ACK (msg_sequence f) 0 w1 else Some (True, w1));
           (_, w) \<leftarrow> mailmsg_send_pong cfg p f w; service_priority cfg n' p f (msgs + 1) (Suc h) w }) =
        service_priority cfg n' p f (msgs + 1) (Suc h) w2"
      "cpu3_ok cfg w2" "same_service p w1 w2" "fw_in w2 p = fw_in w1 p"
      "fw_queue w2 p = fold (push_reply (ep_generation (cpu3_endpoint w1))) (replies p f) (fw_queue w1 p)"
      by (rule service_ordinary_step [OF frame(5) Cons(4) f(2)])
    have "service_priority cfg n p m msgs h w = service_priority cfg n' p f (msgs + 1) (Suc h) w2"
      unfolding s(1) [symmetric] using frame(3,4) f n(1) by (auto simp: ordinary_def)
    moreover have gen: "ep_generation (cpu3_endpoint w2) = ep_generation (cpu3_endpoint w)"
      "ep_generation (cpu3_endpoint w1) = ep_generation (cpu3_endpoint w)"
      using frame(6) s(3) by (simp_all add: same_service_def)
    have in2: "fs = fw_in w2 p" using s(4) frame(7) by simp
    have "\<exists>w'. service_priority cfg n' p f (msgs + 1) (Suc h) w2 =
        Some (w', msgs + 1 + word_of_nat (length fs), Suc h + length fs) \<and>
      cpu3_ok cfg w' \<and> same_service p w2 w' \<and> fw_in w' p = [] \<and>
      fw_queue w' p = fold (push_reply (ep_generation (cpu3_endpoint w))) (concat (map (replies p) fs)) (fw_queue w2 p)"
      using Cons(1) [OF in2 s(2) Cons(4), of n' f "msgs + 1" "Suc h"] n(2) Cons(6) gen in2 [symmetric] fs
      by (simp del: length_ring_frames)
    ultimately show ?thesis
      using same_service_trans [OF same_service_trans [OF frame(6) s(3)]] s(5) frame(8) gen fs
      by (auto simp del: length_ring_frames simp add: add.assoc)
  qed (use fs in simp)
qed

text \<open>A corrupt or invalid frame at the head ends the loop: what lies behind it stays queued.\<close>

lemma service_priority_bad:
  assumes "cpu3_ok cfg w" and "p < 4" and "fw_in w p = f # fs"
    and "receive_status (ep_generation (cpu3_endpoint w)) f \<in> {MAILMSG_RING_BAD_CRC, MAILMSG_RING_INVALID}"
  shows "\<exists>w'. service_priority cfg (Suc n) p m msgs h w = Some (w', msgs + 1, Suc h) \<and>
    cpu3_ok cfg w' \<and> same_service p w w' \<and> fw_in w' p = fs \<and>
    fw_queue w' p = (if mailmsg_priority_is_reliable p
      then push_reply (ep_generation (cpu3_endpoint w))
        (MAILMSG_MSG_NACK, feedback_payload (msg_sequence f)
           (if receive_status (ep_generation (cpu3_endpoint w)) f = MAILMSG_RING_BAD_CRC then MAILMSG_NACK_BAD_CRC
            else MAILMSG_NACK_INVALID_FRAME), 8) (fw_queue w p)
      else fw_queue w p)"
proof (cases rule: fw_receive_cases [OF assms(1,2), of m, case_names empty incomplete frame])
  case (incomplete f' fs' ep)
  with assms(3,4) show ?thesis by (auto simp: receive_status_def)
next
  case (frame f' fs' ep sh w1)
  have eq: "f' = f" "fs' = fs" using frame(1) assms(3) by auto
  note frame = frame [unfolded eq]
  let ?r = "receive_status (ep_generation (cpu3_endpoint w)) f"
  let ?reason = "if ?r = MAILMSG_RING_BAD_CRC then MAILMSG_NACK_BAD_CRC else MAILMSG_NACK_INVALID_FRAME"
  let ?mark = "if ?r = MAILMSG_RING_BAD_CRC then MARK_MAILMSG_BAD_CRC else MARK_MAILMSG_INVALID"
  let ?fin = "\<lambda>w. set_observation p ?reason (mailmsg_rx_error_count w + 1) ?mark (w\<lparr>mailmsg_rx_error_count := mailmsg_rx_error_count w + 1\<rparr>)"
  have end_ok: "cpu3_ok cfg (?fin x) = cpu3_ok cfg x" "same_service p x (?fin x)" "fw_in (?fin x) p = fw_in x p"
    "fw_queue (?fin x) p = fw_queue x p" for x
    by (simp_all add: set_observation_def cpu3_ok_def same_service_def)
  have gen: "ep_generation (cpu3_endpoint w1) = ep_generation (cpu3_endpoint w)" using frame(6) by (simp add: same_service_def)
  obtain b w2 where 2: "mailmsg_send_feedback cfg p MAILMSG_MSG_NACK (msg_sequence f) ?reason w1 = Some (b, w2)" "cpu3_ok cfg w2"
    "same_service p w1 w2" "fw_in w2 p = fw_in w1 p"
    "fw_queue w2 p = push_reply (ep_generation (cpu3_endpoint w1)) (MAILMSG_MSG_NACK, feedback_payload (msg_sequence f) ?reason, 8) (fw_queue w1 p)"
    by (rule feedback_spec [OF frame(5) assms(2)])
  let ?w = "if mailmsg_priority_is_reliable p then w2 else w1"
  have "service_priority cfg (Suc n) p m msgs h w = Some (?fin ?w, msgs + 1, Suc h)"
    using frame(3,4) assms(4) 2(1) by (auto simp: Let_def)
  moreover have "same_service p w ?w" using frame(6) same_service_trans [OF frame(6) 2(3)] by simp
  ultimately show ?thesis
    using 2(2,4,5) frame(5,7,8) gen same_service_trans [OF _ end_ok(2)] unfolding end_ok(3,4)
    by (intro exI [of _ "?fin ?w"]) (simp add: end_ok)
qed (use assms(3) in simp)

subsection \<open>Session announcement\<close>

text \<open>The SESSION_READY frame of a freshly bound endpoint.\<close>

definition ready_frame :: "u32 \<Rightarrow> mailmsg_message" where
  "ready_frame g = seal (send_message g MAILMSG_MSG_SESSION_READY 1 (session_payload g) MAILMSG_SESSION_BYTES)"

lemma next_seq_0 [simp]: "next_seq 0 = 1"
  by (simp add: next_seq_def)

lemma session_ready_spec:
  assumes "cpu3_ok cfg w" and "mailmsg_endpoint_ready w" and "\<not> mailmsg_session_ready_committed w"
    and "\<not> mailmsg_session_ready_published w" and "fw_out w 0 = []" and "ep_next_sequence (cpu3_endpoint w) = 0"
  obtains w' where "mailmsg_service_session_ready cfg w = Some w'" "cpu3_ok cfg w'"
    "mailmsg_session_ready_committed w'" "mailmsg_session_ready_published w'"
    "fw_out w' 0 = [ready_frame (ep_generation (cpu3_endpoint w))]" "fw_in w' 0 = fw_in w 0"
    "\<And>q. q < 4 \<Longrightarrow> q \<noteq> 0 \<Longrightarrow> fw_in w' q = fw_in w q \<and> fw_out w' q = fw_out w q"
    "c_regs w' = snd (mailmsg_cpu3_notify (cfg_mbox_write cfg) (c_regs w) 0)"
    "ep_generation (cpu3_endpoint w') = ep_generation (cpu3_endpoint w)" "c_halted w' = c_halted w"
    "mailmsg_endpoint_ready w'" "mailmsg_pending_priorities w' = mailmsg_pending_priorities w"
    "mailmsg_work_sem w' = mailmsg_work_sem w" "ep_next_sequence (cpu3_endpoint w') = 1"
    "c_irq_enabled w' = c_irq_enabled w"
proof -
  let ?g = "ep_generation (cpu3_endpoint w)"
  obtain ret result w1 where r: "cpu3_send cfg 0 MAILMSG_MSG_SESSION_READY (session_payload ?g) 8 w = Some (ret, result, w1)"
    "cpu3_ok cfg w1" "same_service 0 w w1" "fw_in w1 0 = fw_in w 0"
    "fw_queue w1 0 = push_reply ?g (MAILMSG_MSG_SESSION_READY, session_payload ?g, 8) (fw_queue w 0)"
    "ret = (if length (fw_out w 0) < 7 then 0 else MAILMSG_RING_FULL)"
    "ret = 0 \<Longrightarrow> mailmsg_notify_accepted (notify_result result)"
    "c_regs w1 = (if ret = 0 then snd (mailmsg_cpu3_notify (cfg_mbox_write cfg) (c_regs w) 0) else c_regs w)"
    by (rule cpu3_send_spec [OF assms(1), of 0 8 "session_payload ?g" MAILMSG_MSG_SESSION_READY]) simp_all
  have ret: "ret = 0" using r(6) assms(5) by (simp del: length_ring_frames)
  let ?w = "w1\<lparr>mailmsg_session_ready_committed := True, mailmsg_session_ready_published := True\<rparr>"
  have eq: "mailmsg_service_session_ready cfg w = Some ?w"
    using assms(2-4) r(1,7) ret by (simp add: mailmsg_service_session_ready_def)
  show thesis
    by (rule that [OF eq])
       (use r ret assms(2,5,6) in \<open>simp_all add: cpu3_ok_def same_service_def push_reply_def ready_frame_def\<close>)
qed

text \<open>The globals of a freshly loaded image, on given registers and carveout.\<close>

definition fresh_cpu3 :: "mbox_regs \<Rightarrow> amp_page \<Rightarrow> cpu3_state" where
  "fresh_cpu3 regs pg = \<lparr>c_regs = regs, c_page = pg, mailmsg_pending_priorities = 0, mailmsg_irq_count = 0,
     mailmsg_work_sem = 0, mailmsg_rx_error_count = 0, mailmsg_endpoint_ready = False,
     mailmsg_session_ready_committed = False, mailmsg_session_ready_published = False,
     cpu3_endpoint = zero_endpoint, mailmsg_tx_full_commit = 0, mailmsg_tx_full_count = 0,
     mailmsg_worker_commit = 0, mailmsg_worker_wake_count = 0, mailmsg_worker_drain_count = 0,
     mailmsg_worker_message_count = 0, mailmsg_worker_empty_wake_count = 0, c_irq_enabled = False,
     c_last_sequence = 0, c_heartbeat = 0, c_spin = 0, c_halted = False\<rparr>"

lemma main_init_before:
  assumes "shared_wf (pg_mailmsg pg)" and "session_announced (pg_mailmsg pg)"
  obtains v where "cpu3_main_init cfg (fresh_cpu3 regs pg) =
      (if cfg_skip_session_ready cfg then Some v else mailmsg_service_session_ready cfg v)"
    "cpu3_ok cfg v" "mailmsg_endpoint_ready v" "mailmsg_work_sem v = 0" "mailmsg_pending_priorities v = 0"
    "pg_mailmsg (c_page v) = pg_mailmsg pg" "\<not> mailmsg_session_ready_committed v" "\<not> mailmsg_session_ready_published v"
    "c_irq_enabled v" "\<not> c_halted v" "c_regs v = cfg_mbox_write cfg regs A2B_INTEN (regs A2B_INTEN OR 0xf)"
    "ep_generation (cpu3_endpoint v) = shm_generation (pg_mailmsg pg)" "ep_next_sequence (cpu3_endpoint v) = 0"
proof -
  let ?sh = "pg_mailmsg pg" and ?w = "fresh_cpu3 regs pg" and ?wr = "cfg_mbox_write cfg"
  obtain ret ep where b: "mailmsg_endpoint_bind zero_endpoint (Some ?sh) (Some both_hooks)
      (Some (backend (mailmsg_cpu3_notify ?wr))) (Some MAILMSG_ENDPOINT_CPU3) = (ret, ep)"
    by (cases "mailmsg_endpoint_bind zero_endpoint (Some ?sh) (Some both_hooks)
      (Some (backend (mailmsg_cpu3_notify ?wr))) (Some MAILMSG_ENDPOINT_CPU3)")
  note bound = bind_bound [OF zero_endpoint_wf assms(2) b]
  define v where "v = (mailmsg_snapshot_gic_routes cfg (mailmsg_enable_a2b_channels cfg
     (mailmsg_publish_worker_observation 0 MAILMSG_PRIORITY_COUNT (mailmsg_reset_tx_full_observation
       ((r1_amp_checkpoint_c cfg MARK_MAIN ?w)\<lparr>cpu3_endpoint := ep, mailmsg_endpoint_ready := True\<rparr>)))))
       \<lparr>c_irq_enabled := True\<rparr>"
  have v: "pg_mailmsg (c_page v) = ?sh" "cpu3_endpoint v = ep" "mailmsg_endpoint_ready v"
    "\<not> mailmsg_session_ready_committed v" "\<not> mailmsg_session_ready_published v" "c_irq_enabled v"
    "\<not> c_halted v" "mailmsg_pending_priorities v = 0" "mailmsg_work_sem v = 0"
    "c_regs v = ?wr regs A2B_INTEN (regs A2B_INTEN OR 0xf)"
    by (simp_all add: v_def mailmsg_snapshot_gic_routes_def mailmsg_enable_a2b_channels_def fresh_cpu3_def
        mailmsg_publish_worker_observation_def mailmsg_reset_tx_full_observation_def r1_amp_checkpoint_c_def
        mailmsg_publish_tx_full_observation_def
        set_observation_def Let_def)
  have ok: "cpu3_ok cfg v" using bound assms(1) by (simp add: cpu3_ok_def v cpu3_backend_def)
  have init: "cpu3_main_init cfg ?w = (if cfg_skip_session_ready cfg then Some v else mailmsg_service_session_ready cfg v)"
    using v(3) b bound(1) unfolding v_def cpu3_main_init_def mailmsg_cpu3_notify_endpoint_def backend_def [symmetric]
    by (simp add: fresh_cpu3_def r1_amp_checkpoint_c_def)
  show thesis by (rule that [OF init ok]) (use v bound in simp_all)
qed

lemma main_init_spec:
  assumes "shared_wf (pg_mailmsg pg)" and "session_announced (pg_mailmsg pg)"
    and "ring_frames (shared_ring (pg_mailmsg pg) Cpu3_to_linux 0) = []" and "\<not> cfg_skip_session_ready cfg"
  obtains w where "cpu3_main_init cfg (fresh_cpu3 regs pg) = Some w" "cpu3_ok cfg w"
    "mailmsg_session_ready_published w" "mailmsg_endpoint_ready w" "\<not> c_halted w" "c_irq_enabled w"
    "fw_out w 0 = [ready_frame (shm_generation (pg_mailmsg pg))]"
    "fw_in w 0 = ring_frames (shared_ring (pg_mailmsg pg) Linux_to_cpu3 0)"
    "\<And>q. q < 4 \<Longrightarrow> q \<noteq> 0 \<Longrightarrow> fw_in w q = ring_frames (shared_ring (pg_mailmsg pg) Linux_to_cpu3 q) \<and>
      fw_out w q = ring_frames (shared_ring (pg_mailmsg pg) Cpu3_to_linux q)"
    "ep_generation (cpu3_endpoint w) = shm_generation (pg_mailmsg pg)" "ep_next_sequence (cpu3_endpoint w) = 1"
    "mailmsg_pending_priorities w = 0" "mailmsg_work_sem w = 0"
    "c_regs w = snd (mailmsg_cpu3_notify (cfg_mbox_write cfg)
      (cfg_mbox_write cfg regs A2B_INTEN (regs A2B_INTEN OR 0xf)) 0)"
proof -
  obtain v where v: "cpu3_main_init cfg (fresh_cpu3 regs pg) =
      (if cfg_skip_session_ready cfg then Some v else mailmsg_service_session_ready cfg v)"
    "cpu3_ok cfg v" "mailmsg_endpoint_ready v" "mailmsg_work_sem v = 0" "mailmsg_pending_priorities v = 0"
    "pg_mailmsg (c_page v) = pg_mailmsg pg" "\<not> mailmsg_session_ready_committed v" "\<not> mailmsg_session_ready_published v"
    "c_irq_enabled v" "\<not> c_halted v" "c_regs v = cfg_mbox_write cfg regs A2B_INTEN (regs A2B_INTEN OR 0xf)"
    "ep_generation (cpu3_endpoint v) = shm_generation (pg_mailmsg pg)" "ep_next_sequence (cpu3_endpoint v) = 0"
    by (rule main_init_before [OF assms(1,2)])
  have init: "cpu3_main_init cfg (fresh_cpu3 regs pg) = mailmsg_service_session_ready cfg v" using v(1) assms(4) by simp
  have pre: "fw_out v 0 = []" "ep_next_sequence (cpu3_endpoint v) = 0" using v assms(3) by simp_all
  show thesis
  proof (rule session_ready_spec [OF v(2,3,7,8) pre])
    fix w assume a: "mailmsg_service_session_ready cfg v = Some w" "cpu3_ok cfg w" "mailmsg_session_ready_published w"
      "fw_out w 0 = [ready_frame (ep_generation (cpu3_endpoint v))]" "fw_in w 0 = fw_in v 0"
      "\<And>q. q < 4 \<Longrightarrow> q \<noteq> 0 \<Longrightarrow> fw_in w q = fw_in v q \<and> fw_out w q = fw_out v q"
      "c_regs w = snd (mailmsg_cpu3_notify (cfg_mbox_write cfg) (c_regs v) 0)"
      "ep_generation (cpu3_endpoint w) = ep_generation (cpu3_endpoint v)" "c_halted w = c_halted v"
      "mailmsg_endpoint_ready w" "mailmsg_pending_priorities w = mailmsg_pending_priorities v"
      "mailmsg_work_sem w = mailmsg_work_sem v" "ep_next_sequence (cpu3_endpoint w) = 1" "c_irq_enabled w = c_irq_enabled v"
    show thesis by (rule that [OF init [unfolded a(1)]]) (use a v in simp_all)
  qed
qed

end
