(* ===== verification/Cpu3_Worker.thy ===== *)
theory Cpu3_Worker
  imports Cpu3_Service "HOL-Library.Sublist"
begin

text \<open>
  The stop handshake of the firmware, the service loop on arbitrary input, the service
  as an abstract queue transformer, the A2B interrupt handler and the worker thread.
\<close>

subsection \<open>The stop handshake\<close>

lemma stop_feedback_spec:
  assumes "cpu3_ok cfg w"
  obtains w' where "mailmsg_send_stop_feedback cfg ty s r w = Some (length (fw_out w 0) < 7, w')" "cpu3_ok cfg w'"
    "same_service 0 w w'" "fw_in w' 0 = fw_in w 0"
    "fw_queue w' 0 = push_reply (ep_generation (cpu3_endpoint w)) (ty, feedback_payload s r, 8) (fw_queue w 0)"
    "c_regs w' = (if length (fw_out w 0) < 7
       then snd (mailmsg_cpu3_notify (cfg_mbox_write cfg) (c_regs w) 0) else c_regs w)"
proof -
  obtain ret result w1 where r: "cpu3_send cfg 0 ty (feedback_payload s r) 8 w = Some (ret, result, w1)" "cpu3_ok cfg w1"
    "same_service 0 w w1" "fw_in w1 0 = fw_in w 0"
    "fw_queue w1 0 = push_reply (ep_generation (cpu3_endpoint w)) (ty, feedback_payload s r, 8) (fw_queue w 0)"
    "ret = (if length (fw_out w 0) < 7 then 0 else MAILMSG_RING_FULL)"
    "ret = 0 \<Longrightarrow> mailmsg_notify_accepted (notify_result result)"
    "c_regs w1 = (if ret = 0 then snd (mailmsg_cpu3_notify (cfg_mbox_write cfg) (c_regs w) 0) else c_regs w)"
    by (rule cpu3_send_spec [OF assms, of 0 8 "feedback_payload s r" ty]) simp_all
  let ?w = "if ret \<noteq> 0 then mailmsg_record_tx_full 0 ty result w1 else w1"
  have "mailmsg_send_stop_feedback cfg ty s r w = Some (length (fw_out w 0) < 7, ?w)"
    using r(6,7) by (auto simp add: mailmsg_send_stop_feedback_def r(1) split: if_splits)
  moreover have "same_service 0 w ?w" using r(3) by (auto intro: same_service_trans record_tx_full_same)
  ultimately show thesis using r by (intro that [of ?w]) (simp_all add: record_tx_full_same split: if_splits)
qed

text \<open>
  What any pass of the loop keeps: the session, the doorbell bookkeeping and the other
  queues; the core either goes on as it was or is off with its interrupts disabled.
\<close>

definition served :: "u32 \<Rightarrow> cpu3_state \<Rightarrow> cpu3_state \<Rightarrow> bool" where
  "served p w w' \<longleftrightarrow> ep_generation (cpu3_endpoint w') = ep_generation (cpu3_endpoint w) \<and>
     mailmsg_pending_priorities w' = mailmsg_pending_priorities w \<and> mailmsg_work_sem w' = mailmsg_work_sem w \<and>
     mailmsg_endpoint_ready w' = mailmsg_endpoint_ready w \<and>
     mailmsg_session_ready_published w' = mailmsg_session_ready_published w \<and>
     (c_halted w' \<and> \<not> c_irq_enabled w' \<or> c_halted w' = c_halted w \<and> c_irq_enabled w' = c_irq_enabled w) \<and>
     (\<forall>q < 4. q \<noteq> p \<longrightarrow> fw_in w' q = fw_in w q \<and> fw_out w' q = fw_out w q) \<and>
     suffix (fw_in w' p) (fw_in w p) \<and> prefix (fw_out w p) (fw_out w' p)"

lemma served_refl: "served p w w"
  by (simp add: served_def)

lemma served_trans: "served p w w' \<Longrightarrow> served p w' w'' \<Longrightarrow> served p w w''"
  unfolding served_def by (auto intro: suffix_order.trans prefix_order.trans)

lemma same_service_served:
  "same_service p w w' \<Longrightarrow> suffix (fw_in w' p) (fw_in w p) \<Longrightarrow> prefix (fw_out w p) (fw_out w' p) \<Longrightarrow> served p w w'"
  by (simp add: same_service_def served_def)

lemma prefix_push_reply: "prefix (snd q) (snd (push_reply g r q))"
  by (simp add: push_reply_def split: prod.splits)

lemma reply_served:
  assumes "same_service p w w'" and "fw_in w' p = fw_in w p" and "fw_queue w' p = push_reply g r (fw_queue w p)"
  shows "served p w w'"
  by (rule same_service_served) (use assms prefix_push_reply [of "fw_queue w p" g r] in \<open>simp_all flip: assms(3)\<close>)

lemma cpu_off_simps [simp]:
  "c_halted (mailmsg_cpu_off_after_ready cfg w)" "\<not> c_irq_enabled (mailmsg_cpu_off_after_ready cfg w)"
  "pg_mailmsg (c_page (mailmsg_cpu_off_after_ready cfg w)) = pg_mailmsg (c_page w)"
  "cpu3_endpoint (mailmsg_cpu_off_after_ready cfg w) = cpu3_endpoint w"
  "mailmsg_pending_priorities (mailmsg_cpu_off_after_ready cfg w) = mailmsg_pending_priorities w"
  "mailmsg_work_sem (mailmsg_cpu_off_after_ready cfg w) = mailmsg_work_sem w"
  "mailmsg_endpoint_ready (mailmsg_cpu_off_after_ready cfg w) = mailmsg_endpoint_ready w"
  "mailmsg_session_ready_published (mailmsg_cpu_off_after_ready cfg w) = mailmsg_session_ready_published w"
  "c_regs (mailmsg_cpu_off_after_ready cfg w) =
    (if c_regs w A2B_STATUS AND 0xf \<noteq> 0
     then cfg_mbox_write cfg (c_regs w) A2B_STATUS (c_regs w A2B_STATUS AND 0xf) else c_regs w)"
  by (simp_all add: mailmsg_cpu_off_after_ready_def r1_amp_checkpoint_c_def Let_def split: option.split)

lemma cpu_off_served: "served p w w' \<Longrightarrow> served p w (mailmsg_cpu_off_after_ready cfg w')"
  by (simp add: served_def)

lemma cpu_off_ok: "cpu3_ok cfg (mailmsg_cpu_off_after_ready cfg w) = cpu3_ok cfg w"
  by (simp add: cpu3_ok_def)

lemma bit_and_f: "q < 4 \<Longrightarrow> bit (x AND 0xf) (unat q) = bit x (unat q)" for x q :: u32
  by (erule ch_cases) (simp_all add: bit_simps bit_numeral_rec)

context mailbox_hw
begin

text \<open>Powering off leaves no A2B doorbell behind and does not touch the B2A ones.\<close>

lemma cpu_off_quiesces:
  assumes "cfg_mbox_write cfg = wr" and "q < 4"
  shows "\<not> a2b_pending (c_regs (mailmsg_cpu_off_after_ready cfg w)) q"
    "b2a_pending (c_regs (mailmsg_cpu_off_after_ready cfg w)) q = b2a_pending (c_regs w) q"
proof -
  let ?x = "c_regs w A2B_STATUS"
  have "\<not> bit ?x (unat q)" if "?x AND 0xf = 0" using that bit_and_f [OF assms(2), of ?x] by simp
  moreover have "\<not> bit (?x AND NOT (?x AND 0xf)) (unat q)" using bit_and_f [OF assms(2), of ?x] by (subst bit_and_iff, subst bit_not_iff) simp
  ultimately show "\<not> a2b_pending (c_regs (mailmsg_cpu_off_after_ready cfg w)) q" by (simp add: a2b_pending_def assms(1) a2b_w1c)
qed (simp add: b2a_pending_def assms(1) a2b_b2a)

end

subsection \<open>The service loop on arbitrary input\<close>

lemma prefix_fold_push: "prefix (snd q) (snd (fold (push_reply g) rs q))"
proof (induction rs arbitrary: q)
  case (Cons r rs)
  show ?case using prefix_order.trans [OF prefix_push_reply [of q g r] Cons [of "push_reply g r q"]] by simp
qed simp

lemma service_step_cases:
  assumes "cpu3_ok cfg w" and "p < 4"
  obtains (ends) w' k where "service_priority cfg (Suc n) p m msgs h w = Some (w', msgs + word_of_nat k, h + k)" "k \<le> 1"
      "cpu3_ok cfg w'" "served p w w'"
  | (goes_on) f w' where
      "service_priority cfg (Suc n) p m msgs h w = service_priority cfg n p f (msgs + 1) (Suc h) w'"
      "cpu3_ok cfg w'" "served p w w'"
proof (cases rule: fw_receive_cases [OF assms, of m, case_names empty incomplete frame])
  case empty
  then show thesis using assms(1) by (intro ends [of w 0]) (simp_all add: served_refl)
next
  case (incomplete f fs ep)
  then show thesis
    by (intro ends [of "w\<lparr>cpu3_endpoint := ep\<rparr>" 0]) (simp_all add: same_service_served)
next
  case (frame f fs ep sh w1)
  let ?r = "receive_status (ep_generation (cpu3_endpoint w)) f"
  note range = receive_status_range [OF frame(2), of "ep_generation (cpu3_endpoint w)"]
  have s1: "served p w w1"
    by (rule same_service_served [OF frame(6)]) (use frame(1,7,8) in \<open>simp_all add: suffix_ConsI\<close>)
  consider (bad) "?r \<in> {MAILMSG_RING_BAD_CRC, MAILMSG_RING_INVALID}" | (stale) "?r = MAILMSG_ENDPOINT_STALE_FRAME"
    | (stop) "?r = 0" "p = 0" "msg_type f = MAILMSG_MSG_STOP_REQUEST"
    | (off) "?r = 0" "\<not> ordinary cfg p f" "\<not> (p = 0 \<and> msg_type f = MAILMSG_MSG_STOP_REQUEST)" | (ord) "?r = 0" "ordinary cfg p f"
    using range by (auto simp: ordinary_def)
  then show thesis
  proof cases
    case bad
    obtain w' where w': "service_priority cfg (Suc n) p m msgs h w = Some (w', msgs + 1, Suc h)" "cpu3_ok cfg w'"
      "same_service p w w'" "fw_in w' p = fs"
      "\<exists>r. fw_queue w' p = push_reply (ep_generation (cpu3_endpoint w)) r (fw_queue w p) \<or> fw_queue w' p = fw_queue w p"
      using service_priority_bad [OF assms frame(1) bad, of n m msgs h] by metis
    from w'(5) have "prefix (fw_out w p) (fw_out w' p)"
      using prefix_push_reply [of "fw_queue w p"] by (metis snd_conv prefix_order.refl)
    note w' = w'(1-4) this
    show thesis
      by (rule ends [of w' 1]) (use w' frame(1) in \<open>simp_all add: same_service_served suffix_ConsI\<close>)
  next
    case stale
    then show thesis using frame(3-5) s1 by (intro ends [of w1 0]) simp_all
  next
    case stop
    have sp: thesis if sf: "service_priority cfg (Suc n) p m msgs h w =
        do { (_, w) \<leftarrow> mailmsg_send_stop_feedback cfg MAILMSG_MSG_STOP_REFUSED (msg_sequence f) r w1;
             service_priority cfg n p f (msgs + 1) (Suc h) w }" for r
    proof (rule stop_feedback_spec [OF frame(5), of MAILMSG_MSG_STOP_REFUSED "msg_sequence f" r])
      fix w' assume a: "mailmsg_send_stop_feedback cfg MAILMSG_MSG_STOP_REFUSED (msg_sequence f) r w1 =
          Some (length (fw_out w1 0) < 7, w')" "cpu3_ok cfg w'" "same_service 0 w1 w'" "fw_in w' 0 = fw_in w1 0"
        "fw_queue w' 0 = push_reply (ep_generation (cpu3_endpoint w1)) (MAILMSG_MSG_STOP_REFUSED, feedback_payload (msg_sequence f) r, 8) (fw_queue w1 0)"
      show thesis
        by (rule goes_on [of f w']) (use sf a(1,2) served_trans [OF s1, of w'] reply_served [OF a(3-5)] stop(2) in simp_all)
    qed
    show thesis
    proof (cases "msg_length f = 0 \<and> cfg_enable_stop_control cfg")
      case False
      then show thesis using sp [of MAILMSG_STOP_REFUSED_INVALID_REQUEST] sp [of MAILMSG_STOP_REFUSED_BUSY] frame(3,4) stop
        by (cases "msg_length f = 0") simp_all
    next
      case True
      show thesis
      proof (rule stop_feedback_spec [OF frame(5), of MAILMSG_MSG_STOP_READY "msg_sequence f" 0])
        fix w' assume a: "mailmsg_send_stop_feedback cfg MAILMSG_MSG_STOP_READY (msg_sequence f) 0 w1 =
            Some (length (fw_out w1 0) < 7, w')" "cpu3_ok cfg w'" "same_service 0 w1 w'" "fw_in w' 0 = fw_in w1 0"
          "fw_queue w' 0 = push_reply (ep_generation (cpu3_endpoint w1)) (MAILMSG_MSG_STOP_READY, feedback_payload (msg_sequence f) 0, 8) (fw_queue w1 0)"
        have s2: "served p w w'" using served_trans [OF s1, of w'] reply_served [OF a(3-5)] stop(2) by simp
        have e: "service_priority cfg (Suc n) p m msgs h w =
          (if length (fw_out w1 0) < 7 then Some (mailmsg_cpu_off_after_ready cfg w', msgs + 1, Suc h)
           else service_priority cfg n p f (msgs + 1) (Suc h) w')"
          using frame(3,4) stop True a(1) by (simp del: length_ring_frames)
        show thesis
        proof (cases "length (fw_out w1 0) < 7")
          case True
          then show thesis using e a(2) cpu_off_served [OF s2]
            by (intro ends [of "mailmsg_cpu_off_after_ready cfg w'" 1]) (simp_all add: cpu_off_ok)
        next
          case False
          then show thesis using e a(2) s2 by (intro goes_on [of f w']) simp_all
        qed
      qed
    qed
  next
    case off
    have "service_priority cfg (Suc n) p m msgs h w = Some (mailmsg_cpu_off_after_ready cfg w1, msgs + 1, Suc h)"
      using off frame(3,4) by (auto simp: ordinary_def)
    then show thesis using frame(5) cpu_off_served [OF s1]
      by (intro ends [of "mailmsg_cpu_off_after_ready cfg w1" 1]) (simp_all add: cpu_off_ok)
  next
    case ord
    obtain w' where st: "(do { (_, w) \<leftarrow> (if mailmsg_priority_is_reliable p
                   then mailmsg_send_feedback cfg p MAILMSG_MSG_ACK (msg_sequence f) 0 w1 else Some (True, w1));
           (_, w) \<leftarrow> mailmsg_send_pong cfg p f w; service_priority cfg n p f (msgs + 1) (Suc h) w }) =
        service_priority cfg n p f (msgs + 1) (Suc h) w'"
      "cpu3_ok cfg w'" "same_service p w1 w'" "fw_in w' p = fw_in w1 p"
      "fw_queue w' p = fold (push_reply (ep_generation (cpu3_endpoint w1))) (replies p f) (fw_queue w1 p)"
      by (rule service_ordinary_step [OF frame(5) assms(2) ord(2)])
    have "served p w1 w'" using st(3-5) prefix_fold_push [of "fw_queue w1 p" "ep_generation (cpu3_endpoint w1)" "replies p f"]
      by (intro same_service_served) (simp_all flip: st(5))
    then have "served p w w'" by (rule served_trans [OF s1])
    moreover have "service_priority cfg (Suc n) p m msgs h w = service_priority cfg n p f (msgs + 1) (Suc h) w'"
      unfolding st(1) [symmetric] using frame(3,4) ord by (auto simp: ordinary_def)
    ultimately show thesis using st(2) by (intro goes_on [of f w'])
  qed
qed

lemma service_priority_total:
  assumes "cpu3_ok cfg w" and "p < 4"
  shows "\<exists>w' k. service_priority cfg n p m msgs h w = Some (w', msgs + word_of_nat k, h + k) \<and> k \<le> n \<and>
    cpu3_ok cfg w' \<and> served p w w'"
  using assms(1)
proof (induction n arbitrary: m msgs h w)
  case 0
  then show ?case by (intro exI [of _ w] exI [of _ 0]) (simp add: served_refl)
next
  case (Suc n)
  show ?case
  proof (cases rule: service_step_cases [OF Suc(2) assms(2), of n m msgs h, case_names ends goes_on])
    case (ends w' k)
    then show ?thesis by (intro exI [of _ w'] exI [of _ k]) (simp del: service_priority.simps)
  next
    case (goes_on f w1)
    obtain w' k where "service_priority cfg n p f (msgs + 1) (Suc h) w1 = Some (w', msgs + 1 + word_of_nat k, Suc h + k)"
      "k \<le> n" "cpu3_ok cfg w'" "served p w1 w'" using Suc.IH [OF goes_on(2)] by blast
    with goes_on(1) served_trans [OF goes_on(3)] show ?thesis
      by (intro exI [of _ w'] exI [of _ "Suc k"]) (simp del: service_priority.simps add: add.assoc)
  qed
qed

subsection \<open>The service as a queue transformer\<close>

text \<open>
  The abstract service: a sequence counter, an input and an output queue per priority.
  Serving a priority empties its input and appends the replies to its output.
\<close>

type_synonym service_view = "u32 \<times> (u32 \<Rightarrow> mailmsg_message list) \<times> (u32 \<Rightarrow> mailmsg_message list)"

definition service_view :: "cpu3_state \<Rightarrow> service_view" where
  "service_view w = (ep_next_sequence (cpu3_endpoint w), \<lambda>q. if q < 4 then fw_in w q else [],
     \<lambda>q. if q < 4 then fw_out w q else [])"

definition serve_queue :: "u32 \<Rightarrow> u32 \<Rightarrow> service_view \<Rightarrow> service_view" where
  "serve_queue g p v = (case v of (s, ins, outs) \<Rightarrow>
     (let (s', out') = fold (push_reply g) (concat (map (replies p) (ins p))) (s, outs p)
      in (s', ins(p := []), outs(p := out'))))"

definition serve_queues :: "u32 \<Rightarrow> (u32 \<Rightarrow> bool) \<Rightarrow> u32 list \<Rightarrow> service_view \<Rightarrow> service_view" where
  "serve_queues g chosen ps v = fold (serve_queue g) (filter chosen ps) v"

definition well_formed_input :: "cpu3_config \<Rightarrow> cpu3_state \<Rightarrow> u32 \<Rightarrow> bool" where
  "well_formed_input cfg w p \<longleftrightarrow>
     (\<forall>f \<in> set (fw_in w p). receive_status (ep_generation (cpu3_endpoint w)) f = 0 \<and> ordinary cfg p f)"

lemma view_serve_queue:
  assumes "same_service p w w'" and "p < 4" and "fw_in w' p = []"
    and "fw_queue w' p = fold (push_reply g) (concat (map (replies p) (fw_in w p))) (fw_queue w p)"
  shows "service_view w' = serve_queue g p (service_view w)"
proof -
  have q: "q < 4 \<Longrightarrow> q \<noteq> p \<Longrightarrow> fw_in w' q = fw_in w q \<and> fw_out w' q = fw_out w q" for q
    using assms(1) by (simp add: same_service_def)
  show ?thesis
    using assms(2,3) q by (simp add: service_view_def serve_queue_def assms(4) [symmetric]) (auto simp: fun_eq_iff)
qed

lemma has_received_bound:
  assumes "endpoint_bound ep sh tx rx" and "shared_wf sh" and "p < 4"
  shows "mailmsg_endpoint_has_received ep sh p = (if ring_frames (shared_ring sh rx p) = [] then 0 else 1)"
proof -
  from assms(1) obtain ops where ops: "ep_memory_ops ep = Some ops" "ops_acquire ops"
    by (auto simp: endpoint_bound_def mailmsg_endpoint_session_valid_def split: if_splits option.splits)
  have p: "\<not> MAILMSG_PRIORITY_COUNT \<le> p" using assms(3) by simp
  show ?thesis
    using assms(1) ops p has_data_iff [OF ops(2) shared_ring_wf [OF assms(2,3), of rx]]
    by (simp add: mailmsg_endpoint_has_received_def endpoint_bound_def flip: length_0_conv)
qed

definition chosen :: "cpu3_config \<Rightarrow> u32 \<Rightarrow> u32 \<Rightarrow> bool" where
  "chosen cfg pending p \<longleftrightarrow> pending AND BIT p \<noteq> 0 \<and> p \<noteq> cfg_skip_priority cfg"

lemma same_service_input:
  "same_service p w w' \<Longrightarrow> q < 4 \<Longrightarrow> q \<noteq> p \<Longrightarrow> well_formed_input cfg w' q = well_formed_input cfg w q"
  by (simp add: same_service_def well_formed_input_def)

definition same_flags :: "cpu3_state \<Rightarrow> cpu3_state \<Rightarrow> bool" where
  "same_flags w w' \<longleftrightarrow> ep_generation (cpu3_endpoint w') = ep_generation (cpu3_endpoint w) \<and>
     mailmsg_pending_priorities w' = mailmsg_pending_priorities w \<and> mailmsg_work_sem w' = mailmsg_work_sem w \<and>
     mailmsg_endpoint_ready w' = mailmsg_endpoint_ready w \<and>
     mailmsg_session_ready_published w' = mailmsg_session_ready_published w \<and>
     c_irq_enabled w' = c_irq_enabled w \<and> c_halted w' = c_halted w"

lemma service_priorities_refines:
  assumes "cpu3_ok cfg w" and "\<not> c_halted w" and "distinct ps" and "\<forall>p \<in> set ps. p < 4"
    and "\<forall>p \<in> set ps. chosen cfg pending p \<longrightarrow> well_formed_input cfg w p"
  shows "\<exists>w' msgs' last'. service_priorities cfg pending ps msgs lst resched w = Some (w', msgs', last', resched) \<and>
    cpu3_ok cfg w' \<and> same_flags w w' \<and>
    service_view w' = serve_queues (ep_generation (cpu3_endpoint w)) (chosen cfg pending) ps (service_view w)"
  using assms
proof (induction ps arbitrary: msgs lst w)
  case Nil
  then show ?case by (simp add: serve_queues_def same_flags_def)
next
  case (Cons p ps)
  show ?case
  proof (cases "chosen cfg pending p")
    case False
    then have "service_priorities cfg pending (p # ps) msgs lst resched w = service_priorities cfg pending ps msgs lst resched w"
      by (auto simp: chosen_def)
    with False Cons.IH [OF Cons(2,3), of msgs lst] Cons(4-6) show ?thesis by (simp add: serve_queues_def)
  next
    case True
    have p: "p < 4" "well_formed_input cfg w p" using Cons(5,6) True by auto
    have "length (fw_in w p) \<le> MAILMSG_WORKER_DRAIN_QUOTA" using ring_depth_le [of "shared_ring (pg_mailmsg (c_page w)) Linux_to_cpu3 p"] by simp
    then obtain w1 k where 1: "service_priority cfg MAILMSG_WORKER_DRAIN_QUOTA p (cfg_stack_message cfg) msgs 0 w = Some (w1, msgs + word_of_nat k, k)"
      "cpu3_ok cfg w1" "same_service p w w1" "fw_in w1 p = []"
      "fw_queue w1 p = fold (push_reply (ep_generation (cpu3_endpoint w))) (concat (map (replies p) (fw_in w p))) (fw_queue w p)"
      using service_priority_ordinary [OF Cons(2) p(1) _ p(2) [unfolded well_formed_input_def], of MAILMSG_WORKER_DRAIN_QUOTA "cfg_stack_message cfg" msgs 0]
      by (auto simp del: service_priority.simps length_ring_frames)
    have flags: "same_flags w w1" using 1(3) by (simp add: same_flags_def same_service_def)
    have hr: "mailmsg_endpoint_has_received (cpu3_endpoint w1) (pg_mailmsg (c_page w1)) p = 0"
      using 1(2,4) p(1) has_received_bound by (fastforce simp: cpu3_ok_def)
    have "service_priorities cfg pending (p # ps) msgs lst resched w =
        service_priorities cfg pending ps (msgs + word_of_nat k) p resched w1"
      using True 1(1) hr flags Cons(3) by (simp add: chosen_def same_flags_def del: service_priority.simps)
    moreover have inp: "\<forall>q \<in> set ps. chosen cfg pending q \<longrightarrow> well_formed_input cfg w1 q"
      using Cons(4-6) same_service_input [OF 1(3)] by auto
    moreover have "\<not> c_halted w1" using flags Cons(3) by (simp add: same_flags_def)
    ultimately show ?thesis
      using Cons.IH [OF 1(2) _ _ _ inp, of "msgs + word_of_nat k" p] Cons(4,5) True flags
        view_serve_queue [OF 1(3) p(1) 1(4,5)]
      by (auto simp: serve_queues_def same_flags_def)
  qed
qed

end
