(* ===== verification/Cpu3_Steps.thy ===== *)
theory Cpu3_Steps
  imports Cpu3_Worker
begin

text \<open>
  The firmware as a transition system: interrupt handler, worker passes, passes of the
  main loop and the actions of the Linux side, with the invariant of its reachable states.
\<close>

subsection \<open>Totality\<close>

definition kept :: "cpu3_state \<Rightarrow> cpu3_state \<Rightarrow> bool" where
  "kept w w' \<longleftrightarrow> ep_generation (cpu3_endpoint w') = ep_generation (cpu3_endpoint w) \<and>
     mailmsg_pending_priorities w' = mailmsg_pending_priorities w \<and> mailmsg_work_sem w' = mailmsg_work_sem w \<and>
     mailmsg_endpoint_ready w' = mailmsg_endpoint_ready w \<and>
     mailmsg_session_ready_published w' = mailmsg_session_ready_published w \<and>
     (c_halted w' \<and> \<not> c_irq_enabled w' \<or> c_halted w' = c_halted w \<and> c_irq_enabled w' = c_irq_enabled w) \<and>
     (\<forall>q < 4. suffix (fw_in w' q) (fw_in w q) \<and> prefix (fw_out w q) (fw_out w' q))"

lemma kept_refl: "kept w w"
  by (simp add: kept_def)

lemma kept_trans: "kept w w' \<Longrightarrow> kept w' w'' \<Longrightarrow> kept w w''"
  unfolding kept_def by (auto intro: suffix_order.trans prefix_order.trans)

lemma served_kept: "served p w w' \<Longrightarrow> kept w w'"
  unfolding served_def kept_def by (metis suffix_order.refl prefix_order.refl)

lemma service_priorities_total:
  assumes "cpu3_ok cfg w" and "\<forall>p \<in> set ps. p < 4"
  shows "\<exists>w' msgs' last' resched'. service_priorities cfg pending ps msgs lst resched w = Some (w', msgs', last', resched') \<and>
    cpu3_ok cfg w' \<and> kept w w'"
  using assms
proof (induction ps arbitrary: msgs lst resched w)
  case Nil
  then show ?case by (simp add: kept_refl)
next
  case (Cons p ps)
  show ?case
  proof (cases "chosen cfg pending p")
    case False
    then have "service_priorities cfg pending (p # ps) msgs lst resched w = service_priorities cfg pending ps msgs lst resched w"
      by (auto simp: chosen_def)
    with Cons.IH [OF Cons(2), of msgs lst resched] Cons(3) show ?thesis by simp
  next
    case True
    have "p < 4" using Cons(3) by simp
    from service_priority_total [OF Cons(2) this, of MAILMSG_WORKER_DRAIN_QUOTA "cfg_stack_message cfg" msgs 0]
    obtain w1 k where 1: "service_priority cfg MAILMSG_WORKER_DRAIN_QUOTA p (cfg_stack_message cfg) msgs 0 w = Some (w1, msgs + word_of_nat k, k)"
      "cpu3_ok cfg w1" "served p w w1" by (auto simp del: service_priority.simps)
    let ?re = "if k = MAILMSG_WORKER_DRAIN_QUOTA \<and> mailmsg_endpoint_has_received (cpu3_endpoint w1) (pg_mailmsg (c_page w1)) p = 1
      then resched OR BIT p else resched"
    have e: "service_priorities cfg pending (p # ps) msgs lst resched w = (if c_halted w1 then Some (w1, msgs + word_of_nat k, p, resched)
        else service_priorities cfg pending ps (msgs + word_of_nat k) p ?re w1)"
      using True 1(1) by (simp add: chosen_def del: service_priority.simps)
    show ?thesis
    proof (cases "c_halted w1")
      case True
      with e 1 show ?thesis by (simp add: served_kept)
    next
      case False
      then show ?thesis unfolding e
        using Cons.IH [OF 1(2), of "msgs + word_of_nat k" p ?re] Cons(3) kept_trans [OF served_kept [OF 1(3)]] by auto
    qed
  qed
qed

lemma service_total:
  assumes "cpu3_ok cfg w"
  shows "\<exists>w' msgs' last' resched'. mailmsg_pingpong_test_service cfg pending lst resched w = Some (w', msgs', last', resched') \<and>
    cpu3_ok cfg w' \<and> kept w w'"
  using assms service_priorities_total [OF assms, of "[0, 1, 2, 3]" pending 0 lst resched]
  by (simp add: mailmsg_pingpong_test_service_def kept_refl)

text \<open>
  The invariant: bound to the session, and a recorded doorbell never without a wake-up
  for the worker.
\<close>

definition cpu3_inv :: "cpu3_config \<Rightarrow> cpu3_state \<Rightarrow> bool" where
  "cpu3_inv cfg w \<longleftrightarrow> cpu3_ok cfg w \<and> mailmsg_endpoint_ready w \<and> mailmsg_work_sem w \<le> 1 \<and>
     (mailmsg_pending_priorities w \<noteq> 0 \<longrightarrow> mailmsg_work_sem w = 1)"

lemma service_view_cong:
  "cpu3_endpoint w' = cpu3_endpoint w \<Longrightarrow> pg_mailmsg (c_page w') = pg_mailmsg (c_page w) \<Longrightarrow> service_view w' = service_view w"
  by (simp only: service_view_def)

lemma worker_observation_simps [simp]:
  "cpu3_ok cfg (mailmsg_publish_worker_observation a b w) = cpu3_ok cfg w"
  "cpu3_endpoint (mailmsg_publish_worker_observation a b w) = cpu3_endpoint w"
  "pg_mailmsg (c_page (mailmsg_publish_worker_observation a b w)) = pg_mailmsg (c_page w)"
  "mailmsg_endpoint_ready (mailmsg_publish_worker_observation a b w) = mailmsg_endpoint_ready w"
  "mailmsg_session_ready_published (mailmsg_publish_worker_observation a b w) = mailmsg_session_ready_published w"
  "mailmsg_work_sem (mailmsg_publish_worker_observation a b w) = mailmsg_work_sem w"
  "mailmsg_pending_priorities (mailmsg_publish_worker_observation a b w) = mailmsg_pending_priorities w"
  "c_regs (mailmsg_publish_worker_observation a b w) = c_regs w"
  "c_halted (mailmsg_publish_worker_observation a b w) = c_halted w"
  "c_irq_enabled (mailmsg_publish_worker_observation a b w) = c_irq_enabled w"
  by (simp_all add: mailmsg_publish_worker_observation_def cpu3_ok_def Let_def)

lemma worker_inv:
  assumes "cpu3_inv cfg w"
  shows "\<exists>w'. mailmsg_worker cfg w = Some w' \<and> cpu3_inv cfg w'"
proof (cases "mailmsg_work_sem w = 0")
  case True
  with assms show ?thesis by (simp add: mailmsg_worker_def)
next
  case sem: False
  let ?pending = "mailmsg_pending_priorities w"
  let ?w = "w\<lparr>mailmsg_work_sem := mailmsg_work_sem w - 1, mailmsg_worker_wake_count := mailmsg_worker_wake_count w + 1,
      mailmsg_pending_priorities := 0\<rparr>"
  show ?thesis
  proof (cases "?pending = 0")
    case True
    with assms sem show ?thesis by (simp add: mailmsg_worker_def cpu3_inv_def Let_def) (simp add: cpu3_ok_def)
  next
    case False
    let ?v = "?w\<lparr>mailmsg_worker_drain_count := mailmsg_worker_drain_count w + 1\<rparr>"
    have v: "cpu3_ok cfg ?v" "mailmsg_work_sem ?v = 0" "mailmsg_endpoint_ready ?v"
      using assms sem by (auto simp: cpu3_inv_def cpu3_ok_def)
    obtain w1 msgs lst re where 1: "mailmsg_pingpong_test_service cfg ?pending MAILMSG_PRIORITY_COUNT 0 ?v = Some (w1, msgs, lst, re)"
      "cpu3_ok cfg w1" "kept ?v w1" using service_total [OF v(1)] by blast
    from 1(3) v(2,3) have k: "mailmsg_work_sem w1 = 0" "mailmsg_pending_priorities w1 = 0" "mailmsg_endpoint_ready w1"
      by (simp_all add: kept_def)
    show ?thesis
      using sem False 1(1,2) k
      by (simp add: mailmsg_worker_def Let_def cpu3_inv_def k_sem_give_def cpu3_ok_def)
  qed
qed

lemma isr_simps [simp]:
  "cpu3_ok cfg (mailmsg_mailbox_a2b_matrix_isr cfg i w) = cpu3_ok cfg w"
  "mailmsg_endpoint_ready (mailmsg_mailbox_a2b_matrix_isr cfg i w) = mailmsg_endpoint_ready w"
  "mailmsg_session_ready_published (mailmsg_mailbox_a2b_matrix_isr cfg i w) = mailmsg_session_ready_published w"
  "cpu3_endpoint (mailmsg_mailbox_a2b_matrix_isr cfg i w) = cpu3_endpoint w"
  "pg_mailmsg (c_page (mailmsg_mailbox_a2b_matrix_isr cfg i w)) = pg_mailmsg (c_page w)"
  "c_halted (mailmsg_mailbox_a2b_matrix_isr cfg i w) = c_halted w"
  "c_irq_enabled (mailmsg_mailbox_a2b_matrix_isr cfg i w) = c_irq_enabled w"
  by (simp_all add: mailmsg_mailbox_a2b_matrix_isr_def set_observation_def k_sem_give_def cpu3_ok_def Let_def)

lemma isr_wakes:
  assumes "mailmsg_work_sem w \<le> 1" and "mailmsg_pending_priorities w \<noteq> 0 \<longrightarrow> mailmsg_work_sem w = 1"
  shows "mailmsg_work_sem (mailmsg_mailbox_a2b_matrix_isr cfg i w) \<le> 1 \<and>
    (mailmsg_pending_priorities (mailmsg_mailbox_a2b_matrix_isr cfg i w) \<noteq> 0 \<longrightarrow>
     mailmsg_work_sem (mailmsg_mailbox_a2b_matrix_isr cfg i w) = 1)"
  using assms by (simp add: mailmsg_mailbox_a2b_matrix_isr_def set_observation_def k_sem_give_def Let_def)

lemma isr_inv [wf_intros]: "cpu3_inv cfg w \<Longrightarrow> cpu3_inv cfg (mailmsg_mailbox_a2b_matrix_isr cfg i w)"
  using isr_wakes [of w cfg i] by (simp add: cpu3_inv_def)

lemma same_service_inv: "same_service p w w' \<Longrightarrow> cpu3_ok cfg w' \<Longrightarrow> cpu3_inv cfg w \<Longrightarrow> cpu3_inv cfg w'"
  by (simp add: same_service_def cpu3_inv_def)

lemma session_ready_inv:
  assumes "cpu3_inv cfg w"
  shows "\<exists>w'. mailmsg_service_session_ready cfg w = Some w' \<and> cpu3_inv cfg w'"
proof (cases "\<not> mailmsg_endpoint_ready w \<or> mailmsg_session_ready_published w \<or> mailmsg_session_ready_committed w")
  case True
  with assms show ?thesis
    by (auto simp: mailmsg_service_session_ready_def cpu3_inv_def cpu3_ok_def Let_def split: prod.splits)
next
  case False
  from assms have ok: "cpu3_ok cfg w" by (simp add: cpu3_inv_def)
  let ?g = "ep_generation (cpu3_endpoint w)"
  obtain ret result w1 where r: "cpu3_send cfg 0 MAILMSG_MSG_SESSION_READY (session_payload ?g) 8 w = Some (ret, result, w1)"
    "cpu3_ok cfg w1" "same_service 0 w w1"
    by (rule cpu3_send_spec [OF ok, of 0 8 "session_payload ?g" MAILMSG_MSG_SESSION_READY]) simp_all
  have inv: "cpu3_inv cfg w1" by (rule same_service_inv [OF r(3,2) assms])
  have full: "cpu3_inv cfg (mailmsg_record_tx_full 0 MAILMSG_MSG_SESSION_READY result w1)"
    by (rule same_service_inv [OF record_tx_full_same(2) _ inv]) (simp add: record_tx_full_same r(2))
  show ?thesis using False r(1) inv full
    by (simp add: mailmsg_service_session_ready_def) (simp add: cpu3_inv_def cpu3_ok_def)
qed

lemma serve_request_inv: "cpu3_inv cfg (cpu3_serve_request cfg w) = cpu3_inv cfg w"
  by (simp add: cpu3_serve_request_def mailmsg_send_b2a_ack_def set_observation_def cpu3_inv_def cpu3_ok_def Let_def)

lemma main_pass_inv:
  assumes "cpu3_inv cfg w"
  shows "\<exists>w'. cpu3_main_pass cfg w = Some w' \<and> cpu3_inv cfg w'"
proof -
  have "\<exists>w'. (if cfg_skip_session_ready cfg then Some (cpu3_serve_request cfg w)
      else mailmsg_service_session_ready cfg (cpu3_serve_request cfg w)) = Some w' \<and> cpu3_inv cfg w'"
    using session_ready_inv [of cfg "cpu3_serve_request cfg w"] assms by (simp add: serve_request_inv)
  then show ?thesis
    by (auto simp: cpu3_main_pass_def r1_amp_checkpoint_c_def cpu3_inv_def cpu3_ok_def Let_def split: if_splits)
qed

subsection \<open>The transition system\<close>

text \<open>What the Linux side may do to the shared state: anything that keeps the rings well formed and the session.\<close>

definition linux_acts :: "cpu3_state \<Rightarrow> mbox_regs \<Rightarrow> amp_page \<Rightarrow> bool" where
  "linux_acts w regs pg \<longleftrightarrow> shared_wf (pg_mailmsg pg) \<and>
     shm_magic (pg_mailmsg pg) = shm_magic (pg_mailmsg (c_page w)) \<and>
     shm_version (pg_mailmsg pg) = shm_version (pg_mailmsg (c_page w)) \<and>
     shm_generation (pg_mailmsg pg) = shm_generation (pg_mailmsg (c_page w))"

inductive cpu3_step :: "cpu3_config \<Rightarrow> cpu3_state \<Rightarrow> cpu3_state \<Rightarrow> bool" for cfg where
  isr: "\<not> c_halted w \<Longrightarrow> c_irq_enabled w \<Longrightarrow> i < 4 \<Longrightarrow> a2b_pending (c_regs w) i \<Longrightarrow>
    cpu3_step cfg w (mailmsg_mailbox_a2b_matrix_isr cfg i w)"
| worker: "\<not> c_halted w \<Longrightarrow> mailmsg_work_sem w \<noteq> 0 \<Longrightarrow> mailmsg_worker cfg w = Some w' \<Longrightarrow> cpu3_step cfg w w'"
| main: "\<not> c_halted w \<Longrightarrow> cpu3_main_pass cfg w = Some w' \<Longrightarrow> cpu3_step cfg w w'"
| linux: "linux_acts w regs pg \<Longrightarrow> cpu3_step cfg w (w\<lparr>c_regs := regs, c_page := pg\<rparr>)"

inductive cpu3_reachable :: "cpu3_config \<Rightarrow> cpu3_state \<Rightarrow> bool" for cfg where
  boot: "shared_wf (pg_mailmsg pg) \<Longrightarrow> session_announced (pg_mailmsg pg) \<Longrightarrow>
    cpu3_main_init cfg (fresh_cpu3 regs pg) = Some w \<Longrightarrow> cpu3_reachable cfg w"
| step: "cpu3_reachable cfg w \<Longrightarrow> cpu3_step cfg w w' \<Longrightarrow> cpu3_reachable cfg w'"

lemma linux_acts_inv: "linux_acts w regs pg \<Longrightarrow> cpu3_inv cfg w \<Longrightarrow> cpu3_inv cfg (w\<lparr>c_regs := regs, c_page := pg\<rparr>)"
  using same_session_bound [of "cpu3_endpoint w" "pg_mailmsg (c_page w)" "cpu3_endpoint w" "pg_mailmsg pg" Cpu3_to_linux Linux_to_cpu3]
  by (simp add: linux_acts_def cpu3_inv_def cpu3_ok_def same_session_def)

lemma cpu3_step_inv: "cpu3_step cfg w w' \<Longrightarrow> cpu3_inv cfg w \<Longrightarrow> cpu3_inv cfg w'"
proof (induction rule: cpu3_step.induct)
  case (worker w w')
  then show ?case using worker_inv [of cfg w] by simp
next
  case (main w w')
  then show ?case using main_pass_inv [of cfg w] by simp
qed (simp_all add: isr_inv linux_acts_inv)

lemma main_init_inv:
  assumes "shared_wf (pg_mailmsg pg)" and "session_announced (pg_mailmsg pg)"
  shows "\<exists>w. cpu3_main_init cfg (fresh_cpu3 regs pg) = Some w \<and> cpu3_inv cfg w"
proof -
  obtain v where v: "cpu3_main_init cfg (fresh_cpu3 regs pg) =
      (if cfg_skip_session_ready cfg then Some v else mailmsg_service_session_ready cfg v)"
    "cpu3_ok cfg v" "mailmsg_endpoint_ready v" "mailmsg_work_sem v = 0" "mailmsg_pending_priorities v = 0"
    by (rule main_init_before [OF assms])
  then have "cpu3_inv cfg v" by (simp add: cpu3_inv_def)
  with v(1) session_ready_inv [of cfg v] show ?thesis by simp
qed

lemma cpu3_reachable_inv: "cpu3_reachable cfg w \<Longrightarrow> cpu3_inv cfg w"
proof (induction rule: cpu3_reachable.induct)
  case (boot pg regs w)
  then show ?case using main_init_inv [of pg cfg regs] by simp
next
  case (step w w')
  then show ?case by (simp add: cpu3_step_inv)
qed

subsection \<open>The worker\<close>

text \<open>A worker pass with something pending is one call of the service.\<close>

definition service_start :: "cpu3_state \<Rightarrow> cpu3_state" where
  "service_start w = w\<lparr>mailmsg_work_sem := 0, mailmsg_worker_wake_count := mailmsg_worker_wake_count w + 1,
     mailmsg_pending_priorities := 0, mailmsg_worker_drain_count := mailmsg_worker_drain_count w + 1\<rparr>"

lemma service_start_simps [simp]:
  "cpu3_ok cfg (service_start w) = cpu3_ok cfg w" "cpu3_endpoint (service_start w) = cpu3_endpoint w"
  "c_page (service_start w) = c_page w" "c_regs (service_start w) = c_regs w"
  "mailmsg_endpoint_ready (service_start w) = mailmsg_endpoint_ready w"
  "mailmsg_session_ready_published (service_start w) = mailmsg_session_ready_published w"
  "c_halted (service_start w) = c_halted w" "c_irq_enabled (service_start w) = c_irq_enabled w"
  "mailmsg_pending_priorities (service_start w) = 0" "mailmsg_work_sem (service_start w) = 0"
  by (simp_all add: service_start_def cpu3_ok_def)

lemma worker_service:
  assumes "cpu3_inv cfg w" and "mailmsg_pending_priorities w \<noteq> 0"
    and "cfg_skip_session_ready cfg \<or> mailmsg_session_ready_published w"
    and "service_priorities cfg (mailmsg_pending_priorities w) [0, 1, 2, 3] 0 MAILMSG_PRIORITY_COUNT 0 (service_start w) =
      Some (w1, msgs, lst, re)"
  shows "mailmsg_worker cfg w = Some (if c_halted w1 then w1 else
    mailmsg_publish_worker_observation (mailmsg_pending_priorities w) lst
      (let w = w1\<lparr>mailmsg_worker_message_count := mailmsg_worker_message_count w1 + msgs\<rparr> in
       if re \<noteq> 0 then k_sem_give (w\<lparr>mailmsg_pending_priorities := mailmsg_pending_priorities w OR re\<rparr>) else w))"
proof -
  have sem: "mailmsg_work_sem w = 1" using assms(1,2) by (simp add: cpu3_inv_def)
  have eq: "w\<lparr>mailmsg_work_sem := 0, mailmsg_worker_wake_count := mailmsg_worker_wake_count w + 1, mailmsg_pending_priorities := 0,
      mailmsg_worker_drain_count := mailmsg_worker_drain_count w + 1\<rparr> = service_start w" by (simp add: service_start_def)
  have "mailmsg_endpoint_ready (service_start w)" using assms(1) by (simp add: cpu3_inv_def)
  moreover have "\<not> (\<not> cfg_skip_session_ready cfg \<and> \<not> mailmsg_session_ready_published (service_start w))"
    using assms(3) by simp
  ultimately have "mailmsg_pingpong_test_service cfg (mailmsg_pending_priorities w) MAILMSG_PRIORITY_COUNT 0 (service_start w) =
      Some (w1, msgs, lst, re)"
    unfolding mailmsg_pingpong_test_service_def assms(4) by (simp only: if_False not_True_eq_False simp_thms)
  then show ?thesis using assms(2) sem by (simp add: mailmsg_worker_def eq Let_def)
qed

lemma worker_refines:
  assumes "cpu3_inv cfg w" and "\<not> c_halted w" and "mailmsg_pending_priorities w \<noteq> 0"
    and "cfg_skip_session_ready cfg \<or> mailmsg_session_ready_published w"
    and "\<forall>p < 4. chosen cfg (mailmsg_pending_priorities w) p \<longrightarrow> well_formed_input cfg w p"
  obtains w' where "mailmsg_worker cfg w = Some w'" "cpu3_inv cfg w'" "\<not> c_halted w'"
    "mailmsg_pending_priorities w' = 0" "mailmsg_work_sem w' = 0"
    "service_view w' = serve_queues (ep_generation (cpu3_endpoint w)) (chosen cfg (mailmsg_pending_priorities w))
       [0, 1, 2, 3] (service_view w)"
    "ep_generation (cpu3_endpoint w') = ep_generation (cpu3_endpoint w)"
    "mailmsg_session_ready_published w' = mailmsg_session_ready_published w" "c_irq_enabled w' = c_irq_enabled w"
proof -
  let ?v = "service_start w"
  have v: "cpu3_ok cfg ?v" "\<not> c_halted ?v" using assms(1,2) by (simp_all add: cpu3_inv_def)
  have inp: "\<forall>p \<in> set [0, 1, 2, 3]. chosen cfg (mailmsg_pending_priorities w) p \<longrightarrow> well_formed_input cfg ?v p"
    using assms(5) [rule_format, of 0] assms(5) [rule_format, of 1] assms(5) [rule_format, of 2] assms(5) [rule_format, of 3]
    by (simp add: well_formed_input_def)
  obtain w1 msgs lst where 1: "service_priorities cfg (mailmsg_pending_priorities w) [0, 1, 2, 3] 0 MAILMSG_PRIORITY_COUNT 0 ?v =
      Some (w1, msgs, lst, 0)" "cpu3_ok cfg w1" "same_flags ?v w1"
    "service_view w1 = serve_queues (ep_generation (cpu3_endpoint ?v)) (chosen cfg (mailmsg_pending_priorities w)) [0, 1, 2, 3] (service_view ?v)"
    using service_priorities_refines [OF v _ _ inp, of 0 MAILMSG_PRIORITY_COUNT 0] by auto
  have view: "service_view ?v = service_view w" by (rule service_view_cong) simp_all
  let ?w = "mailmsg_publish_worker_observation (mailmsg_pending_priorities w) lst
      (w1\<lparr>mailmsg_worker_message_count := mailmsg_worker_message_count w1 + msgs\<rparr>)"
  have view': "service_view ?w = service_view w1" by (rule service_view_cong) simp_all
  from 1(3) have f: "mailmsg_pending_priorities w1 = 0" "mailmsg_work_sem w1 = 0" "c_halted w1 = c_halted w"
    "ep_generation (cpu3_endpoint w1) = ep_generation (cpu3_endpoint w)" "mailmsg_endpoint_ready w1 = mailmsg_endpoint_ready w"
    "mailmsg_session_ready_published w1 = mailmsg_session_ready_published w" "c_irq_enabled w1 = c_irq_enabled w"
    by (simp_all add: same_flags_def)
  have e: "mailmsg_worker cfg w = Some ?w" using worker_service [OF assms(1,3,4) 1(1)] f(3) assms(2) by simp
  show thesis
    by (rule that [OF e]) (use f 1(2,4) view view' assms(1,2) in \<open>simp_all add: cpu3_inv_def cpu3_ok_def\<close>)
qed

subsection \<open>Stop and error handling of the worker\<close>

text \<open>With only the critical priority pending, the pass serves priority 0 alone.\<close>

lemma service_priorities_0:
  assumes "service_priority cfg MAILMSG_WORKER_DRAIN_QUOTA 0 (cfg_stack_message cfg) 0 0 w = Some (w1, msgs, k)"
    and "cfg_skip_priority cfg \<noteq> 0" and "c_halted w1 \<or> k < MAILMSG_WORKER_DRAIN_QUOTA"
  shows "service_priorities cfg 1 [0, 1, 2, 3] 0 lst 0 w = Some (w1, msgs, 0, 0)"
  using assms by (auto simp del: service_priority.simps)

text \<open>A frame that asks for the stop, in the firmware's session.\<close>

definition stop_request :: "u32 \<Rightarrow> mailmsg_message \<Rightarrow> bool" where
  "stop_request g f \<longleftrightarrow> receive_status g f = 0 \<and> msg_type f = MAILMSG_MSG_STOP_REQUEST \<and> msg_length f = 0"

definition stop_reply :: "u32 \<Rightarrow> u32 \<Rightarrow> mailmsg_message \<Rightarrow> u32 \<Rightarrow> u32 \<Rightarrow> mailmsg_message" where
  "stop_reply g ty f status s = seal (send_message g ty s (feedback_payload (msg_sequence f) status) MAILMSG_FEEDBACK_BYTES)"

lemma service_stop:
  assumes "cpu3_ok cfg w" and "fw_in w 0 = f # fs" and "stop_request (ep_generation (cpu3_endpoint w)) f"
    and "cfg_enable_stop_control cfg" and "length (fw_out w 0) < 7"
  obtains w' where "service_priority cfg (Suc n) 0 m msgs h w = Some (mailmsg_cpu_off_after_ready cfg w', msgs + 1, Suc h)"
    "cpu3_ok cfg w'" "same_service 0 w w'" "fw_in w' 0 = fs"
    "fw_out w' 0 = fw_out w 0 @ [stop_reply (ep_generation (cpu3_endpoint w)) MAILMSG_MSG_STOP_READY f 0
       (next_seq (ep_next_sequence (cpu3_endpoint w)))]"
    "c_regs w' = snd (mailmsg_cpu3_notify (cfg_mbox_write cfg) (c_regs w) 0)"
proof (cases rule: fw_receive_cases [OF assms(1), of 0 m, case_names lt empty incomplete frame])
  case (incomplete f' fs' ep)
  with assms(2,3) show thesis by (auto simp: receive_status_def stop_request_def)
next
  case (frame f' fs' ep sh w1)
  have eq: "f' = f" "fs' = fs" using frame(1) assms(2) by auto
  note frame = frame [unfolded eq]
  have w1: "length (fw_out w1 0) < 7" "ep_generation (cpu3_endpoint w1) = ep_generation (cpu3_endpoint w)"
    "ep_next_sequence (cpu3_endpoint w1) = ep_next_sequence (cpu3_endpoint w)" "fw_out w1 0 = fw_out w 0"
    using assms(5) frame(6,8) by (simp_all add: same_service_def del: length_ring_frames)
  obtain w' where a: "mailmsg_send_stop_feedback cfg MAILMSG_MSG_STOP_READY (msg_sequence f) 0 w1 =
      Some (length (fw_out w1 0) < 7, w')" "cpu3_ok cfg w'" "same_service 0 w1 w'" "fw_in w' 0 = fw_in w1 0"
    "fw_queue w' 0 = push_reply (ep_generation (cpu3_endpoint w1)) (MAILMSG_MSG_STOP_READY, feedback_payload (msg_sequence f) 0, 8) (fw_queue w1 0)"
    "c_regs w' = (if length (fw_out w1 0) < 7
       then snd (mailmsg_cpu3_notify (cfg_mbox_write cfg) (c_regs w1) 0) else c_regs w1)"
    by (rule stop_feedback_spec [OF frame(5), of MAILMSG_MSG_STOP_READY "msg_sequence f" 0])
  have e: "service_priority cfg (Suc n) 0 m msgs h w = Some (mailmsg_cpu_off_after_ready cfg w', msgs + 1, Suc h)"
    using frame(3,4) assms(3,4) a(1) w1(1) by (simp add: stop_request_def del: length_ring_frames)
  show thesis
    by (rule that [OF e a(2) same_service_trans [OF frame(6) a(3)]])
       (use a(4-6) w1 frame(7,9) in \<open>simp_all add: push_reply_def stop_reply_def del: length_ring_frames\<close>)
qed (use assms(2) in simp_all)

lemma worker_stop:
  assumes "cpu3_inv cfg w" and "\<not> c_halted w" and "mailmsg_pending_priorities w = 1"
    and "cfg_skip_session_ready cfg \<or> mailmsg_session_ready_published w" and "cfg_skip_priority cfg \<noteq> 0"
    and "fw_in w 0 = f # fs" and "stop_request (ep_generation (cpu3_endpoint w)) f"
    and "cfg_enable_stop_control cfg" and "length (fw_out w 0) < 7"
  obtains w' where "mailmsg_worker cfg w = Some (mailmsg_cpu_off_after_ready cfg w')" "cpu3_inv cfg w'" "fw_in w' 0 = fs"
    "fw_out w' 0 = fw_out w 0 @ [stop_reply (ep_generation (cpu3_endpoint w)) MAILMSG_MSG_STOP_READY f 0
       (next_seq (ep_next_sequence (cpu3_endpoint w)))]"
    "c_regs w' = snd (mailmsg_cpu3_notify (cfg_mbox_write cfg) (c_regs w) 0)"
    "\<And>q. q < 4 \<Longrightarrow> q \<noteq> 0 \<Longrightarrow> fw_in w' q = fw_in w q \<and> fw_out w' q = fw_out w q"
    "shm_generation (pg_mailmsg (c_page w')) = ep_generation (cpu3_endpoint w)"
proof -
  let ?v = "service_start w"
  have ok: "cpu3_ok cfg ?v" using assms(1) by (simp add: cpu3_inv_def)
  obtain w' where s: "service_priority cfg (Suc 6) 0 (cfg_stack_message cfg) 0 0 ?v = Some (mailmsg_cpu_off_after_ready cfg w', 0 + 1, Suc 0)"
    "cpu3_ok cfg w'" "same_service 0 ?v w'" "fw_in w' 0 = fs"
    "fw_out w' 0 = fw_out ?v 0 @ [stop_reply (ep_generation (cpu3_endpoint ?v)) MAILMSG_MSG_STOP_READY f 0
       (next_seq (ep_next_sequence (cpu3_endpoint ?v)))]"
    "c_regs w' = snd (mailmsg_cpu3_notify (cfg_mbox_write cfg) (c_regs ?v) 0)"
    by (rule service_stop [OF ok, of f fs 6 "cfg_stack_message cfg" 0 0]) (use assms in simp_all)
  have p: "service_priorities cfg (mailmsg_pending_priorities w) [0, 1, 2, 3] 0 MAILMSG_PRIORITY_COUNT 0 ?v =
      Some (mailmsg_cpu_off_after_ready cfg w', 1, 0, 0)"
    unfolding assms(3) by (rule service_priorities_0) (use s(1) assms(5) in \<open>simp_all del: service_priority.simps\<close>)
  have e: "mailmsg_worker cfg w = Some (mailmsg_cpu_off_after_ready cfg w')"
    using worker_service [OF assms(1) _ assms(4) p] assms(3) by simp
  have "shm_generation (pg_mailmsg (c_page w')) = ep_generation (cpu3_endpoint w')"
    using s(2) by (auto simp: cpu3_ok_def endpoint_bound_def mailmsg_endpoint_session_valid_def split: if_splits)
  then show thesis
    by (intro that [OF e]) (use s(2-6) assms(1) in \<open>simp_all add: same_service_def cpu3_inv_def\<close>)
qed

text \<open>A bad frame at the head: the pass ends, and nothing is left to wake the worker for the frames behind it.\<close>

lemma worker_bad_head:
  assumes "cpu3_inv cfg w" and "\<not> c_halted w" and "mailmsg_pending_priorities w = 1"
    and "cfg_skip_session_ready cfg \<or> mailmsg_session_ready_published w" and "cfg_skip_priority cfg \<noteq> 0"
    and "fw_in w 0 = f # fs"
    and "receive_status (ep_generation (cpu3_endpoint w)) f \<in> {MAILMSG_RING_BAD_CRC, MAILMSG_RING_INVALID}"
  obtains w' where "mailmsg_worker cfg w = Some w'" "fw_in w' 0 = fs" "mailmsg_pending_priorities w' = 0" "mailmsg_work_sem w' = 0"
proof -
  let ?v = "service_start w"
  have ok: "cpu3_ok cfg ?v" using assms(1) by (simp add: cpu3_inv_def)
  obtain w1 where s: "service_priority cfg (Suc 6) 0 (cfg_stack_message cfg) 0 0 ?v = Some (w1, 0 + 1, Suc 0)" "same_service 0 ?v w1" "fw_in w1 0 = fs"
    using service_priority_bad [OF ok, of 0 f fs 6 "cfg_stack_message cfg" 0 0] assms(6,7) by auto
  have p: "service_priorities cfg (mailmsg_pending_priorities w) [0, 1, 2, 3] 0 MAILMSG_PRIORITY_COUNT 0 ?v = Some (w1, 1, 0, 0)"
    unfolding assms(3) by (rule service_priorities_0 [of _ _ _ _ 1]) (use s(1) assms(5) in \<open>simp_all del: service_priority.simps\<close>)
  have "c_halted w1 = c_halted w" "mailmsg_pending_priorities w1 = 0" "mailmsg_work_sem w1 = 0" using s(2) by (simp_all add: same_service_def)
  with worker_service [OF assms(1) _ assms(4) p] assms(2,3) s(3) show thesis
    by (intro that [of "mailmsg_publish_worker_observation 1 0 (w1\<lparr>mailmsg_worker_message_count := mailmsg_worker_message_count w1 + 1\<rparr>)"])
       simp_all
qed

subsection \<open>The interrupt handler\<close>

lemma isr_protocol:
  assumes "c_regs w (A2B_CMD (i mod 4)) AND 0xfffffff0 = AMP_MBOX_PROTOCOL_CMD"
  shows "mailmsg_pending_priorities (mailmsg_mailbox_a2b_matrix_isr cfg i w) = mailmsg_pending_priorities w OR BIT (i mod 4)"
    "0 < mailmsg_work_sem (mailmsg_mailbox_a2b_matrix_isr cfg i w)"
    "c_regs (mailmsg_mailbox_a2b_matrix_isr cfg i w) = cfg_mbox_write cfg (c_regs w) A2B_STATUS (BIT (i mod 4))"
    "mailmsg_irq_count (mailmsg_mailbox_a2b_matrix_isr cfg i w) = mailmsg_irq_count w + 1"
  using assms by (simp_all add: mailmsg_mailbox_a2b_matrix_isr_def set_observation_def k_sem_give_def Let_def)

lemma u32_mod_4: "i < 4 \<Longrightarrow> i mod 4 = i" for i :: u32
  by (simp add: word_mod_less_divisor unat_arith_simps)

context mailbox_hw
begin

lemma bit_and_not_BIT: "ch < 4 \<Longrightarrow> c < 4 \<Longrightarrow> bit (x AND NOT (BIT ch)) (unat c) \<longleftrightarrow> bit x (unat c) \<and> c \<noteq> ch" for x ch c :: u32
  by (auto simp: bit_simps word_unat_eq_iff dest: less_trans [OF unat_less_4])

lemma isr_acknowledges:
  assumes "cfg_mbox_write cfg = wr" and "i < 4" and "q < 4"
    and "c_regs w (A2B_CMD i) AND 0xfffffff0 = AMP_MBOX_PROTOCOL_CMD"
  shows "a2b_pending (c_regs (mailmsg_mailbox_a2b_matrix_isr cfg i w)) q \<longleftrightarrow> a2b_pending (c_regs w) q \<and> q \<noteq> i"
    "b2a_pending (c_regs (mailmsg_mailbox_a2b_matrix_isr cfg i w)) q = b2a_pending (c_regs w) q"
  using assms isr_protocol(3) [of w i cfg]
  by (simp_all add: u32_mod_4 a2b_pending_def b2a_pending_def a2b_w1c a2b_b2a bit_and_not_BIT del: push_bit_of_1)

end

end
