(* ===== verification/Amp_Handshake.thy ===== *)
theory Amp_Handshake
  imports Amp_Safety Cpu3_Steps
begin

text \<open>
  The lifecycle handshakes of the Linux side in full: what a start announces, what opens
  the data plane, the controlled stop, the timeout and rearm.
\<close>

subsection \<open>Frames from the peer\<close>

text \<open>One more frame in a ring of the region, whoever wrote it.\<close>

definition queue_frame :: "ring_array \<Rightarrow> u32 \<Rightarrow> mailmsg_message \<Rightarrow> amp_page \<Rightarrow> amp_page" where
  "queue_frame a p f pg = pg\<lparr>pg_mailmsg := set_shared_ring (pg_mailmsg pg) a p (ring_put (shared_ring (pg_mailmsg pg) a p) f)\<rparr>"

lemma queue_frame_inv [wf_intros]:
  assumes "driver_inv wr d pg" and "message_wf f" and "p < 4"
  shows "driver_inv wr d (queue_frame a p f pg)"
proof -
  let ?r = "ring_put (shared_ring (pg_mailmsg pg) a p) f"
  note wf = driver_inv_bound(2,3) [OF assms(1)]
  have "shared_wf (set_shared_ring (pg_mailmsg pg) a p ?r)"
    using wf(1) assms(2,3) by (intro wf_intros)
  then have "same_session (d_endpoint d) (pg_mailmsg pg) (d_endpoint d) (set_shared_ring (pg_mailmsg pg) a p ?r)"
    using wf(2) by (simp add: same_session_def)
  from driver_inv_endpoint [OF assms(1) this] show ?thesis by (simp add: queue_frame_def)
qed

lemma queue_frame_frames:
  assumes "shared_wf (pg_mailmsg pg)" and "p < 4" and "q < 4" and "ring_depth (shared_ring (pg_mailmsg pg) a p) < 7"
  shows "ring_frames (shared_ring (pg_mailmsg (queue_frame a p f pg)) b q) =
    ring_frames (shared_ring (pg_mailmsg pg) b q) @ (if a = b \<and> p = q then [f] else [])"
  using ring_frames_put [OF shared_ring_wf [OF assms(1,2)] assms(4)] assms(1-3) by (auto simp: queue_frame_def shared_ring_set)

lemma empty_ring_queue [simp]: "ring_depth empty_ring = 0" "ring_frames empty_ring = []"
  by (simp_all add: ring_depth_def empty_ring_def ring_frames_def)

lemma send_message_u32:
  assumes "off + 3 < unat len" and "unat len \<le> length bs"
  shows "mailmsg_payload_u32 (msg_payload (send_message g ty s bs len)) off = mailmsg_payload_u32 bs off"
  using assms by (simp add: mailmsg_payload_u32_def send_message_def nth_append)

lemma session_payload_u32:
  "mailmsg_payload_u32 (msg_payload (ready_frame g)) 0 = g" "mailmsg_payload_u32 (msg_payload (ready_frame g)) 4 = MAILMSG_PROTOCOL_VERSION"
  by (simp_all add: ready_frame_def send_message_u32) (simp_all add: session_payload_def load_store_u32 load_store_u32_other)

lemma ready_frame_matches:
  "session_ready_matches d (ready_frame g) \<longleftrightarrow> session_generation d = g" "message_wf (ready_frame g)"
  "g \<noteq> 0 \<Longrightarrow> receive_status g (ready_frame g) = 0"
proof -
  show "session_ready_matches d (ready_frame g) \<longleftrightarrow> session_generation d = g"
    using session_payload_u32 [of g] by (auto simp: session_ready_matches_def) (simp_all add: ready_frame_def)
  show "message_wf (ready_frame g)" by (simp add: ready_frame_def send_message_wf)
  show "g \<noteq> 0 \<Longrightarrow> receive_status g (ready_frame g) = 0"
    by (simp add: ready_frame_def receive_status_def frame_status_seal send_message_valid)
qed

subsection \<open>The first reply\<close>

text \<open>The control work on a queue whose first frame ends the scan.\<close>

lemma control_frame_mark:
  "control_frame env n (d\<lparr>control_work := b\<rparr>) f = ((fst (control_frame env n d f))\<lparr>control_work := b\<rparr>, snd (control_frame env n d f))"
  by (simp add: control_frame_def r1_amp_mailmsg_set_timeout_locked_def session_ready_matches_def stop_reply_matches_def)

lemma control_work_first:
  assumes "driver_inv wr d pg" and "lifecycle_pending (mailmsg_state d)" and "rx_frames pg 0 = f # fs"
    and "receive_status (session_generation d) f = 0" and "\<not> snd (control_frame env 1 d f)"
    and "\<not> time_after_eq (jiffies env 0) (lifecycle_deadline d)"
  obtains ep sh where "r1_amp_mailmsg_control_work env m d pg =
      Some ((fst (control_frame env 1 d f))\<lparr>control_work := False, d_endpoint := ep\<rparr>, pg\<lparr>pg_mailmsg := sh\<rparr>)"
    "drained Cpu3_to_linux 0 (d_endpoint d) (pg_mailmsg pg) ep sh" "ring_frames (shared_ring sh Cpu3_to_linux 0) = fs"
proof -
  have gen: "ep_generation (d_endpoint d) = session_generation d"
    using assms(1) lifecycle_pending_may_run [OF assms(2)] by (simp add: driver_inv_def lifecycle_inv_def)
  have st: "frame_status f \<noteq> MAILMSG_RING_INCOMPLETE" using receive_ok_frame(1) [OF assms(4)] by simp
  show thesis
  proof (cases rule: control_work_cases [OF assms(1), of env m, case_names idle expired scan])
    case (scan ep sh d1)
    then have "d1 = (fst (control_frame env 1 d f))\<lparr>control_work := False\<rparr>" "ring_frames (shared_ring sh Cpu3_to_linux 0) = fs"
      unfolding assms(3) control_scan_frame [OF st] using assms(4,5) gen by (simp_all add: control_frame_mark)
    with scan(4,5) that show thesis by simp
  qed (use assms in simp_all)
qed


lemma control_work_ready:
  assumes "driver_inv wr d pg" and "mailmsg_state d = R1_AMP_MAILMSG_STARTING" and "rx_frames pg 0 = ready_frame (session_generation d) # fs"
    and "\<not> time_after_eq (jiffies env 0) (lifecycle_deadline d)" and "\<not> time_after_eq (jiffies env 1) (lifecycle_deadline d)"
  obtains ep sh where "r1_amp_mailmsg_control_work env m d pg =
      Some (d\<lparr>peer_generation := session_generation d, session_result := 0, affinity_seen_on := True,
        mailmsg_state := R1_AMP_MAILMSG_ACTIVE, lifecycle_timeout_work := None, control_work := False, d_endpoint := ep\<rparr>, pg\<lparr>pg_mailmsg := sh\<rparr>)"
    "drained Cpu3_to_linux 0 (d_endpoint d) (pg_mailmsg pg) ep sh" "ring_frames (shared_ring sh Cpu3_to_linux 0) = fs"
proof -
  let ?g = "session_generation d"
  have g: "?g \<noteq> 0" using assms(1,2) driver_inv_bound(1) [OF assms(1)]
    by (auto simp: driver_inv_def lifecycle_inv_def endpoint_bound_def dest!: session_valid_0D(1))
  have fr: "control_frame env 1 d (ready_frame ?g) = (d\<lparr>peer_generation := ?g, session_result := 0, affinity_seen_on := True,
      mailmsg_state := R1_AMP_MAILMSG_ACTIVE, lifecycle_timeout_work := None\<rparr>, False)"
    using assms(2,5) by (simp add: control_frame_def ready_frame_matches)
  have "\<not> snd (control_frame env 1 d (ready_frame ?g))" "lifecycle_pending (mailmsg_state d)" unfolding fr using assms(2) by simp_all
  from control_work_first [OF assms(1) this(2) assms(3) ready_frame_matches(3) [OF g] this(1) assms(4), of m, unfolded fr fst_conv]
  show thesis using that by blast
qed

lemma control_work_stop_ready:
  assumes "driver_inv wr d pg" and "mailmsg_state d = R1_AMP_MAILMSG_STOPPING" and "rx_frames pg 0 = f # fs"
    and "receive_status (session_generation d) f = 0" and "stop_reply_matches d f" and "msg_type f = MAILMSG_MSG_STOP_READY"
    and "\<not> time_after_eq (jiffies env 0) (lifecycle_deadline d)" and "\<not> time_after_eq (jiffies env 1) (lifecycle_deadline d)"
  obtains ep sh where "r1_amp_mailmsg_control_work env m d pg =
      Some (d\<lparr>stop_reply_type := MAILMSG_MSG_STOP_READY, stop_result := 0,
        lifecycle_deadline := jiffies env (Suc 1) + msecs_to_jiffies env R1_AMP_LIFECYCLE_TIMEOUT_MS,
        lifecycle_timeout_work := Some (msecs_to_jiffies env R1_AMP_LIFECYCLE_TIMEOUT_MS), control_work := False, d_endpoint := ep\<rparr>,
        pg\<lparr>pg_mailmsg := sh\<rparr>)"
    "drained Cpu3_to_linux 0 (d_endpoint d) (pg_mailmsg pg) ep sh" "ring_frames (shared_ring sh Cpu3_to_linux 0) = fs"
proof -
  have fr: "control_frame env 1 d f = (d\<lparr>stop_reply_type := MAILMSG_MSG_STOP_READY, stop_result := 0,
        lifecycle_deadline := jiffies env (Suc 1) + msecs_to_jiffies env R1_AMP_LIFECYCLE_TIMEOUT_MS,
        lifecycle_timeout_work := Some (msecs_to_jiffies env R1_AMP_LIFECYCLE_TIMEOUT_MS)\<rparr>, False)"
    using assms(2,5,6,8) by (simp add: control_frame_def)
  have "\<not> snd (control_frame env 1 d f)" "lifecycle_pending (mailmsg_state d)" unfolding fr using assms(2) by simp_all
  from control_work_first [OF assms(1) this(2) assms(3,4) this(1) assms(7), of m, unfolded fr fst_conv]
  show thesis using that by blast
qed

subsection \<open>The data plane\<close>

text \<open>Claim C6.
  The data plane opens only for a peer that answered in this session: a call that takes
  the session state to ACTIVE is a run of the control work, and the critical ring held an
  intact frame of the current generation that is either SESSION_READY for this generation
  and protocol version (from STARTING) or STOP_REFUSED for the pending stop request (from
  STOPPING).
\<close>

theorem data_plane_opens_only_for_peer:
  assumes "sys_inv wr s" and "mbox_write env = wr" and "amp_exec env call s = Some s'"
    and "r1_amp_mailmsg_data_gate_locked (sys_data s) \<noteq> 0" and "r1_amp_mailmsg_data_gate_locked (sys_data s') = 0"
  shows "(\<exists>m. call = Control_work m) \<and> (\<exists>f \<in> set (rx_frames (sys_page s) 0). opens_data_plane (sys_data s) f)"
  using assms by (intro call_activates [OF assms(1-3)]) (simp_all add: gate_0_iff)

lemma board_fields [simp]:
  "lifecycle_deadline (board_data wr) = 0" "\<not> cpu_on_attempted (board_data wr)" "session_generation (board_data wr) = 0"
  "mailmsg_user_open_count (board_data wr) = 0" "mbox_regs0 (d_ctx (board_data wr)) = (\<lambda>_. 0)"
  "notify_inject_remaining (d_ctx (board_data wr)) = 0"
  by (simp_all add: board_eval)

lemma session_fields [simp]:
  "lifecycle_deadline (session_data st g wr) = 0" "mailmsg_user_open_count (session_data st g wr) = 0"
  "mbox_regs0 (d_ctx (session_data st g wr)) = (\<lambda>_. 0)"
  "notify_inject_remaining (d_ctx (session_data st g wr)) = 0"
  by (simp_all add: session_data_def)

lemma ready_session:
  assumes "g \<noteq> 0"
  obtains s' where "sys_inv wr \<lparr>sys_data = session_data R1_AMP_MAILMSG_STARTING g wr,
      sys_page = queue_frame Cpu3_to_linux 0 (ready_frame g) (session_page g), sys_files = []\<rparr>"
    "amp_exec (board_kernel 0 (- 1) wr) (Control_work zero_message) \<lparr>sys_data = session_data R1_AMP_MAILMSG_STARTING g wr,
      sys_page = queue_frame Cpu3_to_linux 0 (ready_frame g) (session_page g), sys_files = []\<rparr> = Some s'"
    "mailmsg_state (sys_data s') = R1_AMP_MAILMSG_ACTIVE"
proof -
  let ?d = "session_data R1_AMP_MAILMSG_STARTING g wr" and ?pg = "queue_frame Cpu3_to_linux 0 (ready_frame g) (session_page g)"
  have inv: "driver_inv wr ?d ?pg" using session_data_inv [OF assms] by (simp add: queue_frame_inv ready_frame_matches)
  have fs: "rx_frames ?pg 0 = [ready_frame g]" by (simp add: queue_frame_frames)
  have "sys_inv wr \<lparr>sys_data = ?d, sys_page = ?pg, sys_files = []\<rparr>"
    using session_sys_inv [OF assms, of R1_AMP_MAILMSG_STARTING wr] inv by (simp add: sys_inv_def)
  moreover obtain ep sh where "r1_amp_mailmsg_control_work (board_kernel 0 (- 1) wr) zero_message ?d ?pg =
      Some (?d\<lparr>peer_generation := session_generation ?d, session_result := 0, affinity_seen_on := True,
        mailmsg_state := R1_AMP_MAILMSG_ACTIVE, lifecycle_timeout_work := None, control_work := False, d_endpoint := ep\<rparr>, ?pg\<lparr>pg_mailmsg := sh\<rparr>)"
    by (rule control_work_ready [OF inv, of "[]" "board_kernel 0 (- 1) wr" zero_message]) (simp_all add: fs time_after_eq_def)
  ultimately show thesis using that by simp
qed

theorem data_plane_opens_only_for_peer_witness:
  "\<exists>f \<in> set (rx_frames (queue_frame Cpu3_to_linux 0 (ready_frame 5) (session_page 5)) 0).
     opens_data_plane (session_data R1_AMP_MAILMSG_STARTING 5 rk_mbox_write) f"
proof -
  obtain s' where s: "sys_inv rk_mbox_write \<lparr>sys_data = session_data R1_AMP_MAILMSG_STARTING 5 rk_mbox_write,
      sys_page = queue_frame Cpu3_to_linux 0 (ready_frame 5) (session_page 5), sys_files = []\<rparr>"
    "amp_exec (board_kernel 0 (- 1) rk_mbox_write) (Control_work zero_message)
      \<lparr>sys_data = session_data R1_AMP_MAILMSG_STARTING 5 rk_mbox_write,
       sys_page = queue_frame Cpu3_to_linux 0 (ready_frame 5) (session_page 5), sys_files = []\<rparr> = Some s'"
    "mailmsg_state (sys_data s') = R1_AMP_MAILMSG_ACTIVE" by (rule ready_session [of 5 rk_mbox_write]) simp
  from data_plane_opens_only_for_peer [OF s(1) _ s(2)] s(3) show ?thesis by (simp add: gate_0_iff del: amp_exec.simps)
qed

subsection \<open>Timeout\<close>

lemma timeout_returns:
  assumes "psci_affinity_info env = Some q"
  shows "\<exists>d'. r1_amp_mailmsg_lifecycle_timeout_work env d = Some d'"
  by (cases rule: timeout_work_cases [OF assms, of d]) blast+

lemma timeout_early:
  assumes "lifecycle_pending (mailmsg_state d)" and "time_before (jiffies env 0) (lifecycle_deadline d)"
  shows "r1_amp_mailmsg_lifecycle_timeout_work env d = Some (d\<lparr>lifecycle_timeout_work := Some (lifecycle_deadline d - jiffies env 1)\<rparr>)"
  using assms by (auto simp: r1_amp_mailmsg_lifecycle_timeout_work_def Let_def lifecycle_pending_def)

lemma timeout_leaves_pending:
  assumes "driver_inv wr d pg" and "lifecycle_pending (mailmsg_state d)" and "psci_affinity_info env = Some q"
    and "\<not> time_before (jiffies env 0) (lifecycle_deadline d)" and "r1_amp_mailmsg_lifecycle_timeout_work env d = Some d'"
  shows "mailmsg_state d' \<in> {R1_AMP_MAILMSG_START_TIMEOUT, R1_AMP_MAILMSG_STOP_TIMEOUT, R1_AMP_MAILMSG_OFFLINE}"
    "mailmsg_user d' = map wake_reader (mailmsg_user d)"
proof -
  have us: "wake_list (mailmsg_user d) = map wake_reader (mailmsg_user d)"
    using assms(1) by (simp add: driver_inv_def driver_wf_def users_wf_def wake_list_map)
  have "mailmsg_state d' \<in> {R1_AMP_MAILMSG_START_TIMEOUT, R1_AMP_MAILMSG_STOP_TIMEOUT, R1_AMP_MAILMSG_OFFLINE} \<and>
    mailmsg_user d' = map wake_reader (mailmsg_user d)"
  proof (cases rule: timeout_work_cases [OF assms(3), of d, case_names idle early offline expired])
    case (expired a i b)
    with assms(2,5) us show ?thesis
      by (auto simp: timed_out_def r1_amp_mailmsg_set_timeout_locked_def lifecycle_pending_def)
  qed (use assms us in auto)
  then show "mailmsg_state d' \<in> {R1_AMP_MAILMSG_START_TIMEOUT, R1_AMP_MAILMSG_STOP_TIMEOUT, R1_AMP_MAILMSG_OFFLINE}"
    "mailmsg_user d' = map wake_reader (mailmsg_user d)" by simp_all
qed

text \<open>Claim C18.
  A start or a stop never stays pending for ever: while it is pending the timeout work is
  armed; run before the deadline it arms itself again for the time that is left; run at or
  after the deadline it leaves the pending state (START_TIMEOUT, STOP_TIMEOUT, or OFFLINE
  when PSCI reports the CPU off after STOP_READY) and wakes the readers of all priorities.
\<close>

theorem pending_lifecycle_ends:
  assumes "driver_inv wr d pg" and "lifecycle_pending (mailmsg_state d)" and "psci_affinity_info env = Some q"
  shows "lifecycle_timeout_work d \<noteq> None \<and>
    (\<exists>d'. r1_amp_mailmsg_lifecycle_timeout_work env d = Some d' \<and> driver_inv wr d' pg \<and>
      (if time_before (jiffies env 0) (lifecycle_deadline d)
       then d' = d\<lparr>lifecycle_timeout_work := Some (lifecycle_deadline d - jiffies env 1)\<rparr>
       else mailmsg_state d' \<in> {R1_AMP_MAILMSG_START_TIMEOUT, R1_AMP_MAILMSG_STOP_TIMEOUT, R1_AMP_MAILMSG_OFFLINE} \<and>
         mailmsg_user d' = map wake_reader (mailmsg_user d)))"
proof -
  obtain d' where d': "r1_amp_mailmsg_lifecycle_timeout_work env d = Some d'" using timeout_returns [OF assms(3)] by blast
  note inv = timeout_work_inv(1) [OF assms(1) d' assms(3)]
  show ?thesis
  proof (cases "time_before (jiffies env 0) (lifecycle_deadline d)")
    case True
    with d' inv timeout_early [OF assms(2) True] assms(1,2) show ?thesis by (simp add: driver_inv_def lifecycle_inv_def)
  next
    case False
    with d' inv timeout_leaves_pending [OF assms(1,2,3) _ d'] assms(1,2) show ?thesis by (simp add: driver_inv_def lifecycle_inv_def)
  qed
qed

theorem pending_lifecycle_ends_witness:
  "\<exists>d'. r1_amp_mailmsg_lifecycle_timeout_work (board_kernel 0 7 rk_mbox_write) (session_data R1_AMP_MAILMSG_STOPPING 5 rk_mbox_write) = Some d' \<and>
     mailmsg_state d' \<in> {R1_AMP_MAILMSG_START_TIMEOUT, R1_AMP_MAILMSG_STOP_TIMEOUT, R1_AMP_MAILMSG_OFFLINE} \<and>
     mailmsg_user d' = map wake_reader (mailmsg_user (session_data R1_AMP_MAILMSG_STOPPING 5 rk_mbox_write))"
proof -
  have "\<not> time_before 7 (0 :: u64)" by (simp add: time_before_def)
  with pending_lifecycle_ends [OF session_data_inv [of 5 R1_AMP_MAILMSG_STOPPING rk_mbox_write], of "board_kernel 0 7 rk_mbox_write" "\<lambda>_. 0"]
  show ?thesis by (simp del: insert_iff) blast
qed

subsection \<open>The control work\<close>

text \<open>
  What the control work does, on the list of queued frames: nothing when no reply is
  awaited, the timeout when the deadline has passed, the scan otherwise.
\<close>

definition control_outcome :: "amp_env \<Rightarrow> r1_amp_cpu_on_data \<Rightarrow> mailmsg_message list \<Rightarrow> r1_amp_cpu_on_data \<times> mailmsg_message list" where
  "control_outcome env d fs =
     (let d = d\<lparr>control_work := False\<rparr> in
      if \<not> lifecycle_pending (mailmsg_state d) then (d, fs)
      else if time_after_eq (jiffies env 0) (lifecycle_deadline d) then (timed_out d, fs)
      else control_scan env 1 d fs)"

text \<open>Claim C19.
  On rings whose indices are in range the unbounded receive loop of the control work ends,
  whatever frames CPU3 left in them, and its result is the scan of the list of queued
  frames: the driver state is that of the scan up to the endpoint statistics, the frames
  behind the reply stay queued in order, and no other ring of the region changes.
\<close>

theorem control_work_terminates:
  assumes "driver_inv wr d pg"
  shows "\<exists>ep sh. r1_amp_mailmsg_control_work env m d pg =
      Some ((fst (control_outcome env d (rx_frames pg 0)))\<lparr>d_endpoint := ep\<rparr>, pg\<lparr>pg_mailmsg := sh\<rparr>) \<and>
    ring_frames (shared_ring sh Cpu3_to_linux 0) = snd (control_outcome env d (rx_frames pg 0)) \<and>
    drained Cpu3_to_linux 0 (d_endpoint d) (pg_mailmsg pg) ep sh"
proof -
  note same = drained_refl [OF driver_inv_bound(2,3) [OF assms], of Cpu3_to_linux 0]
  show ?thesis
  proof (cases rule: control_work_cases [OF assms, of env m, case_names idle expired scan])
    case idle
    with same show ?thesis by (intro exI [of _ "d_endpoint d"] exI [of _ "pg_mailmsg pg"]) (simp add: control_outcome_def)
  next
    case expired
    with same show ?thesis
      by (intro exI [of _ "d_endpoint d"] exI [of _ "pg_mailmsg pg"])
         (simp add: control_outcome_def timed_out_def r1_amp_mailmsg_set_timeout_locked_def)
  next
    case (scan ep sh d1)
    then show ?thesis
      by (intro exI [of _ ep] exI [of _ sh]) (simp add: control_outcome_def)
  qed
qed

lemma scan_stale_then_ready:
  assumes "mailmsg_state d = R1_AMP_MAILMSG_STARTING" and "receive_status (ep_generation (d_endpoint d)) f = MAILMSG_ENDPOINT_STALE_FRAME"
    and "frame_status f = 0" and "receive_status (ep_generation (d_endpoint d)) r = 0" and "frame_status r = 0"
    and "session_ready_matches d r" and "\<not> time_after_eq (jiffies env 1) (lifecycle_deadline d)"
  shows "control_scan env 1 d [f, r] = (d\<lparr>peer_generation := session_generation d, session_result := 0, affinity_seen_on := True,
    mailmsg_state := R1_AMP_MAILMSG_ACTIVE, lifecycle_timeout_work := None\<rparr>, [])"
  using assms by (simp add: control_error_def control_frame_def)

theorem control_work_terminates_witness:
  "\<exists>d' sh. r1_amp_mailmsg_control_work (board_kernel 0 (- 1) rk_mbox_write) zero_message
      (session_data R1_AMP_MAILMSG_STARTING 5 rk_mbox_write)
      (queue_frame Cpu3_to_linux 0 (ready_frame 5) (queue_frame Cpu3_to_linux 0 (ready_frame 4) (session_page 5))) =
      Some (d', (queue_frame Cpu3_to_linux 0 (ready_frame 5) (queue_frame Cpu3_to_linux 0 (ready_frame 4) (session_page 5)))\<lparr>pg_mailmsg := sh\<rparr>) \<and>
    mailmsg_state d' = R1_AMP_MAILMSG_ACTIVE \<and> ring_frames (shared_ring sh Cpu3_to_linux 0) = []"
proof -
  let ?d = "session_data R1_AMP_MAILMSG_STARTING 5 rk_mbox_write" and ?env = "board_kernel 0 (- 1) rk_mbox_write"
  let ?pg = "queue_frame Cpu3_to_linux 0 (ready_frame 5) (queue_frame Cpu3_to_linux 0 (ready_frame 4) (session_page 5))"
  have inv: "driver_inv rk_mbox_write ?d ?pg" by (intro wf_intros ready_frame_matches(2)) simp_all
  let ?pg1 = "queue_frame Cpu3_to_linux 0 (ready_frame 4) (session_page 5)"
  have inv1: "driver_inv rk_mbox_write ?d ?pg1" by (intro wf_intros ready_frame_matches(2)) simp_all
  have rx1: "rx_frames ?pg1 0 = [ready_frame 4]" by (simp add: queue_frame_frames)
  then have "ring_depth (shared_ring (pg_mailmsg ?pg1) Cpu3_to_linux 0) = 1" using length_ring_frames by (metis length_Cons list.size(3) One_nat_def)
  then have rx: "rx_frames ?pg 0 = [ready_frame 4, ready_frame 5]"
    using queue_frame_frames [OF driver_inv_bound(2) [OF inv1], of 0 0 Cpu3_to_linux "ready_frame 5" Cpu3_to_linux] rx1 by simp
  have st: "receive_status 5 (ready_frame 4) = MAILMSG_ENDPOINT_STALE_FRAME" "frame_status (ready_frame 4) = 0" "frame_status (ready_frame 5) = 0"
    by (simp_all add: ready_frame_def receive_status_def frame_status_seal send_message_valid)
  have gen: "ep_generation (d_endpoint ?d) = 5" by (simp add: session_data_def bound_fresh_linux(2))
  let ?dc = "?d\<lparr>control_work := False\<rparr>"
  have "control_scan ?env 1 ?dc [ready_frame 4, ready_frame 5] = (?dc\<lparr>peer_generation := session_generation ?dc, session_result := 0,
      affinity_seen_on := True, mailmsg_state := R1_AMP_MAILMSG_ACTIVE, lifecycle_timeout_work := None\<rparr>, [])"
    by (rule scan_stale_then_ready) (use st gen ready_frame_matches(3) [of 5] in \<open>simp_all add: ready_frame_matches(1) time_after_eq_def\<close>)
  then have "snd (control_outcome ?env ?d [ready_frame 4, ready_frame 5]) = []"
    "mailmsg_state (fst (control_outcome ?env ?d [ready_frame 4, ready_frame 5])) = R1_AMP_MAILMSG_ACTIVE"
    by (simp_all add: control_outcome_def Let_def time_after_eq_def del: control_scan.simps)
  with control_work_terminates [OF inv, of ?env zero_message] show ?thesis unfolding rx by force
qed

text \<open>
  Without that assumption the loop may spin.  \<open>spinning\<close>: the producer index that CPU3 left
  on the critical ring is no index of a slot, so that the consumer never meets it, and every
  slot holds a committed frame that is damaged or of another session.  The zeroed slots of a
  fresh session are such frames.
\<close>

definition spinning :: "r1_amp_cpu_on_data \<Rightarrow> amp_page \<Rightarrow> bool" where
  "spinning d pg \<longleftrightarrow>
     (let sh = pg_mailmsg pg; r = shared_ring sh Cpu3_to_linux 0 in
      endpoint_bound (d_endpoint d) sh Linux_to_cpu3 Cpu3_to_linux \<and> length (cpu3_to_linux sh) = 4 \<and>
      length (rb_slot r) = 8 \<and> rb_consumer r < 8 \<and> 8 \<le> rb_producer r \<and>
      list_all (\<lambda>f. receive_status (ep_generation (d_endpoint d)) f \<notin> {0, MAILMSG_RING_INCOMPLETE}) (rb_slot r))"

lemma spinning_receive:
  assumes "spinning d pg"
  obtains c ep sh f where "mailmsg_endpoint_receive (d_endpoint d) (pg_mailmsg pg) MAILMSG_PRIO_CRITICAL m = Some (c, ep, sh, f)"
    "c \<in> {MAILMSG_RING_BAD_CRC, MAILMSG_RING_INVALID, MAILMSG_ENDPOINT_STALE_FRAME}"
    "\<forall>d'. d_endpoint d' = ep \<longrightarrow> spinning d' (pg\<lparr>pg_mailmsg := sh\<rparr>)"
proof -
  let ?sh = "pg_mailmsg pg" let ?r = "shared_ring ?sh Cpu3_to_linux 0"
  let ?f = "rb_slot ?r ! unat (rb_consumer ?r)" and ?r' = "?r\<lparr>rb_consumer := mailmsg_next (rb_consumer ?r)\<rparr>"
  from assms have s: "endpoint_bound (d_endpoint d) ?sh Linux_to_cpu3 Cpu3_to_linux" "length (cpu3_to_linux ?sh) = 4"
    "length (rb_slot ?r) = 8" "rb_consumer ?r < 8" "8 \<le> rb_producer ?r"
    "list_all (\<lambda>f. receive_status (ep_generation (d_endpoint d)) f \<notin> {0, MAILMSG_RING_INCOMPLETE}) (rb_slot ?r)"
    by (simp_all add: spinning_def Let_def)
  have lt: "unat (rb_consumer ?r) < 8" using s(4) by (simp add: word_less_nat_alt)
  then have f: "receive_status (ep_generation (d_endpoint d)) ?f \<notin> {0, MAILMSG_RING_INCOMPLETE}"
    using s(3,6) by (simp add: list_all_length)
  have inc: "frame_status ?f \<noteq> MAILMSG_RING_INCOMPLETE" using f by (auto simp: receive_status_def)
  have pop: "mailmsg_ring_pop ?r m = Some (frame_status ?f, ?r', ?f)"
    using s(4,5) inc by (auto simp: mailmsg_ring_pop_def frame_status_def frame_valid_def Let_def not_le split: if_split_asm)
  have nxt: "mailmsg_next (rb_consumer ?r) < 8"
    by (simp add: mailmsg_next_def word_less_nat_alt unat_mod)
  have ring: "shared_ring (set_shared_ring ?sh Cpu3_to_linux 0 ?r') Cpu3_to_linux 0 = ?r'"
    using s(2) by (simp add: shared_ring_def set_shared_ring.simps)
  let ?g = "ep_generation (d_endpoint d)" and ?sh' = "set_shared_ring ?sh Cpu3_to_linux 0 ?r'"
  have e: "ep_rx (d_endpoint d) = Some Cpu3_to_linux" "mailmsg_endpoint_session_valid (d_endpoint d) ?sh = 0"
    using s(1) by (simp_all add: endpoint_bound_def)
  obtain ops where ops: "ep_memory_ops (d_endpoint d) = Some ops" using e(2) by (auto simp: mailmsg_endpoint_session_valid_def split: option.split_asm if_split_asm)
  have "\<exists>ep. mailmsg_endpoint_receive (d_endpoint d) ?sh MAILMSG_PRIO_CRITICAL m = Some (receive_status ?g ?f, ep, ?sh', ?f) \<and>
      ep_generation ep = ?g \<and> endpoint_bound ep ?sh' Linux_to_cpu3 Cpu3_to_linux"
    using e ops s(1) by (simp add: mailmsg_endpoint_receive_def pop receive_status_def Let_def)
  then obtain ep where ep: "mailmsg_endpoint_receive (d_endpoint d) ?sh MAILMSG_PRIO_CRITICAL m = Some (receive_status ?g ?f, ep, ?sh', ?f)"
    "ep_generation ep = ?g" "endpoint_bound ep ?sh' Linux_to_cpu3 Cpu3_to_linux" by blast
  have "receive_status ?g ?f \<in> {MAILMSG_RING_BAD_CRC, MAILMSG_RING_INVALID, MAILMSG_ENDPOINT_STALE_FRAME}"
    using receive_status_range [OF inc, of ?g] f by auto
  moreover have "\<forall>d'. d_endpoint d' = ep \<longrightarrow> spinning d' (pg\<lparr>pg_mailmsg := ?sh'\<rparr>)"
    using s(2,3,5,6) ep(2,3) nxt ring by (simp add: spinning_def Let_def) (simp add: set_shared_ring.simps)
  ultimately show thesis using that [OF ep(1)] by blast
qed

lemma control_loop_spins: "control_loop env n d pg m = Some x \<Longrightarrow> \<not> spinning d pg"
proof (rule control_loop.raw_induct [where P = "\<lambda>env n d pg m x. \<not> spinning d pg"])
  fix loop env n d pg m x
  assume IH: "\<And>env n d pg m x. loop env n d pg m = Some x \<Longrightarrow> \<not> spinning d pg"
    and step: "do {
     (ret, ep, sh, response) \<leftarrow> mailmsg_endpoint_receive (d_endpoint d) (pg_mailmsg pg) MAILMSG_PRIO_CRITICAL m;
     let d = d\<lparr>d_endpoint := ep\<rparr>;
     let pg = pg\<lparr>pg_mailmsg := sh\<rparr>;
     if ret = MAILMSG_RING_EMPTY \<or> ret = MAILMSG_RING_INCOMPLETE then Some (d, pg)
     else do {
       let (d', more) = (if ret \<noteq> 0 then control_error d ret else control_frame env n d response);
       if more then loop env (if ret \<noteq> 0 then n else Suc n) d' pg response
       else Some (d', pg) } } = Some x"
  show "\<not> spinning d pg"
  proof
    assume "spinning d pg"
    then obtain c ep sh f where r: "mailmsg_endpoint_receive (d_endpoint d) (pg_mailmsg pg) MAILMSG_PRIO_CRITICAL m = Some (c, ep, sh, f)"
      "c \<in> {MAILMSG_RING_BAD_CRC, MAILMSG_RING_INVALID, MAILMSG_ENDPOINT_STALE_FRAME}"
      "\<forall>d'. d_endpoint d' = ep \<longrightarrow> spinning d' (pg\<lparr>pg_mailmsg := sh\<rparr>)" by (rule spinning_receive [where m = m])
    from step r(1,2) have "\<exists>d'. loop env n d' (pg\<lparr>pg_mailmsg := sh\<rparr>) f = Some x \<and> d_endpoint d' = ep"
      by (auto simp: control_error_def Let_def split: if_split_asm)
    with r(3) IH show False by blast
  qed
qed

fun receive_times ::
  "nat \<Rightarrow> r1_amp_cpu_on_data \<Rightarrow> amp_page \<Rightarrow> mailmsg_message \<Rightarrow> int list option" where
  "receive_times 0 d pg m = Some []"
| "receive_times (Suc n) d pg m = do {
     (c, ep, sh, m) \<leftarrow> mailmsg_endpoint_receive (d_endpoint d) (pg_mailmsg pg) MAILMSG_PRIO_CRITICAL m;
     cs \<leftarrow> receive_times n (d\<lparr>d_endpoint := ep\<rparr>) (pg\<lparr>pg_mailmsg := sh\<rparr>) m;
     Some (c # cs) }"

lemma spinning_receives:
  "spinning d pg \<Longrightarrow> \<exists>cs. receive_times n d pg m = Some cs \<and> length cs = n \<and>
     set cs \<subseteq> {MAILMSG_RING_BAD_CRC, MAILMSG_RING_INVALID, MAILMSG_ENDPOINT_STALE_FRAME}"
proof (induction n arbitrary: d pg m)
  case (Suc n)
  from Suc.prems obtain c ep sh f where r: "mailmsg_endpoint_receive (d_endpoint d) (pg_mailmsg pg) MAILMSG_PRIO_CRITICAL m = Some (c, ep, sh, f)"
    "c \<in> {MAILMSG_RING_BAD_CRC, MAILMSG_RING_INVALID, MAILMSG_ENDPOINT_STALE_FRAME}"
    "\<forall>d'. d_endpoint d' = ep \<longrightarrow> spinning d' (pg\<lparr>pg_mailmsg := sh\<rparr>)" by (rule spinning_receive [where m = m])
  from Suc.IH [OF r(3) [rule_format], of "d\<lparr>d_endpoint := ep\<rparr>" f] r(1,2) show ?case by auto
qed simp

text \<open>Claim C29.
  The control work trusts the producer index in shared memory.  In a pending session before
  its deadline, when CPU3 has left an index of eight or more on the critical ring and the
  slots hold committed frames that are damaged or stale, the control work never returns: it
  holds the driver mutex and receives for ever, each receive succeeds inside the slot array
  and releases a frame, none ever reports EMPTY, and the deadline is not looked at again.
\<close>

theorem corrupt_index_hangs_control_work:
  assumes "spinning d pg" and "lifecycle_pending (mailmsg_state d)"
    and "\<not> time_after_eq (jiffies env 0) (lifecycle_deadline d)"
  shows "r1_amp_mailmsg_control_work env m d pg = None \<and>
    (\<exists>cs. receive_times n d pg m = Some cs \<and> length cs = n \<and>
       set cs \<subseteq> {MAILMSG_RING_BAD_CRC, MAILMSG_RING_INVALID, MAILMSG_ENDPOINT_STALE_FRAME})"
proof -
  have "spinning (d\<lparr>control_work := False\<rparr>) pg" using assms(1) by (simp add: spinning_def)
  then have "control_loop env 1 (d\<lparr>control_work := False\<rparr>) pg m = None"
    using control_loop_spins [of env 1 "d\<lparr>control_work := False\<rparr>" pg m] by (cases "control_loop env 1 (d\<lparr>control_work := False\<rparr>) pg m") auto
  with assms(2,3) spinning_receives [OF assms(1), of n m] show ?thesis
    by (cases "mailmsg_state d") (simp_all add: r1_amp_mailmsg_control_work_def Let_def)
qed

theorem corrupt_index_hangs_control_work_witness:
  "let pg = (session_page 5)\<lparr>pg_mailmsg := set_shared_ring (fresh_shared 5) Cpu3_to_linux 0 (empty_ring\<lparr>rb_producer := 9\<rparr>)\<rparr> in
   r1_amp_mailmsg_control_work (board_kernel 0 (- 1) rk_mbox_write) zero_message
     (session_data R1_AMP_MAILMSG_STARTING 5 rk_mbox_write) pg = None \<and>
   (\<exists>cs. receive_times 100 (session_data R1_AMP_MAILMSG_STARTING 5 rk_mbox_write) pg zero_message = Some cs \<and> length cs = 100)"
proof -
  let ?d = "session_data R1_AMP_MAILMSG_STARTING 5 rk_mbox_write"
  let ?pg = "(session_page 5)\<lparr>pg_mailmsg := set_shared_ring (fresh_shared 5) Cpu3_to_linux 0 (empty_ring\<lparr>rb_producer := 9\<rparr>)\<rparr>"
  have "spinning ?d ?pg"
  proof -
    have "endpoint_bound (d_endpoint ?d) (pg_mailmsg ?pg) Linux_to_cpu3 Cpu3_to_linux"
      by (simp add: session_data_def bound_fresh_linux(1))
    moreover have "shared_ring (pg_mailmsg ?pg) Cpu3_to_linux 0 = empty_ring\<lparr>rb_producer := 9\<rparr>" "length (cpu3_to_linux (pg_mailmsg ?pg)) = 4"
      by (simp_all add: shared_ring_set) (simp add: set_shared_ring.simps fresh_shared_def)
    moreover have "receive_status g zero_message = MAILMSG_RING_INVALID" for g
      by (simp add: receive_status_def frame_status_def frame_valid_def zero_message_def)
    ultimately show ?thesis by (simp add: spinning_def Let_def) (simp add: empty_ring_def list_all_length)
  qed
  from corrupt_index_hangs_control_work [OF this, of "board_kernel 0 (- 1) rk_mbox_write" zero_message 100]
  show ?thesis by (auto simp: Let_def time_after_eq_def simp del: receive_times.simps)
qed

subsection \<open>Start\<close>

text \<open>Claim C21.
  A start that is accepted announces a new session: the image was complete and PSCI had
  reported the CPU off, the generation is non-zero and differs from the previous one, the
  region carries exactly this generation with all eight rings empty, the image is
  untouched, and the timeout and the affinity monitor are armed.
\<close>

theorem start_announces_fresh_session:
  assumes "driver_inv (mbox_write env) d pg" and "start_store env buf count d pg = Some (r, d', pg')"
    and "mailmsg_state d = R1_AMP_MAILMSG_UNARMED" and "mailmsg_state d' = R1_AMP_MAILMSG_STARTING"
  shows "r = count \<and> image_written d = ucast (image_size d) \<and> affinity_state d' = PSCI_0_2_AFFINITY_LEVEL_OFF \<and>
    session_generation d' \<noteq> 0 \<and> session_generation d' \<noteq> session_generation d \<and>
    pg_mailmsg pg' = fresh_shared (session_generation d') \<and> pg_image pg' = pg_image pg \<and>
    ep_generation (d_endpoint d') = session_generation d' \<and> ep_next_sequence (d_endpoint d') = 0 \<and>
    lifecycle_timeout_work d' \<noteq> None \<and> affinity_work d' \<noteq> None"
proof (cases rule: start_cases [OF assms(1), of buf count, case_names refused busy issued])
  case (issued q cpu_on ret)
  have "ret = 0"
  proof (rule ccontr)
    assume "ret \<noteq> 0"
    with issued(7) assms(2,4) show False by (auto simp: started_def Let_def)
  qed
  with issued(2,7) assms(2) bound_fresh_linux(2,4) [of "next_generation (session_generation d)"] show ?thesis
    by (auto simp: started_def Let_def zero_state_page_def)
qed (use assms(2-4) in auto)

lemma board_upload_inv:
  "driver_inv wr ((board_data wr)\<lparr>image_written := ucast (image_size (board_data wr))\<rparr>) board_page"
  using board_data_inv(1) [of wr] by (simp add: driver_inv_def driver_wf_def lifecycle_inv_def)

lemma board_start:
  "\<exists>r d' pg'. start_store (board_kernel 1 0 wr) ''start'' 5
      ((board_data wr)\<lparr>image_written := ucast (image_size (board_data wr))\<rparr>) board_page = Some (r, d', pg') \<and>
    mailmsg_state d' = R1_AMP_MAILMSG_STARTING"
  using board_upload_inv [of wr] by (subst start_issued) (simp_all add: started_def Let_def)

theorem start_announces_fresh_session_witness:
  "\<exists>d' pg'. start_store (board_kernel 1 0 rk_mbox_write) ''start'' 5
      ((board_data rk_mbox_write)\<lparr>image_written := ucast (image_size (board_data rk_mbox_write))\<rparr>) board_page = Some (5, d', pg') \<and>
    session_generation d' \<noteq> 0 \<and> pg_mailmsg pg' = fresh_shared (session_generation d')"
proof -
  let ?d = "(board_data rk_mbox_write)\<lparr>image_written := ucast (image_size (board_data rk_mbox_write))\<rparr>"
    and ?env = "board_kernel 1 0 rk_mbox_write"
  obtain r d' pg' where s: "start_store ?env ''start'' 5 ?d board_page = Some (r, d', pg')" "mailmsg_state d' = R1_AMP_MAILMSG_STARTING"
    using board_start by blast
  from start_announces_fresh_session [OF _ s(1)] board_upload_inv [of rk_mbox_write] s board_data_inv(2) [of rk_mbox_write]
  show ?thesis by auto
qed

subsection \<open>The controlled stop\<close>

lemma stop_preflight_eq:
  assumes "driver_inv wr d pg" and "mailmsg_state d = R1_AMP_MAILMSG_ACTIVE"
  shows "r1_amp_mailmsg_stop_preflight_locked d (pg_mailmsg pg) =
    (if mailmsg_user_open_count d \<noteq> 0 \<or> rx_frames pg 0 \<noteq> [] then - EBUSY else 0)"
proof -
  have b: "endpoint_bound (d_endpoint d) (pg_mailmsg pg) Linux_to_cpu3 Cpu3_to_linux"
    using driver_inv_bound(1) [OF assms(1)] assms(2) by simp
  then show ?thesis
    using has_received_bound [OF b driver_inv_bound(2) [OF assms(1)], of 0]
    by (simp add: r1_amp_mailmsg_stop_preflight_locked_def endpoint_bound_def Let_def mailmsg_ring_result_to_errno_def)
qed

text \<open>Claim C37.
  What the preflight of a stop really checks in an ACTIVE session: no open file and an
  empty critical receive ring.  The loop compares the 0 or 1 of \<open>has_received\<close> with
  \<open>MAILMSG_RING_EMPTY\<close> (-1), so it ends at the first priority: the rings of p1 to p3, the
  transmit rings and the A2B doorbells are never looked at.
\<close>

theorem stop_preflight_checks_p0_only:
  assumes "driver_inv wr d pg" and "mailmsg_state d = R1_AMP_MAILMSG_ACTIVE"
  shows "r1_amp_mailmsg_stop_preflight_locked d (pg_mailmsg pg) =
    (if mailmsg_user_open_count d \<noteq> 0 \<or> rx_frames pg 0 \<noteq> [] then - EBUSY else 0)"
  using assms by (rule stop_preflight_eq)

theorem stop_preflight_checks_p0_only_witness:
  "r1_amp_mailmsg_stop_preflight_locked (session_data R1_AMP_MAILMSG_ACTIVE 5 rk_mbox_write)
     (pg_mailmsg (queue_frame Cpu3_to_linux 1 (ready_frame 5) (session_page 5))) = 0"
  using stop_preflight_checks_p0_only [OF queue_frame_inv [OF session_data_inv [of 5 R1_AMP_MAILMSG_ACTIVE rk_mbox_write] ready_frame_matches(2)],
      of 1 Cpu3_to_linux 5] by (simp add: queue_frame_frames)

text \<open>The lifecycle doorbell is never injected away and leaves the bell pending.\<close>

lemma bypass_notify:
  assumes "mailbox_hw wr" and "context_wf c" and "lifecycle_notify_bypass c" and "p < 4"
  obtains nr c' where "mailmsg_linux_notify wr c p = (nr, c')" "nr \<in> {MAILMSG_NOTIFY_SENT, MAILMSG_NOTIFY_COALESCED}"
    "a2b_pending (mbox_regs0 c') p"
proof (cases rule: notify_locked_cases [OF assms(2,4), of wr, case_names injected coalesced sent])
  case (coalesced c')
  with that show thesis by (simp add: mailmsg_linux_notify_def)
next
  case (sent c')
  with that mailbox_hw.a2b_pending_doorbell [OF assms(1,4,4)] show thesis by (simp add: mailmsg_linux_notify_def)
qed (use assms(3) in simp)

lemma stop_accepted:
  assumes "mailbox_hw wr" and "driver_inv wr d pg" and "mailmsg_state d = R1_AMP_MAILMSG_ACTIVE" and "sysfs_streq buf ''stop''"
    and "r1_amp_mailmsg_stop_preflight_locked d (pg_mailmsg pg) = 0" and "ring_depth (shared_ring (pg_mailmsg pg) Linux_to_cpu3 0) < 7"
  obtains nr c ep r where "mailmsg_stop_store env buf count d pg = Some (count,
      (stopping d)\<lparr>d_endpoint := ep, d_ctx := c\<lparr>lifecycle_notify_bypass := False\<rparr>,
        stop_request_sequence := next_seq (ep_next_sequence (d_endpoint d)), stop_notify_result := nr,
        lifecycle_deadline := jiffies env 0 + msecs_to_jiffies env R1_AMP_LIFECYCLE_TIMEOUT_MS,
        lifecycle_timeout_work := Some (msecs_to_jiffies env R1_AMP_LIFECYCLE_TIMEOUT_MS)\<rparr>,
      pg\<lparr>pg_mailmsg := set_shared_ring (pg_mailmsg pg) Linux_to_cpu3 0 r\<rparr>)"
    "ring_frames r = tx_frames pg 0 @ [seal (sent_message (d_endpoint d) MAILMSG_MSG_STOP_REQUEST [] 0)]"
    "mailmsg_linux_notify wr ((d_ctx d)\<lparr>lifecycle_notify_bypass := True\<rparr>) 0 = (nr, c)" "a2b_pending (mbox_regs0 c) 0"
proof -
  let ?c = "(d_ctx d)\<lparr>lifecycle_notify_bypass := True\<rparr>" and ?m = "sent_message (d_endpoint d) MAILMSG_MSG_STOP_REQUEST [] 0"
    and ?r = "shared_ring (pg_mailmsg pg) Linux_to_cpu3 0"
  note wf = driver_inv_bound [OF assms(2)]
  have ep: "ep_tx (d_endpoint d) = Some Linux_to_cpu3" "mailmsg_endpoint_session_valid (d_endpoint d) (pg_mailmsg pg) = 0"
    "ep_notify (d_endpoint d) = Some (linux_backend wr)"
    using wf(1) assms(2,3) by (auto simp: endpoint_bound_def driver_inv_def driver_wf_def lifecycle_inv_def)
  obtain nr c' where nf: "mailmsg_linux_notify wr ?c 0 = (nr, c')" "nr \<in> {MAILMSG_NOTIFY_SENT, MAILMSG_NOTIFY_COALESCED}"
    "a2b_pending (mbox_regs0 c') 0"
    by (rule bypass_notify [OF assms(1), of ?c 0]) (use wf(4) in \<open>simp_all add: channels_wf_def\<close>)
  have n: "mailmsg_notify (ep_notify (d_endpoint d)) ?c 0 = (nr, c')"
    using nf(1) by (simp add: ep(3) mailmsg_notify_def linux_backend_def backend_def)
  note s = send_ok [OF ep(1,2) wf(2,3) _ _ _ assms(6) n, of 0 "[]" MAILMSG_MSG_STOP_REQUEST zero_result, simplified,
      folded send_null_payload]
  have frames: "ring_frames (ring_after_push ?r ?m) = ring_frames ?r @ [seal ?m]"
    by (rule ring_frames_after_push [OF shared_ring_wf [OF wf(2)] assms(6)]) simp
  have acc: "mailmsg_notify_accepted nr" using nf(2) by (auto simp: mailmsg_notify_accepted_def)
  show thesis
    by (rule that [OF _ frames nf(1,3)]) (simp add: mailmsg_stop_store_def stopping_def s acc assms(3-5))
qed

text \<open>
  A stop that passes the preflight, with room in the critical ring, always succeeds: the
  state is STOPPING and the data plane is shut, STOP_REQUEST is the last frame of the
  critical ring and its sequence number is the one awaited, the doorbell of p0 is pending
  even while notification failures are being injected, and the timeout is armed.
\<close>

lemma stop_requests_shutdown:
  assumes "mailbox_hw wr" and "driver_inv wr d pg" and "mailmsg_state d = R1_AMP_MAILMSG_ACTIVE" and "sysfs_streq buf ''stop''"
    and "r1_amp_mailmsg_stop_preflight_locked d (pg_mailmsg pg) = 0" and "ring_depth (shared_ring (pg_mailmsg pg) Linux_to_cpu3 0) < 7"
  shows "\<exists>d' pg'. mailmsg_stop_store env buf count d pg = Some (count, d', pg') \<and>
    mailmsg_state d' = R1_AMP_MAILMSG_STOPPING \<and> r1_amp_mailmsg_data_gate_locked d' = - ESHUTDOWN \<and>
    tx_frames pg' 0 = tx_frames pg 0 @ [seal (sent_message (d_endpoint d) MAILMSG_MSG_STOP_REQUEST [] 0)] \<and>
    stop_request_sequence d' = next_seq (ep_next_sequence (d_endpoint d)) \<and> stop_reply_type d' = 0 \<and>
    a2b_pending (mbox_regs0 (d_ctx d')) 0 \<and>
    lifecycle_timeout_work d' = Some (msecs_to_jiffies env R1_AMP_LIFECYCLE_TIMEOUT_MS) \<and>
    lifecycle_deadline d' = jiffies env 0 + msecs_to_jiffies env R1_AMP_LIFECYCLE_TIMEOUT_MS"
proof (rule stop_accepted [OF assms, of env count])
  fix nr c ep r
  assume "mailmsg_stop_store env buf count d pg = Some (count,
      (stopping d)\<lparr>d_endpoint := ep, d_ctx := c\<lparr>lifecycle_notify_bypass := False\<rparr>,
        stop_request_sequence := next_seq (ep_next_sequence (d_endpoint d)), stop_notify_result := nr,
        lifecycle_deadline := jiffies env 0 + msecs_to_jiffies env R1_AMP_LIFECYCLE_TIMEOUT_MS,
        lifecycle_timeout_work := Some (msecs_to_jiffies env R1_AMP_LIFECYCLE_TIMEOUT_MS)\<rparr>,
      pg\<lparr>pg_mailmsg := set_shared_ring (pg_mailmsg pg) Linux_to_cpu3 0 r\<rparr>)"
    "ring_frames r = tx_frames pg 0 @ [seal (sent_message (d_endpoint d) MAILMSG_MSG_STOP_REQUEST [] 0)]" "a2b_pending (mbox_regs0 c) 0"
  with driver_inv_bound(2) [OF assms(2)] show ?thesis
    by (simp add: stopping_def r1_amp_mailmsg_data_gate_locked_def shared_ring_set)
qed

subsection \<open>Rearm\<close>

text \<open>Claim C28.
  A rearm is accepted only when no file is open, PSCI reports the CPU off and no A2B
  doorbell is pending; it then forgets the session (unarmed, no endpoint, no timer, image
  to be uploaded again) but keeps the generation counter, so that the next session gets a
  new number.
\<close>

theorem rearm_only_when_off:
  assumes "driver_inv wr d pg" and "rearm_store env buf count d = Some (r, d')"
    and "cpu_on_attempted d" and "\<not> cpu_on_attempted d'"
  shows "(\<exists>q. psci_affinity_info env = Some q \<and> q (mpidr d) = PSCI_0_2_AFFINITY_LEVEL_OFF) \<and>
    mbox_regs0 (d_ctx d) A2B_STATUS = 0 \<and> mailmsg_user_open_count d = 0 \<and> r = count \<and>
    mailmsg_state d' = R1_AMP_MAILMSG_UNARMED \<and> d_endpoint d' = zero_endpoint \<and> image_written d' = 0 \<and>
    lifecycle_timeout_work d' = None \<and> session_generation d' = session_generation d \<and> driver_inv wr d' pg"
proof (cases rule: rearm_cases [of env buf count d, case_names refused busy rearmed])
  case (busy st d1)
  with refresh_affinity_inv(4) [OF assms(1) busy(2)] assms(2-4) show ?thesis by simp
next
  case (rearmed d1 st)
  obtain q where q: "psci_affinity_info env = Some q" using rearmed(3) by (auto simp: r1_amp_refresh_affinity_locked_def split: bind_splits)
  note inv = refresh_affinity_inv [OF assms(1) rearmed(3)]
  have "st = q (mpidr d) \<and> session_generation d1 = session_generation d"
    by (cases rule: refresh_affinity_cases [OF q, of d]) (use rearmed(3) in auto)
  moreover have "d' = rearmed d1" "r = count" using rearmed(6) assms(2) by simp_all
  ultimately show ?thesis using rearmed(2,4,5) q inv(3,5) rearmed_inv [OF inv(1)] by (simp add: rearmed_def)
qed (use assms(2-4) in auto)

theorem rearm_only_when_off_witness:
  "\<exists>d'. rearm_store (board_kernel 1 0 rk_mbox_write) ''rearm'' 6 (session_data R1_AMP_MAILMSG_OFFLINE 5 rk_mbox_write) = Some (6, d') \<and>
     mailmsg_state d' = R1_AMP_MAILMSG_UNARMED \<and> session_generation d' = 5"
proof -
  let ?d = "session_data R1_AMP_MAILMSG_OFFLINE 5 rk_mbox_write"
  obtain d' where d': "rearm_store (board_kernel 1 0 rk_mbox_write) ''rearm'' 6 ?d = Some (6, d')" "\<not> cpu_on_attempted d'"
    by (simp add: rearm_store_def r1_amp_refresh_affinity_locked_def r1_amp_mailmsg_mark_offline_locked_def)
  from rearm_only_when_off [OF session_data_inv d'(1)] d' show ?thesis by simp
qed

end
