(* ===== verification/Amp_Interface.thy ===== *)
theory Amp_Interface
  imports Amp_Handshake
begin

text \<open>
  What the driver promises to user space: the outcome of every write, read and poll on
  \<^verbatim>\<open>/dev/mailmsg-pN\<close>, the wake-up of a blocked reader, the image upload, the test hooks and
  the report of the reverse rings.
\<close>

subsection \<open>Write\<close>

lemma write_refused:
  assumes "driver_inv wr d pg" and "uf_channel uf < 4" and "count \<noteq> 48 \<or> fr_priority frame \<noteq> uf_channel uf \<or> 28 < fr_length frame"
  shows "r1_amp_mailmsg_user_write count (Some frame) uf d pg = Some (- EINVAL, d, pg)"
  using user_channel(1) [OF assms(1,2)] assms(3) by (auto simp: r1_amp_mailmsg_user_write_def)

lemma write_active:
  assumes "driver_inv wr d pg" and "mailmsg_state d = R1_AMP_MAILMSG_ACTIVE" and "uf_channel uf < 4"
    and "fr_priority frame = uf_channel uf" and "fr_length frame \<le> 28" and "length (fr_payload frame) = 32"
  shows "\<exists>r d' pg'. r1_amp_mailmsg_user_write 48 (Some frame) uf d pg = Some (r, d', pg') \<and> driver_inv wr d' pg' \<and>
    (if length (tx_frames pg (uf_channel uf)) = 7 then r = - ENOSPC \<and> pg' = pg
     else r = 48 \<and> tx_frames pg' (uf_channel uf) = tx_frames pg (uf_channel uf) @
         [seal (sent_message (d_endpoint d) (fr_type frame) (fr_payload frame) (fr_length frame))] \<and>
       (\<forall>a q. q < 4 \<and> (a, q) \<noteq> (Linux_to_cpu3, uf_channel uf) \<longrightarrow>
          shared_ring (pg_mailmsg pg') a q = shared_ring (pg_mailmsg pg) a q))"
proof -
  let ?sh = "pg_mailmsg pg" and ?p = "uf_channel uf"
  note wf = driver_inv_bound(2,4) [OF assms(1)]
  show ?thesis
  proof (cases rule: user_write_cases [OF assms, case_names full queued])
    case (full ep)
    with driver_inv_endpoint [OF assms(1) full(3)] show ?thesis by simp
  next
    case (queued nr ctx ep m)
    have "ring_frames (ring_after_push (shared_ring ?sh Linux_to_cpu3 ?p) m) = tx_frames pg ?p @ [seal m]"
      using queued(1) shared_ring_wf [OF wf(1) assms(3)] by (rule ring_frames_after_push [rotated])
    moreover note driver_inv_send [OF assms(1) queued(5-7)]
    ultimately show ?thesis using queued(1,3,4) wf(1) assms(3) by (simp add: shared_ring_set)
  qed
qed

text \<open>Claim C22.
  The outcome of every write, by the arguments, the user copy, the session state and the
  transmit ring, with the errno of every refusal: \<open>-EINVAL\<close> for a wrong size, \<open>-EFAULT\<close> for
  a frame that cannot be copied in, \<open>-EINVAL\<close> for a foreign priority or an oversized
  payload, then \<open>-EAGAIN\<close> while starting, \<open>-ESHUTDOWN\<close> while stopping, \<open>-ENOLINK\<close> before the
  first start and after the end of a session, \<open>-EIO\<close> in the two timeout states (not the
  \<open>-ETIMEDOUT\<close> of the gate), and \<open>-ENOSPC\<close> on a full ring.  Exactly the remaining writes are
  accepted; the frame is then the last one of its ring, sealed, with the next sequence
  number and the current generation, whatever the doorbell did, and no other ring changes.
  A refused write leaves the shared region alone.
\<close>

theorem user_write_outcome:
  assumes "driver_inv wr d pg" and "uf_channel uf < 4" and "\<And>f. frame = Some f \<Longrightarrow> length (fr_payload f) = 32"
  shows "\<exists>r d' pg'. r1_amp_mailmsg_user_write count frame uf d pg = Some (r, d', pg') \<and> driver_inv wr d' pg' \<and>
    (if count \<noteq> 48 then (r, d', pg') = (- EINVAL, d, pg)
     else case frame of None \<Rightarrow> (r, d', pg') = (- EFAULT, d, pg)
     | Some f \<Rightarrow>
       if fr_priority f \<noteq> uf_channel uf \<or> 28 < fr_length f then (r, d', pg') = (- EINVAL, d, pg)
       else case mailmsg_state d of
         R1_AMP_MAILMSG_UNARMED \<Rightarrow> (r, d', pg') = (- ENOLINK, d, pg)
       | R1_AMP_MAILMSG_STARTING \<Rightarrow> (r, d', pg') = (- EAGAIN, d, pg)
       | R1_AMP_MAILMSG_START_TIMEOUT \<Rightarrow> (r, d', pg') = (- EIO, d, pg)
       | R1_AMP_MAILMSG_STOPPING \<Rightarrow> (r, d', pg') = (- ESHUTDOWN, d, pg)
       | R1_AMP_MAILMSG_STOP_TIMEOUT \<Rightarrow> (r, d', pg') = (- EIO, d, pg)
       | R1_AMP_MAILMSG_OFFLINE \<Rightarrow> (r, d', pg') = (- ENOLINK, d, pg)
       | R1_AMP_MAILMSG_ACTIVE \<Rightarrow>
           if length (tx_frames pg (uf_channel uf)) = 7 then r = - ENOSPC \<and> pg' = pg
           else r = 48 \<and> tx_frames pg' (uf_channel uf) = tx_frames pg (uf_channel uf) @
               [seal (sent_message (d_endpoint d) (fr_type f) (fr_payload f) (fr_length f))] \<and>
             (\<forall>a q. q < 4 \<and> (a, q) \<noteq> (Linux_to_cpu3, uf_channel uf) \<longrightarrow>
                shared_ring (pg_mailmsg pg') a q = shared_ring (pg_mailmsg pg) a q))"
proof (cases "count = 48")
  case [simp]: True
  show ?thesis
  proof (cases frame)
    case None
    with assms(1) show ?thesis by (simp add: r1_amp_mailmsg_user_write_def)
  next
    case (Some f)
    show ?thesis
    proof (cases "fr_priority f \<noteq> uf_channel uf \<or> 28 < fr_length f")
      case True
      with write_refused [OF assms(1,2), of 48 f] Some assms(1) show ?thesis by simp
    next
      case False
      then have len: "fr_length f \<le> 28" and pri: "fr_priority f = uf_channel uf" by auto
      show ?thesis
      proof (cases "mailmsg_state d = R1_AMP_MAILMSG_ACTIVE")
        case True
        from write_active [OF assms(1) True assms(2) pri len assms(3) [OF Some]] True len pri Some
        show ?thesis by (simp del: length_ring_frames)
      next
        case False
        with user_write_gate [OF False _ len, of uf pg] user_channel(1) [OF assms(1,2)] pri len assms(1) Some
        show ?thesis by (cases "mailmsg_state d") (simp_all add: r1_amp_mailmsg_data_gate_locked_def)
      qed
    qed
  qed
qed (use assms(1) in \<open>simp add: r1_amp_mailmsg_user_write_def\<close>)

definition user_file :: "u32 \<Rightarrow> r1_amp_mailmsg_user_file" where
  "user_file p = \<lparr>uf_channel = p, reader_claimed = False\<rparr>"

definition ping_frame :: "u32 \<Rightarrow> u32 \<Rightarrow> mailmsg_user_frame" where
  "ping_frame p v = \<lparr>fr_priority = p, fr_type = MAILMSG_MSG_PING, fr_sequence = 0, fr_length = 4,
     fr_payload = mailmsg_store_payload_u32 (replicate 32 0) 0 v\<rparr>"

lemma user_file_simps [simp]: "uf_channel (user_file p) = p" "\<not> reader_claimed (user_file p)"
  by (simp_all add: user_file_def)

lemma ping_frame_simps [simp]:
  "fr_priority (ping_frame p v) = p" "fr_type (ping_frame p v) = MAILMSG_MSG_PING" "fr_length (ping_frame p v) = 4"
  "length (fr_payload (ping_frame p v)) = 32"
  by (simp_all add: ping_frame_def)

theorem user_write_outcome_witness:
  "\<exists>d' pg'. r1_amp_mailmsg_user_write 48 (Some (ping_frame 2 41)) (user_file 2) (session_data R1_AMP_MAILMSG_ACTIVE 5 rk_mbox_write)
      (session_page 5) = Some (48, d', pg') \<and> length (tx_frames pg' 2) = 1"
  using user_write_outcome [OF session_data_inv [of 5 R1_AMP_MAILMSG_ACTIVE rk_mbox_write], of "user_file 2" "Some (ping_frame 2 41)" 48]
  by (auto simp del: length_ring_frames)

subsection \<open>Read\<close>

text \<open>Claiming the read side of a channel keeps the invariant and everything but the reader count.\<close>

lemma claim_reader_cases:
  assumes "driver_inv wr d pg" and "uf_channel uf < 4"
  obtains (busy) "\<not> reader_claimed uf" "uc_reader_open_count (mailmsg_user d ! unat (uf_channel uf)) \<noteq> 0"
      "r1_amp_mailmsg_user_claim_reader uf d = (- EBUSY, uf, d)"
  | (claimed) us where "reader_claimed uf \<or> uc_reader_open_count (mailmsg_user d ! unat (uf_channel uf)) = 0"
      "r1_amp_mailmsg_user_claim_reader uf d = (0, uf\<lparr>reader_claimed := True\<rparr>, d\<lparr>mailmsg_user := us\<rparr>)"
      "driver_inv wr (d\<lparr>mailmsg_user := us\<rparr>) pg"
      "uc_rx_generation (us ! unat (uf_channel uf)) = uc_rx_generation (mailmsg_user d ! unat (uf_channel uf))"
proof (cases "reader_claimed uf")
  case True
  then have "uf\<lparr>reader_claimed := True\<rparr> = uf" by simp
  with True assms(1) claimed [of "mailmsg_user d"] show thesis by (simp add: r1_amp_mailmsg_user_claim_reader_def)
next
  case False
  let ?i = "unat (uf_channel uf)"
  let ?us = "(mailmsg_user d)[?i := (mailmsg_user d ! ?i)\<lparr>uc_reader_open_count := uc_reader_open_count (mailmsg_user d ! ?i) + 1\<rparr>]"
  show thesis
  proof (cases "uc_reader_open_count (mailmsg_user d ! ?i) = 0")
    case free: True
    have "users_wf (mailmsg_user d)" using assms(1) by (simp add: driver_inv_def driver_wf_def)
    then have "users_wf ?us" using free by (intro users_wf_update) simp_all
    then have "driver_inv wr (d\<lparr>mailmsg_user := ?us\<rparr>) pg" by (rule driver_inv_users(1) [OF assms(1)])
    with False free user_channel(2) [OF assms] show thesis
      by (intro claimed [of ?us]) (simp_all add: r1_amp_mailmsg_user_claim_reader_def upd_user_def)
  qed (use False busy in \<open>simp add: r1_amp_mailmsg_user_claim_reader_def\<close>)
qed

text \<open>The result of one pass on the frames of the ring.\<close>

fun read_result ::
  "bool \<Rightarrow> bool \<Rightarrow> u32 \<Rightarrow> u32 \<Rightarrow> u32 \<Rightarrow> mailmsg_message list \<Rightarrow> user_read_outcome \<times> mailmsg_message list" where
  "read_result nonblock fault g p rxg [] = (if nonblock then Read_return (- EAGAIN) None else Read_wait rxg, [])"
| "read_result nonblock fault g p rxg (f # fs) =
     (if msg_commit f \<noteq> msg_sequence f then (Read_return (- EAGAIN) None, f # fs)
      else if \<not> frame_valid f then (Read_return (- EPROTO) None, fs)
      else if msg_crc32 f \<noteq> mailmsg_frame_crc32 f then (Read_return (- EBADMSG) None, fs)
      else if msg_generation f \<noteq> g then (Read_return (- ESTALE) None, fs)
      else if fault then (Read_return (- EFAULT) None, fs)
      else (Read_return 48 (Some (user_frame_of p f)), fs))"

lemma read_result_Cons [simp]:
  "read_result nonblock fault g p rxg (f # fs) =
     (if frame_status f = MAILMSG_RING_INCOMPLETE then (Read_return (- EAGAIN) None, f # fs)
      else if receive_status g f \<noteq> 0 then (Read_return (mailmsg_ring_result_to_errno (receive_status g f)) None, fs)
      else (if fault then Read_return (- EFAULT) None else Read_return 48 (Some (user_frame_of p f)), fs))"
  by (simp add: frame_status_def receive_status_def mailmsg_ring_result_to_errno_def)

declare read_result.simps(2) [simp del]

lemma read_pass_result:
  assumes "driver_inv wr d pg" and "uf_channel uf < 4" and "mailmsg_state d = R1_AMP_MAILMSG_ACTIVE"
  shows "\<exists>d' pg'. user_read_pass nonblock fault m uf d pg = Some
      (fst (read_result nonblock fault (session_generation d) (uf_channel uf) (uc_rx_generation (mailmsg_user d ! unat (uf_channel uf)))
        (rx_frames pg (uf_channel uf))), d', pg') \<and> driver_inv wr d' pg' \<and> mailmsg_user d' = mailmsg_user d \<and>
    rx_frames pg' (uf_channel uf) = snd (read_result nonblock fault (session_generation d) (uf_channel uf)
        (uc_rx_generation (mailmsg_user d ! unat (uf_channel uf))) (rx_frames pg (uf_channel uf)))"
proof (cases rule: user_read_pass_cases [OF assms(1,3,2), of nonblock fault m, case_names empty incomplete bad frame])
  case empty
  with assms(1) show ?thesis by auto
next
  case (incomplete f fs ep)
  with driver_inv_endpoint [OF assms(1) incomplete(3)] show ?thesis by simp
next
  case (bad f fs ep sh)
  with driver_inv_endpoint [OF assms(1) drained_session [OF bad(3)]] show ?thesis by simp
next
  case (frame f fs ep sh)
  have "frame_status f \<noteq> MAILMSG_RING_INCOMPLETE" using receive_ok_frame(1) [OF frame(2)] by simp
  with frame driver_inv_endpoint [OF assms(1) drained_session [OF frame(3)]] show ?thesis by simp
qed

text \<open>Claim C23.
  The outcome of every read: the size and the exclusive reader are checked first, then the
  session state with its own errno (\<open>-EAGAIN\<close> while starting, \<open>-ESHUTDOWN\<close> while stopping,
  \<open>-ENOLINK\<close> without a session, \<open>-EIO\<close> after a timeout), then the head of the receive ring.
  An intact frame of the session is handed out and released; when the copy to user space
  fails the frame is released all the same and lost, with \<open>-EFAULT\<close>.  A frame with an
  invalid header, a wrong CRC or a foreign generation is released with \<open>-EPROTO\<close>,
  \<open>-EBADMSG\<close> or \<open>-ESTALE\<close>, an uncommitted one stays; on an empty ring a blocking reader
  waits for the receive generation it saw.
\<close>

theorem user_read_outcome:
  assumes "driver_inv wr d pg" and "uf_channel uf < 4"
  shows "\<exists>out uf' d' pg'. r1_amp_mailmsg_user_read count nonblock fault m uf d pg = Some (out, uf', d', pg') \<and> driver_inv wr d' pg' \<and>
    (if count \<noteq> 48 then out = Read_return (- EINVAL) None \<and> uf' = uf \<and> d' = d \<and> pg' = pg
     else if \<not> reader_claimed uf \<and> uc_reader_open_count (mailmsg_user d ! unat (uf_channel uf)) \<noteq> 0
     then out = Read_return (- EBUSY) None \<and> uf' = uf \<and> d' = d \<and> pg' = pg
     else reader_claimed uf' \<and>
       (case mailmsg_state d of
          R1_AMP_MAILMSG_UNARMED \<Rightarrow> out = Read_return (- ENOLINK) None \<and> pg' = pg
        | R1_AMP_MAILMSG_STARTING \<Rightarrow> out = Read_return (- EAGAIN) None \<and> pg' = pg
        | R1_AMP_MAILMSG_START_TIMEOUT \<Rightarrow> out = Read_return (- EIO) None \<and> pg' = pg
        | R1_AMP_MAILMSG_STOPPING \<Rightarrow> out = Read_return (- ESHUTDOWN) None \<and> pg' = pg
        | R1_AMP_MAILMSG_STOP_TIMEOUT \<Rightarrow> out = Read_return (- EIO) None \<and> pg' = pg
        | R1_AMP_MAILMSG_OFFLINE \<Rightarrow> out = Read_return (- ENOLINK) None \<and> pg' = pg
        | R1_AMP_MAILMSG_ACTIVE \<Rightarrow>
            (out, rx_frames pg' (uf_channel uf)) = read_result nonblock fault (session_generation d) (uf_channel uf)
               (uc_rx_generation (mailmsg_user d ! unat (uf_channel uf))) (rx_frames pg (uf_channel uf))))"
proof (cases "count = 48")
  case False
  with assms(1) show ?thesis by (simp add: r1_amp_mailmsg_user_read_def)
next
  case [simp]: True
  show ?thesis
  proof (cases rule: claim_reader_cases [OF assms, case_names busy claimed])
    case busy
    with assms(1) show ?thesis by (simp add: r1_amp_mailmsg_user_read_def)
  next
    case (claimed us)
    let ?d = "d\<lparr>mailmsg_user := us\<rparr>" and ?uf = "uf\<lparr>reader_claimed := True\<rparr>"
    show ?thesis
    proof (cases "mailmsg_state d = R1_AMP_MAILMSG_ACTIVE")
      case False
      with user_read_pass_gate [of ?d nonblock fault m ?uf pg] claimed show ?thesis
        by (cases "mailmsg_state d") (auto simp: r1_amp_mailmsg_user_read_def r1_amp_mailmsg_data_gate_locked_def)
    next
      case True
      from read_pass_result [OF claimed(3), of ?uf nonblock fault m] assms(2) True claimed(4)
      obtain d' pg' where "user_read_pass nonblock fault m ?uf ?d pg = Some (fst (read_result nonblock fault (session_generation d) (uf_channel uf)
          (uc_rx_generation (mailmsg_user d ! unat (uf_channel uf))) (rx_frames pg (uf_channel uf))), d', pg')" "driver_inv wr d' pg'"
        "rx_frames pg' (uf_channel uf) = snd (read_result nonblock fault (session_generation d) (uf_channel uf)
          (uc_rx_generation (mailmsg_user d ! unat (uf_channel uf))) (rx_frames pg (uf_channel uf)))" by auto
      with claimed(1,2) True show ?thesis by (auto simp: r1_amp_mailmsg_user_read_def)
    qed
  qed
qed

theorem user_read_outcome_witness:
  "\<exists>uf' d' pg' uf'' d'' pg''.
    r1_amp_mailmsg_user_read 48 False False zero_message (user_file 0) (session_data R1_AMP_MAILMSG_ACTIVE 5 rk_mbox_write)
      (queue_frame Cpu3_to_linux 0 (ready_frame 5) (session_page 5)) = Some (Read_return 48 (Some (user_frame_of 0 (ready_frame 5))), uf', d', pg') \<and>
    rx_frames pg' 0 = [] \<and>
    r1_amp_mailmsg_user_read 48 False True zero_message (user_file 0) (session_data R1_AMP_MAILMSG_ACTIVE 5 rk_mbox_write)
      (queue_frame Cpu3_to_linux 0 (ready_frame 5) (session_page 5)) = Some (Read_return (- EFAULT) None, uf'', d'', pg'') \<and>
    rx_frames pg'' 0 = []"
proof -
  let ?d = "session_data R1_AMP_MAILMSG_ACTIVE 5 rk_mbox_write" and ?pg = "queue_frame Cpu3_to_linux 0 (ready_frame 5) (session_page 5)"
  have inv: "driver_inv rk_mbox_write ?d ?pg" by (intro wf_intros ready_frame_matches(2)) simp_all
  have rx: "rx_frames ?pg 0 = [ready_frame 5]" by (simp add: queue_frame_frames)
  have "uc_reader_open_count (mailmsg_user ?d ! 0) = 0" by (simp add: session_data_def board_users)
  with user_read_outcome [OF inv, of "user_file 0" 48 False False zero_message]
    user_read_outcome [OF inv, of "user_file 0" 48 False True zero_message] rx ready_frame_matches(3) [of 5]
    receive_ok_frame(1) [OF ready_frame_matches(3) [of 5]] show ?thesis by auto
qed

subsection \<open>Blocking\<close>

lemma rx_callback_wakes:
  assumes "driver_inv wr d pg" and "i < 4"
  shows "mailmsg_user (r1_amp_mbox_rx_callback i m d) ! unat i = wake_reader (mailmsg_user d ! unat i)"
    "session_generation (r1_amp_mbox_rx_callback i m d) = session_generation d"
proof -
  have "channels_wf (d_ctx d)" using assms(1) by (simp add: driver_inv_def driver_wf_def)
  then have ch: "unat i < length (mbox (d_ctx d))" "ch_index (mbox (d_ctx d) ! unat i) = i"
    using assms(2) by (simp_all add: channels_wf_def context_wf_def)
  note len = user_channel(2) [OF assms]
  show "mailmsg_user (r1_amp_mbox_rx_callback i m d) ! unat i = wake_reader (mailmsg_user d ! unat i)"
    "session_generation (r1_amp_mbox_rx_callback i m d) = session_generation d"
    using ch len by (auto simp: r1_amp_mbox_rx_callback_def upd_user_def upd_channel_def Let_def split: option.split)
qed

lemma woken_ready:
  "mailmsg_user d' ! unat (uf_channel uf) = wake_reader (mailmsg_user d ! unat (uf_channel uf)) \<Longrightarrow>
   user_read_ready uf (uc_rx_generation (mailmsg_user d ! unat (uf_channel uf))) d'"
  by (simp add: user_read_ready_def wake_reader_def)

lemma read_wait_state:
  assumes "driver_inv wr d pg" and "uf_channel uf < 4"
    and "user_read_pass False False m uf d pg = Some (Read_wait g, d1, pg1)"
  shows "mailmsg_state d = R1_AMP_MAILMSG_ACTIVE" "rx_frames pg (uf_channel uf) = []" "d1 = d" "pg1 = pg"
    "g = uc_rx_generation (mailmsg_user d ! unat (uf_channel uf))"
proof -
  show st: "mailmsg_state d = R1_AMP_MAILMSG_ACTIVE"
    using user_read_pass_gate [of d False False m uf pg] assms(3) by auto
  show "rx_frames pg (uf_channel uf) = []" "d1 = d" "pg1 = pg" "g = uc_rx_generation (mailmsg_user d ! unat (uf_channel uf))"
    using assms(3) by (cases rule: user_read_pass_cases [OF assms(1) st assms(2), of False False m]; simp)+
qed

text \<open>Claim C24.
  A blocked reader gets the next frame: after a read that has to wait, an intact frame of
  the session that CPU3 queues and announces through the mailbox makes the wait condition
  true, and the resumed read returns exactly that frame and leaves the ring empty.  The
  loss of the peer wakes the reader as well, and it then gets the error of the gate.
\<close>

theorem blocked_reader_gets_next_frame:
  assumes "driver_inv wr d pg" and "uf_channel uf < 4"
    and "user_read_pass False False m uf d pg = Some (Read_wait g, d1, pg1)"
    and "message_wf f" and "receive_status (session_generation d) f = 0"
  shows "\<not> user_read_ready uf g d1 \<and>
    user_read_ready uf g (r1_amp_mbox_rx_callback (uf_channel uf) message d1) \<and>
    (\<exists>d2 pg2. r1_amp_mailmsg_user_read_resume 0 False False m uf (r1_amp_mbox_rx_callback (uf_channel uf) message d1)
        (queue_frame Cpu3_to_linux (uf_channel uf) f pg1) = Some (Read_return 48 (Some (user_frame_of (uf_channel uf) f)), d2, pg2) \<and>
      rx_frames pg2 (uf_channel uf) = []) \<and>
    user_read_ready uf g (r1_amp_mailmsg_mark_offline_locked d1) \<and>
    r1_amp_mailmsg_user_read_resume 0 False False m uf (r1_amp_mailmsg_mark_offline_locked d1) pg1 =
      Some (Read_return (- ENOLINK) None, r1_amp_mailmsg_mark_offline_locked d1, pg1)"
proof -
  let ?p = "uf_channel uf"
  let ?d = "r1_amp_mbox_rx_callback ?p message d" and ?pg = "queue_frame Cpu3_to_linux ?p f pg" and ?off = "r1_amp_mailmsg_mark_offline_locked d"
  note w = read_wait_state [OF assms(1-3)] and cb = rx_callback_wakes [OF assms(1,2), of message]
  have inv: "driver_inv wr ?d ?pg" by (rule queue_frame_inv [OF rx_callback_inv(1) [OF assms(1)] assms(4,2)])
  have "ring_depth (shared_ring (pg_mailmsg pg) Cpu3_to_linux ?p) = 0" using w(2) length_ring_frames by (metis list.size(3))
  then have rx: "rx_frames ?pg ?p = [f]"
    using queue_frame_frames [OF driver_inv_bound(2) [OF assms(1)] assms(2,2), of Cpu3_to_linux f Cpu3_to_linux] w(2) by simp
  have res: "\<exists>d2 pg2. r1_amp_mailmsg_user_read_resume 0 False False m uf ?d ?pg =
      Some (Read_return 48 (Some (user_frame_of ?p f)), d2, pg2) \<and> rx_frames pg2 ?p = []"
    using read_pass_result [OF inv assms(2), of False False m] rx_callback_inv(2) [OF assms(1), of ?p message] w(1) rx assms(5)
      receive_ok_frame(1) [OF assms(5)] by (auto simp: r1_amp_mailmsg_user_read_resume_def cb(2))
  have us: "users_wf (mailmsg_user d)" using assms(1) by (simp add: driver_inv_def driver_wf_def)
  have off: "mailmsg_user ?off ! unat ?p = wake_reader (mailmsg_user d ! unat ?p)" "mailmsg_state ?off = R1_AMP_MAILMSG_OFFLINE"
    using w(1) us user_channel(2) [OF assms(1,2)] by (simp_all add: r1_amp_mailmsg_mark_offline_locked_def wake_list_map users_wf_def)
  then have "r1_amp_mailmsg_user_read_resume 0 False False m uf ?off pg = Some (Read_return (- ENOLINK) None, ?off, pg)"
    by (simp add: r1_amp_mailmsg_user_read_resume_def user_read_pass_gate r1_amp_mailmsg_data_gate_locked_def)
  with woken_ready [OF cb(1)] woken_ready [OF off(1)] res show ?thesis
    unfolding w(3-5) by (simp add: user_read_ready_def)
qed

theorem blocked_reader_gets_next_frame_witness:
  "\<exists>d2 pg2. r1_amp_mailmsg_user_read_resume 0 False False zero_message (user_file 0)
      (r1_amp_mbox_rx_callback 0 None (session_data R1_AMP_MAILMSG_ACTIVE 5 rk_mbox_write))
      (queue_frame Cpu3_to_linux 0 (ready_frame 5) (session_page 5)) =
    Some (Read_return 48 (Some (user_frame_of 0 (ready_frame 5))), d2, pg2) \<and> rx_frames pg2 0 = []"
proof -
  let ?d = "session_data R1_AMP_MAILMSG_ACTIVE 5 rk_mbox_write"
  have inv: "driver_inv rk_mbox_write ?d (session_page 5)" by (rule session_data_inv) simp_all
  have "user_read_pass False False zero_message (user_file 0) ?d (session_page 5) =
      Some (Read_wait (uc_rx_generation (mailmsg_user ?d ! 0)), ?d, session_page 5)"
    by (cases rule: user_read_pass_cases [OF inv, of "user_file 0" False False zero_message]) simp_all
  from blocked_reader_gets_next_frame [OF inv _ this ready_frame_matches(2), of 5 None] ready_frame_matches(3) [of 5]
  show ?thesis by simp
qed

subsection \<open>Poll\<close>

text \<open>Claim C25.
  The event mask of poll, by reader claim, session state and receive ring.  A readable
  channel never makes the following read block.  In START_TIMEOUT and STOP_TIMEOUT the
  mask is empty although a read fails at once.
\<close>

theorem user_poll_outcome:
  assumes "driver_inv wr d pg" and "uf_channel uf < 4"
  shows "fst (r1_amp_mailmsg_user_poll uf d pg) =
      (if \<not> reader_claimed uf \<and> uc_reader_open_count (mailmsg_user d ! unat (uf_channel uf)) \<noteq> 0 then EPOLLERR
       else case mailmsg_state d of
         R1_AMP_MAILMSG_OFFLINE \<Rightarrow> EPOLLHUP OR EPOLLERR
       | R1_AMP_MAILMSG_STOPPING \<Rightarrow> EPOLLHUP OR EPOLLERR
       | R1_AMP_MAILMSG_STARTING \<Rightarrow> EPOLLERR
       | R1_AMP_MAILMSG_ACTIVE \<Rightarrow> if rx_frames pg (uf_channel uf) \<noteq> [] then EPOLLIN OR EPOLLRDNORM else 0
       | _ \<Rightarrow> 0) \<and>
    (fst (r1_amp_mailmsg_user_poll uf d pg) = EPOLLIN OR EPOLLRDNORM \<longrightarrow>
      (\<exists>r fr d' pg'. user_read_pass False False m uf d pg = Some (Read_return r fr, d', pg')))"
proof -
  let ?rx = "rx_frames pg (uf_channel uf)"
  have eq: "fst (r1_amp_mailmsg_user_poll uf d pg) =
      (if \<not> reader_claimed uf \<and> uc_reader_open_count (mailmsg_user d ! unat (uf_channel uf)) \<noteq> 0 then EPOLLERR
       else case mailmsg_state d of
         R1_AMP_MAILMSG_OFFLINE \<Rightarrow> EPOLLHUP OR EPOLLERR
       | R1_AMP_MAILMSG_STOPPING \<Rightarrow> EPOLLHUP OR EPOLLERR
       | R1_AMP_MAILMSG_STARTING \<Rightarrow> EPOLLERR
       | R1_AMP_MAILMSG_ACTIVE \<Rightarrow> if ?rx \<noteq> [] then EPOLLIN OR EPOLLRDNORM else 0
       | _ \<Rightarrow> 0)"
  proof (cases rule: claim_reader_cases [OF assms, case_names busy claimed])
    case busy
    then show ?thesis by (simp add: r1_amp_mailmsg_user_poll_def)
  next
    case (claimed us)
    have "mailmsg_endpoint_has_received (d_endpoint d) (pg_mailmsg pg) (uf_channel uf) = (if ?rx = [] then 0 else 1)"
      if "mailmsg_state d = R1_AMP_MAILMSG_ACTIVE"
      using has_received_bound [OF driver_inv_bound(1,2) [OF assms(1)] assms(2)] assms(1) that by simp
    moreover have "uc_priority (us ! unat (uf_channel uf)) = uf_channel uf" using user_channel(1) [OF claimed(3) assms(2)] by simp
    ultimately show ?thesis using claimed(1,2)
      by (cases "mailmsg_state d") (auto simp: r1_amp_mailmsg_user_poll_def)
  qed
  have "\<exists>r fr d' pg'. user_read_pass False False m uf d pg = Some (Read_return r fr, d', pg')"
    if st: "mailmsg_state d = R1_AMP_MAILMSG_ACTIVE" and "?rx \<noteq> []"
    using \<open>?rx \<noteq> []\<close> by (cases rule: user_read_pass_cases [OF assms(1) st assms(2), of False False m]) simp_all
  with eq show ?thesis by (auto split: r1_amp_mailmsg_session_state.split_asm if_split_asm)
qed

theorem user_poll_outcome_witness:
  "fst (r1_amp_mailmsg_user_poll (user_file 0) (session_data R1_AMP_MAILMSG_STOP_TIMEOUT 5 rk_mbox_write) (session_page 5)) = 0"
  using user_poll_outcome [OF session_data_inv [of 5 R1_AMP_MAILMSG_STOP_TIMEOUT rk_mbox_write], of "user_file 0" zero_message]
  by (simp add: session_data_def board_users)

subsection \<open>Test hooks\<close>

text \<open>Claim C32.
  The driver's private copy of the ring push (without corruption) is the push of the
  protocol library, with the result codes turned into errnos.
\<close>

theorem linux_push_is_protocol_push:
  "mailmsg_linux_ring_push r m False = map_option (\<lambda>(c, r'). (push_errno c, r')) (mailmsg_ring_push r m)"
  by (rule linux_ring_push_eq)

text \<open>
  CRC injection works: in an ACTIVE session with room in the ring the hook queues one
  committed frame that every receiver rejects with BAD_CRC, whatever the value.
\<close>

lemma crc_injection_detected:
  assumes "driver_inv (mbox_write env) d pg" and "mailmsg_state d = R1_AMP_MAILMSG_ACTIVE" and "p < 4" and "length (tx_frames pg p) < 7"
  shows "\<exists>d' pg' f. mailmsg_crc_inject_store env (Some (p, v)) count d pg = Some (count, d', pg') \<and>
    tx_frames pg' p = tx_frames pg p @ [f] \<and> frame_status f = MAILMSG_RING_BAD_CRC \<and>
    receive_status g f = MAILMSG_RING_BAD_CRC"
proof (cases rule: test_enqueue_cases [OF assms(1-3), of v True, case_names full ok])
  case (ok f m)
  obtain r c where n: "mailmsg_notify_locked (mbox_write env) (d_ctx d) p = (r, c)" by (metis surj_pair)
  note wf = driver_inv_bound(2) [OF assms(1)]
  have "session_generation d \<noteq> 0" using driver_inv_bound(1) [OF assms(1)] assms(1,2)
    by (auto simp: driver_inv_def lifecycle_inv_def endpoint_bound_def dest!: session_valid_0D(1))
  then have "frame_status f = MAILMSG_RING_BAD_CRC" unfolding ok(2,3)
    by (simp add: flipped_status send_message_valid send_message_wf)
  moreover have "ring_frames (ring_put (shared_ring (pg_mailmsg pg) Linux_to_cpu3 p) f) = tx_frames pg p @ [f]"
    by (rule ring_frames_put [OF shared_ring_wf [OF wf assms(3)] ok(1)])
  ultimately show ?thesis using ok(5) n assms(2,3) wf
    by (simp add: mailmsg_crc_inject_store_def mailmsg_send_ping_def r1_amp_mailmsg_data_gate_locked_def receive_status_def shared_ring_set)
qed (use assms(4) in simp)

subsection \<open>Image upload\<close>

text \<open>Claim C33.
  Writing an image chunk by chunk, each at the current file position, stores exactly the
  concatenation of the chunks at the start of the image area: every chunk is accepted in
  full, the position advances by what was written, the rest of the image area keeps its
  bytes, and nothing else of the driver or of the carveout changes.
\<close>

theorem image_upload_is_concatenation:
  assumes "driver_inv wr d pg" and "\<not> cpu_on_attempted d" and "image_written d = 0"
    and "length (concat bufs) \<le> unat (image_size d)"
  shows "\<exists>d' pg'. image_upload bufs d pg = Some (map (\<lambda>b. int (length b)) bufs, d', pg') \<and>
    unat (image_written d') = length (concat bufs) \<and> d' = d\<lparr>image_written := image_written d'\<rparr> \<and>
    pg' = pg\<lparr>pg_image := concat bufs @ drop (length (concat bufs)) (pg_image pg)\<rparr> \<and> driver_inv wr d' pg'"
  using image_upload_appends [OF assms(1,2), of bufs] assms(3,4) by (simp add: image_patched_def)

lemma board_image: "image_written (board_data wr) = 0" "unat (image_size (board_data wr)) = 4"
  by (simp_all add: board_eval)

theorem image_upload_is_concatenation_witness:
  "\<exists>d' pg'. image_upload [[1, 2], [3]] (board_data rk_mbox_write) board_page = Some ([2, 1], d', pg') \<and>
     pg_image pg' = [1, 2, 3, 0]"
proof -
  have "length (concat [[1, 2], [3 :: u8]]) \<le> unat (image_size (board_data rk_mbox_write))"
    using board_image by simp
  from image_upload_is_concatenation [OF board_data_inv(1) _ board_image(1) this] show ?thesis
    by (auto simp del: image_upload.simps simp: board_page_def numeral_eq_Suc)
qed

subsection \<open>The report of the reverse rings\<close>

text \<open>
  Reading \<open>mailmsg_response\<close> in an ACTIVE session ends and reports the queued frames of the
  four reverse rings, priority by priority and oldest first; per ring the report ends at
  an uncommitted frame, which stays, or behind a stale one, and the frames behind it stay.
\<close>

lemma response_report_in_order:
  assumes "driver_inv wr d pg" and "mailmsg_state d = R1_AMP_MAILMSG_ACTIVE"
  shows "\<exists>d' pg'. mailmsg_response_show m d pg = Some
      (let lines = concat (map (\<lambda>p. fst (drain_lines (session_generation d) p (rx_frames pg p))) [0, 1, 2, 3])
       in if lines = [] then Report_reason ''empty'' else Report_lines lines, d', pg') \<and> driver_inv wr d' pg' \<and>
    (\<forall>p < 4. rx_frames pg' p = snd (drain_lines (session_generation d) p (rx_frames pg p)) \<and>
       shared_ring (pg_mailmsg pg') Linux_to_cpu3 p = shared_ring (pg_mailmsg pg) Linux_to_cpu3 p)"
proof -
  have mem: "p \<in> set [0, 1, 2, 3]" if "p < 4" for p :: u32 using that by (rule ch_cases) simp_all
  have rx: "ep_rx (d_endpoint d) \<noteq> None"
    using driver_inv_bound(1) [OF assms(1)] assms(2) by (simp add: endpoint_bound_def)
  obtain d' pg' where "drain_priorities [0, 1, 2, 3] d pg m [] =
      Some (concat (map (\<lambda>p. fst (drain_lines (session_generation d) p (rx_frames pg p))) [0, 1, 2, 3]), d', pg')" "driver_inv wr d' pg'"
    "\<forall>p < 4. shared_ring (pg_mailmsg pg') Linux_to_cpu3 p = shared_ring (pg_mailmsg pg) Linux_to_cpu3 p"
    "\<forall>p < 4. rx_frames pg' p = (if p \<in> set [0, 1, 2, 3] then snd (drain_lines (session_generation d) p (rx_frames pg p)) else rx_frames pg p)"
    using drain_priorities_spec [OF assms, of "[0, 1, 2, 3]" m "[]"] by auto
  with rx mem assms(2) show ?thesis
    by (simp add: mailmsg_response_show_def r1_amp_mailmsg_data_gate_locked_def Let_def del: drain_priorities.simps list.map concat.simps)
qed

end
