(* ===== verification/Cpu3_Doorbell.thy ===== *)
theory Cpu3_Doorbell
  imports Cpu3_Steps
begin

text \<open>
  No reply of the firmware stays unannounced: whenever an operation has changed the output ring
  of a priority, the B2A doorbell of that priority is pending afterwards, and the firmware never
  takes a pending B2A doorbell back.
\<close>

definition rings :: "cpu3_config \<Rightarrow> cpu3_state \<Rightarrow> cpu3_state \<Rightarrow> bool" where
  "rings cfg w w' \<longleftrightarrow> cpu3_ok cfg w' \<and>
     (\<forall>q < 4. b2a_pending (c_regs w) q \<or> fw_out w' q \<noteq> fw_out w q \<longrightarrow> b2a_pending (c_regs w') q)"

lemma rings_refl: "cpu3_ok cfg w \<Longrightarrow> rings cfg w w"
  by (simp add: rings_def)

lemma rings_trans: "rings cfg w w1 \<Longrightarrow> rings cfg w1 w2 \<Longrightarrow> rings cfg w w2"
  unfolding rings_def by metis

lemma rings_ok: "rings cfg w w' \<Longrightarrow> cpu3_ok cfg w'"
  by (simp add: rings_def)

text \<open>Two states with the same endpoint, rings and registers ring alike.\<close>

lemma rings_cong:
  "rings cfg w w' \<Longrightarrow> cpu3_endpoint v = cpu3_endpoint w' \<Longrightarrow> pg_mailmsg (c_page v) = pg_mailmsg (c_page w') \<Longrightarrow>
   c_regs v = c_regs w' \<Longrightarrow> rings cfg w v"
  by (simp add: rings_def cpu3_ok_def)

lemma rings_cong_left:
  "rings cfg w w' \<Longrightarrow> pg_mailmsg (c_page v) = pg_mailmsg (c_page w) \<Longrightarrow> c_regs v = c_regs w \<Longrightarrow> rings cfg v w'"
  by (simp add: rings_def)

subsection \<open>One reply\<close>

lemma notify_keeps_bells:
  assumes "mailbox_hw wr" and "p < 4" and "q < 4" and "b2a_pending regs q \<or> q = p"
  shows "b2a_pending (snd (mailmsg_cpu3_notify wr regs p)) q"
  using assms(3,4) mailbox_hw.b2a_pending_doorbell [OF assms(1-3)]
  by (cases rule: cpu3_notify_cases [OF assms(2), of regs wr]) auto

lemma send_rings:
  assumes "mailbox_hw (cfg_mbox_write cfg)" and "cpu3_ok cfg w" and "p < 4" and "len \<le> 28" and "unat len \<le> length bs"
    and "cpu3_send cfg p ty bs len w = Some (ret, result, w')"
  shows "rings cfg w w'"
proof (rule cpu3_send_spec [OF assms(2-5), of ty])
  fix r res v
  assume v: "cpu3_send cfg p ty bs len w = Some (r, res, v)" "cpu3_ok cfg v" "same_service p w v" "fw_queue v p =
       push_reply (ep_generation (cpu3_endpoint w)) (ty, bs, len) (fw_queue w p)"
    "r = (if length (fw_out w p) < 7 then 0 else MAILMSG_RING_FULL)"
    "c_regs v = (if r = 0 then snd (mailmsg_cpu3_notify (cfg_mbox_write cfg) (c_regs w) p) else c_regs w)"
  have "b2a_pending (c_regs v) q" if q: "q < 4" "b2a_pending (c_regs w) q \<or> fw_out v q \<noteq> fw_out w q" for q
  proof (cases "r = 0")
    case True
    have "b2a_pending (c_regs w) q \<or> q = p" using q v(3) by (auto simp: same_service_def)
    with True q show ?thesis unfolding v(6) using notify_keeps_bells [OF assms(1,3)] by simp
  next
    case False
    then have "fw_out v p = fw_out w p" using v(4,5) by (auto simp: push_reply_def split: if_split_asm)
    then have "fw_out v q = fw_out w q" using v(3) q(1) by (cases "q = p") (auto simp: same_service_def)
    with False q show ?thesis unfolding v(6) by simp
  qed
  with v(1,2) assms(6) show ?thesis by (simp add: rings_def)
qed

lemma reply_rings:
  assumes "mailbox_hw (cfg_mbox_write cfg)" and "cpu3_ok cfg w" and "p < 4"
  shows "mailmsg_send_feedback cfg p ty s r w = Some (b, w') \<Longrightarrow> rings cfg w w'"
    "mailmsg_send_stop_feedback cfg ty s r w = Some (b, w') \<Longrightarrow> rings cfg w w'"
    "mailmsg_send_pong cfg p f w = Some (b, w') \<Longrightarrow> rings cfg w w'"
proof -
  have recorded: "rings cfg w (mailmsg_record_tx_full q t x v)" if "rings cfg w v" for q t x v
    by (rule rings_cong [OF that]) (simp_all add: record_tx_full_same)
  have fb: "rings cfg w v" if "cpu3_send cfg q t (feedback_payload x y) 8 w = Some (ret, res, v)" "q < 4" for q t x y ret res v
    by (rule send_rings [OF assms(1,2) that(2) _ _ that(1)]) simp_all
  have pong: "rings cfg w v" if "cpu3_send cfg p t (mailmsg_store_payload_u32 (replicate 4 0) 0 x) 4 w = Some (ret, res, v)" for t x ret res v
    by (rule send_rings [OF assms(1-3) _ _ that]) simp_all
  show "mailmsg_send_feedback cfg p ty s r w = Some (b, w') \<Longrightarrow> rings cfg w w'"
    using fb [OF _ assms(3)] recorded by (fastforce simp: mailmsg_send_feedback_def split: bind_splits if_split_asm)
  show "mailmsg_send_stop_feedback cfg ty s r w = Some (b, w') \<Longrightarrow> rings cfg w w'"
    using fb [where q = 0] recorded by (fastforce simp: mailmsg_send_stop_feedback_def split: bind_splits if_split_asm)
  show "mailmsg_send_pong cfg p f w = Some (b, w') \<Longrightarrow> rings cfg w w'"
    using pong recorded by (fastforce simp: mailmsg_send_pong_def Let_def split: bind_splits if_split_asm)
qed

lemma receive_rings:
  assumes "cpu3_ok cfg w" and "p < 4"
    and "mailmsg_endpoint_receive (cpu3_endpoint w) (pg_mailmsg (c_page w)) p m = Some (ret, ep, sh, m')"
  shows "rings cfg w (w\<lparr>cpu3_endpoint := ep, c_page := (c_page w)\<lparr>pg_mailmsg := sh\<rparr>\<rparr>)"
proof (cases rule: fw_receive_cases [OF assms(1,2), of m, case_names empty incomplete frame])
  case empty
  with assms(1,3) show ?thesis by (auto simp: rings_def cpu3_ok_def)
next
  case (incomplete f fs ep')
  with assms(3) show ?thesis by (simp add: rings_def cpu3_ok_def)
next
  case (frame f fs ep' sh' w')
  have "fw_out w' q = fw_out w q" if "q < 4" for q
    using frame(6,8) that by (cases "q = p") (auto simp: same_service_def)
  with frame assms(3) show ?thesis by (simp add: rings_def)
qed

lemma cpu_off_rings:
  assumes "mailbox_hw (cfg_mbox_write cfg)" and "cpu3_ok cfg w"
  shows "rings cfg w (mailmsg_cpu_off_after_ready cfg w)"
  using assms(2) mailbox_hw.cpu_off_quiesces(2) [OF assms(1) refl] by (simp add: rings_def cpu_off_ok)

subsection \<open>A pass of the worker\<close>

lemma service_priority_rings:
  assumes "mailbox_hw (cfg_mbox_write cfg)" and "p < 4"
  shows "cpu3_ok cfg w \<Longrightarrow> service_priority cfg n p m msgs h w = Some (w', msgs', h') \<Longrightarrow> rings cfg w w'"
proof (induction n arbitrary: m msgs h w)
  case 0
  then show ?case by (simp add: rings_refl)
next
  case (Suc n)
  obtain ret ep sh f where rx: "mailmsg_endpoint_receive (cpu3_endpoint w) (pg_mailmsg (c_page w)) p m = Some (ret, ep, sh, f)"
    using Suc.prems(2) by (auto split: bind_splits)
  let ?w = "w\<lparr>cpu3_endpoint := ep, c_page := (c_page w)\<lparr>pg_mailmsg := sh\<rparr>\<rparr>"
  note r1 = receive_rings [OF Suc.prems(1) assms(2) rx]
  note reply = reply_rings [OF assms(1) _ assms(2)]
  have next_pass: "rings cfg w w'" if "rings cfg w v" "service_priority cfg n p f (msgs + 1) (Suc h) v = Some (w', msgs', h')" for v
    using Suc.IH [OF rings_ok [OF that(1)] that(2)] that(1) rings_trans by blast
  have stop: "mailmsg_send_stop_feedback cfg ty s r u = Some (b, v) \<Longrightarrow> rings cfg w u \<Longrightarrow> rings cfg w v"
    and fb: "mailmsg_send_feedback cfg p ty s r u = Some (b, v) \<Longrightarrow> rings cfg w u \<Longrightarrow> rings cfg w v"
    and pong: "mailmsg_send_pong cfg p f u = Some (b, v) \<Longrightarrow> rings cfg w u \<Longrightarrow> rings cfg w v" for u v b ty s r
    by (rule rings_trans, assumption, rule reply, erule rings_ok, assumption)+
  have off: "rings cfg w (mailmsg_cpu_off_after_ready cfg v)" if "rings cfg w v" for v
    using cpu_off_rings [OF assms(1) rings_ok [OF that]] that rings_trans by blast
  have err: "rings cfg w (set_observation a b c mk (v\<lparr>mailmsg_rx_error_count := k\<rparr>))" if "rings cfg w v" for a b c mk v k
    by (rule rings_cong [OF that]) (simp_all add: set_observation_def)
  show ?case
  proof (cases "ret = 0")
    case False
    then show ?thesis using Suc.prems(2) r1 rx
      by (auto simp: Let_def intro!: err intro: fb split: bind_splits if_split_asm)
  next
    case True
    note body = Suc.prems(2) [unfolded service_priority.simps rx, simplified True, simplified, unfolded Let_def]
    show ?thesis
    proof (cases "p = 0 \<and> msg_type f = MAILMSG_MSG_STOP_REQUEST")
      case True
      then obtain b v ty r where sent: "mailmsg_send_stop_feedback cfg ty (msg_sequence f) r ?w = Some (b, v)"
        and rest: "w' = mailmsg_cpu_off_after_ready cfg v \<or> service_priority cfg n p f (msgs + 1) (Suc h) v = Some (w', msgs', h')"
        using body by (auto split: bind_splits if_split_asm)
      from rest off next_pass stop [OF sent r1] show ?thesis by blast
    next
      case False
      show ?thesis
      proof (cases "w' = mailmsg_cpu_off_after_ready cfg ?w")
        case True
        with off [OF r1] show ?thesis by simp
      next
        case other: False
        with body False obtain b1 v1 b2 v2 where sent: "(if mailmsg_priority_is_reliable p
            then mailmsg_send_feedback cfg p MAILMSG_MSG_ACK (msg_sequence f) 0 ?w else Some (True, ?w)) = Some (b1, v1)"
          "mailmsg_send_pong cfg p f v1 = Some (b2, v2)" "service_priority cfg n p f (msgs + 1) (Suc h) v2 = Some (w', msgs', h')"
          by (auto split: bind_splits if_split_asm)
        have "rings cfg w v1" using sent(1) fb [OF _ r1] r1 by (auto split: if_split_asm)
        from next_pass [OF pong [OF sent(2) this] sent(3)] show ?thesis .
      qed
    qed
  qed
qed

lemma service_priorities_rings:
  assumes "mailbox_hw (cfg_mbox_write cfg)" and "\<forall>p \<in> set ps. p < 4"
  shows "cpu3_ok cfg w \<Longrightarrow> service_priorities cfg pending ps msgs lst re w = Some (w', msgs', lst', re') \<Longrightarrow> rings cfg w w'"
  using assms(2)
proof (induction ps arbitrary: msgs lst re w)
  case Nil
  then show ?case by (simp add: rings_refl)
next
  case (Cons p ps)
  show ?case
  proof (cases "pending AND BIT p = 0 \<or> p = cfg_skip_priority cfg")
    case True
    with Cons show ?thesis by simp
  next
    case False
    then obtain v m1 h1 where v: "service_priority cfg MAILMSG_WORKER_DRAIN_QUOTA p (cfg_stack_message cfg) msgs 0 w = Some (v, m1, h1)"
      using Cons.prems(2) by (auto simp del: service_priority.simps split: bind_splits)
    have r: "rings cfg w v" by (rule service_priority_rings [OF assms(1) _ Cons.prems(1) v]) (use Cons.prems(3) in simp)
    have "w' = v \<or> rings cfg v w'"
      using Cons.prems(2,3) False v Cons.IH [OF rings_ok [OF r]]
      by (auto simp: Let_def simp del: service_priority.simps split: if_split_asm)
    with r show ?thesis using rings_trans by blast
  qed
qed

lemma worker_rings:
  assumes "mailbox_hw (cfg_mbox_write cfg)" and "cpu3_ok cfg w" and "mailmsg_worker cfg w = Some w'"
  shows "rings cfg w w'"
proof (cases "mailmsg_work_sem w = 0")
  case True
  with assms show ?thesis by (simp add: mailmsg_worker_def rings_refl)
next
  case False
  let ?v = "w\<lparr>mailmsg_work_sem := mailmsg_work_sem w - 1, mailmsg_worker_wake_count := mailmsg_worker_wake_count w + 1,
    mailmsg_pending_priorities := 0\<rparr>"
  have start: "rings cfg w u" if "rings cfg v u" "c_regs v = c_regs w" "c_page v = c_page w" for u v
    by (rule rings_cong_left [OF that(1)]) (use that in simp_all)
  have ok: "cpu3_ok cfg v" if "cpu3_endpoint v = cpu3_endpoint w" "c_page v = c_page w" for v
    using that assms(2) by (simp add: cpu3_ok_def)
  have service: "rings cfg w u" if "mailmsg_pingpong_test_service cfg pend lst re v = Some (u, m, l, r)"
    "cpu3_endpoint v = cpu3_endpoint w" "c_page v = c_page w" "c_regs v = c_regs w" for pend lst re v u m l r
  proof -
    have "u = v \<or> service_priorities cfg pend [0, 1, 2, 3] 0 lst re v = Some (u, m, l, r)"
      using that(1) by (simp add: mailmsg_pingpong_test_service_def del: service_priorities.simps split: if_split_asm)
    then have "rings cfg v u"
      using service_priorities_rings [OF assms(1) _ ok [OF that(2,3)], of "[0, 1, 2, 3]"] rings_refl [OF ok [OF that(2,3)]]
      by (elim disjE) simp_all
    from start [OF this that(4,3)] show ?thesis .
  qed
  have same: "rings cfg w u" if "rings cfg w v" "cpu3_endpoint u = cpu3_endpoint v" "pg_mailmsg (c_page u) = pg_mailmsg (c_page v)" "c_regs u = c_regs v"
    for u v using rings_cong that by blast
  show ?thesis
  proof (cases "mailmsg_pending_priorities w = 0")
    case True
    with False assms(3) show ?thesis
      by (auto simp: mailmsg_worker_def Let_def intro!: same [OF rings_refl [OF assms(2)]])
  next
    case pending: False
    then obtain u m l r where u: "mailmsg_pingpong_test_service cfg (mailmsg_pending_priorities w) MAILMSG_PRIORITY_COUNT 0
        (?v\<lparr>mailmsg_worker_drain_count := mailmsg_worker_drain_count w + 1\<rparr>) = Some (u, m, l, r)"
      and w': "cpu3_endpoint w' = cpu3_endpoint u" "pg_mailmsg (c_page w') = pg_mailmsg (c_page u)" "c_regs w' = c_regs u"
      using False assms(3) by (auto simp: mailmsg_worker_def Let_def k_sem_give_def split: bind_splits if_split_asm)
    show ?thesis by (rule same [OF service [OF u] w']) simp_all
  qed
qed

end
