(* ===== verification/Cpu3_Behaviour.thy ===== *)
theory Cpu3_Behaviour
  imports Amp_Interface Cpu3_Doorbell
begin

text \<open>
  What the CPU3 firmware promises: it stays safe whatever Linux queues, its worker
  implements a queue transformer, it answers a stop request and powers off, and no
  doorbell is lost.  \<open>board_firmware\<close> is the configuration of the instances: the default
  build with stop control.
\<close>

subsection \<open>Concrete states\<close>

definition board_firmware :: cpu3_config where
  "board_firmware = \<lparr>cfg_mbox_write = rk_mbox_write, cfg_current_el = 4, cfg_gicd_irouter = 0, cfg_enable_stop_control = True,
     cfg_self_off_value = None, cfg_skip_session_ready = False, cfg_skip_priority = 4, cfg_pm_cpu_off = None,
     cfg_stack_result = zero_result, cfg_stack_message = zero_message\<rparr>"

lemma board_firmware_simps [simp]:
  "cfg_mbox_write board_firmware = rk_mbox_write" "cfg_enable_stop_control board_firmware"
  "\<not> cfg_skip_session_ready board_firmware" "cfg_skip_priority board_firmware = 4" "cfg_self_off_value board_firmware = None"
  by (simp_all add: board_firmware_def)

text \<open>A request frame of Linux in session \<open>g\<close>.\<close>

definition request_frame :: "u32 \<Rightarrow> u32 \<Rightarrow> u32 \<Rightarrow> u8 list \<Rightarrow> mailmsg_message" where
  "request_frame g ty s bs = seal (send_message g ty s bs (word_of_nat (length bs)))"

lemma request_frame_ok:
  assumes "g \<noteq> 0" and "s \<noteq> 0" and "length bs \<le> 28"
  shows "receive_status g (request_frame g ty s bs) = 0" "message_wf (request_frame g ty s bs)"
    "msg_type (request_frame g ty s bs) = ty" "msg_length (request_frame g ty s bs) = word_of_nat (length bs)"
proof -
  have len: "(word_of_nat (length bs) :: u32) \<le> 28" "unat (word_of_nat (length bs) :: u32) \<le> length bs"
    using assms(3) by (simp_all add: word_le_nat_alt unat_of_nat)
  show "receive_status g (request_frame g ty s bs) = 0" "message_wf (request_frame g ty s bs)"
    "msg_type (request_frame g ty s bs) = ty" "msg_length (request_frame g ty s bs) = word_of_nat (length bs)"
    using assms(1,2) len by (simp_all add: request_frame_def receive_status_def frame_status_seal send_message_valid send_message_wf)
qed

text \<open>The firmware right after boot on a page of session \<open>g\<close>, with some doorbells recorded.\<close>

definition rung :: "u32 \<Rightarrow> cpu3_state \<Rightarrow> cpu3_state" where
  "rung b w = w\<lparr>mailmsg_pending_priorities := b, mailmsg_work_sem := 1\<rparr>"

lemma rung_simps [simp]:
  "mailmsg_pending_priorities (rung b w) = b" "c_halted (rung b w) = c_halted w" "cpu3_endpoint (rung b w) = cpu3_endpoint w"
  "c_page (rung b w) = c_page w" "c_regs (rung b w) = c_regs w" "mailmsg_session_ready_published (rung b w) = mailmsg_session_ready_published w"
  by (simp_all add: rung_def)

lemma booted:
  assumes "shared_wf (pg_mailmsg pg)" and "session_announced (pg_mailmsg pg)"
    and "ring_frames (shared_ring (pg_mailmsg pg) Cpu3_to_linux 0) = []"
  obtains w where "cpu3_main_init board_firmware (fresh_cpu3 regs pg) = Some w" "cpu3_reachable board_firmware w"
    "\<And>b. cpu3_inv board_firmware (rung b w)" "\<not> c_halted w" "mailmsg_session_ready_published w"
    "ep_generation (cpu3_endpoint w) = shm_generation (pg_mailmsg pg)"
    "\<And>q. q < 4 \<Longrightarrow> fw_in w q = ring_frames (shared_ring (pg_mailmsg pg) Linux_to_cpu3 q)"
    "fw_out w 0 = [ready_frame (shm_generation (pg_mailmsg pg))]"
proof (rule main_init_spec [OF assms, of board_firmware regs])
  fix w
  assume a: "cpu3_main_init board_firmware (fresh_cpu3 regs pg) = Some w" "cpu3_ok board_firmware w" "mailmsg_endpoint_ready w"
    "\<not> c_halted w" "mailmsg_session_ready_published w" "ep_generation (cpu3_endpoint w) = shm_generation (pg_mailmsg pg)"
    "fw_in w 0 = ring_frames (shared_ring (pg_mailmsg pg) Linux_to_cpu3 0)"
    "\<And>q. q < 4 \<Longrightarrow> q \<noteq> 0 \<Longrightarrow> fw_in w q = ring_frames (shared_ring (pg_mailmsg pg) Linux_to_cpu3 q) \<and>
      fw_out w q = ring_frames (shared_ring (pg_mailmsg pg) Cpu3_to_linux q)"
    "fw_out w 0 = [ready_frame (shm_generation (pg_mailmsg pg))]"
  have "cpu3_reachable board_firmware w" using assms(1,2) a(1) by (rule cpu3_reachable.boot)
  moreover have "cpu3_inv board_firmware (rung b w)" for b using a(2,3) by (simp add: cpu3_inv_def cpu3_ok_def rung_def)
  moreover have "fw_in w q = ring_frames (shared_ring (pg_mailmsg pg) Linux_to_cpu3 q)" if "q < 4" for q
    using a(7) a(8) [OF that] by (cases "q = 0") auto
  ultimately show thesis using a(1,4-6,9) by (intro that)
qed simp

text \<open>A page of session \<open>g\<close> with one request queued.\<close>

abbreviation request_page :: "u32 \<Rightarrow> u32 \<Rightarrow> mailmsg_message \<Rightarrow> amp_page" where
  "request_page g p f \<equiv> queue_frame Linux_to_cpu3 p f (session_page g)"

lemma request_page_ok:
  assumes "g \<noteq> 0" and "message_wf f" and "p < 4"
  shows "shared_wf (pg_mailmsg (request_page g p f))" "session_announced (pg_mailmsg (request_page g p f))"
    "ring_frames (shared_ring (pg_mailmsg (request_page g p f)) Cpu3_to_linux 0) = []"
    "shm_generation (pg_mailmsg (request_page g p f)) = g"
    "\<And>q. q < 4 \<Longrightarrow> ring_frames (shared_ring (pg_mailmsg (request_page g p f)) Linux_to_cpu3 q) = (if q = p then [f] else [])"
proof -
  have "driver_inv rk_mbox_write (session_data R1_AMP_MAILMSG_STARTING g rk_mbox_write) (request_page g p f)"
    by (intro wf_intros) (use assms in simp_all)
  then show "shared_wf (pg_mailmsg (request_page g p f))" by (rule driver_inv_bound(2))
  show "session_announced (pg_mailmsg (request_page g p f))" "shm_generation (pg_mailmsg (request_page g p f)) = g"
    using assms(1) fresh_shared_announced [of g] by (simp_all add: queue_frame_def session_announced_def)
  note fr = queue_frame_frames [of "session_page g" p _ Linux_to_cpu3 f]
  show "ring_frames (shared_ring (pg_mailmsg (request_page g p f)) Cpu3_to_linux 0) = []" using fr [of 0 Cpu3_to_linux] assms(3) by simp
  show "ring_frames (shared_ring (pg_mailmsg (request_page g p f)) Linux_to_cpu3 q) = (if q = p then [f] else [])" if "q < 4" for q
    using fr [of q Linux_to_cpu3] assms(3) that by simp
qed

subsection \<open>Safety\<close>

text \<open>Claim C7.
  In every reachable state of the firmware (boot into an announced session, then any
  interleaving of interrupts, worker passes, main-loop passes and actions of Linux that
  keep the rings well formed) the endpoint stays bound to the session, a recorded doorbell
  always has a wake-up pending for the worker, and both the worker and the main loop
  complete their next pass without leaving an array.  On a mailbox that latches doorbells no
  reply stays unannounced: wherever the pass of the worker changed an output ring, the B2A
  doorbell of that priority is pending afterwards.
\<close>

theorem firmware_stays_safe:
  assumes "cpu3_reachable cfg w" and "mailbox_hw (cfg_mbox_write cfg)"
  shows "endpoint_bound (cpu3_endpoint w) (pg_mailmsg (c_page w)) Cpu3_to_linux Linux_to_cpu3 \<and>
    shared_wf (pg_mailmsg (c_page w)) \<and> (mailmsg_pending_priorities w \<noteq> 0 \<longrightarrow> mailmsg_work_sem w = 1) \<and>
    (\<exists>w'. mailmsg_worker cfg w = Some w' \<and> (\<forall>q < 4. fw_out w' q \<noteq> fw_out w q \<longrightarrow> b2a_pending (c_regs w') q)) \<and>
    (\<exists>w'. cpu3_main_pass cfg w = Some w')"
proof -
  have inv: "cpu3_inv cfg w" by (rule cpu3_reachable_inv [OF assms(1)])
  then have ok: "cpu3_ok cfg w" "mailmsg_pending_priorities w \<noteq> 0 \<longrightarrow> mailmsg_work_sem w = 1" by (simp_all add: cpu3_inv_def)
  obtain w' where w': "mailmsg_worker cfg w = Some w'" using worker_inv [OF inv] by auto
  have "\<forall>q < 4. fw_out w' q \<noteq> fw_out w q \<longrightarrow> b2a_pending (c_regs w') q"
    using worker_rings [OF assms(2) ok(1) w'] by (simp add: rings_def)
  moreover have "\<exists>w'. cpu3_main_pass cfg w = Some w'" using main_pass_inv [OF inv] by auto
  ultimately show ?thesis using ok w' by (simp add: cpu3_ok_def)
qed

theorem firmware_stays_safe_witness:
  "\<exists>w. cpu3_reachable board_firmware w \<and> fw_in w 1 = [request_frame 5 MAILMSG_MSG_PING 1 [7, 0, 0, 0]] \<and>
     (\<exists>w'. mailmsg_worker board_firmware w = Some w' \<and> (fw_out w' 1 \<noteq> fw_out w 1 \<longrightarrow> b2a_pending (c_regs w') 1))"
proof -
  note f = request_frame_ok [of 5 1 "[7, 0, 0, 0]" MAILMSG_MSG_PING, simplified]
  note pg = request_page_ok [OF _ f(2), of 5 1, simplified]
  obtain w where w: "cpu3_reachable board_firmware w" "\<And>q. q < 4 \<Longrightarrow> fw_in w q =
      ring_frames (shared_ring (pg_mailmsg (request_page 5 1 (request_frame 5 MAILMSG_MSG_PING 1 [7, 0, 0, 0]))) Linux_to_cpu3 q)"
    by (rule booted [OF pg(1-3)]) (rule that)
  with firmware_stays_safe [OF w(1)] rk.mailbox_hw_axioms pg(5) [of 1] show ?thesis by auto
qed

text \<open>The booted firmware of the instances: one PING on the urgent priority, its doorbell recorded.\<close>

abbreviation ping_request :: mailmsg_message where
  "ping_request \<equiv> request_frame 5 MAILMSG_MSG_PING 1 [7, 0, 0, 0]"

lemma ping_booted:
  obtains w where "cpu3_main_init board_firmware (fresh_cpu3 (\<lambda>_. 0) (request_page 5 1 ping_request)) = Some w"
    "cpu3_inv board_firmware (rung 2 w)" "\<not> c_halted w" "mailmsg_session_ready_published w"
    "ep_generation (cpu3_endpoint w) = 5" "fw_in w 1 = [ping_request]" "cpu3_ok board_firmware w"
    "well_formed_input board_firmware w 1"
proof -
  note f = request_frame_ok [of 5 1 "[7, 0, 0, 0]" MAILMSG_MSG_PING, simplified]
  note pg = request_page_ok [OF _ f(2), of 5 1, simplified]
  show thesis
  proof (rule booted [OF pg(1-3), of "\<lambda>_. 0"])
    fix w
    assume w: "cpu3_main_init board_firmware (fresh_cpu3 (\<lambda>_. 0) (request_page 5 1 ping_request)) = Some w"
      "cpu3_reachable board_firmware w" "\<And>b. cpu3_inv board_firmware (rung b w)" "\<not> c_halted w" "mailmsg_session_ready_published w"
      "ep_generation (cpu3_endpoint w) = shm_generation (pg_mailmsg (request_page 5 1 ping_request))"
      "\<And>q. q < 4 \<Longrightarrow> fw_in w q = ring_frames (shared_ring (pg_mailmsg (request_page 5 1 ping_request)) Linux_to_cpu3 q)"
    have "fw_in w 1 = [ping_request]" using w(7) [of 1] pg(5) [of 1] by simp
    moreover have "well_formed_input board_firmware w 1" using calculation w(6) pg(4) f(1) by (simp add: well_formed_input_def ordinary_def)
    moreover have "cpu3_ok board_firmware w" using cpu3_reachable_inv [OF w(2)] by (simp add: cpu3_inv_def)
    ultimately show thesis using w(1,3-6) pg(4) by (intro that) simp_all
  qed
qed

subsection \<open>The service\<close>

text \<open>Claim C8.
  A worker pass implements the abstract service: on intact requests of the session, every
  priority whose doorbell was recorded (and that the build does not skip) has its input
  queue emptied and, per request in order, an ACK (reliable priorities) and a PONG with
  the value plus one appended to its output queue, as far as there is room; the other
  priorities keep their queues and the pass leaves no doorbell behind.
\<close>

theorem worker_implements_queue_service:
  assumes "cpu3_inv cfg w" and "\<not> c_halted w" and "mailmsg_pending_priorities w \<noteq> 0"
    and "cfg_skip_session_ready cfg \<or> mailmsg_session_ready_published w"
    and "\<forall>p < 4. chosen cfg (mailmsg_pending_priorities w) p \<longrightarrow> well_formed_input cfg w p"
  shows "\<exists>w'. mailmsg_worker cfg w = Some w' \<and> cpu3_inv cfg w' \<and> \<not> c_halted w' \<and>
    mailmsg_pending_priorities w' = 0 \<and> mailmsg_work_sem w' = 0 \<and>
    service_view w' = serve_queues (ep_generation (cpu3_endpoint w)) (chosen cfg (mailmsg_pending_priorities w))
      [0, 1, 2, 3] (service_view w)"
  by (rule worker_refines [OF assms]) blast

lemma chosen_rung: "p < 4 \<Longrightarrow> chosen board_firmware 2 p \<Longrightarrow> p = 1"
  by (erule ch_cases) (simp_all add: chosen_def)

theorem worker_implements_queue_service_witness:
  "\<exists>w w'. fw_in w 1 = [ping_request] \<and> mailmsg_worker board_firmware (rung 2 w) = Some w' \<and> mailmsg_pending_priorities w' = 0 \<and>
     service_view w' = serve_queues 5 (chosen board_firmware 2) [0, 1, 2, 3] (service_view (rung 2 w))"
proof -
  obtain w where w: "cpu3_inv board_firmware (rung 2 w)" "\<not> c_halted w" "mailmsg_session_ready_published w"
    "ep_generation (cpu3_endpoint w) = 5" "fw_in w 1 = [ping_request]" "well_formed_input board_firmware w 1" by (rule ping_booted)
  have "\<forall>p < 4. chosen board_firmware 2 p \<longrightarrow> well_formed_input board_firmware (rung 2 w) p"
    using chosen_rung w(6) by (auto simp: well_formed_input_def)
  with worker_implements_queue_service [OF w(1)] w(2-5) show ?thesis by auto
qed

subsection \<open>Stop\<close>

lemma cpu3_notify_rings:
  assumes "mailbox_hw wr" and "p < 4"
  shows "b2a_pending (snd (mailmsg_cpu3_notify wr regs p)) p"
  using assms(2) mailbox_hw.b2a_pending_doorbell [OF assms(1,2,2)] by (cases rule: cpu3_notify_cases [OF assms(2), of regs wr]) simp_all

text \<open>
  The firmware answers a stop request before it goes: with room in the critical ring the
  worker queues STOP_READY carrying the sequence number of the request, rings Linux, and
  halts with interrupts off; no A2B doorbell stays pending, which is what a rearm needs.
\<close>

lemma stop_request_powers_off:
  assumes "mailbox_hw (cfg_mbox_write cfg)" and "cpu3_inv cfg w" and "\<not> c_halted w" and "mailmsg_pending_priorities w = 1"
    and "cfg_skip_session_ready cfg \<or> mailmsg_session_ready_published w" and "cfg_skip_priority cfg \<noteq> 0"
    and "fw_in w 0 = f # fs" and "stop_request (ep_generation (cpu3_endpoint w)) f"
    and "cfg_enable_stop_control cfg" and "length (fw_out w 0) < 7"
  shows "\<exists>w'. mailmsg_worker cfg w = Some w' \<and> c_halted w' \<and> \<not> c_irq_enabled w' \<and> fw_in w' 0 = fs \<and>
    fw_out w' 0 = fw_out w 0 @ [stop_reply (ep_generation (cpu3_endpoint w)) MAILMSG_MSG_STOP_READY f 0
      (next_seq (ep_next_sequence (cpu3_endpoint w)))] \<and>
    b2a_pending (c_regs w') 0 \<and> (\<forall>q < 4. \<not> a2b_pending (c_regs w') q)"
proof (rule worker_stop [OF assms(2-10)])
  fix w' assume w: "mailmsg_worker cfg w = Some (mailmsg_cpu_off_after_ready cfg w')" "fw_in w' 0 = fs"
    "fw_out w' 0 = fw_out w 0 @ [stop_reply (ep_generation (cpu3_endpoint w)) MAILMSG_MSG_STOP_READY f 0
       (next_seq (ep_next_sequence (cpu3_endpoint w)))]"
    "c_regs w' = snd (mailmsg_cpu3_notify (cfg_mbox_write cfg) (c_regs w) 0)"
  have "b2a_pending (c_regs w') 0" unfolding w(4) by (rule cpu3_notify_rings [OF assms(1)]) simp
  with w(1-3) mailbox_hw.cpu_off_quiesces [OF assms(1) refl, of _ w'] show ?thesis by (simp del: cpu_off_simps(9))
qed

subsection \<open>Doorbells\<close>

text \<open>
  The interrupt handler loses no protocol doorbell: it records the priority of the channel
  and wakes the worker, acknowledges exactly that channel's A2B bit, and leaves the other
  channels and the B2A side pending as they were.
\<close>

lemma isr_records_and_acknowledges:
  assumes "mailbox_hw (cfg_mbox_write cfg)" and "i < 4" and "q < 4"
    and "c_regs w (A2B_CMD i) AND 0xfffffff0 = AMP_MBOX_PROTOCOL_CMD"
  shows "mailmsg_pending_priorities (mailmsg_mailbox_a2b_matrix_isr cfg i w) = mailmsg_pending_priorities w OR BIT i \<and>
    0 < mailmsg_work_sem (mailmsg_mailbox_a2b_matrix_isr cfg i w) \<and>
    (a2b_pending (c_regs (mailmsg_mailbox_a2b_matrix_isr cfg i w)) q \<longleftrightarrow> a2b_pending (c_regs w) q \<and> q \<noteq> i) \<and>
    (b2a_pending (c_regs (mailmsg_mailbox_a2b_matrix_isr cfg i w)) q \<longleftrightarrow> b2a_pending (c_regs w) q)"
  using isr_protocol(1,2) [of w i cfg] mailbox_hw.isr_acknowledges [OF assms(1) refl assms(2,3,4)] assms(2,4)
  by (simp add: u32_mod_4)

text \<open>Claim C34.
  A damaged frame strands the ones behind it: when the head of the ring fails its CRC or
  its field checks, the pass ends with that frame consumed, the frames behind it still
  queued, and neither a recorded doorbell nor a wake-up for the worker left.
\<close>

theorem bad_frame_strands_followers:
  assumes "cpu3_inv cfg w" and "\<not> c_halted w" and "mailmsg_pending_priorities w = 1"
    and "cfg_skip_session_ready cfg \<or> mailmsg_session_ready_published w" and "cfg_skip_priority cfg \<noteq> 0"
    and "fw_in w 0 = f # fs"
    and "receive_status (ep_generation (cpu3_endpoint w)) f \<in> {MAILMSG_RING_BAD_CRC, MAILMSG_RING_INVALID}"
  shows "\<exists>w'. mailmsg_worker cfg w = Some w' \<and> fw_in w' 0 = fs \<and> mailmsg_pending_priorities w' = 0 \<and> mailmsg_work_sem w' = 0"
  by (rule worker_bad_head [OF assms]) blast

theorem bad_frame_strands_followers_witness:
  "\<exists>w w'. fw_in w 0 = [flip_payload ping_request, ping_request] \<and> mailmsg_worker board_firmware (rung 1 w) = Some w' \<and>
     fw_in w' 0 = [ping_request] \<and> mailmsg_work_sem w' = 0"
proof -
  let ?b = "flip_payload ping_request"
  let ?pg = "queue_frame Linux_to_cpu3 0 ping_request (request_page 5 0 ?b)"
  note f = request_frame_ok [of 5 1 "[7, 0, 0, 0]" MAILMSG_MSG_PING, simplified]
  have bad: "receive_status 5 ?b = MAILMSG_RING_BAD_CRC"
    using flipped_status [of "send_message 5 MAILMSG_MSG_PING 1 [7, 0, 0, 0] 4"]
    by (simp add: receive_status_def request_frame_def send_message_valid send_message_wf)
  have "message_wf ?b" using f(2) by simp
  note pg = request_page_ok [OF _ this, of 5 0, simplified]
  have "driver_inv rk_mbox_write (session_data R1_AMP_MAILMSG_STARTING 5 rk_mbox_write) ?pg"
    by (intro wf_intros) (use f(2) in simp_all)
  then have wf: "shared_wf (pg_mailmsg ?pg)" by (rule driver_inv_bound(2))
  have "ring_depth (shared_ring (pg_mailmsg (request_page 5 0 ?b)) Linux_to_cpu3 0) = 1"
    using pg(5) [of 0] length_ring_frames [of "shared_ring (pg_mailmsg (request_page 5 0 ?b)) Linux_to_cpu3 0"] by simp
  note fr = queue_frame_frames [OF pg(1), of 0 _ Linux_to_cpu3 ping_request, simplified this, simplified]
  have hd: "session_announced (pg_mailmsg ?pg)" "shm_generation (pg_mailmsg ?pg) = 5"
    using pg(2,4) by (simp_all add: queue_frame_def session_announced_def)
  show ?thesis
  proof (rule booted [OF wf hd(1), of "\<lambda>_. 0"])
    show "ring_frames (shared_ring (pg_mailmsg ?pg) Cpu3_to_linux 0) = []" using fr [of 0 Cpu3_to_linux] pg(3) by simp
    fix w
    assume w: "\<And>b. cpu3_inv board_firmware (rung b w)" "\<not> c_halted w" "mailmsg_session_ready_published w"
      "ep_generation (cpu3_endpoint w) = shm_generation (pg_mailmsg ?pg)"
      "\<And>q. q < 4 \<Longrightarrow> fw_in w q = ring_frames (shared_ring (pg_mailmsg ?pg) Linux_to_cpu3 q)"
    have "fw_in w 0 = [?b, ping_request]" using w(5) [of 0] fr [of 0 Linux_to_cpu3] pg(5) [of 0] by simp
    with bad_frame_strands_followers [of board_firmware "rung 1 w" ?b "[ping_request]"] w(1) [of 1] w(2-4) hd(2) bad
    show ?thesis by auto
  qed
qed

subsection \<open>Boot\<close>

text \<open>
  The firmware that boots into an announced session confirms it: the endpoint is bound to
  the announced generation, SESSION_READY with this generation is the one frame of the
  critical output ring, Linux is rung, requests that were queued before are kept, and
  interrupts are on.
\<close>

lemma boot_confirms_session:
  assumes "mailbox_hw (cfg_mbox_write cfg)" and "shared_wf (pg_mailmsg pg)" and "session_announced (pg_mailmsg pg)"
    and "ring_frames (shared_ring (pg_mailmsg pg) Cpu3_to_linux 0) = []" and "\<not> cfg_skip_session_ready cfg"
  shows "\<exists>w. cpu3_main_init cfg (fresh_cpu3 regs pg) = Some w \<and> cpu3_inv cfg w \<and> c_irq_enabled w \<and> mailmsg_session_ready_published w \<and>
    ep_generation (cpu3_endpoint w) = shm_generation (pg_mailmsg pg) \<and> fw_out w 0 = [ready_frame (shm_generation (pg_mailmsg pg))] \<and>
    b2a_pending (c_regs w) 0 \<and> fw_in w 0 = ring_frames (shared_ring (pg_mailmsg pg) Linux_to_cpu3 0)"
proof (rule main_init_spec [OF assms(2-5), of regs])
  fix w assume w: "cpu3_main_init cfg (fresh_cpu3 regs pg) = Some w" "mailmsg_session_ready_published w" "c_irq_enabled w"
    "fw_out w 0 = [ready_frame (shm_generation (pg_mailmsg pg))]" "fw_in w 0 = ring_frames (shared_ring (pg_mailmsg pg) Linux_to_cpu3 0)"
    "ep_generation (cpu3_endpoint w) = shm_generation (pg_mailmsg pg)"
    "c_regs w = snd (mailmsg_cpu3_notify (cfg_mbox_write cfg) (cfg_mbox_write cfg regs A2B_INTEN (regs A2B_INTEN OR 0xf)) 0)"
  have "b2a_pending (c_regs w) 0" unfolding w(7) by (rule cpu3_notify_rings [OF assms(1)]) simp
  with w(1-6) main_init_inv [OF assms(2,3), of cfg regs] show ?thesis by auto
qed

end
