(* ===== verification/Amp_Joint.thy ===== *)
theory Amp_Joint
  imports Cpu3_Behaviour
begin

text \<open>
  Both sides together: the Linux driver and the firmware share the carveout and the
  mailbox registers.  This theory hands the shared state over between the two models and
  carries their invariants across; the end-to-end theorems of the root theory follow.
\<close>

subsection \<open>The firmware leaves the image alone\<close>

abbreviation fw_image :: "cpu3_state \<Rightarrow> u8 list" where
  "fw_image w \<equiv> pg_image (c_page w)"

lemma image_simps [simp]:
  "fw_image (set_observation a b c m w) = fw_image w"
  "fw_image (mailmsg_publish_worker_observation x y w) = fw_image w"
  "fw_image (mailmsg_publish_tx_full_observation p t r w) = fw_image w"
  "fw_image (mailmsg_record_tx_full p t res w) = fw_image w"
  "fw_image (mailmsg_reset_tx_full_observation w) = fw_image w"
  "fw_image (r1_amp_checkpoint_c cfg mark w) = fw_image w"
  "fw_image (mailmsg_cpu_off_after_ready cfg w) = fw_image w"
  "fw_image (k_sem_give w) = fw_image w"
  "fw_image (mailmsg_enable_a2b_channels cfg w) = fw_image w"
  "fw_image (mailmsg_snapshot_gic_routes cfg w) = fw_image w"
  by (simp_all add: set_observation_def mailmsg_publish_worker_observation_def mailmsg_publish_tx_full_observation_def
      mailmsg_record_tx_full_def mailmsg_reset_tx_full_observation_def r1_amp_checkpoint_c_def mailmsg_cpu_off_after_ready_def
      k_sem_give_def mailmsg_enable_a2b_channels_def mailmsg_snapshot_gic_routes_def Let_def split: option.split)

lemma isr_image [simp]: "fw_image (mailmsg_mailbox_a2b_matrix_isr cfg i w) = fw_image w"
  by (simp add: mailmsg_mailbox_a2b_matrix_isr_def Let_def)

lemma send_image: "cpu3_send cfg p ty bs len w = Some (r, res, w') \<Longrightarrow> fw_image w' = fw_image w"
  by (auto simp: cpu3_send_def split: bind_splits)

lemma reply_image:
  "mailmsg_send_feedback cfg p ty s r w = Some (b, w') \<Longrightarrow> fw_image w' = fw_image w"
  "mailmsg_send_stop_feedback cfg ty s r w = Some (b, w') \<Longrightarrow> fw_image w' = fw_image w"
  "mailmsg_send_pong cfg p f w = Some (b, w') \<Longrightarrow> fw_image w' = fw_image w"
  by (auto simp: mailmsg_send_feedback_def mailmsg_send_stop_feedback_def mailmsg_send_pong_def Let_def
      split: bind_splits if_split_asm dest!: send_image)

lemma session_ready_image: "mailmsg_service_session_ready cfg w = Some w' \<Longrightarrow> fw_image w' = fw_image w"
  by (auto simp: mailmsg_service_session_ready_def Let_def split: bind_splits if_split_asm prod.splits dest!: send_image)

lemma service_priority_image:
  "service_priority cfg n p m msgs h w = Some (w', msgs', h') \<Longrightarrow> fw_image w' = fw_image w"
proof (induction n arbitrary: p m msgs h w)
  case (Suc n)
  from Suc.prems show ?case
    by (auto simp: Let_def split: bind_splits if_split_asm dest!: reply_image Suc.IH)
qed simp

lemma service_priorities_image:
  "service_priorities cfg pending ps msgs lst re w = Some (w', msgs', lst', re') \<Longrightarrow> fw_image w' = fw_image w"
proof (induction ps arbitrary: msgs lst re w)
  case (Cons p ps)
  from Cons.prems show ?case
    by (auto simp: Let_def simp del: service_priority.simps split: bind_splits if_split_asm dest!: service_priority_image Cons.IH)
qed simp

lemma worker_image: "mailmsg_worker cfg w = Some w' \<Longrightarrow> fw_image w' = fw_image w"
  by (auto simp: mailmsg_worker_def mailmsg_pingpong_test_service_def Let_def simp del: service_priorities.simps
      split: bind_splits if_split_asm dest!: service_priorities_image)

lemma main_init_image: "cpu3_main_init cfg w = Some w' \<Longrightarrow> fw_image w' = fw_image w"
  by (auto simp: cpu3_main_init_def Let_def split: prod.splits if_split_asm dest!: session_ready_image)

subsection \<open>Handing the shared state over\<close>

definition see_linux :: "r1_amp_cpu_on_data \<Rightarrow> amp_page \<Rightarrow> cpu3_state \<Rightarrow> cpu3_state" where
  "see_linux d pg w = w\<lparr>c_regs := mbox_regs0 (d_ctx d), c_page := pg\<rparr>"

definition see_cpu3 :: "cpu3_state \<Rightarrow> r1_amp_cpu_on_data \<Rightarrow> r1_amp_cpu_on_data" where
  "see_cpu3 w d = d\<lparr>d_ctx := (d_ctx d)\<lparr>mbox_regs0 := c_regs w\<rparr>\<rparr>"

lemma see_simps [simp]:
  "c_page (see_linux d pg w) = pg" "c_regs (see_linux d pg w) = mbox_regs0 (d_ctx d)" "cpu3_endpoint (see_linux d pg w) = cpu3_endpoint w"
  "c_halted (see_linux d pg w) = c_halted w" "mailmsg_pending_priorities (see_linux d pg w) = mailmsg_pending_priorities w"
  "mailmsg_session_ready_published (see_linux d pg w) = mailmsg_session_ready_published w"
  "mbox_regs0 (d_ctx (see_cpu3 w d)) = c_regs w" "mailmsg_state (see_cpu3 w d) = mailmsg_state d"
  "session_generation (see_cpu3 w d) = session_generation d" "lifecycle_deadline (see_cpu3 w d) = lifecycle_deadline d"
  "stop_request_sequence (see_cpu3 w d) = stop_request_sequence d" "mailmsg_user (see_cpu3 w d) = mailmsg_user d"
  "d_endpoint (see_cpu3 w d) = d_endpoint d"
  by (simp_all add: see_linux_def see_cpu3_def)

lemma bound_header:
  assumes "endpoint_bound ep sh tx rx"
  shows "shm_magic sh = MAILMSG_PROTOCOL_MAGIC" "shm_version sh = MAILMSG_PROTOCOL_VERSION" "shm_generation sh = ep_generation ep"
  using assms by (auto simp: endpoint_bound_def mailmsg_endpoint_session_valid_def Let_def split: if_split_asm option.splits)

lemma driver_session:
  assumes "driver_inv wr d pg" and "peer_may_run (mailmsg_state d)"
  shows "endpoint_bound (d_endpoint d) (pg_mailmsg pg) Linux_to_cpu3 Cpu3_to_linux" "ep_generation (d_endpoint d) = session_generation d"
    "session_generation d \<noteq> 0"
  using driver_inv_bound(1) [OF assms] assms
  by (auto simp: driver_inv_def lifecycle_inv_def endpoint_bound_def dest!: session_valid_0D(1))

text \<open>What the driver finds when the firmware has run, and the firmware when the driver has.\<close>

lemma see_cpu3_inv:
  assumes "driver_inv wr d pg" and "peer_may_run (mailmsg_state d)" and "cpu3_ok cfg w"
    and "ep_generation (cpu3_endpoint w) = session_generation d" and "fw_image w = pg_image pg"
  shows "driver_inv wr (see_cpu3 w d) (c_page w)"
proof -
  note h = bound_header [OF driver_session(1) [OF assms(1,2)]] driver_session(2) [OF assms(1,2)]
  have f: "shared_wf (pg_mailmsg (c_page w))" "endpoint_bound (cpu3_endpoint w) (pg_mailmsg (c_page w)) Cpu3_to_linux Linux_to_cpu3"
    using assms(3) by (simp_all add: cpu3_ok_def)
  have "same_session (d_endpoint d) (pg_mailmsg pg) (d_endpoint d) (pg_mailmsg (c_page w))"
    using h bound_header [OF f(2)] f(1) driver_inv_bound(3) [OF assms(1)] assms(4) by (simp add: same_session_def)
  from driver_inv_endpoint [OF assms(1) this] assms(5) show ?thesis
    by (simp add: driver_inv_def driver_wf_def lifecycle_inv_def see_cpu3_def)
qed

lemma see_linux_inv:
  assumes "driver_inv wr d pg" and "peer_may_run (mailmsg_state d)" and "cpu3_inv cfg w"
    and "ep_generation (cpu3_endpoint w) = session_generation d"
  shows "cpu3_inv cfg (see_linux d pg w)"
proof -
  have b: "endpoint_bound (cpu3_endpoint w) (pg_mailmsg (c_page w)) Cpu3_to_linux Linux_to_cpu3"
    using assms(3) by (simp add: cpu3_inv_def cpu3_ok_def)
  have "linux_acts w (mbox_regs0 (d_ctx d)) pg"
    using bound_header [OF b] bound_header [OF driver_session(1) [OF assms(1,2)]] driver_session(2) [OF assms(1,2)] assms(4)
      driver_inv_bound(2) [OF assms(1)] by (simp add: linux_acts_def)
  from linux_acts_inv [OF this assms(3)] show ?thesis by (simp add: see_linux_def)
qed

lemma rx_callback_fields [frame_simps]:
  "lifecycle_deadline (r1_amp_mbox_rx_callback i m d) = lifecycle_deadline d"
  "stop_request_sequence (r1_amp_mbox_rx_callback i m d) = stop_request_sequence d"
  "session_generation (r1_amp_mbox_rx_callback i m d) = session_generation d"
  "affinity_seen_on (r1_amp_mbox_rx_callback i m d) = affinity_seen_on d"
  "mpidr (r1_amp_mbox_rx_callback i m d) = mpidr d" "cpu_on_ret (r1_amp_mbox_rx_callback i m d) = cpu_on_ret d"
  "mbox_regs0 (d_ctx (r1_amp_mbox_rx_callback i m d)) = mbox_regs0 (d_ctx d)"
  "mailmsg_user_removing (r1_amp_mbox_rx_callback i m d) = mailmsg_user_removing d"
  "lifecycle_pending (mailmsg_state d) \<Longrightarrow> control_work (r1_amp_mbox_rx_callback i m d)"
  by (auto simp: r1_amp_mbox_rx_callback_def upd_user_def Let_def lifecycle_pending_def split: option.split)

lemma open_count_simps [simp]:
  "mailmsg_user_open_count (r1_amp_mbox_rx_callback i m d) = mailmsg_user_open_count d"
  "mailmsg_user_open_count (see_cpu3 w d) = mailmsg_user_open_count d"
  by (simp_all add: r1_amp_mbox_rx_callback_def upd_user_def see_cpu3_def Let_def split: option.split)

text \<open>A doorbell that was not pending carries the protocol command to the handler.\<close>

lemma doorbell_command:
  assumes "mailbox_hw wr" and "context_wf c" and "p < 4" and "\<not> a2b_pending (mbox_regs0 c) p"
    and "lifecycle_notify_bypass c \<or> notify_inject_remaining c = 0" and "mailmsg_linux_notify wr c p = (nr, c')"
  shows "a2b_pending (mbox_regs0 c') p" "mbox_regs0 c' (A2B_CMD p) AND 0xfffffff0 = AMP_MBOX_PROTOCOL_CMD"
proof (atomize (full), cases rule: notify_locked_cases [OF assms(2,3), of wr, case_names injected coalesced sent])
  case (sent c1)
  then have c: "mbox_regs0 c' = wr (wr (mbox_regs0 c) (A2B_CMD p) (0xa2b10000 OR p)) (A2B_DAT p) p"
    using assms(6) by (simp add: mailmsg_linux_notify_def)
  have "mbox_regs0 c' (A2B_CMD p) = 0xa2b10000 OR p"
    unfolding c using mailbox_hw.a2b_dat_cmd [OF assms(1,3)] mailbox_hw.a2b_cmd_holds [OF assms(1,3)] by simp
  moreover have "(0xa2b10000 OR p) AND 0xfffffff0 = AMP_MBOX_PROTOCOL_CMD" using assms(3) by (rule ch_cases) simp_all
  ultimately show "a2b_pending (mbox_regs0 c') p \<and> mbox_regs0 c' (A2B_CMD p) AND 0xfffffff0 = AMP_MBOX_PROTOCOL_CMD"
    using mailbox_hw.a2b_pending_doorbell [OF assms(1,3,3)] by (simp add: c)
qed (use assms in auto)

subsection \<open>The halves of the exchanges\<close>

text \<open>The booted peer of the concrete session.\<close>

lemma session_booted:
  obtains w where "cpu3_main_init board_firmware (fresh_cpu3 (\<lambda>_. 0) (session_page 5)) = Some w" "cpu3_inv board_firmware w" "\<not> c_halted w"
    "mailmsg_session_ready_published w" "mailmsg_pending_priorities w = 0" "ep_generation (cpu3_endpoint w) = 5"
proof -
  have sh: "shared_wf (pg_mailmsg (session_page 5))" "session_announced (pg_mailmsg (session_page 5))"
    "ring_frames (shared_ring (pg_mailmsg (session_page 5)) Cpu3_to_linux 0) = []" using fresh_shared_announced [of 5] by simp_all
  show thesis
    by (rule main_init_spec [OF sh, of board_firmware "\<lambda>_. 0"])
       (use that main_init_inv [OF sh(1,2), of board_firmware "\<lambda>_. 0"] in simp_all)
qed

text \<open>The replies of an idle firmware to one request.\<close>

lemma serve_one:
  assumes "p < 4" and "p \<noteq> cfg_skip_priority cfg" and "service_view w = (s, ins, outs)" and "ins p = [f]" and "outs p = []"
  shows "serve_queues g (chosen cfg (BIT p)) [0, 1, 2, 3] (service_view w) =
    (let (s', out) = fold (push_reply g) (replies p f) (s, []) in (s', ins(p := []), outs(p := out)))"
proof -
  have ch: "chosen cfg (BIT p) q \<longleftrightarrow> q = p" if "q < 4" for q
    using and_BIT_iff [OF that, of "BIT p"] bit_or_BIT [OF assms(1) that, of 0] assms(2) that by (auto simp: chosen_def)
  have "filter (chosen cfg (BIT p)) [0, 1, 2, 3] = [p]"
    using assms(1) ch [of 0] ch [of 1] ch [of 2] ch [of 3] by (elim ch_cases) (simp_all del: push_bit_numeral)
  then show ?thesis using assms(3-5) by (simp add: serve_queues_def serve_queue_def)
qed

lemma reply_frames:
  assumes "msg_type f = MAILMSG_MSG_PING" and "mailmsg_payload_u32 (msg_payload f) 0 = v" and "g \<noteq> 0"
    and "fs = snd (fold (push_reply g) (replies p f) (s, []))"
  shows "map msg_type fs = (if mailmsg_priority_is_reliable p then [MAILMSG_MSG_ACK, MAILMSG_MSG_PONG] else [MAILMSG_MSG_PONG])"
    "mailmsg_payload_u32 (msg_payload (last fs)) 0 = v + 1"
    "mailmsg_priority_is_reliable p \<Longrightarrow> mailmsg_payload_u32 (msg_payload (hd fs)) 0 = msg_sequence f"
    "receive_status g (hd fs) = 0"
proof -
  have ack: "mailmsg_payload_u32 (feedback_payload (msg_sequence f) 0) 0 = msg_sequence f"
    by (simp add: feedback_payload_def load_store_u32 load_store_u32_other)
  show "map msg_type fs = (if mailmsg_priority_is_reliable p then [MAILMSG_MSG_ACK, MAILMSG_MSG_PONG] else [MAILMSG_MSG_PONG])"
    "mailmsg_payload_u32 (msg_payload (last fs)) 0 = v + 1"
    "mailmsg_priority_is_reliable p \<Longrightarrow> mailmsg_payload_u32 (msg_payload (hd fs)) 0 = msg_sequence f" "receive_status g (hd fs) = 0"
    using assms ack
    by (auto simp: replies_def push_reply_def ack_reply_def pong_reply_def send_message_u32 load_store_u32 receive_status_def
        frame_status_seal send_message_valid)
qed

text \<open>The firmware half of a ping-pong.\<close>

lemma firmware_answers_ping:
  assumes "cpu3_inv cfg w" and "\<not> c_halted w" and "mailmsg_session_ready_published w" and "mailmsg_pending_priorities w = BIT p"
    and "p < 4" and "p \<noteq> cfg_skip_priority cfg" and "fw_in w p = [f]" and "fw_out w p = []"
    and "receive_status (ep_generation (cpu3_endpoint w)) f = 0" and "msg_type f = MAILMSG_MSG_PING"
    and "cfg_self_off_value cfg \<noteq> Some (mailmsg_payload_u32 (msg_payload f) 0)" and "mailbox_hw (cfg_mbox_write cfg)"
  obtains w' where "mailmsg_worker cfg w = Some w'" "cpu3_inv cfg w'" "fw_in w' p = []" "b2a_pending (c_regs w') p"
    "ep_generation (cpu3_endpoint w') = ep_generation (cpu3_endpoint w)"
    "fw_out w' p = snd (fold (push_reply (ep_generation (cpu3_endpoint w))) (replies p f) (ep_next_sequence (cpu3_endpoint w), []))"
proof -
  let ?g = "ep_generation (cpu3_endpoint w)"
  have ne: "mailmsg_pending_priorities w \<noteq> 0" unfolding assms(4) using assms(5) by (rule ch_cases) simp_all
  have only: "q = p" if "q < 4" "chosen cfg (BIT p) q" for q
    using and_BIT_iff [OF that(1), of "BIT p"] bit_or_BIT [OF assms(5) that(1), of 0] that(2) by (simp add: chosen_def)
  have "well_formed_input cfg w p" using assms(7,9-11) by (simp add: well_formed_input_def ordinary_def)
  then have wf: "\<forall>q < 4. chosen cfg (mailmsg_pending_priorities w) q \<longrightarrow> well_formed_input cfg w q" using only assms(4) by auto
  show thesis
  proof (rule worker_refines [OF assms(1,2) ne _ wf])
    fix w' assume w': "mailmsg_worker cfg w = Some w'" "cpu3_inv cfg w'" "ep_generation (cpu3_endpoint w') = ?g"
      "service_view w' = serve_queues ?g (chosen cfg (mailmsg_pending_priorities w)) [0, 1, 2, 3] (service_view w)"
    have v: "service_view w' = (let (s', out) = fold (push_reply ?g) (replies p f) (ep_next_sequence (cpu3_endpoint w), [])
        in (s', (fst (snd (service_view w)))(p := []), (snd (snd (service_view w)))(p := out)))"
      unfolding w'(4) assms(4) by (rule serve_one [OF assms(5,6)]) (use assms(5,7,8) in \<open>simp_all add: service_view_def\<close>)
    have "fw_in w' p = fst (snd (service_view w')) p" "fw_out w' p = snd (snd (service_view w')) p"
      using assms(5) by (simp_all add: service_view_def)
    then have q: "fw_in w' p = []" "fw_out w' p = snd (fold (push_reply ?g) (replies p f) (ep_next_sequence (cpu3_endpoint w), []))"
      by (simp_all add: v split_beta)
    have "rings cfg w w'" using worker_rings [OF assms(12) _ w'(1)] assms(1) by (simp add: cpu3_inv_def)
    moreover have "fw_out w' p \<noteq> fw_out w p" using q(2) assms(8) by (simp add: replies_def push_reply_def split_beta)
    ultimately have "b2a_pending (c_regs w') p" using assms(5) by (simp add: rings_def)
    with w'(1-3) q show thesis by (intro that)
  qed (use assms(3) in simp)
qed

text \<open>The Linux half.\<close>

lemma linux_sends_ping:
  assumes "mailbox_hw wr" and "driver_inv wr d pg" and "mailmsg_state d = R1_AMP_MAILMSG_ACTIVE"
    and "p < 4" and "uf_channel uf = p" and "tx_frames pg p = []"
    and "\<not> a2b_pending (mbox_regs0 (d_ctx d)) p" and "notify_inject_remaining (d_ctx d) = 0"
  obtains d1 pg1 f where "r1_amp_mailmsg_user_write 48 (Some (ping_frame p v)) uf d pg = Some (48, d1, pg1)" "driver_inv wr d1 pg1"
    "mailmsg_state d1 = R1_AMP_MAILMSG_ACTIVE" "session_generation d1 = session_generation d"
    "a2b_pending (mbox_regs0 (d_ctx d1)) p" "mbox_regs0 (d_ctx d1) (A2B_CMD p) AND 0xfffffff0 = AMP_MBOX_PROTOCOL_CMD"
    "tx_frames pg1 p = [f]" "rx_frames pg1 p = rx_frames pg p" "receive_status (session_generation d) f = 0"
    "msg_type f = MAILMSG_MSG_PING" "mailmsg_payload_u32 (msg_payload f) 0 = v" "msg_sequence f = next_seq (ep_next_sequence (d_endpoint d))"
proof -
  let ?r = "shared_ring (pg_mailmsg pg) Linux_to_cpu3 p" and ?m = "sent_message (d_endpoint d) MAILMSG_MSG_PING (fr_payload (ping_frame p v)) 4"
  note wf = driver_inv_bound(2,4) [OF assms(2)]
  have run: "peer_may_run (mailmsg_state d)" using assms(3) by simp
  have depth: "ring_depth ?r = 0" using assms(6) length_ring_frames [of ?r] by simp
  have "receive_status (session_generation d) (seal ?m) = 0" "mailmsg_payload_u32 (msg_payload (seal ?m)) 0 = v"
    "msg_sequence (seal ?m) = next_seq (ep_next_sequence (d_endpoint d))" "msg_type (seal ?m) = MAILMSG_MSG_PING"
    using driver_session(2,3) [OF assms(2) run] by (simp_all add: receive_status_def frame_status_seal sent_message_def send_message_valid
        send_message_u32 ping_frame_def load_store_u32)
  note f = this
  show thesis
  proof (cases rule: user_write_cases [OF assms(2,3), of uf "ping_frame p v", case_names pri chn len pay full queued])
    case (queued nr ctx ep m)
    have cwf: "context_wf (d_ctx d)" using wf(2) by (simp add: channels_wf_def)
    have "a2b_pending (mbox_regs0 ctx) p" "mbox_regs0 ctx (A2B_CMD p) AND 0xfffffff0 = AMP_MBOX_PROTOCOL_CMD"
      using doorbell_command [OF assms(1) cwf assms(4,7)] queued(2) assms(5,8) by auto
    moreover have "ring_frames (ring_after_push ?r ?m) = [seal ?m]"
      using ring_frames_after_push [OF shared_ring_wf [OF wf(1) assms(4)], of Linux_to_cpu3 ?m] depth assms(6) by simp
    ultimately show thesis
      using driver_inv_send [OF assms(2) queued(5-7)] queued(3,4) f assms(3-5) wf(1)
      by (intro that [of "d\<lparr>d_endpoint := ep, d_ctx := ctx\<rparr>"
          "pg\<lparr>pg_mailmsg := set_shared_ring (pg_mailmsg pg) Linux_to_cpu3 p (ring_after_push ?r ?m)\<rparr>" "seal ?m"]) (simp_all add: shared_ring_set)
  qed (use assms(4,5) depth in simp_all)
qed

text \<open>The affinity monitor finds the stopped core off.\<close>

lemma affinity_work_offline:
  assumes "driver_inv wr d pg" and "mailmsg_state d = R1_AMP_MAILMSG_STOPPING" and "psci_affinity_info env = Some q"
    and "q (mpidr d) = PSCI_0_2_AFFINITY_LEVEL_OFF"
  obtains d' where "r1_amp_affinity_work env d = Some d'" "mailmsg_state d' = R1_AMP_MAILMSG_OFFLINE" "driver_inv wr d' pg"
    "mpidr d' = mpidr d" "session_generation d' = session_generation d" "mbox_regs0 (d_ctx d') = mbox_regs0 (d_ctx d)"
    "mailmsg_user_open_count d' = mailmsg_user_open_count d"
proof -
  have l: "affinity_seen_on d" "cpu_on_ret d = 0" "\<not> mailmsg_user_removing d"
    using assms(1,2) by (simp_all add: driver_inv_def lifecycle_inv_def)
  then obtain d' where "r1_amp_affinity_work env d = Some d'" "mailmsg_state d' = R1_AMP_MAILMSG_OFFLINE"
    "mpidr d' = mpidr d" "session_generation d' = session_generation d" "mbox_regs0 (d_ctx d') = mbox_regs0 (d_ctx d)"
    "mailmsg_user_open_count d' = mailmsg_user_open_count d"
    using assms(2-4) by (simp add: r1_amp_affinity_work_def r1_amp_refresh_affinity_locked_def r1_amp_mailmsg_mark_offline_locked_def)
  with affinity_work_inv(1) [OF assms(1) _ assms(3)] that show thesis by blast
qed

text \<open>A session that ended with no doorbell left can be rearmed; the mailbox has four channels.\<close>

lemma no_doorbell_pending:
  assumes "regs A2B_STATUS < 16" and "\<forall>p < 4. \<not> a2b_pending regs p"
  shows "regs A2B_STATUS = 0"
proof (rule bit_word_eqI)
  fix n
  assume "n < LENGTH(32)"
  show "bit (regs A2B_STATUS) n = bit 0 n"
  proof (cases "n < 4")
    case True
    then have "(of_nat n :: u32) < 4" "unat (of_nat n :: u32) = n" by (auto simp: word_less_nat_alt unat_of_nat)
    with assms(2) show ?thesis by (metis a2b_pending_def bit_0_eq bot_apply bot_bool_def)
  next
    case False
    have "take_bit 4 (unat (regs A2B_STATUS)) = unat (regs A2B_STATUS)"
      using assms(1) by (intro take_bit_nat_eq_self) (simp add: word_less_nat_alt)
    then have "\<not> bit (unat (regs A2B_STATUS)) n" using False by (metis bit_take_bit_iff)
    then show ?thesis using \<open>n < LENGTH(32)\<close> by (simp add: bit_unsigned_iff)
  qed
qed

lemma offline_rearm:
  assumes "driver_inv wr d pg" and "mailmsg_state d = R1_AMP_MAILMSG_OFFLINE" and "mailmsg_user_open_count d = 0"
    and "mbox_regs0 (d_ctx d) A2B_STATUS = 0" and "psci_affinity_info env = Some q" and "q (mpidr d) = PSCI_0_2_AFFINITY_LEVEL_OFF"
  obtains d' where "rearm_store env ''rearm'' count d = Some (count, d')" "mailmsg_state d' = R1_AMP_MAILMSG_UNARMED"
    "session_generation d' = session_generation d" "driver_inv wr d' pg"
proof -
  have "cpu_on_attempted d" using assms(1,2) by (simp add: driver_inv_def lifecycle_inv_def)
  moreover obtain d1 where d1: "r1_amp_refresh_affinity_locked env d = Some (1, d1)" "session_generation d1 = session_generation d"
    by (cases rule: refresh_affinity_cases [OF assms(5), of d]) (use assms(6) in auto)
  ultimately have "rearm_store env ''rearm'' count d = Some (count, rearmed d1)"
    using refresh_affinity_inv(3,5) [OF assms(1) d1(1)] assms(3-5) by (simp add: rearm_store_def rearmed_def)
  with rearmed_inv [OF refresh_affinity_inv(1) [OF assms(1) d1(1)]] d1(2) that show thesis by (simp add: rearmed_def)
qed

text \<open>The reply of the firmware is the one the driver waits for.\<close>

lemma stop_reply_ok:
  assumes "g \<noteq> 0" and "s \<noteq> 0"
  shows "receive_status g (stop_reply g MAILMSG_MSG_STOP_READY f 0 s) = 0"
    "msg_type (stop_reply g MAILMSG_MSG_STOP_READY f 0 s) = MAILMSG_MSG_STOP_READY"
    "stop_request_sequence d = msg_sequence f \<Longrightarrow> stop_reply_matches d (stop_reply g MAILMSG_MSG_STOP_READY f 0 s)"
  using assms by (simp_all add: stop_reply_def receive_status_def frame_status_seal send_message_valid stop_reply_matches_def send_message_u32)
    (simp add: feedback_payload_def load_store_u32 load_store_u32_other)

lemma linux_requests_stop:
  assumes "mailbox_hw wr" and "driver_inv wr d pg" and "mailmsg_state d = R1_AMP_MAILMSG_ACTIVE"
    and "mailmsg_user_open_count d = 0" and "tx_frames pg 0 = []" and "rx_frames pg 0 = []" and "\<not> a2b_pending (mbox_regs0 (d_ctx d)) 0"
  obtains d1 pg1 f where "mailmsg_stop_store env ''stop'' count d pg = Some (count, d1, pg1)" "driver_inv wr d1 pg1"
    "mailmsg_state d1 = R1_AMP_MAILMSG_STOPPING" "session_generation d1 = session_generation d" "mpidr d1 = mpidr d"
    "lifecycle_deadline d1 = jiffies env 0 + msecs_to_jiffies env R1_AMP_LIFECYCLE_TIMEOUT_MS"
    "mbox_regs0 (d_ctx d1) (A2B_CMD 0) AND 0xfffffff0 = AMP_MBOX_PROTOCOL_CMD"
    "tx_frames pg1 0 = [f]" "rx_frames pg1 0 = []" "stop_request (session_generation d) f" "stop_request_sequence d1 = msg_sequence f"
    "mailmsg_user_open_count d1 = 0"
proof -
  let ?m = "sent_message (d_endpoint d) MAILMSG_MSG_STOP_REQUEST [] 0"
  note wf = driver_inv_bound(2,4) [OF assms(2)]
  have run: "peer_may_run (mailmsg_state d)" using assms(3) by simp
  have cwf: "context_wf ((d_ctx d)\<lparr>lifecycle_notify_bypass := True\<rparr>)" using wf(2) by (simp add: channels_wf_def)
  have pre: "r1_amp_mailmsg_stop_preflight_locked d (pg_mailmsg pg) = 0" using stop_preflight_eq [OF assms(2,3)] assms(4,6) by simp
  have depth: "ring_depth (shared_ring (pg_mailmsg pg) Linux_to_cpu3 0) < 7"
    using assms(5) length_ring_frames [of "shared_ring (pg_mailmsg pg) Linux_to_cpu3 0"] by simp
  have f: "stop_request (session_generation d) (seal ?m)" "msg_sequence (seal ?m) = next_seq (ep_next_sequence (d_endpoint d))"
    using driver_session(2,3) [OF assms(2) run]
    by (simp_all add: stop_request_def receive_status_def frame_status_seal sent_message_def send_message_valid)
  show thesis
  proof (rule stop_accepted [OF assms(1-3) _ pre depth, of "''stop''" env count])
    fix nr c ep r
    let ?d1 = "(stopping d)\<lparr>d_endpoint := ep, d_ctx := c\<lparr>lifecycle_notify_bypass := False\<rparr>,
        stop_request_sequence := next_seq (ep_next_sequence (d_endpoint d)), stop_notify_result := nr,
        lifecycle_deadline := jiffies env 0 + msecs_to_jiffies env R1_AMP_LIFECYCLE_TIMEOUT_MS,
        lifecycle_timeout_work := Some (msecs_to_jiffies env R1_AMP_LIFECYCLE_TIMEOUT_MS)\<rparr>"
      and ?pg1 = "pg\<lparr>pg_mailmsg := set_shared_ring (pg_mailmsg pg) Linux_to_cpu3 0 r\<rparr>"
    assume a: "mailmsg_stop_store env ''stop'' count d pg = Some (count, ?d1, ?pg1)" "ring_frames r = tx_frames pg 0 @ [seal ?m]"
      "mailmsg_linux_notify wr ((d_ctx d)\<lparr>lifecycle_notify_bypass := True\<rparr>) 0 = (nr, c)"
    have "mbox_regs0 c (A2B_CMD 0) AND 0xfffffff0 = AMP_MBOX_PROTOCOL_CMD"
      using doorbell_command(2) [OF assms(1) cwf _ _ _ a(3)] assms(7) by simp
    with stop_inv(1) [OF assms(2) a(1)] a(1,2) f wf(1) assms(4-6) show thesis
      by (intro that [of ?d1 ?pg1 "seal ?m"]) (simp_all add: stopping_def shared_ring_set)
  qed simp
qed

lemma firmware_stops:
  assumes "mailbox_hw wr" and "cfg_mbox_write cfg = wr" and "cfg_enable_stop_control cfg" and "cfg_skip_priority cfg \<noteq> 0"
    and "driver_inv wr d pg" and "mailmsg_state d = R1_AMP_MAILMSG_STOPPING"
    and "cpu3_inv cfg w" and "\<not> c_halted w" and "mailmsg_pending_priorities w = 0" and "mailmsg_session_ready_published w"
    and "ep_generation (cpu3_endpoint w) = session_generation d"
    and "mbox_regs0 (d_ctx d) (A2B_CMD 0) AND 0xfffffff0 = AMP_MBOX_PROTOCOL_CMD"
    and "tx_frames pg 0 = [f]" and "rx_frames pg 0 = []" and "stop_request (session_generation d) f"
  obtains w2 s where "mailmsg_worker cfg (mailmsg_mailbox_a2b_matrix_isr cfg 0 (see_linux d pg w)) = Some w2" "c_halted w2"
    "b2a_pending (c_regs w2) 0" "\<forall>p < 4. \<not> a2b_pending (c_regs w2) p" "s \<noteq> 0"
    "fw_out w2 0 = [stop_reply (session_generation d) MAILMSG_MSG_STOP_READY f 0 s]"
    "driver_inv wr (see_cpu3 w2 d) (c_page w2)"
proof -
  let ?g = "session_generation d" and ?w1 = "mailmsg_mailbox_a2b_matrix_isr cfg 0 (see_linux d pg w)"
  let ?s = "next_seq (ep_next_sequence (cpu3_endpoint w))"
  have inv1: "cpu3_inv cfg ?w1" by (intro wf_intros see_linux_inv [OF assms(5) _ assms(7)]) (use assms(6,11) in simp_all)
  have pend: "mailmsg_pending_priorities ?w1 = 1" using isr_protocol(1) [of "see_linux d pg w" 0 cfg] assms(9,12) by simp
  obtain w' where w': "mailmsg_worker cfg ?w1 = Some (mailmsg_cpu_off_after_ready cfg w')" "cpu3_inv cfg w'"
    "fw_out w' 0 = [stop_reply ?g MAILMSG_MSG_STOP_READY f 0 ?s]"
    "c_regs w' = snd (mailmsg_cpu3_notify wr (c_regs ?w1) 0)" "shm_generation (pg_mailmsg (c_page w')) = ?g"
    by (rule worker_stop [OF inv1 _ pend _ assms(4), of f "[]"]) (use assms in simp_all)
  let ?w2 = "mailmsg_cpu_off_after_ready cfg w'"
  have bell: "b2a_pending (c_regs ?w2) 0" "\<forall>p < 4. \<not> a2b_pending (c_regs ?w2) p"
    using mailbox_hw.cpu_off_quiesces [OF assms(1,2), of _ w'] cpu3_notify_rings [OF assms(1), of 0 "c_regs ?w1"] w'(4)
    by (simp_all del: cpu_off_simps)
  have ok: "cpu3_ok cfg ?w2" using w'(2) by (simp add: cpu_off_ok cpu3_inv_def)
  have "ep_generation (cpu3_endpoint ?w2) = ?g"
    using bound_header(3) [of "cpu3_endpoint w'" "pg_mailmsg (c_page w')" Cpu3_to_linux Linux_to_cpu3] w'(2,5)
    by (simp add: cpu3_inv_def cpu3_ok_def)
  then have "driver_inv wr (see_cpu3 ?w2 d) (c_page ?w2)"
    using worker_image [OF w'(1)] assms(6) by (intro see_cpu3_inv [OF assms(5) _ ok]) simp_all
  with w'(1,3) bell show thesis by (intro that [of ?w2 ?s]) simp_all
qed

end
