(* ===== verification/Amp_Layout.thy ===== *)
theory Amp_Layout
  imports Amp_Probe
begin

text \<open>
  The shared memory as bytes.  C types with the layout rules of the 64-bit ABI that Linux and
  Zephyr are compiled for: natural alignment of the scalars, fields in order at the next
  multiple of their alignment, the size of a struct rounded up to its alignment.  On top of it
  the structs that both sides declare for the state page, the addresses at which both sides
  find them, and the bounds that the geometry check of \<open>probe\<close> gives for them.
\<close>

subsection \<open>C layout\<close>

text \<open>\<open>Struct a fs\<close> carries the \<open>aligned\<close> attribute \<open>a\<close>, one if there is none.\<close>

datatype ctype = U8 | U32 | S32 | U64 | Array ctype nat | Struct nat cfields
  and cfields = End | Field string ctype cfields

definition round_up :: "nat \<Rightarrow> nat \<Rightarrow> nat" where
  "round_up n a = (n + a - 1) div a * a"

primrec alignof :: "ctype \<Rightarrow> nat" and fields_align :: "cfields \<Rightarrow> nat" where
  "alignof U8 = 1"
| "alignof U32 = 4"
| "alignof S32 = 4"
| "alignof U64 = 8"
| "alignof (Array t n) = alignof t"
| "alignof (Struct a fs) = max a (fields_align fs)"
| "fields_align End = 1"
| "fields_align (Field x t fs) = max (alignof t) (fields_align fs)"

text \<open>\<open>fields_end fs o\<close>: the offset behind the last field when the fields start at \<open>o\<close> at the earliest.\<close>

primrec sizeof :: "ctype \<Rightarrow> nat" and fields_end :: "cfields \<Rightarrow> nat \<Rightarrow> nat" where
  "sizeof U8 = 1"
| "sizeof U32 = 4"
| "sizeof S32 = 4"
| "sizeof U64 = 8"
| "sizeof (Array t n) = n * sizeof t"
| "sizeof (Struct a fs) = round_up (fields_end fs 0) (max a (fields_align fs))"
| "fields_end End off = off"
| "fields_end (Field x t fs) off = fields_end fs (round_up off (alignof t) + sizeof t)"

text \<open>The name, offset and type of every field.\<close>

primrec place :: "cfields \<Rightarrow> nat \<Rightarrow> (string \<times> nat \<times> ctype) list" where
  "place End off = []"
| "place (Field x t fs) off = (x, round_up off (alignof t), t) # place fs (round_up off (alignof t) + sizeof t)"

fun fields_of :: "ctype \<Rightarrow> (string \<times> nat \<times> ctype) list" where
  "fields_of (Struct a fs) = place fs 0"
| "fields_of _ = []"

definition offsetof :: "ctype \<Rightarrow> string \<Rightarrow> nat option" where
  "offsetof t x = map_option fst (map_of (fields_of t) x)"

text \<open>Layout is sound for every struct: fields are aligned, in order, disjoint and inside.\<close>

lemma alignof_pos: "0 < alignof t" and fields_align_pos: "0 < fields_align fs"
  by (induction t and fs) auto

lemma round_up_ge: "0 < a \<Longrightarrow> n \<le> round_up n a"
proof -
  assume a: "0 < a"
  have "n + a - 1 = (n + a - 1) div a * a + (n + a - 1) mod a" by simp
  moreover have "(n + a - 1) mod a < a" using a by simp
  ultimately show ?thesis unfolding round_up_def by linarith
qed

lemma round_up_dvd: "a dvd round_up n a"
  by (simp add: round_up_def)

lemma fields_end_ge: "off \<le> fields_end fs off"
proof (induction fs arbitrary: off rule: cfields.induct [where ?P1.0 = "\<lambda>_. True"])
  case (Field x t fs)
  have "off \<le> round_up off (alignof t) + sizeof t" using round_up_ge [OF alignof_pos, of off t] by simp
  also have "\<dots> \<le> fields_end fs (round_up off (alignof t) + sizeof t)" using Field by simp
  finally show ?case by simp
qed simp_all

lemma place_inside:
  "(x, ofs, t) \<in> set (place fs off) \<Longrightarrow>
   off \<le> ofs \<and> ofs + sizeof t \<le> fields_end fs off \<and> alignof t dvd ofs \<and> alignof t \<le> fields_align fs"
proof (induction fs arbitrary: off rule: cfields.induct [where ?P1.0 = "\<lambda>_. True"])
  case (Field y s fs)
  let ?o = "round_up off (alignof s)"
  have ge: "off \<le> ?o" by (rule round_up_ge [OF alignof_pos])
  show ?case
  proof (cases "(x, ofs, t) = (y, ?o, s)")
    case True
    then show ?thesis using ge fields_end_ge [of "?o + sizeof s" fs] by (simp add: round_up_dvd)
  next
    case False
    then have "(x, ofs, t) \<in> set (place fs (?o + sizeof s))" using Field.prems by auto
    with Field(2) [OF this] ge show ?thesis by auto
  qed
qed simp_all

lemma place_disjoint:
  "sorted_wrt (\<lambda>(x, o1, t1) (y, o2, t2). o1 + sizeof t1 \<le> o2) (place fs off)"
proof (induction fs arbitrary: off rule: cfields.induct [where ?P1.0 = "\<lambda>_. True"])
  case (Field x t fs)
  show ?case
    using Field(2) [of "round_up off (alignof t) + sizeof t"] place_inside [of _ _ _ fs "round_up off (alignof t) + sizeof t"]
    by fastforce
qed simp_all

lemma field_inside:
  assumes "(x, ofs, t) \<in> set (fields_of s)"
  shows "ofs + sizeof t \<le> sizeof s" "alignof t dvd ofs" "alignof t \<le> alignof s"
proof -
  obtain a fs where s: "s = Struct a fs" using assms by (cases s) auto
  note p = place_inside [of x ofs t fs 0]
  have "0 < max a (fields_align fs)" using fields_align_pos [of fs] by simp
  from round_up_ge [OF this] p show "ofs + sizeof t \<le> sizeof s" "alignof t dvd ofs" "alignof t \<le> alignof s"
    using assms s by (auto intro: order_trans)
qed

subsection \<open>The structs of the shared memory\<close>

definition mailmsg_message_t :: ctype where
  "mailmsg_message_t = Struct 1 (Field ''generation'' U32 (Field ''type'' U32 (Field ''sequence'' U32 (Field ''length'' U32
     (Field ''payload'' (Array U8 28) (Field ''crc32'' U32 (Field ''commit'' U32 End)))))))"

definition mailmsg_ring_t :: ctype where
  "mailmsg_ring_t = Struct 1 (Field ''producer'' U32 (Field ''consumer'' U32 (Field ''slot'' (Array mailmsg_message_t 8) End)))"

definition mailmsg_shared_t :: ctype where
  "mailmsg_shared_t = Struct 1 (Field ''magic'' U32 (Field ''version'' U32 (Field ''generation'' U32
     (Field ''linux_to_cpu3'' (Array mailmsg_ring_t 4) (Field ''cpu3_to_linux'' (Array mailmsg_ring_t 4) End)))))"

definition mailmsg_tx_full_observation_t :: ctype where
  "mailmsg_tx_full_observation_t = Struct 64 (Field ''magic'' U32 (Field ''commit'' U32 (Field ''commit_inv'' U32
     (Field ''full_count'' U32 (Field ''last_priority'' U32 (Field ''last_type'' U32 (Field ''last_result'' S32
     (Field ''reserved'' (Array U8 (64 - 28)) End))))))))"

definition mailmsg_user_frame_t :: ctype where
  "mailmsg_user_frame_t = Struct 1 (Field ''priority'' U32 (Field ''type'' U32 (Field ''sequence'' U32 (Field ''length'' U32
     (Field ''payload'' (Array U8 32) End)))))"

text \<open>The lines of the state page, as the driver declares them and as the firmware does.\<close>

definition r1_amp_payload_line_t :: ctype where
  "r1_amp_payload_line_t = Struct 1 (Field ''command'' U32 (Field ''value'' U32 (Field ''status'' S32 (Field ''result'' U32
     (Field ''reserved'' (Array U8 (64 - 16)) End)))))"

definition r1_amp_commit_line_t :: ctype where
  "r1_amp_commit_line_t = Struct 1 (Field ''sequence'' U64 (Field ''sequence_inv'' U64 (Field ''reserved'' (Array U8 (64 - 16)) End)))"

definition r1_amp_mbox_observation_line_t :: ctype where
  "r1_amp_mbox_observation_line_t = Struct 1 (Field ''magic'' U32 (Field ''a2b_status'' U32 (Field ''command'' U32 (Field ''data'' U32
     (Field ''reserved'' (Array U8 (64 - 16)) End)))))"

definition r1_amp_mailmsg_worker_observation_line_t :: ctype where
  "r1_amp_mailmsg_worker_observation_line_t = Struct 1 (Field ''magic'' U32 (Field ''commit'' U32 (Field ''commit_inv'' U32
     (Field ''irq_count'' U32 (Field ''wake_count'' U32 (Field ''drain_count'' U32 (Field ''message_count'' U32
     (Field ''empty_wake_count'' U32 (Field ''last_pending'' U32 (Field ''pending_now'' U32 (Field ''last_priority'' U32
     (Field ''reserved'' (Array U8 (64 - 44)) End))))))))))))"

definition amp_payload_line_t :: ctype where
  "amp_payload_line_t = Struct 64 (Field ''command'' U32 (Field ''value'' U32 (Field ''status'' S32 (Field ''result'' U32
     (Field ''reserved'' (Array U8 (64 - 16)) End)))))"

definition amp_commit_line_t :: ctype where
  "amp_commit_line_t = Struct 64 (Field ''sequence'' U64 (Field ''sequence_inv'' U64 (Field ''reserved'' (Array U8 (64 - 16)) End)))"

definition amp_mbox_observation_line_t :: ctype where
  "amp_mbox_observation_line_t = Struct 64 (Field ''magic'' U32 (Field ''a2b_status'' U32 (Field ''command'' U32 (Field ''data'' U32
     (Field ''reserved'' (Array U8 (64 - 16)) End)))))"

definition mailmsg_worker_observation_line_t :: ctype where
  "mailmsg_worker_observation_line_t = Struct 64 (Field ''magic'' U32 (Field ''commit'' U32 (Field ''commit_inv'' U32
     (Field ''irq_count'' U32 (Field ''wake_count'' U32 (Field ''drain_count'' U32 (Field ''message_count'' U32
     (Field ''empty_wake_count'' U32 (Field ''last_pending'' U32 (Field ''pending_now'' U32 (Field ''last_priority'' U32
     (Field ''reserved'' (Array U8 (64 - 44)) End))))))))))))"

text \<open>Where each side finds them: offsets from the state page in the driver, addresses in the firmware.\<close>

abbreviation (input) R1_AMP_REQ_PAYLOAD_OFF :: u32 where "R1_AMP_REQ_PAYLOAD_OFF \<equiv> 0x40"
abbreviation (input) R1_AMP_REQ_COMMIT_OFF :: u32 where "R1_AMP_REQ_COMMIT_OFF \<equiv> 0x80"
abbreviation (input) R1_AMP_RSP_PAYLOAD_OFF :: u32 where "R1_AMP_RSP_PAYLOAD_OFF \<equiv> 0xc0"
abbreviation (input) R1_AMP_RSP_COMMIT_OFF :: u32 where "R1_AMP_RSP_COMMIT_OFF \<equiv> 0x100"
abbreviation (input) R1_AMP_MBOX_OBS_OFF :: u32 where "R1_AMP_MBOX_OBS_OFF \<equiv> 0x140"
abbreviation (input) R1_AMP_MAILMSG_TX_FULL_OBS_OFF :: u32 where "R1_AMP_MAILMSG_TX_FULL_OBS_OFF \<equiv> 0x180"
abbreviation (input) R1_AMP_MAILMSG_WORKER_OBS_OFF :: u32 where "R1_AMP_MAILMSG_WORKER_OBS_OFF \<equiv> 0x1c0"
abbreviation (input) R1_AMP_MAILMSG_OFF :: u32 where "R1_AMP_MAILMSG_OFF \<equiv> 0x200"

definition linux_areas :: "(nat \<times> ctype) list" where
  "linux_areas = [(0, Array U64 2), (unat R1_AMP_REQ_PAYLOAD_OFF, r1_amp_payload_line_t),
     (unat R1_AMP_REQ_COMMIT_OFF, r1_amp_commit_line_t), (unat R1_AMP_RSP_PAYLOAD_OFF, r1_amp_payload_line_t),
     (unat R1_AMP_RSP_COMMIT_OFF, r1_amp_commit_line_t), (unat R1_AMP_MBOX_OBS_OFF, r1_amp_mbox_observation_line_t),
     (unat R1_AMP_MAILMSG_TX_FULL_OBS_OFF, mailmsg_tx_full_observation_t),
     (unat R1_AMP_MAILMSG_WORKER_OBS_OFF, r1_amp_mailmsg_worker_observation_line_t),
     (unat R1_AMP_MAILMSG_OFF, mailmsg_shared_t)]"

abbreviation (input) AMP_STATUS_ADDR :: nat where "AMP_STATUS_ADDR \<equiv> 0x500ff000"
abbreviation (input) AMP_REQ_PAYLOAD_ADDR :: nat where "AMP_REQ_PAYLOAD_ADDR \<equiv> AMP_STATUS_ADDR + 0x40"
abbreviation (input) AMP_REQ_COMMIT_ADDR :: nat where "AMP_REQ_COMMIT_ADDR \<equiv> AMP_STATUS_ADDR + 0x80"
abbreviation (input) AMP_RSP_PAYLOAD_ADDR :: nat where "AMP_RSP_PAYLOAD_ADDR \<equiv> AMP_STATUS_ADDR + 0xc0"
abbreviation (input) AMP_RSP_COMMIT_ADDR :: nat where "AMP_RSP_COMMIT_ADDR \<equiv> AMP_STATUS_ADDR + 0x100"
abbreviation (input) AMP_MBOX_OBS_ADDR :: nat where "AMP_MBOX_OBS_ADDR \<equiv> AMP_STATUS_ADDR + 0x140"
abbreviation (input) AMP_MAILMSG_TX_FULL_OBS_ADDR :: nat where "AMP_MAILMSG_TX_FULL_OBS_ADDR \<equiv> AMP_STATUS_ADDR + 0x180"
abbreviation (input) AMP_MAILMSG_WORKER_OBS_ADDR :: nat where "AMP_MAILMSG_WORKER_OBS_ADDR \<equiv> AMP_STATUS_ADDR + 0x1c0"
abbreviation (input) AMP_QUEUE_ADDR :: nat where "AMP_QUEUE_ADDR \<equiv> AMP_STATUS_ADDR + 0x200"

definition cpu3_areas :: "(nat \<times> ctype) list" where
  "cpu3_areas = [(AMP_STATUS_ADDR, Array U64 2), (AMP_REQ_PAYLOAD_ADDR, amp_payload_line_t),
     (AMP_REQ_COMMIT_ADDR, amp_commit_line_t), (AMP_RSP_PAYLOAD_ADDR, amp_payload_line_t),
     (AMP_RSP_COMMIT_ADDR, amp_commit_line_t), (AMP_MBOX_OBS_ADDR, amp_mbox_observation_line_t),
     (AMP_MAILMSG_TX_FULL_OBS_ADDR, mailmsg_tx_full_observation_t),
     (AMP_MAILMSG_WORKER_OBS_ADDR, mailmsg_worker_observation_line_t), (AMP_QUEUE_ADDR, mailmsg_shared_t)]"

lemmas layout_defs = mailmsg_message_t_def mailmsg_ring_t_def mailmsg_shared_t_def mailmsg_tx_full_observation_t_def
  mailmsg_user_frame_t_def r1_amp_payload_line_t_def r1_amp_commit_line_t_def r1_amp_mbox_observation_line_t_def
  r1_amp_mailmsg_worker_observation_line_t_def amp_payload_line_t_def amp_commit_line_t_def amp_mbox_observation_line_t_def
  mailmsg_worker_observation_line_t_def

lemma layout_sizes:
  "sizeof mailmsg_message_t = 52" "sizeof mailmsg_ring_t = 424" "sizeof mailmsg_shared_t = 3404"
  "sizeof mailmsg_user_frame_t = 48"
  "map (\<lambda>(off, t). sizeof t) linux_areas = [16, 64, 64, 64, 64, 64, 64, 64, 3404]"
  by (simp_all add: layout_defs linux_areas_def round_up_def)

lemma layout_offsets:
  "map (\<lambda>(x, off, t). (x, off)) (fields_of mailmsg_message_t) = [(''generation'', 0), (''type'', 4), (''sequence'', 8),
     (''length'', 12), (''payload'', 16), (''crc32'', 44), (''commit'', 48)]"
  "map (\<lambda>(x, off, t). (x, off)) (fields_of mailmsg_ring_t) = [(''producer'', 0), (''consumer'', 4), (''slot'', 8)]"
  "map (\<lambda>(x, off, t). (x, off)) (fields_of mailmsg_shared_t) =
     [(''magic'', 0), (''version'', 4), (''generation'', 8), (''linux_to_cpu3'', 12), (''cpu3_to_linux'', 1708)]"
  by (simp_all add: layout_defs round_up_def)

text \<open>Both declarations of a line put every field at the same offset with the same type.\<close>

lemma lines_agree:
  "fields_of r1_amp_payload_line_t = fields_of amp_payload_line_t"
  "fields_of r1_amp_commit_line_t = fields_of amp_commit_line_t"
  "fields_of r1_amp_mbox_observation_line_t = fields_of amp_mbox_observation_line_t"
  "fields_of r1_amp_mailmsg_worker_observation_line_t = fields_of mailmsg_worker_observation_line_t"
  by (simp_all add: layout_defs)

definition same_layout :: "ctype \<Rightarrow> ctype \<Rightarrow> bool" where
  "same_layout s t \<longleftrightarrow> sizeof s = sizeof t \<and> fields_of s = fields_of t"

definition aligned_at :: "nat \<Rightarrow> ctype \<Rightarrow> bool" where
  "aligned_at address t \<longleftrightarrow> alignof t dvd address"

subsection \<open>Addresses\<close>

text \<open>\<open>carveout\<close> is the address at which \<open>devm_memremap\<close> has mapped the reserved region.\<close>

definition r1_amp_status_ptr :: "u64 \<Rightarrow> r1_amp_cpu_on_data \<Rightarrow> u64" where
  "r1_amp_status_ptr carveout d = carveout + ucast (status_offset d)"

definition r1_amp_protocol_ptr :: "u64 \<Rightarrow> r1_amp_cpu_on_data \<Rightarrow> u32 \<Rightarrow> u64" where
  "r1_amp_protocol_ptr carveout d offset = r1_amp_status_ptr carveout d + ucast offset"

definition r1_amp_mbox_observation_ptr :: "u64 \<Rightarrow> r1_amp_cpu_on_data \<Rightarrow> u64" where
  "r1_amp_mbox_observation_ptr carveout d = r1_amp_protocol_ptr carveout d R1_AMP_MBOX_OBS_OFF"

definition r1_amp_mailmsg_tx_full_observation_ptr :: "u64 \<Rightarrow> r1_amp_cpu_on_data \<Rightarrow> u64" where
  "r1_amp_mailmsg_tx_full_observation_ptr carveout d = r1_amp_protocol_ptr carveout d R1_AMP_MAILMSG_TX_FULL_OBS_OFF"

definition r1_amp_mailmsg_worker_observation_ptr :: "u64 \<Rightarrow> r1_amp_cpu_on_data \<Rightarrow> u64" where
  "r1_amp_mailmsg_worker_observation_ptr carveout d = r1_amp_protocol_ptr carveout d R1_AMP_MAILMSG_WORKER_OBS_OFF"

definition mailmsg_linux_shared_ptr :: "u64 \<Rightarrow> r1_amp_cpu_on_data \<Rightarrow> u64" where
  "mailmsg_linux_shared_ptr carveout d = r1_amp_protocol_ptr carveout d R1_AMP_MAILMSG_OFF"

text \<open>
  Every place at which the driver reads or writes the state page: the pointer it computes and
  the type it accesses it with.
\<close>

definition linux_pointers :: "u64 \<Rightarrow> r1_amp_cpu_on_data \<Rightarrow> (u64 \<times> ctype) list" where
  "linux_pointers carveout d =
     [(r1_amp_status_ptr carveout d, Array U64 2),
      (r1_amp_protocol_ptr carveout d R1_AMP_REQ_PAYLOAD_OFF, r1_amp_payload_line_t),
      (r1_amp_protocol_ptr carveout d R1_AMP_REQ_COMMIT_OFF, r1_amp_commit_line_t),
      (r1_amp_protocol_ptr carveout d R1_AMP_RSP_PAYLOAD_OFF, r1_amp_payload_line_t),
      (r1_amp_protocol_ptr carveout d R1_AMP_RSP_COMMIT_OFF, r1_amp_commit_line_t),
      (r1_amp_mbox_observation_ptr carveout d, r1_amp_mbox_observation_line_t),
      (r1_amp_mailmsg_tx_full_observation_ptr carveout d, mailmsg_tx_full_observation_t),
      (r1_amp_mailmsg_worker_observation_ptr carveout d, r1_amp_mailmsg_worker_observation_line_t),
      (mailmsg_linux_shared_ptr carveout d, mailmsg_shared_t)]"

text \<open>\<open>carveout\<close> maps the region at \<open>carveout_phys\<close>: the physical address behind a pointer into it.\<close>

definition physical :: "u64 \<Rightarrow> r1_amp_cpu_on_data \<Rightarrow> u64 \<Rightarrow> u64" where
  "physical carveout d pointer = carveout_phys d + (pointer - carveout)"

lemma physical_protocol_ptr:
  "physical carveout d (r1_amp_protocol_ptr carveout d off) = carveout_phys d + ucast (status_offset d) + ucast off"
  by (simp add: physical_def r1_amp_protocol_ptr_def r1_amp_status_ptr_def)

lemma physical_status_ptr:
  "physical carveout d (r1_amp_status_ptr carveout d) = carveout_phys d + ucast (status_offset d)"
  by (simp add: physical_def r1_amp_status_ptr_def)

lemma probe_geometry:
  assumes "r1_amp_cpu_on_probe wr env = (0, Some d, files)"
  shows "geometry_ok (carveout_phys d) (carveout_size d) (entry d) (image_size d) (status_offset d)"
proof (cases rule: probe_eq [of env wr, case_names refused attach])
  case (refused e)
  with assms show ?thesis by simp
next
  case (attach base sz mp en isize soff regs)
  let ?d = "probe_data wr base sz mp en isize soff regs"
  have us: "mailmsg_user ?d = fresh_users" "mbox (d_ctx ?d) = replicate 4 zero_channel" "notify_inject_errno (d_ctx ?d) < 0"
    by simp_all
  show ?thesis
  proof (cases rule: probe_attach_cases [OF us, of env, case_names no_channels no_image ok])
    case (ok c us)
    then have "d = ?d\<lparr>d_ctx := c, mailmsg_user := us\<rparr>" using attach(8) assms by simp
    then show ?thesis using attach(7) by (simp add: probe_data_def)
  qed (use attach(8) assms in simp_all)
qed

text \<open>The geometry check as natural numbers, for a region that can hold the state page.\<close>

lemma geometry_bounds:
  assumes "geometry_ok base sz en isize soff" and "3916 \<le> unat sz"
  shows "0 < unat isize" "unat isize \<le> unat soff" "unat soff + 3916 \<le> unat sz"
proof -
  have "unat (sz - 3916) = unat sz - 3916" using assms(2) by (simp add: unat_sub word_le_nat_alt)
  then show "0 < unat isize" "unat isize \<le> unat soff" "unat soff + 3916 \<le> unat sz"
    using assms by (auto simp: geometry_ok_def not_less word_le_nat_alt unat_ucast_u64 unat_gt_0)
qed

lemma area_bounds:
  assumes "(off, t) \<in> set linux_areas"
  shows "off + sizeof t \<le> 3916" "off < 2 ^ 32"
  using assms layout_sizes by (auto simp: linux_areas_def)

lemma protocol_ptr_unat:
  assumes "unat carveout + unat (carveout_size d) \<le> 2 ^ 64" and "unat (status_offset d) + off < unat (carveout_size d)" and "off < 2 ^ 32"
  shows "unat (r1_amp_protocol_ptr carveout d (of_nat off)) = unat carveout + unat (status_offset d) + off"
proof -
  have off: "unat (of_nat off :: u32) = off" using assms(3) by (simp add: unat_of_nat take_bit_nat_eq_self)
  have "unat (carveout + ucast (status_offset d)) = unat carveout + unat (status_offset d)"
    using assms(1,2) by (subst unat_add_lem [THEN iffD1]) (simp_all add: unat_ucast_u64)
  then show ?thesis
    unfolding r1_amp_protocol_ptr_def r1_amp_status_ptr_def using assms(1,2) off
    by (subst unat_add_lem [THEN iffD1]) (simp_all add: unat_ucast_u64)
qed

subsection \<open>Properties\<close>

text \<open>The node of the driver in the device tree of the platform, and its reserved region.\<close>

definition lzamp_env :: probe_env where
  "lzamp_env = board_env\<lparr>pe_target_mpidr := Some 0x300, pe_zephyr_entry := Some 0x5000100c,
     pe_zephyr_image_size := Some 0xc000, pe_status_offset := Some 0xff000, pe_rmem := Some (0x50000000, 0x100000)\<rparr>"

text \<open>Claim C26.
  Driver and firmware agree on the shared memory byte by byte.  When the device tree puts the
  state page where the firmware is linked to find it, every pointer that the driver computes
  for the status words, the request and response lines, the three observation lines and the
  MailMsg region is, as a physical address, the one the firmware uses for the same area,
  wherever the kernel mapped the carveout, and both access it with the same fields at the same
  offsets.  The areas are aligned and do not overlap, each line is one 64-byte cache line of
  its own; the checksum of a frame covers exactly the bytes in front of its \<open>crc32\<close> field; the
  size that \<open>probe\<close> and \<open>start\<close> use is the end of the MailMsg region; and the record of user
  space has 48 bytes.
\<close>

theorem state_page_abi:
  assumes "carveout_phys d + ucast (status_offset d) = of_nat AMP_STATUS_ADDR"
  shows "map (\<lambda>(pointer, t). unat (physical carveout d pointer)) (linux_pointers carveout d) = map fst cpu3_areas \<and>
    list_all2 same_layout (map snd (linux_pointers carveout d)) (map snd cpu3_areas) \<and>
    list_all (\<lambda>(address, t). aligned_at address t) cpu3_areas \<and>
    list_all (\<lambda>(address, t). sizeof t = 64 \<and> address mod 64 = 0) (butlast (tl cpu3_areas)) \<and>
    sorted_wrt (\<lambda>(a1, t1) (a2, t2). a1 + sizeof t1 \<le> a2) cpu3_areas \<and>
    offsetof mailmsg_message_t ''crc32'' = Some (length (frame_bytes zero_message)) \<and>
    fst (last cpu3_areas) + sizeof (snd (last cpu3_areas)) = AMP_STATUS_ADDR + unat R1_AMP_STATE_SIZE \<and>
    sizeof mailmsg_user_frame_t = 48"
proof (intro conjI)
  show "map (\<lambda>(pointer, t). unat (physical carveout d pointer)) (linux_pointers carveout d) = map fst cpu3_areas"
    using assms by (simp add: linux_pointers_def cpu3_areas_def r1_amp_mbox_observation_ptr_def
        r1_amp_mailmsg_tx_full_observation_ptr_def r1_amp_mailmsg_worker_observation_ptr_def
        mailmsg_linux_shared_ptr_def physical_protocol_ptr physical_status_ptr)
qed (simp_all add: linux_pointers_def cpu3_areas_def same_layout_def aligned_at_def offsetof_def layout_defs round_up_def
        frame_bytes_def zero_message_def le_bytes_def)

theorem state_page_abi_witness:
  "\<exists>d files. r1_amp_cpu_on_probe rk_mbox_write lzamp_env = (0, Some d, files) \<and>
    map (\<lambda>(pointer, t). unat (physical 0xffff800012340000 d pointer)) (linux_pointers 0xffff800012340000 d) = map fst cpu3_areas"
proof -
  let ?x = "r1_amp_cpu_on_probe rk_mbox_write lzamp_env"
  note defs = lzamp_env_def board_env_def probe_eval probe_data_def upd_user_def
  have "fst ?x = 0" "fst (snd ?x) \<noteq> None" by (simp_all add: defs)
  then obtain d files where x: "?x = (0, Some d, files)" by (cases ?x) auto
  have "d = the (fst (snd ?x))" by (simp add: x)
  then have "carveout_phys d + ucast (status_offset d) = of_nat AMP_STATUS_ADDR" by (simp add: defs)
  from state_page_abi [OF this, of "0xffff800012340000"] x show ?thesis by blast
qed

text \<open>Claim C27.
  The geometry check of \<open>probe\<close> keeps the shared memory inside the carveout: in a reserved
  region that can hold the state page, every area of the page lies behind the image and in front
  of the end of the mapping, and no address wraps.
\<close>

theorem state_page_in_carveout:
  assumes "r1_amp_cpu_on_probe wr env = (0, Some d, files)" and "R1_AMP_STATE_SIZE \<le> carveout_size d"
    and "unat carveout + unat (carveout_size d) \<le> 2 ^ 64" and "(off, t) \<in> set linux_areas"
  shows "unat carveout + unat (image_size d) \<le> unat (r1_amp_protocol_ptr carveout d (of_nat off)) \<and>
    unat (r1_amp_protocol_ptr carveout d (of_nat off)) + sizeof t \<le> unat carveout + unat (carveout_size d)"
proof -
  have sz: "3916 \<le> unat (carveout_size d)" using assms(2) by (simp add: word_le_nat_alt)
  note g = geometry_bounds [OF probe_geometry [OF assms(1)] sz] and a = area_bounds [OF assms(4)]
  have "0 < sizeof t" using assms(4) layout_sizes by (auto simp: linux_areas_def)
  then have "unat (r1_amp_protocol_ptr carveout d (of_nat off)) = unat carveout + unat (status_offset d) + off"
    using g a by (intro protocol_ptr_unat assms(3)) simp_all
  then show ?thesis using g a by simp
qed

theorem state_page_in_carveout_witness:
  "let d = board_data rk_mbox_write in
   unat (r1_amp_protocol_ptr 0xffff000000000000 d (of_nat 0x200)) + sizeof mailmsg_shared_t \<le> unat (0xffff000000000000 :: u64) + unat (carveout_size d)"
proof -
  obtain d files where d: "r1_amp_cpu_on_probe rk_mbox_write board_env = (0, Some d, files)" "board_data rk_mbox_write = d"
    by (rule board_probe)
  have "carveout_size (board_data rk_mbox_write) = 0x100000"
    by (simp add: board_data_def board_env_def probe_eval probe_data_def upd_user_def)
  with d have sz: "carveout_size d = 0x100000" by simp
  have "(0x200, mailmsg_shared_t) \<in> set linux_areas" by (simp add: linux_areas_def)
  from state_page_in_carveout [OF d(1) _ _ this, of "0xffff000000000000"] sz d(2) show ?thesis by (simp add: Let_def)
qed

text \<open>
  A region smaller than the state page is not refused: the subtraction in the bound of the
  status offset wraps, and the driver attaches with its state page outside of the region.
\<close>

lemma small_region_accepted:
  "fst (r1_amp_cpu_on_probe wr (board_env\<lparr>pe_rmem := Some (0x10000000, 0x100)\<rparr>)) = 0"
  by (simp add: board_env_def probe_eval)

end
