(* ===== verification/Amp_Cache.thy ===== *)
theory Amp_Cache
  imports Amp_Layout
begin

text \<open>
  The shared memory behind the caches.  Each side keeps write-back copies of the 64-byte lines;
  a copy may be filled, written back or evicted by the hardware at any time, and nothing but
  the maintenance calls of the code makes one side see what the other has written.  \<open>'l\<close> is the
  content of a line, in whatever form suits its reader.
\<close>

datatype core = Linux_core | Cpu3_core

record 'l cached_line =
  cl_poc :: 'l
  cl_copy :: "core \<Rightarrow> (bool \<times> 'l) option"

type_synonym 'l memory = "nat \<Rightarrow> 'l cached_line"

text \<open>\<open>cl_poc\<close> is the content at the point of coherency, a copy is marked if it is dirty.\<close>

definition cl_view :: "core \<Rightarrow> 'l cached_line \<Rightarrow> 'l" where
  "cl_view c l = (case cl_copy l c of None \<Rightarrow> cl_poc l | Some (dirty, x) \<Rightarrow> x)"

definition cl_store :: "core \<Rightarrow> ('l \<Rightarrow> 'l) \<Rightarrow> 'l cached_line \<Rightarrow> 'l cached_line" where
  "cl_store c f l = l\<lparr>cl_copy := (cl_copy l)(c \<mapsto> (True, f (cl_view c l)))\<rparr>"

definition cl_fill :: "core \<Rightarrow> 'l cached_line \<Rightarrow> 'l cached_line" where
  "cl_fill c l = (case cl_copy l c of None \<Rightarrow> l\<lparr>cl_copy := (cl_copy l)(c \<mapsto> (False, cl_poc l))\<rparr> | Some _ \<Rightarrow> l)"

definition cl_clean :: "core \<Rightarrow> 'l cached_line \<Rightarrow> 'l cached_line" where
  "cl_clean c l = (case cl_copy l c of Some (True, x) \<Rightarrow> l\<lparr>cl_poc := x, cl_copy := (cl_copy l)(c \<mapsto> (False, x))\<rparr> | _ \<Rightarrow> l)"

definition cl_drop :: "core \<Rightarrow> 'l cached_line \<Rightarrow> 'l cached_line" where
  "cl_drop c l = l\<lparr>cl_copy := (cl_copy l)(c := None)\<rparr>"

text \<open>What the hardware may do on its own.\<close>

inductive hw_step :: "'l memory \<Rightarrow> 'l memory \<Rightarrow> bool" where
  fill: "hw_step m (m(l := cl_fill c (m l)))"
| write_back: "hw_step m (m(l := cl_clean c (m l)))"
| evict: "hw_step m (m(l := cl_drop c (cl_clean c (m l))))"

subsection \<open>The maintenance calls\<close>

text \<open>
  The calls of the Linux kernel take the first address and the one behind the last, those of
  Zephyr take a length.
\<close>

record 'l cache_api =
  dcache_clean_poc :: "nat \<Rightarrow> nat \<Rightarrow> 'l memory \<Rightarrow> 'l memory"
  dcache_inval_poc :: "nat \<Rightarrow> nat \<Rightarrow> 'l memory \<Rightarrow> 'l memory"
  sys_cache_data_flush_range :: "nat \<Rightarrow> nat \<Rightarrow> 'l memory \<Rightarrow> 'l memory"
  sys_cache_data_invd_range :: "nat \<Rightarrow> nat \<Rightarrow> 'l memory \<Rightarrow> 'l memory"

abbreviation (input) CACHE_LINE :: nat where "CACHE_LINE \<equiv> 64"

definition touches :: "nat \<Rightarrow> nat \<Rightarrow> nat \<Rightarrow> bool" where
  "touches start end line \<longleftrightarrow> start < (line + 1) * CACHE_LINE \<and> line * CACHE_LINE < end"

definition covers :: "nat \<Rightarrow> nat \<Rightarrow> nat \<Rightarrow> bool" where
  "covers start end line \<longleftrightarrow> start \<le> line * CACHE_LINE \<and> (line + 1) * CACHE_LINE \<le> end"

text \<open>
  Their documented effect: cleaning writes the dirty lines of the interval back; invalidating
  drops the lines of the interval, and writes back the lines that it covers only in part.
\<close>

definition clean_lines :: "core \<Rightarrow> nat \<Rightarrow> nat \<Rightarrow> 'l memory \<Rightarrow> 'l memory" where
  "clean_lines c start end m = (\<lambda>l. if touches start end l then cl_clean c (m l) else m l)"

definition inval_lines :: "core \<Rightarrow> nat \<Rightarrow> nat \<Rightarrow> 'l memory \<Rightarrow> 'l memory" where
  "inval_lines c start end m = (\<lambda>l. if touches start end l
     then cl_drop c (if covers start end l then m l else cl_clean c (m l)) else m l)"

locale cache_calls =
  fixes api :: "'l cache_api"
  assumes clean_poc: "dcache_clean_poc api start end m = clean_lines Linux_core start end m"
    and inval_poc: "dcache_inval_poc api start end m = inval_lines Linux_core start end m"
    and flush_range: "sys_cache_data_flush_range api start len m = clean_lines Cpu3_core start (start + len) m"
    and invd_range: "sys_cache_data_invd_range api start len m = inval_lines Cpu3_core start (start + len) m"

definition armv8_api :: "'l cache_api" where
  "armv8_api = \<lparr>dcache_clean_poc = clean_lines Linux_core, dcache_inval_poc = inval_lines Linux_core,
     sys_cache_data_flush_range = (\<lambda>start len. clean_lines Cpu3_core start (start + len)),
     sys_cache_data_invd_range = (\<lambda>start len. inval_lines Cpu3_core start (start + len))\<rparr>"

interpretation armv8: cache_calls armv8_api
  by unfold_locales (simp_all add: armv8_api_def)

text \<open>The hooks of both sides; \<open>dsb\<close> waits for the maintenance to complete.\<close>

definition lzamp_dcache_clean :: "'l cache_api \<Rightarrow> nat \<Rightarrow> nat \<Rightarrow> 'l memory \<Rightarrow> 'l memory" where
  "lzamp_dcache_clean api start len m = dcache_clean_poc api start (start + len) m"

definition lzamp_dcache_invalidate :: "'l cache_api \<Rightarrow> nat \<Rightarrow> nat \<Rightarrow> 'l memory \<Rightarrow> 'l memory" where
  "lzamp_dcache_invalidate api start len m = dcache_inval_poc api start (start + len) m"

definition mailmsg_linux_publish :: "'l cache_api \<Rightarrow> nat \<Rightarrow> nat \<Rightarrow> 'l memory \<Rightarrow> 'l memory" where
  "mailmsg_linux_publish api addr len m = lzamp_dcache_clean api addr len m"

definition mailmsg_linux_acquire :: "'l cache_api \<Rightarrow> nat \<Rightarrow> nat \<Rightarrow> 'l memory \<Rightarrow> 'l memory" where
  "mailmsg_linux_acquire api addr len m = lzamp_dcache_invalidate api addr len m"

definition mailmsg_queue_publish :: "'l cache_api \<Rightarrow> nat \<Rightarrow> nat \<Rightarrow> 'l memory \<Rightarrow> 'l memory" where
  "mailmsg_queue_publish api addr len m = sys_cache_data_flush_range api addr len m"

definition mailmsg_queue_acquire :: "'l cache_api \<Rightarrow> nat \<Rightarrow> nat \<Rightarrow> 'l memory \<Rightarrow> 'l memory" where
  "mailmsg_queue_acquire api addr len m = sys_cache_data_invd_range api addr len m"

lemmas hook_defs = lzamp_dcache_clean_def lzamp_dcache_invalidate_def mailmsg_linux_publish_def mailmsg_linux_acquire_def
  mailmsg_queue_publish_def mailmsg_queue_acquire_def

lemma touches_line: "touches (l * CACHE_LINE) (l * CACHE_LINE + CACHE_LINE) k \<longleftrightarrow> k = l"
  unfolding touches_def by auto

lemma covers_line: "covers (l * CACHE_LINE) (l * CACHE_LINE + CACHE_LINE) l"
  by (simp add: covers_def)

text \<open>On a whole line a hook acts on this line alone.\<close>

context cache_calls
begin

lemma line_hooks:
  "lzamp_dcache_clean api (l * CACHE_LINE) CACHE_LINE m = m(l := cl_clean Linux_core (m l))"
  "lzamp_dcache_invalidate api (l * CACHE_LINE) CACHE_LINE m = m(l := cl_drop Linux_core (m l))"
  "sys_cache_data_flush_range api (l * CACHE_LINE) CACHE_LINE m = m(l := cl_clean Cpu3_core (m l))"
  "sys_cache_data_invd_range api (l * CACHE_LINE) CACHE_LINE m = m(l := cl_drop Cpu3_core (m l))"
  by (simp_all add: hook_defs clean_poc inval_poc flush_range invd_range clean_lines_def inval_lines_def touches_line covers_line fun_eq_iff)

end

subsection \<open>The ring operations behind the caches\<close>

text \<open>
  Here a line holds words, by their address: every field of a ring and of a frame is a word or,
  for the payload, seven words at an address divisible by four.  A load sees the copy of the
  core if there is one, a store makes it dirty.
\<close>

type_synonym word_memory = "(nat \<Rightarrow> u32) memory"

definition load :: "core \<Rightarrow> nat \<Rightarrow> word_memory \<Rightarrow> u32" where
  "load c a m = cl_view c (m (a div CACHE_LINE)) a"

definition store :: "core \<Rightarrow> nat \<Rightarrow> u32 \<Rightarrow> word_memory \<Rightarrow> word_memory" where
  "store c a v m = m(a div CACHE_LINE := cl_store c (\<lambda>line. line(a := v)) (m (a div CACHE_LINE)))"

fun store_words :: "core \<Rightarrow> nat \<Rightarrow> u32 list \<Rightarrow> word_memory \<Rightarrow> word_memory" where
  "store_words c a [] m = m"
| "store_words c a (w # ws) m = store_words c (a + 4) ws (store c a w m)"

definition load_words :: "core \<Rightarrow> nat \<Rightarrow> nat \<Rightarrow> word_memory \<Rightarrow> u32 list" where
  "load_words c a n m = map (\<lambda>k. load c (a + 4 * k) m) [0..<n]"

text \<open>A frame as its thirteen words.\<close>

definition message_words :: "mailmsg_message \<Rightarrow> u32 list" where
  "message_words message = [msg_generation message, msg_type message, msg_sequence message, msg_length message] @
     map (\<lambda>k. mailmsg_payload_u32 (msg_payload message) (4 * k)) [0..<7] @ [msg_crc32 message, msg_commit message]"

definition words_message :: "u32 list \<Rightarrow> mailmsg_message" where
  "words_message ws = \<lparr>msg_generation = ws ! 0, msg_type = ws ! 1, msg_sequence = ws ! 2, msg_length = ws ! 3,
     msg_payload = concat (map le_bytes (take 7 (drop 4 ws))), msg_crc32 = ws ! 11, msg_commit = ws ! 12\<rparr>"

text \<open>A core with its hooks of the \<open>mailmsg_memory_ops\<close> table.\<close>

record ring_side =
  rs_core :: core
  rs_publish :: "nat \<Rightarrow> nat \<Rightarrow> word_memory \<Rightarrow> word_memory"
  rs_acquire :: "nat \<Rightarrow> nat \<Rightarrow> word_memory \<Rightarrow> word_memory"

definition linux_side :: "(nat \<Rightarrow> u32) cache_api \<Rightarrow> ring_side" where
  "linux_side api = \<lparr>rs_core = Linux_core, rs_publish = mailmsg_linux_publish api, rs_acquire = mailmsg_linux_acquire api\<rparr>"

definition cpu3_side :: "(nat \<Rightarrow> u32) cache_api \<Rightarrow> ring_side" where
  "cpu3_side api = \<lparr>rs_core = Cpu3_core, rs_publish = mailmsg_queue_publish api, rs_acquire = mailmsg_queue_acquire api\<rparr>"

text \<open>The addresses of the fields of a ring and of its slots.\<close>

definition producer_addr :: "nat \<Rightarrow> nat" where
  "producer_addr ring = ring + the (offsetof mailmsg_ring_t ''producer'')"

definition consumer_addr :: "nat \<Rightarrow> nat" where
  "consumer_addr ring = ring + the (offsetof mailmsg_ring_t ''consumer'')"

definition slot_addr :: "nat \<Rightarrow> u32 \<Rightarrow> nat" where
  "slot_addr ring i = ring + the (offsetof mailmsg_ring_t ''slot'') + unat i * sizeof mailmsg_message_t"

definition message_field :: "nat \<Rightarrow> string \<Rightarrow> nat" where
  "message_field slot f = slot + the (offsetof mailmsg_message_t f)"

text \<open>The stores of \<open>push\<close>: the frame, its checksum and its commit word, then the index.\<close>

definition cached_slot_write :: "ring_side \<Rightarrow> nat \<Rightarrow> mailmsg_message \<Rightarrow> u32 \<Rightarrow> word_memory \<Rightarrow> word_memory" where
  "cached_slot_write ops ring message producer m =
     (let c = rs_core ops; slot = slot_addr ring producer;
          m = store_words c slot (message_words message) m;
          m = store c (message_field slot ''commit'') 0 m;
          m = store c (message_field slot ''crc32'') (mailmsg_frame_crc32 (words_message (load_words c slot 13 m))) m;
          m = rs_publish ops slot (sizeof mailmsg_message_t) m;
          m = store c (message_field slot ''commit'') (msg_sequence message) m;
          m = rs_publish ops (message_field slot ''commit'') 4 m;
          m = store c (producer_addr ring) (mailmsg_next producer) m
      in rs_publish ops (producer_addr ring) 4 m)"

definition cached_ring_push :: "ring_side \<Rightarrow> nat \<Rightarrow> mailmsg_message \<Rightarrow> word_memory \<Rightarrow> int \<times> word_memory" where
  "cached_ring_push ops ring message m =
     (let c = rs_core ops; producer = load c (producer_addr ring) m; nxt = mailmsg_next producer in
      if msg_generation message = 0 \<or> msg_sequence message = 0 \<or> MAILMSG_PAYLOAD_BYTES < msg_length message
      then (MAILMSG_RING_INVALID, m)
      else
        let m = rs_acquire ops (consumer_addr ring) 4 m in
        if nxt = load c (consumer_addr ring) m then (MAILMSG_RING_FULL, m)
        else
          (0, cached_slot_write ops ring message producer m))"

text \<open>\<open>pop\<close> in two parts: up to the store of the consumer index, and from its publication on.\<close>

definition cached_ring_pop_take :: "ring_side \<Rightarrow> nat \<Rightarrow> word_memory \<Rightarrow> (int + mailmsg_message) \<times> word_memory" where
  "cached_ring_pop_take ops ring m =
     (let c = rs_core ops; consumer = load c (consumer_addr ring) m;
          m = rs_acquire ops (producer_addr ring) 4 m in
      if consumer = load c (producer_addr ring) m then (Inl MAILMSG_RING_EMPTY, m)
      else
        let slot = slot_addr ring consumer;
            m = rs_acquire ops slot (sizeof mailmsg_message_t) m in
        if load c (message_field slot ''commit'') m \<noteq> load c (message_field slot ''sequence'') m
        then (Inl MAILMSG_RING_INCOMPLETE, m)
        else (Inr (words_message (load_words c slot 13 m)), store c (consumer_addr ring) (mailmsg_next consumer) m))"

definition cached_ring_pop_release :: "ring_side \<Rightarrow> nat \<Rightarrow> mailmsg_message \<Rightarrow> word_memory \<Rightarrow> int \<times> word_memory" where
  "cached_ring_pop_release ops ring message m =
     (let m = rs_publish ops (consumer_addr ring) 4 m in
      (if msg_generation message = 0 \<or> msg_sequence message = 0 \<or> MAILMSG_PAYLOAD_BYTES < msg_length message
       then MAILMSG_RING_INVALID
       else if msg_crc32 message \<noteq> mailmsg_frame_crc32 message then MAILMSG_RING_BAD_CRC
       else 0, m))"

definition cached_ring_pop :: "ring_side \<Rightarrow> nat \<Rightarrow> word_memory \<Rightarrow> int \<times> mailmsg_message option \<times> word_memory" where
  "cached_ring_pop ops ring m =
     (case cached_ring_pop_take ops ring m of
        (Inl code, m) \<Rightarrow> (code, None, m)
      | (Inr message, m) \<Rightarrow> (case cached_ring_pop_release ops ring message m of (code, m) \<Rightarrow> (code, Some message, m)))"

text \<open>The rings from Linux to CPU3 in the shared memory.\<close>

definition ring_address :: "nat \<Rightarrow> nat" where
  "ring_address p = AMP_QUEUE_ADDR + the (offsetof mailmsg_shared_t ''linux_to_cpu3'') + p * sizeof mailmsg_ring_t"

subsection \<open>Two indices in one line\<close>

lemma field_addrs:
  "producer_addr ring = ring" "consumer_addr ring = ring + 4" "slot_addr ring i = ring + 8 + unat i * 52"
  "message_field slot ''commit'' = slot + 48" "message_field slot ''crc32'' = slot + 44" "message_field slot ''sequence'' = slot + 8"
  by (simp_all add: producer_addr_def consumer_addr_def slot_addr_def message_field_def offsetof_def layout_defs round_up_def)

lemma ring_address_eq: "ring_address p = 0x500ff20c + 424 * p"
  by (simp add: ring_address_def offsetof_def layout_defs round_up_def)

lemma mailmsg_next_ne: "mailmsg_next n \<noteq> n" "mailmsg_next (mailmsg_next n) \<noteq> n"
proof -
  have "Suc u mod 8 \<noteq> u" "Suc (Suc u mod 8) mod 8 \<noteq> u" for u :: nat by presburger+
  then show "mailmsg_next n \<noteq> n" "mailmsg_next (mailmsg_next n) \<noteq> n"
    by (metis unat_mailmsg_next)+
qed

lemma indices_in_one_line:
  assumes "p < 4"
  shows "consumer_addr (ring_address p) div CACHE_LINE = producer_addr (ring_address p) div CACHE_LINE"
proof -
  have "p = 0 \<or> p = 1 \<or> p = 2 \<or> p = 3" using assms by linarith
  then show ?thesis by (auto simp: field_addrs ring_address_eq)
qed

lemmas line_defs = cl_view_def cl_store_def cl_clean_def cl_drop_def cl_fill_def

lemma covers_addr: "\<not> covers a (a + 4) l"
  unfolding covers_def by auto

lemma le_bytes_u32:
  fixes a b c d :: u8
  shows "le_bytes (ucast a OR push_bit 8 (ucast b) OR push_bit 16 (ucast c) OR push_bit 24 (ucast d)) = [a, b, c, d]"
  unfolding le_bytes_def list.inject by (intro conjI refl; rule bit_word_eqI; auto simp: bit_simps dest: bit_imp_le_length)

lemma message_words_upd:
  "message_words (m\<lparr>msg_commit := v\<rparr>) = (message_words m)[12 := v]"
  "message_words (seal m) = (message_words m)[11 := mailmsg_frame_crc32 m, 12 := msg_sequence m]"
  by (simp_all add: message_words_def seal_def upt_rec)

lemma words_message_words:
  assumes "message_wf m"
  shows "words_message (message_words m) = m"
proof -
  have "concat (map (\<lambda>k. le_bytes (mailmsg_payload_u32 (msg_payload m) (4 * k))) [0..<7]) = map (\<lambda>i. msg_payload m ! i) [0..<28]"
    by (simp add: mailmsg_payload_u32_def le_bytes_u32 upt_rec) (simp add: numeral_eq_Suc)
  also have "\<dots> = msg_payload m" using assms map_nth [of "msg_payload m"] by (simp add: message_wf_def)
  finally show ?thesis by (simp add: words_message_def message_words_def comp_def nth_append)
qed

text \<open>The words as one core sees them, and its copies agreeing with memory unless they are dirty.\<close>

definition coherent :: "core \<Rightarrow> word_memory \<Rightarrow> bool" where
  "coherent c m \<longleftrightarrow> (\<forall>l x. cl_copy (m l) c = Some (False, x) \<longrightarrow> x = cl_poc (m l))"

definition word_at :: "word_memory \<Rightarrow> nat \<Rightarrow> u32" where
  "word_at m a = cl_poc (m (a div CACHE_LINE)) a"

lemma load_store: "load c a (store c b v m) = (if a = b then v else load c a m)"
  by (cases "a div CACHE_LINE = b div CACHE_LINE") (auto simp: load_def store_def cl_store_def cl_view_def)

lemma word_at_store [simp]: "word_at (store c a v m) b = word_at m b"
  by (simp add: word_at_def store_def cl_store_def)

lemma coherent_store: "coherent c m \<Longrightarrow> coherent c (store c a v m)"
  by (auto simp: coherent_def store_def cl_store_def)

lemma load_store_words_below: "b < a \<Longrightarrow> load c b (store_words c a ws m) = load c b m"
  by (induction ws arbitrary: a m) (simp_all add: load_store)

lemma load_store_words: "k < length ws \<Longrightarrow> load c (a + 4 * k) (store_words c a ws m) = ws ! k"
proof (induction ws arbitrary: a m k)
  case (Cons w ws)
  then show ?case
    using Cons.IH [of "k - 1" "a + 4"] by (cases k) (simp_all add: load_store_words_below load_store algebra_simps)
qed simp

lemma coherent_store_words: "coherent c m \<Longrightarrow> coherent c (store_words c a ws m)"
  by (induction ws arbitrary: a m) (simp_all add: coherent_store)

lemma load_clean_lines [simp]: "load c a (clean_lines c s e m) = load c a m"
  by (auto simp: load_def clean_lines_def line_defs split: option.split bool.split)

lemma coherent_clean_lines: "coherent c m \<Longrightarrow> coherent c (clean_lines c s e m)"
  by (auto simp: coherent_def clean_lines_def line_defs split: option.splits bool.splits if_splits)

lemma word_at_clean_lines:
  "coherent c m \<Longrightarrow> word_at (clean_lines c s e m) a = (if touches s e (a div CACHE_LINE) then load c a m else word_at m a)"
  by (auto simp: coherent_def word_at_def load_def clean_lines_def line_defs split: option.split bool.split)

lemma touches_range: "s \<le> a \<Longrightarrow> a < e \<Longrightarrow> touches s e (a div CACHE_LINE)"
proof -
  assume "s \<le> a" "a < e"
  moreover have "a = a div CACHE_LINE * CACHE_LINE + a mod CACHE_LINE" "a mod CACHE_LINE < CACHE_LINE" by simp_all
  ultimately have "s < a div CACHE_LINE * CACHE_LINE + CACHE_LINE" "a div CACHE_LINE * CACHE_LINE < e" by linarith+
  then show ?thesis unfolding touches_def by simp
qed

lemma touches_addr: "touches a (a + 4) (a div CACHE_LINE)"
  by (simp add: touches_range)

text \<open>A word that is in memory as the core sees it stays so under its stores to other words and its publications.\<close>

definition synced :: "core \<Rightarrow> nat \<Rightarrow> u32 \<Rightarrow> word_memory \<Rightarrow> bool" where
  "synced c a w m \<longleftrightarrow> word_at m a = w \<and> load c a m = w"

lemma synced_store: "synced c a w m \<Longrightarrow> b \<noteq> a \<Longrightarrow> synced c a w (store c b v m)"
  by (simp add: synced_def load_store)

lemma synced_clean_lines: "coherent c m \<Longrightarrow> synced c a w m \<Longrightarrow> synced c a w (clean_lines c s e m)"
  by (simp add: synced_def word_at_clean_lines)

lemma synced_published: "coherent c m \<Longrightarrow> load c a m = w \<Longrightarrow> s \<le> a \<Longrightarrow> a < e \<Longrightarrow> synced c a w (clean_lines c s e m)"
  by (simp add: synced_def word_at_clean_lines touches_range)

text \<open>
  What Linux sees of a line is what is at the point of coherency, for the words in \<open>A\<close>, and
  the copy of CPU3 is \<open>k\<close>.  Stores of Linux to other words and its maintenance keep this.
\<close>

definition linux_clean :: "nat set \<Rightarrow> (bool \<times> (nat \<Rightarrow> u32)) option \<Rightarrow> (nat \<Rightarrow> u32) \<Rightarrow> (nat \<Rightarrow> u32) cached_line \<Rightarrow> bool" where
  "linux_clean A k v l \<longleftrightarrow> (\<forall>a \<in> A. cl_poc l a = v a \<and> cl_view Linux_core l a = v a) \<and> cl_copy l Cpu3_core = k"

lemma linux_clean_line:
  assumes "linux_clean A k v l"
  shows "linux_clean A k v (cl_clean Linux_core l)" "linux_clean A k v (cl_drop Linux_core l)"
    "a \<notin> A \<Longrightarrow> linux_clean A k v (cl_store Linux_core (\<lambda>line. line(a := w)) l)"
  using assms by (auto simp: linux_clean_def line_defs split: option.split bool.split)

lemma linux_clean_store:
  "linux_clean A k v (m l) \<Longrightarrow> a \<notin> A \<Longrightarrow> linux_clean A k v (store Linux_core a w m l)"
  by (auto simp: store_def linux_clean_line)

lemma linux_clean_store_words:
  "linux_clean A k v (m l) \<Longrightarrow> (\<And>a'. a' \<in> A \<Longrightarrow> a' < a) \<Longrightarrow> linux_clean A k v (store_words Linux_core a ws m l)"
proof (induction ws arbitrary: a m)
  case (Cons w ws)
  have "a \<notin> A" using Cons.prems(2) by blast
  moreover have "a' < a + 4" if "a' \<in> A" for a' using Cons.prems(2) [OF that] by simp
  ultimately show ?case using Cons.prems(1) by (simp add: Cons.IH linux_clean_store)
qed simp

locale word_cache = cache_calls api for api :: "(nat \<Rightarrow> u32) cache_api"
begin

lemma linux_clean_hooks:
  assumes "linux_clean A k v (m l)"
  shows "linux_clean A k v (mailmsg_linux_publish api a n m l)" "linux_clean A k v (mailmsg_linux_acquire api a n m l)"
  using assms by (simp_all add: hook_defs clean_poc inval_poc clean_lines_def inval_lines_def linux_clean_line)

lemma publish_word:
  "mailmsg_linux_publish api a 4 m (a div CACHE_LINE) = cl_clean Linux_core (m (a div CACHE_LINE))"
  "mailmsg_queue_publish api a 4 m (a div CACHE_LINE) = cl_clean Cpu3_core (m (a div CACHE_LINE))"
  by (simp_all add: hook_defs clean_poc flush_range clean_lines_def touches_addr)

lemma acquire_word:
  "mailmsg_queue_acquire api a 4 m (a div CACHE_LINE) = cl_drop Cpu3_core (cl_clean Cpu3_core (m (a div CACHE_LINE)))"
  by (simp add: hook_defs invd_range inval_lines_def touches_addr covers_addr)

text \<open>A push of Linux brings its producer index to the point of coherency and keeps the copy of CPU3.\<close>

lemma linux_push_index:
  assumes line: "consumer_addr ring div CACHE_LINE = producer_addr ring div CACHE_LINE"
    and start: "linux_clean {producer_addr ring, consumer_addr ring} k v (m (producer_addr ring div CACHE_LINE))"
    and valid: "frame_valid message" and room: "mailmsg_next (v (producer_addr ring)) \<noteq> v (consumer_addr ring)"
  obtains m' where "cached_ring_push (linux_side api) ring message m = (0, m')"
    "cl_poc (m' (producer_addr ring div CACHE_LINE)) (producer_addr ring) = mailmsg_next (v (producer_addr ring))"
    "cl_poc (m' (producer_addr ring div CACHE_LINE)) (consumer_addr ring) = v (consumer_addr ring)"
    "cl_copy (m' (producer_addr ring div CACHE_LINE)) Cpu3_core = k"
    "m' = cached_slot_write (linux_side api) ring message (v (producer_addr ring)) (mailmsg_linux_acquire api (consumer_addr ring) 4 m)"
proof -
  let ?P = "producer_addr ring" and ?C = "consumer_addr ring"
  let ?L = "?P div CACHE_LINE" and ?slot = "slot_addr ring (v ?P)"
  let ?m1 = "mailmsg_linux_acquire api ?C 4 m"
  let ?m2 = "store_words Linux_core ?slot (message_words message) ?m1"
  let ?m3 = "store Linux_core (message_field ?slot ''commit'') 0 ?m2"
  let ?m4 = "store Linux_core (message_field ?slot ''crc32'') (mailmsg_frame_crc32 (words_message (load_words Linux_core ?slot 13 ?m3))) ?m3"
  let ?m5 = "mailmsg_linux_publish api ?slot (sizeof mailmsg_message_t) ?m4"
  let ?m6 = "store Linux_core (message_field ?slot ''commit'') (msg_sequence message) ?m5"
  let ?m7 = "mailmsg_linux_publish api (message_field ?slot ''commit'') 4 ?m6"
  let ?m9 = "cached_slot_write (linux_side api) ring message (v ?P) ?m1"
  have addrs: "a < ?slot" if "a \<in> {?P, ?C}" for a using that by (auto simp: field_addrs)
  have other: "message_field ?slot ''commit'' \<notin> {?P, ?C}" "message_field ?slot ''crc32'' \<notin> {?P, ?C}"
    by (simp_all add: field_addrs)
  have c1: "linux_clean {?P, ?C} k v (?m1 ?L)" using start by (simp add: linux_clean_hooks(2))
  have "linux_clean {?P, ?C} k v (?m2 ?L)" by (rule linux_clean_store_words [OF _ addrs]) (use c1 in simp_all)
  then have "linux_clean {?P, ?C} k v (?m4 ?L)" by (intro linux_clean_store other)
  then have "linux_clean {?P, ?C} k v (?m5 ?L)" by (simp add: linux_clean_hooks(1))
  then have "linux_clean {?P, ?C} k v (?m6 ?L)" by (intro linux_clean_store other)
  then have c7: "linux_clean {?P, ?C} k v (?m7 ?L)" by (simp add: linux_clean_hooks(1))
  have ne: "?P \<noteq> ?C" by (simp add: field_addrs)
  have "load Linux_core ?P m = v ?P" using start by (simp add: load_def linux_clean_def)
  moreover have "load Linux_core ?C ?m1 = v ?C" using c1 line by (simp add: load_def linux_clean_def)
  moreover have "msg_generation message \<noteq> 0" "msg_sequence message \<noteq> 0" "\<not> MAILMSG_PAYLOAD_BYTES < msg_length message"
    using valid by (simp_all add: frame_valid_def not_less)
  ultimately have "cached_ring_push (linux_side api) ring message m = (0, ?m9)"
    using room by (simp add: cached_ring_push_def linux_side_def Let_def)
  moreover have "?m9 ?L = cl_clean Linux_core (cl_store Linux_core (\<lambda>line. line(?P := mailmsg_next (v ?P))) (?m7 ?L))"
    by (simp add: cached_slot_write_def linux_side_def Let_def publish_word store_def [of _ ?P])
  moreover have "cl_poc (?m9 ?L) ?P = mailmsg_next (v ?P)" "cl_poc (?m9 ?L) ?C = v ?C" "cl_copy (?m9 ?L) Cpu3_core = k"
    unfolding calculation(2) using c7 ne by (simp_all add: linux_clean_def cl_clean_def cl_store_def)
  ultimately show thesis using that by blast
qed

end

interpretation armv8_words: word_cache armv8_api
  by unfold_locales

text \<open>A memory of which no core has a copy.\<close>

definition uncached :: "word_memory \<Rightarrow> bool" where
  "uncached m \<longleftrightarrow> (\<forall>l c. cl_copy (m l) c = None)"

context word_cache
begin

lemma uncached_acquire: "uncached m \<Longrightarrow> mailmsg_queue_acquire api a n m = m"
  by (simp add: hook_defs invd_range inval_lines_def uncached_def fun_eq_iff line_defs)

text \<open>On a ring with one frame CPU3 takes the frame; its line then has the new consumer index and the old producer index.\<close>

lemma cpu3_take:
  assumes "uncached m" and "word_at m (producer_addr ring) = mailmsg_next (word_at m (consumer_addr ring))"
    and "word_at m (message_field (slot_addr ring (word_at m (consumer_addr ring))) ''commit'') =
         word_at m (message_field (slot_addr ring (word_at m (consumer_addr ring))) ''sequence'')"
  shows "cached_ring_pop_take (cpu3_side api) ring m =
    (Inr (words_message (map (\<lambda>k. word_at m (slot_addr ring (word_at m (consumer_addr ring)) + 4 * k)) [0..<13])),
     store Cpu3_core (consumer_addr ring) (mailmsg_next (word_at m (consumer_addr ring))) m)"
proof -
  have ld: "load Cpu3_core a m = word_at m a" for a
    using assms(1) by (simp add: load_def word_at_def uncached_def cl_view_def)
  with assms mailmsg_next_ne(1) [of "word_at m (consumer_addr ring)"] show ?thesis
    by (simp add: cached_ring_pop_take_def cpu3_side_def Let_def uncached_acquire load_words_def)
qed

text \<open>What a push of Linux leaves in memory: the thirteen words of the sealed frame; CPU3's copies stay.\<close>

lemma slot_write_words:
  assumes "coherent Linux_core m" and "message_wf message" and "k < 13"
  shows "word_at (cached_slot_write (linux_side api) ring message i m) (slot_addr ring i + 4 * k) = message_words (seal message) ! k"
proof -
  let ?slot = "slot_addr ring i"
  let ?m2 = "store_words Linux_core ?slot (message_words message) m"
  let ?m3 = "store Linux_core (message_field ?slot ''commit'') 0 ?m2"
  let ?m4 = "store Linux_core (message_field ?slot ''crc32'') (mailmsg_frame_crc32 message) ?m3"
  let ?m5 = "clean_lines Linux_core ?slot (?slot + 52) ?m4"
  let ?m6 = "store Linux_core (message_field ?slot ''commit'') (msg_sequence message) ?m5"
  let ?m7 = "clean_lines Linux_core (message_field ?slot ''commit'') (message_field ?slot ''commit'' + 4) ?m6"
  let ?m8 = "store Linux_core (producer_addr ring) (mailmsg_next i) ?m7"
  have len: "length (message_words message) = 13" by (simp add: message_words_def)
  have "load_words Linux_core ?slot 13 ?m3 = message_words (message\<lparr>msg_commit := 0\<rparr>)"
  proof (rule nth_equalityI)
    fix j assume j: "j < length (load_words Linux_core ?slot 13 ?m3)"
    then have "j < 13" by (simp add: load_words_def)
    then show "load_words Linux_core ?slot 13 ?m3 ! j = message_words (message\<lparr>msg_commit := 0\<rparr>) ! j"
      using load_store_words [of j "message_words message" Linux_core ?slot m] len
      by (auto simp: load_words_def load_store field_addrs message_words_upd)
  qed (simp add: load_words_def message_words_def)
  then have crc: "mailmsg_frame_crc32 (words_message (load_words Linux_core ?slot 13 ?m3)) = mailmsg_frame_crc32 message"
    using words_message_words [of "message\<lparr>msg_commit := 0\<rparr>"] assms(2) by (simp add: message_wf_def)
  have wr: "cached_slot_write (linux_side api) ring message i m = clean_lines Linux_core (producer_addr ring) (producer_addr ring + 4) ?m8"
    using crc by (simp add: cached_slot_write_def linux_side_def Let_def hook_defs clean_poc layout_sizes)
  have coh: "coherent Linux_core ?m4" "coherent Linux_core ?m6" "coherent Linux_core ?m8"
    using assms(1) by (simp_all add: coherent_store coherent_store_words coherent_clean_lines)
  have load4: "load Linux_core (?slot + 4 * k) ?m4 = message_words (seal message) ! k" if "k < 12"
    using that load_store_words [of k "message_words message" Linux_core ?slot m] len
    by (auto simp: load_store field_addrs message_words_upd)
  have "synced Linux_core (?slot + 4 * k) (message_words (seal message) ! k) ?m7"
  proof (cases "k = 12")
    case True
    have "load Linux_core (?slot + 4 * k) ?m6 = message_words (seal message) ! k"
      using True len by (simp add: load_store field_addrs message_words_upd)
    then show ?thesis using coh(2) True by (intro synced_published) (simp_all add: field_addrs)
  next
    case False
    then have "k < 12" using assms(3) by simp
    then have "synced Linux_core (?slot + 4 * k) (message_words (seal message) ! k) ?m5"
      using coh(1) load4 by (intro synced_published) simp_all
    then show ?thesis using False by (intro synced_clean_lines [OF coh(2)] synced_store) (assumption | simp add: field_addrs)+
  qed
  then have "synced Linux_core (?slot + 4 * k) (message_words (seal message) ! k) (clean_lines Linux_core (producer_addr ring) (producer_addr ring + 4) ?m8)"
    by (intro synced_clean_lines [OF coh(3)] synced_store) (assumption | simp add: field_addrs)+
  then show ?thesis unfolding wr by (simp add: synced_def)
qed

lemma cpu3_copy_linux_ops:
  "cl_copy (store Linux_core a v m l) Cpu3_core = cl_copy (m l) Cpu3_core"
  "cl_copy (clean_lines Linux_core s e m l) Cpu3_core = cl_copy (m l) Cpu3_core"
  by (auto simp: store_def clean_lines_def line_defs split: option.split bool.split)

lemma cpu3_copy_store_words: "cl_copy (store_words Linux_core a ws m l) Cpu3_core = cl_copy (m l) Cpu3_core"
  by (induction ws arbitrary: a m) (simp_all add: cpu3_copy_linux_ops)

lemma cpu3_copy_slot_write: "cl_copy (cached_slot_write (linux_side api) ring message i m l) Cpu3_core = cl_copy (m l) Cpu3_core"
  by (simp add: cached_slot_write_def linux_side_def Let_def hook_defs clean_poc cpu3_copy_linux_ops cpu3_copy_store_words)

lemma linux_acquire_uncached: "(\<And>l. cl_copy (m l) Linux_core = None) \<Longrightarrow> mailmsg_linux_acquire api a n m = m"
  by (simp add: hook_defs inval_poc inval_lines_def fun_eq_iff line_defs)

lemma cpu3_acquire_uncached: "(\<And>l. cl_copy (m l) Cpu3_core = None) \<Longrightarrow> mailmsg_queue_acquire api a n m = m"
  by (simp add: hook_defs invd_range inval_lines_def fun_eq_iff line_defs)

text \<open>A pop of CPU3 delivers the frame whose sealed words are in memory, if no stale copy is in the way.\<close>

lemma cpu3_pop_delivers:
  assumes "consumer_addr ring div CACHE_LINE = producer_addr ring div CACHE_LINE"
    and "cl_copy (m (producer_addr ring div CACHE_LINE)) Cpu3_core = Some (False, x)"
    and "\<And>l. l \<noteq> producer_addr ring div CACHE_LINE \<Longrightarrow> cl_copy (m l) Cpu3_core = None"
    and "x (consumer_addr ring) \<noteq> word_at m (producer_addr ring)"
    and words: "\<And>k. k < 13 \<Longrightarrow> word_at m (slot_addr ring (x (consumer_addr ring)) + 4 * k) = message_words (seal message) ! k"
    and "frame_valid message" and "message_wf message"
  shows "\<exists>m'. cached_ring_pop (cpu3_side api) ring m = (0, Some (seal message), m')"
proof -
  let ?P = "producer_addr ring" and ?slot = "slot_addr ring (x (consumer_addr ring))"
  let ?m = "mailmsg_queue_acquire api ?P 4 m"
  have none: "cl_copy (?m l) Cpu3_core = None" for l
    using assms(3) [of l] touches_addr [of ?P]
    by (cases "l = ?P div CACHE_LINE") (auto simp: hook_defs invd_range inval_lines_def line_defs)
  have poc: "word_at ?m a = word_at m a" for a
    using assms(2) assms(3) [of "a div CACHE_LINE"]
    by (cases "a div CACHE_LINE = ?P div CACHE_LINE") (simp_all add: word_at_def hook_defs invd_range inval_lines_def line_defs)
  have ld: "load Cpu3_core a ?m = word_at m a" for a
    using none poc by (simp add: load_def cl_view_def word_at_def)
  have "load Cpu3_core (consumer_addr ring) m = x (consumer_addr ring)" using assms(1,2) by (simp add: load_def cl_view_def)
  moreover have "load_words Cpu3_core ?slot 13 ?m = message_words (seal message)"
    by (rule nth_equalityI) (simp_all add: load_words_def ld words message_words_def)
  moreover have "words_message (message_words (seal message)) = seal message"
    using assms(7) by (intro words_message_words) (simp add: message_wf_def seal_def)
  moreover have "word_at m (message_field ?slot ''commit'') = word_at m (message_field ?slot ''sequence'')"
    using words [of 12] words [of 2] by (simp add: field_addrs message_words_def seal_def upt_rec)
  ultimately show ?thesis
    using assms(4,6) frame_status_seal [OF assms(6)] cpu3_acquire_uncached [of ?m, OF none]
    by (auto simp: cached_ring_pop_def cached_ring_pop_take_def cached_ring_pop_release_def cpu3_side_def Let_def ld
        frame_status_def frame_valid_def split: if_split_asm)
qed

lemma taken_line:
  assumes "uncached m" and "consumer_addr ring div CACHE_LINE = producer_addr ring div CACHE_LINE"
  shows "store Cpu3_core (consumer_addr ring) n m (producer_addr ring div CACHE_LINE) =
      \<lparr>cl_poc = cl_poc (m (producer_addr ring div CACHE_LINE)), cl_copy = (\<lambda>_. None)
         (Cpu3_core \<mapsto> (True, (cl_poc (m (producer_addr ring div CACHE_LINE)))(consumer_addr ring := n)))\<rparr>"
proof -
  have "cl_copy (m l) = (\<lambda>_. None)" for l using assms(1) by (auto simp: uncached_def)
  then show ?thesis using assms(2) by (simp add: store_def cl_store_def cl_view_def)
qed

text \<open>CPU3 looks for the next frame: it compares its own consumer index with the producer index behind its cache.\<close>

lemma cpu3_empty:
  assumes "consumer_addr ring div CACHE_LINE = producer_addr ring div CACHE_LINE"
    and "cl_copy (m (producer_addr ring div CACHE_LINE)) Cpu3_core = Some (False, x)"
  shows "fst (cached_ring_pop (cpu3_side api) ring m) = MAILMSG_RING_EMPTY \<longleftrightarrow>
    x (consumer_addr ring) = word_at m (producer_addr ring)"
proof -
  have "load Cpu3_core (consumer_addr ring) m = x (consumer_addr ring)"
    using assms by (simp add: load_def cl_view_def)
  moreover have "load Cpu3_core (producer_addr ring) (mailmsg_queue_acquire api (producer_addr ring) 4 m) = word_at m (producer_addr ring)"
    using assms(2) by (simp add: load_def acquire_word word_at_def line_defs)
  ultimately show ?thesis
    by (auto simp: cached_ring_pop_def cached_ring_pop_take_def cached_ring_pop_release_def cpu3_side_def Let_def split: if_split_asm)
qed

lemma crossing:
  assumes line: "consumer_addr ring div CACHE_LINE = producer_addr ring div CACHE_LINE" and m: "uncached m" and valid: "frame_valid message" and wf: "message_wf message"
    and one: "word_at m (producer_addr ring) = mailmsg_next (word_at m (consumer_addr ring))"
    and take: "cached_ring_pop_take (cpu3_side api) ring m =
      (Inr f, store Cpu3_core (consumer_addr ring) (mailmsg_next (word_at m (consumer_addr ring))) m)"
  shows "\<exists>m1 m2 r m3. cached_ring_pop_take (cpu3_side api) ring m = (Inr f, m1) \<and>
    cached_ring_push (linux_side api) ring message m1 = (0, m2) \<and>
    cached_ring_pop_release (cpu3_side api) ring f m2 = (r, m3) \<and>
    word_at m2 (producer_addr ring) = mailmsg_next (word_at m (producer_addr ring)) \<and>
    word_at m3 (producer_addr ring) = word_at m (producer_addr ring) \<and>
    fst (cached_ring_pop (cpu3_side api) ring m3) = MAILMSG_RING_EMPTY"
    "\<exists>m1 r m2 m3. cached_ring_pop_take (cpu3_side api) ring m = (Inr f, m1) \<and>
    cached_ring_pop_release (cpu3_side api) ring f m1 = (r, m2) \<and>
    cached_ring_push (linux_side api) ring message m2 = (0, m3) \<and>
    fst (cached_ring_pop (cpu3_side api) ring m3) = MAILMSG_RING_OK \<and> fst (snd (cached_ring_pop (cpu3_side api) ring m3)) = Some (seal message)"
proof -
  let ?P = "producer_addr ring" and ?C = "consumer_addr ring" let ?L = "?P div CACHE_LINE"
  let ?x = "(cl_poc (m ?L))(?C := mailmsg_next (word_at m ?C))"
  let ?m1 = "store Cpu3_core ?C (mailmsg_next (word_at m ?C)) m"
  let ?code = "fst (cached_ring_pop_release (cpu3_side api) ring f m)"
  have ne: "?P \<noteq> ?C" by (simp add: field_addrs)
  note l1 = taken_line [OF m line, of "mailmsg_next (word_at m ?C)"]
  have rel: "cached_ring_pop_release (cpu3_side api) ring f n = (?code, mailmsg_queue_publish api ?C 4 n)" for n
    by (simp add: cached_ring_pop_release_def cpu3_side_def Let_def)
  have pub: "mailmsg_queue_publish api ?C 4 n ?L = cl_clean Cpu3_core (n ?L)" for n
    using publish_word(2) [of ?C n] line by simp
  show "\<exists>m1 m2 r m3. cached_ring_pop_take (cpu3_side api) ring m = (Inr f, m1) \<and>
    cached_ring_push (linux_side api) ring message m1 = (0, m2) \<and>
    cached_ring_pop_release (cpu3_side api) ring f m2 = (r, m3) \<and>
    word_at m2 ?P = mailmsg_next (word_at m ?P) \<and> word_at m3 ?P = word_at m ?P \<and>
    fst (cached_ring_pop (cpu3_side api) ring m3) = MAILMSG_RING_EMPTY"
  proof -
    have start: "linux_clean {?P, ?C} (Some (True, ?x)) (word_at m) (?m1 ?L)"
      unfolding l1 using line by (simp add: linux_clean_def cl_view_def word_at_def)
    obtain m2 where m2: "cached_ring_push (linux_side api) ring message ?m1 = (0, m2)"
      "cl_poc (m2 ?L) ?P = mailmsg_next (word_at m ?P)" "cl_copy (m2 ?L) Cpu3_core = Some (True, ?x)"
      by (rule linux_push_index [where m = ?m1, OF line start valid]) (use one mailmsg_next_ne(2) in auto)
    let ?m3 = "mailmsg_queue_publish api ?C 4 m2"
    have l3: "cl_poc (?m3 ?L) = ?x" "cl_copy (?m3 ?L) Cpu3_core = Some (False, ?x)"
      unfolding pub using m2(3) by (simp_all add: cl_clean_def)
    then have "word_at ?m3 ?P = word_at m ?P" using ne by (simp add: word_at_def)
    moreover have "fst (cached_ring_pop (cpu3_side api) ring ?m3) = MAILMSG_RING_EMPTY"
      using cpu3_empty [where m = ?m3, OF line l3(2)] calculation one by simp
    ultimately show ?thesis using take m2(1,2) rel [of m2] by (auto simp: word_at_def)
  qed
  show "\<exists>m1 r m2 m3. cached_ring_pop_take (cpu3_side api) ring m = (Inr f, m1) \<and>
    cached_ring_pop_release (cpu3_side api) ring f m1 = (r, m2) \<and>
    cached_ring_push (linux_side api) ring message m2 = (0, m3) \<and>
    fst (cached_ring_pop (cpu3_side api) ring m3) = MAILMSG_RING_OK \<and> fst (snd (cached_ring_pop (cpu3_side api) ring m3)) = Some (seal message)"
  proof -
    let ?m2 = "mailmsg_queue_publish api ?C 4 ?m1"
    have start: "linux_clean {?P, ?C} (Some (False, ?x)) ?x (?m2 ?L)"
      unfolding pub l1 by (simp add: linux_clean_def cl_view_def cl_clean_def)
    have linux: "cl_copy (?m2 l) Linux_core = None" for l
      using m by (simp add: uncached_def store_def hook_defs flush_range clean_lines_def line_defs split: option.split bool.split)
    have cpu3: "cl_copy (?m2 l) Cpu3_core = None" if "l \<noteq> ?L" for l
      using m that line by (simp add: uncached_def store_def hook_defs flush_range clean_lines_def line_defs)
    obtain m3 where m3: "cached_ring_push (linux_side api) ring message ?m2 = (0, m3)"
      "cl_poc (m3 ?L) ?P = mailmsg_next (?x ?P)" "cl_copy (m3 ?L) Cpu3_core = Some (False, ?x)"
      "m3 = cached_slot_write (linux_side api) ring message (?x ?P) (mailmsg_linux_acquire api ?C 4 ?m2)"
      by (rule linux_push_index [where m = ?m2, OF line start valid]) (use one ne mailmsg_next_ne(1) in \<open>auto simp: word_at_def\<close>)
    note m3' = m3(4) [unfolded linux_acquire_uncached [OF linux]]
    have nx: "?x ?C = ?x ?P" using one ne by (simp add: word_at_def)
    have coh: "coherent Linux_core ?m2" using linux by (simp add: coherent_def)
    have "\<exists>m'. cached_ring_pop (cpu3_side api) ring m3 = (0, Some (seal message), m')"
    proof (rule cpu3_pop_delivers [where m = m3, OF line m3(3) _ _ _ valid wf])
      show "cl_copy (m3 l) Cpu3_core = None" if "l \<noteq> ?L" for l
        unfolding m3' cpu3_copy_slot_write by (rule cpu3 [OF that])
      show "?x ?C \<noteq> word_at m3 ?P" using m3(2) nx mailmsg_next_ne(1) [of "?x ?P"] by (simp add: word_at_def)
      show "word_at m3 (slot_addr ring (?x ?C) + 4 * k) = message_words (seal message) ! k" if "k < 13" for k
        unfolding m3' nx by (rule slot_write_words [OF coh wf that])
    qed
    with take m3(1) rel [of ?m1] show ?thesis by auto
  qed
qed

end

text \<open>Claim C36.
  The hooks alone do not carry the rings.  The producer and the consumer index of a ring are
  words of one cache line and are written by different sides.  Without coherency in hardware a
  push of Linux that falls between the store and the publication of CPU3's consumer index is
  undone: the push returns 0 and brings the producer index to memory, but CPU3 then writes its
  own copy of the line back, the old producer index is in memory again, and the next pop of CPU3
  reports EMPTY although the pushed frame was never delivered.  The same push after the complete
  pop is delivered, sealed, by the next pop.
\<close>

theorem crossing_indices_lose_push:
  assumes "cache_calls api" and "p < 4" and "uncached m" and "frame_valid message" and "message_wf message"
    and "word_at m (producer_addr (ring_address p)) = mailmsg_next (word_at m (consumer_addr (ring_address p)))"
    and "slot = slot_addr (ring_address p) (word_at m (consumer_addr (ring_address p)))"
    and "word_at m (message_field slot ''commit'') = word_at m (message_field slot ''sequence'')"
    and "f = words_message (map (\<lambda>k. word_at m (slot + 4 * k)) [0..<13])"
  shows "(\<exists>m1 m2 r m3. cached_ring_pop_take (cpu3_side api) (ring_address p) m = (Inr f, m1) \<and>
      cached_ring_push (linux_side api) (ring_address p) message m1 = (0, m2) \<and>
      cached_ring_pop_release (cpu3_side api) (ring_address p) f m2 = (r, m3) \<and>
      word_at m2 (producer_addr (ring_address p)) = mailmsg_next (word_at m (producer_addr (ring_address p))) \<and>
      word_at m3 (producer_addr (ring_address p)) = word_at m (producer_addr (ring_address p)) \<and>
      fst (cached_ring_pop (cpu3_side api) (ring_address p) m3) = MAILMSG_RING_EMPTY) \<and>
    (\<exists>m1 r m2 m3. cached_ring_pop_take (cpu3_side api) (ring_address p) m = (Inr f, m1) \<and>
      cached_ring_pop_release (cpu3_side api) (ring_address p) f m1 = (r, m2) \<and>
      cached_ring_push (linux_side api) (ring_address p) message m2 = (0, m3) \<and>
      fst (cached_ring_pop (cpu3_side api) (ring_address p) m3) = MAILMSG_RING_OK \<and>
      fst (snd (cached_ring_pop (cpu3_side api) (ring_address p) m3)) = Some (seal message))"
proof -
  have wc: "word_cache api" using assms(1) by (simp add: word_cache_def)
  note line = indices_in_one_line [OF assms(2)]
  have take: "cached_ring_pop_take (cpu3_side api) (ring_address p) m =
      (Inr f, store Cpu3_core (consumer_addr (ring_address p)) (mailmsg_next (word_at m (consumer_addr (ring_address p)))) m)"
    using word_cache.cpu3_take [OF wc assms(3,6)] assms(7-9) by simp
  show ?thesis using word_cache.crossing [OF wc line assms(3,4,5,6) take] by blast
qed

text \<open>The first ring, with one zeroed frame in slot 0 and a PING on its way.\<close>

definition one_frame_memory :: word_memory where
  "one_frame_memory = (\<lambda>_. \<lparr>cl_poc = (\<lambda>a. if a = producer_addr (ring_address 0) then 1 else 0), cl_copy = (\<lambda>_. None)\<rparr>)"

theorem crossing_indices_lose_push_witness:
  "let ring = ring_address 0; m = one_frame_memory; message = zero_message\<lparr>msg_generation := 1, msg_sequence := 7\<rparr> in
   \<exists>f m1 m2 r m3. cached_ring_pop_take (cpu3_side armv8_api) ring m = (Inr f, m1) \<and>
     cached_ring_push (linux_side armv8_api) ring message m1 = (0, m2) \<and>
     cached_ring_pop_release (cpu3_side armv8_api) ring f m2 = (r, m3) \<and>
     fst (cached_ring_pop (cpu3_side armv8_api) ring m3) = MAILMSG_RING_EMPTY"
proof -
  let ?m = one_frame_memory and ?message = "zero_message\<lparr>msg_generation := 1, msg_sequence := 7\<rparr>"
  have w: "word_at ?m a = (if a = ring_address 0 then 1 else 0)" for a
    by (simp add: word_at_def one_frame_memory_def field_addrs)
  have "uncached ?m" "frame_valid ?message" "message_wf ?message"
    by (simp_all add: uncached_def one_frame_memory_def frame_valid_def zero_message_def message_wf_def)
  from crossing_indices_lose_push [OF armv8.cache_calls_axioms _ this _ refl _ refl, of 0] w show ?thesis
    by (fastforce simp: field_addrs mailmsg_next_def Let_def)
qed

end
