(* ===== verification/Amp_Snapshot.thy ===== *)
theory Amp_Snapshot
  imports Amp_Cache Cpu3_Firmware
begin

text \<open>
  The diagnostics lines under concurrency.  CPU3 publishes a line store by store (commit word
  zero, fields, inverse, commit word, flush) while \<open>status_show\<close> of the driver reads it load by
  load, with the caches of \<open>Amp_Cache\<close> in between.  Both lines of the state page follow the same
  code, so the argument is made once, in a locale, for a line with a commit word.  Loads and
  stores of a core take effect in program order.
\<close>

subsection \<open>Writer and reader\<close>

text \<open>
  \<open>lc_stores x\<close> are the stores between the two of the commit word when the content \<open>x\<close> is
  published, \<open>lc_loads\<close> the loads between the two of the commit word.
\<close>

record 'l line_code =
  lc_line :: nat
  lc_commit :: "'l \<Rightarrow> u32"
  lc_inv :: "'l \<Rightarrow> u32"
  lc_set_commit :: "u32 \<Rightarrow> 'l \<Rightarrow> 'l"
  lc_set_inv :: "u32 \<Rightarrow> 'l \<Rightarrow> 'l"
  lc_magic_ok :: "'l \<Rightarrow> bool"
  lc_stores :: "'l \<Rightarrow> ('l \<Rightarrow> 'l) list"
  lc_loads :: "('l \<Rightarrow> 'l \<Rightarrow> 'l) list"

datatype 'l writer_pc = W_idle | W_body "('l \<Rightarrow> 'l) list" 'l | W_flush

datatype 'l reader_pc = R_idle | R_commit | R_fields "('l \<Rightarrow> 'l \<Rightarrow> 'l) list" | R_commit2 | R_inv | R_done

record 'l snapshot_system =
  ss_mem :: "'l memory"
  ss_commit :: u32
  ss_writer :: "'l writer_pc"
  ss_published :: "'l list"
  ss_reader :: "'l reader_pc"
  ss_first :: 'l
  ss_second :: 'l

abbreviation ss_line :: "'l line_code \<Rightarrow> 'l snapshot_system \<Rightarrow> 'l cached_line" where
  "ss_line code s \<equiv> ss_mem s (lc_line code)"

definition cpu3_stores :: "'l line_code \<Rightarrow> ('l \<Rightarrow> 'l) \<Rightarrow> 'l snapshot_system \<Rightarrow> 'l snapshot_system" where
  "cpu3_stores code f s = s\<lparr>ss_mem := (ss_mem s)(lc_line code := cl_store Cpu3_core f (ss_line code s))\<rparr>"

inductive snapshot_step :: "'l line_code \<Rightarrow> 'l cache_api \<Rightarrow> 'l snapshot_system \<Rightarrow> 'l snapshot_system \<Rightarrow> bool" for code api where
  begin_write: "ss_writer s = W_idle \<Longrightarrow> lc_commit code x = next_seq (ss_commit s) \<Longrightarrow> lc_inv code x = NOT (lc_commit code x) \<Longrightarrow>
    lc_magic_ok code x \<Longrightarrow>
    snapshot_step code api s ((cpu3_stores code (lc_set_commit code 0) s)\<lparr>ss_commit := lc_commit code x, ss_writer := W_body (lc_stores code x) x\<rparr>)"
| body: "ss_writer s = W_body (f # fs) x \<Longrightarrow> snapshot_step code api s ((cpu3_stores code f s)\<lparr>ss_writer := W_body fs x\<rparr>)"
| commit: "ss_writer s = W_body [] x \<Longrightarrow>
    snapshot_step code api s ((cpu3_stores code (lc_set_commit code (lc_commit code x)) s)\<lparr>ss_writer := W_flush, ss_published := ss_published s @ [x]\<rparr>)"
| flush: "ss_writer s = W_flush \<Longrightarrow>
    snapshot_step code api s (s\<lparr>ss_mem := sys_cache_data_flush_range api (lc_line code * CACHE_LINE) CACHE_LINE (ss_mem s), ss_writer := W_idle\<rparr>)"
| begin_read: "ss_reader s \<in> {R_idle, R_done} \<Longrightarrow>
    snapshot_step code api s (s\<lparr>ss_mem := lzamp_dcache_invalidate api (lc_line code * CACHE_LINE) CACHE_LINE (ss_mem s), ss_reader := R_commit\<rparr>)"
| read_commit: "ss_reader s = R_commit \<Longrightarrow>
    snapshot_step code api s (s\<lparr>ss_first := lc_set_commit code (lc_commit code (cl_view Linux_core (ss_line code s))) (ss_first s), ss_reader := R_fields (lc_loads code)\<rparr>)"
| read_field: "ss_reader s = R_fields (f # fs) \<Longrightarrow>
    snapshot_step code api s (s\<lparr>ss_first := f (cl_view Linux_core (ss_line code s)) (ss_first s), ss_reader := R_fields fs\<rparr>)"
| read_again: "ss_reader s = R_fields [] \<Longrightarrow>
    snapshot_step code api s (s\<lparr>ss_mem := lzamp_dcache_invalidate api (lc_line code * CACHE_LINE) CACHE_LINE (ss_mem s), ss_reader := R_commit2\<rparr>)"
| read_commit2: "ss_reader s = R_commit2 \<Longrightarrow>
    snapshot_step code api s (s\<lparr>ss_second := lc_set_commit code (lc_commit code (cl_view Linux_core (ss_line code s))) (ss_second s), ss_reader := R_inv\<rparr>)"
| read_inv: "ss_reader s = R_inv \<Longrightarrow>
    snapshot_step code api s (s\<lparr>ss_second := lc_set_inv code (lc_inv code (cl_view Linux_core (ss_line code s))) (ss_second s), ss_reader := R_done\<rparr>)"
| hardware: "hw_step (ss_mem s) m \<Longrightarrow> snapshot_step code api s (s\<lparr>ss_mem := m\<rparr>)"

text \<open>The start: the zeroed page has been cleaned, the firmware has published nothing.\<close>

definition snapshot_start :: "'l line_code \<Rightarrow> 'l snapshot_system \<Rightarrow> bool" where
  "snapshot_start code s \<longleftrightarrow> lc_commit code (cl_poc (ss_line code s)) = 0 \<and> cl_copy (ss_line code s) Cpu3_core = None \<and>
     cl_copy (ss_line code s) Linux_core \<in> {None, Some (False, cl_poc (ss_line code s))} \<and>
     ss_commit s = 0 \<and> ss_writer s = W_idle \<and> ss_published s = [] \<and> ss_reader s = R_idle"

inductive snapshot_reachable :: "'l line_code \<Rightarrow> 'l cache_api \<Rightarrow> 'l snapshot_system \<Rightarrow> bool" for code api where
  start: "snapshot_start code s \<Longrightarrow> snapshot_reachable code api s"
| step: "snapshot_reachable code api s \<Longrightarrow> snapshot_step code api s s' \<Longrightarrow> snapshot_reachable code api s'"

subsection \<open>The argument\<close>

text \<open>
  Time is counted in phases: an even phase \<open>2 n\<close> is the one in which the line holds the
  \<open>n\<close>-th published content, the odd phase behind it the one in which the next is being stored.
\<close>

definition phase :: "'l snapshot_system \<Rightarrow> nat" where
  "phase s = 2 * length (ss_published s) + (case ss_writer s of W_body fs x \<Rightarrow> 1 | _ \<Rightarrow> 0)"

definition content_at :: "'l line_code \<Rightarrow> 'l list \<Rightarrow> nat \<Rightarrow> 'l \<Rightarrow> bool" where
  "content_at code pub q x \<longleftrightarrow> q \<le> 2 * length pub + 1 \<and> (if odd q \<or> q = 0 then lc_commit code x = 0 else x = pub ! (q div 2 - 1))"

lemma content_at_append: "content_at code pub q x \<Longrightarrow> content_at code (pub @ ys) q x"
  by (auto simp: content_at_def nth_append elim!: evenE)

lemma next_seq_power: "k < 2 ^ 32 \<Longrightarrow> (next_seq ^^ k) 0 = of_nat k"
proof (induction k)
  case (Suc k)
  have "(of_nat (Suc k) :: u32) \<noteq> 0" using Suc.prems by (auto simp: word_of_nat_eq_0_iff dest: dvd_imp_le simp del: of_nat_Suc)
  with Suc show ?case by (simp add: next_seq_def add.commute)
qed simp

text \<open>
  The copies of the line.  The view of CPU3 is the content of the present phase; the content at
  the point of coherency is of phase \<open>qp\<close>, the present one unless the copy of CPU3 is dirty;
  what Linux sees is of phase \<open>qr\<close>, and its copy is never dirty.
\<close>

definition copies_ok :: "'l line_code \<Rightarrow> 'l list \<Rightarrow> nat \<Rightarrow> 'l cached_line \<Rightarrow> nat \<Rightarrow> nat \<Rightarrow> bool" where
  "copies_ok code pub ph l qp qr \<longleftrightarrow> content_at code pub ph (cl_view Cpu3_core l) \<and> content_at code pub qp (cl_poc l) \<and>
     content_at code pub qr (cl_view Linux_core l) \<and> qr \<le> qp \<and> qp \<le> ph \<and>
     (case cl_copy l Cpu3_core of Some (True, x) \<Rightarrow> True | _ \<Rightarrow> qp = ph \<and> cl_view Cpu3_core l = cl_poc l) \<and>
     (case cl_copy l Linux_core of None \<Rightarrow> qr = qp | Some (dirty, x) \<Rightarrow> \<not> dirty)"

lemmas copy_splits = option.splits prod.splits bool.splits

lemma copies_fill: "copies_ok code pub ph l qp qr \<Longrightarrow> copies_ok code pub ph (cl_fill c l) qp qr"
  by (cases c) (auto simp: copies_ok_def line_defs split: copy_splits)

lemma copies_clean:
  assumes "copies_ok code pub ph l qp qr"
  shows "\<exists>qp' qr'. qr \<le> qr' \<and> copies_ok code pub ph (cl_clean c l) qp' qr' \<and> (\<forall>x. c = Cpu3_core \<longrightarrow> cl_copy (cl_clean c l) c \<noteq> Some (True, x))"
proof (cases "\<exists>x. c = Cpu3_core \<and> cl_copy l Cpu3_core = Some (True, x)")
  case True
  then obtain x where x: "c = Cpu3_core" "cl_copy l Cpu3_core = Some (True, x)" by blast
  let ?qr = "if cl_copy l Linux_core = None then ph else qr"
  have "copies_ok code pub ph (cl_clean c l) ph ?qr \<and> qr \<le> ?qr"
    using assms x by (auto simp: copies_ok_def line_defs split: copy_splits)
  then show ?thesis using x by (intro exI [of _ ph] exI [of _ ?qr]) (simp add: cl_clean_def)
next
  case False
  then have "cl_clean c l = l" using assms by (cases c) (auto simp: copies_ok_def cl_clean_def split: copy_splits)
  then show ?thesis using False assms by (intro exI [of _ qp] exI [of _ qr]) auto
qed

lemma copies_drop:
  assumes "copies_ok code pub ph l qp qr" and "\<And>x. c = Cpu3_core \<Longrightarrow> cl_copy l c \<noteq> Some (True, x)"
  shows "\<exists>qp' qr'. qr \<le> qr' \<and> copies_ok code pub ph (cl_drop c l) qp' qr'"
proof (cases c)
  case Linux_core
  then have "copies_ok code pub ph (cl_drop c l) qp qp" "qr \<le> qp" using assms(1) by (auto simp: copies_ok_def line_defs split: copy_splits)
  then show ?thesis by blast
next
  case Cpu3_core
  then have "copies_ok code pub ph (cl_drop c l) qp qr" using assms by (auto simp: copies_ok_def line_defs split: copy_splits)
  then show ?thesis by blast
qed

lemma copies_hardware:
  assumes "copies_ok code pub ph (m k) qp qr" and "hw_step m m'"
  shows "\<exists>qp' qr'. qr \<le> qr' \<and> copies_ok code pub ph (m' k) qp' qr'"
  using assms(2)
proof cases
  case (fill l c)
  then show ?thesis using assms(1) copies_fill by fastforce
next
  case (write_back l c)
  then show ?thesis using assms(1) copies_clean [OF assms(1), of c] by fastforce
next
  case (evict l c)
  show ?thesis
  proof (cases "l = k")
    case True
    obtain qp1 qr1 where 1: "qr \<le> qr1" "copies_ok code pub ph (cl_clean c (m k)) qp1 qr1"
      "\<And>x. c = Cpu3_core \<Longrightarrow> cl_copy (cl_clean c (m k)) c \<noteq> Some (True, x)" using copies_clean [OF assms(1), of c] by blast
    obtain qp2 qr2 where "qr1 \<le> qr2" "copies_ok code pub ph (cl_drop c (cl_clean c (m k))) qp2 qr2"
      using copies_drop [OF 1(2), of c] 1(3) by blast
    with 1(1) evict True show ?thesis by (intro exI [of _ qp2] exI [of _ qr2]) simp
  qed (use assms(1) evict in auto)
qed

lemma copies_store:
  assumes "copies_ok code pub ph l qp qr" and "content_at code (pub @ ys) ph' (f (cl_view Cpu3_core l))" and "ph \<le> ph'"
  shows "copies_ok code (pub @ ys) ph' (cl_store Cpu3_core f l) qp qr"
  using assms content_at_append [of code pub _ _ ys] by (auto simp: copies_ok_def line_defs split: copy_splits)

definition writer_ok :: "'l line_code \<Rightarrow> 'l snapshot_system \<Rightarrow> bool" where
  "writer_ok code s \<longleftrightarrow> ss_commit s = (next_seq ^^ (length (ss_published s) + (case ss_writer s of W_body fs x \<Rightarrow> 1 | _ \<Rightarrow> 0))) 0 \<and>
     (\<forall>n < length (ss_published s). lc_commit code (ss_published s ! n) = (next_seq ^^ Suc n) 0 \<and>
        lc_inv code (ss_published s ! n) = NOT (lc_commit code (ss_published s ! n))) \<and>
     (case ss_writer s of W_body fs x \<Rightarrow> lc_commit code x = ss_commit s \<and> lc_inv code x = NOT (lc_commit code x) \<and>
        lc_set_commit code (lc_commit code x) (fold (\<lambda>f. f) fs (cl_view Cpu3_core (ss_line code s))) = x \<and>
        lc_commit code (cl_view Cpu3_core (ss_line code s)) = 0 \<and> (\<forall>f \<in> set fs. \<forall>l. lc_commit code (f l) = lc_commit code l)
      | _ \<Rightarrow> True)"

text \<open>
  The reader has seen a commit word in phase \<open>2 (n + 1)\<close> and nothing later than \<open>lo\<close>; as long as
  this is the same phase, the loads to come complete the \<open>n\<close>-th content.
\<close>

definition reads_from :: "'l line_code \<Rightarrow> 'l snapshot_system \<Rightarrow> nat \<Rightarrow> ('l \<Rightarrow> 'l \<Rightarrow> 'l) list \<Rightarrow> bool" where
  "reads_from code s lo fs \<longleftrightarrow> (\<forall>f \<in> set fs. \<forall>x r. lc_commit code (f x r) = lc_commit code r) \<and>
     (lc_commit code (ss_first s) \<noteq> 0 \<longrightarrow> (\<exists>n < length (ss_published s). 2 * Suc n \<le> lo \<and>
        lc_commit code (ss_published s ! n) = lc_commit code (ss_first s) \<and>
        (lo = 2 * Suc n \<longrightarrow>
         lc_set_inv code (lc_inv code (ss_published s ! n)) (fold (\<lambda>f. f (ss_published s ! n)) fs (ss_first s)) = ss_published s ! n)))"

definition reader_ok :: "'l line_code \<Rightarrow> 'l snapshot_system \<Rightarrow> nat \<Rightarrow> bool" where
  "reader_ok code s lo \<longleftrightarrow> (case ss_reader s of R_fields fs \<Rightarrow> reads_from code s lo fs | R_commit2 \<Rightarrow> reads_from code s lo [] |
     pc \<Rightarrow> pc \<in> {R_inv, R_done} \<longrightarrow> lc_commit code (ss_first s) \<noteq> 0 \<longrightarrow> lc_commit code (ss_second s) = lc_commit code (ss_first s) \<longrightarrow>
       (\<exists>x \<in> set (ss_published s). lc_commit code x = lc_commit code (ss_first s) \<and> lc_set_inv code (lc_inv code x) (ss_first s) = x))"

definition snapshot_inv :: "'l line_code \<Rightarrow> 'l snapshot_system \<Rightarrow> bool" where
  "snapshot_inv code s \<longleftrightarrow> writer_ok code s \<and> (\<exists>qp qr lo. copies_ok code (ss_published s) (phase s) (ss_line code s) qp qr \<and> lo \<le> qr \<and>
     (length (ss_published s) < 2 ^ 32 \<longrightarrow> reader_ok code s lo))"

lemma len32: "LENGTH(32) = 32"
  by simp

lemma published_commit:
  assumes "writer_ok code s" and "length (ss_published s) < 2 ^ 32" and "n < length (ss_published s)"
  shows "lc_commit code (ss_published s ! n) = of_nat (Suc n)" "lc_commit code (ss_published s ! n) \<noteq> 0"
proof -
  have "Suc n < 2 ^ 32" using assms(2,3) by simp
  moreover from this have "(of_nat (Suc n) :: u32) \<noteq> 0" by (auto simp: word_of_nat_eq_0_iff dest: dvd_imp_le simp del: of_nat_Suc)
  ultimately show "lc_commit code (ss_published s ! n) = of_nat (Suc n)" "lc_commit code (ss_published s ! n) \<noteq> 0"
    using assms next_seq_power [of "Suc n"] by (simp_all add: writer_ok_def)
qed

text \<open>A content with a commit word is the one of its phase.\<close>

lemma committed_content:
  assumes "writer_ok code s" and "length (ss_published s) < 2 ^ 32" and "content_at code (ss_published s) q x" and "lc_commit code x \<noteq> 0"
  obtains n where "n < length (ss_published s)" "q = 2 * Suc n" "x = ss_published s ! n" "lc_commit code x = of_nat (Suc n)"
proof -
  have q: "even q" "q \<noteq> 0" "x = ss_published s ! (q div 2 - 1)" "q \<le> 2 * length (ss_published s) + 1" using assms(3,4) by (auto simp: content_at_def split: if_split_asm)
  define n where "n = q div 2 - 1"
  have n: "q = 2 * Suc n" "n < length (ss_published s)" "x = ss_published s ! n" using q by (auto simp: n_def elim!: evenE)
  show thesis by (rule that [OF n(2,1,3)]) (simp only: n(3) published_commit(1) [OF assms(1,2) n(2)])
qed

lemma same_commit_same_phase:
  assumes "length (ss_published s) < 2 ^ 32" and "n < length (ss_published s)" and "k < length (ss_published s)" and "(of_nat (Suc n) :: u32) = of_nat (Suc k)"
  shows "n = k"
proof -
  have "Suc n < 2 ^ 32" "Suc k < 2 ^ 32" using assms(1-3) by simp_all
  then have "unat (of_nat (Suc n) :: u32) = Suc n" "unat (of_nat (Suc k) :: u32) = Suc k"
    by (simp_all only: unat_of_nat len32 mod_less)
  then show ?thesis using assms(4) by (metis nat.inject)
qed

subsection \<open>The invariant\<close>

locale snapshot_code =
  fixes code :: "'l line_code"
  assumes commit_set: "lc_commit code (lc_set_commit code c x) = c"
    and inv_set: "lc_inv code (lc_set_inv code c x) = c"
    and commit_set_inv: "lc_commit code (lc_set_inv code c x) = lc_commit code x"
    and stores_commit: "f \<in> set (lc_stores code x) \<Longrightarrow> lc_commit code (f l) = lc_commit code l"
    and stores_all: "lc_magic_ok code x \<Longrightarrow> lc_inv code x = NOT (lc_commit code x) \<Longrightarrow>
      lc_set_commit code (lc_commit code x) (fold (\<lambda>f. f) (lc_stores code x) (lc_set_commit code 0 l)) = x"
    and loads_commit: "g \<in> set (lc_loads code) \<Longrightarrow> lc_commit code (g x r) = lc_commit code r"
    and loads_all: "lc_set_inv code (lc_inv code x) (fold (\<lambda>f. f x) (lc_loads code) (lc_set_commit code (lc_commit code x) r)) = x"
begin

lemma view_store: "cl_view Cpu3_core (cl_store Cpu3_core f l) = f (cl_view Cpu3_core l)"
  by (simp add: cl_view_def cl_store_def)

lemma snapshot_start_inv: "snapshot_start code s \<Longrightarrow> snapshot_inv code s"
  unfolding snapshot_inv_def
  by (intro conjI exI [of _ 0])
     (auto simp: snapshot_start_def writer_ok_def copies_ok_def content_at_def phase_def reader_ok_def cl_view_def)

text \<open>What the writer does to the line leaves the reader alone.\<close>

lemma reader_ok_published:
  assumes "reader_ok code s lo" and "ss_reader s' = ss_reader s" and "ss_first s' = ss_first s" and "ss_second s' = ss_second s"
    and "ss_published s' = ss_published s @ ys" and "ss_commit s' = c"
  shows "reader_ok code s' lo"
proof -
  have "reads_from code s' lo fs" if "reads_from code s lo fs" for fs
    using that assms(3,5) unfolding reads_from_def by (auto simp: nth_append)
  then show ?thesis using assms(1-5) by (auto simp: reader_ok_def split: reader_pc.splits)
qed

text \<open>A change of the copies only; the reader may move to another instruction.\<close>

lemma copies_change:
  assumes "snapshot_inv code s" and "ss_published s' = ss_published s" and "phase s' = phase s" and "writer_ok code s'"
    and "\<And>qp qr. copies_ok code (ss_published s) (phase s) (ss_line code s) qp qr \<Longrightarrow>
      \<exists>qp' qr'. qr \<le> qr' \<and> copies_ok code (ss_published s) (phase s) (ss_line code s') qp' qr'"
    and "\<And>lo. reader_ok code s lo \<Longrightarrow> reader_ok code s' lo"
  shows "snapshot_inv code s'"
proof -
  obtain qp qr lo where i: "copies_ok code (ss_published s) (phase s) (ss_line code s) qp qr" "lo \<le> qr"
    "length (ss_published s) < 2 ^ 32 \<longrightarrow> reader_ok code s lo" using assms(1) by (auto simp: snapshot_inv_def)
  from assms(5) [OF i(1)] obtain qp' qr' where q: "qr \<le> qr'" "copies_ok code (ss_published s) (phase s) (ss_line code s') qp' qr'" by blast
  show ?thesis unfolding snapshot_inv_def
    by (intro conjI assms(4) exI [of _ qp'] exI [of _ qr'] exI [of _ lo]) (use i q assms(2,3,6) in simp_all)
qed

text \<open>A load: what it sees is the content of a phase that is not before the last one seen.\<close>

lemma load_inv:
  assumes "snapshot_inv code s" and "ss_published s' = ss_published s" and "phase s' = phase s" and "writer_ok code s'" and "ss_mem s' = ss_mem s"
    and "\<And>lo q. length (ss_published s) < 2 ^ 32 \<Longrightarrow> reader_ok code s lo \<Longrightarrow> lo \<le> q \<Longrightarrow>
      content_at code (ss_published s) q (cl_view Linux_core (ss_line code s)) \<Longrightarrow> reader_ok code s' q"
  shows "snapshot_inv code s'"
proof -
  obtain qp qr lo where i: "copies_ok code (ss_published s) (phase s) (ss_line code s) qp qr" "lo \<le> qr"
    "length (ss_published s) < 2 ^ 32 \<longrightarrow> reader_ok code s lo" using assms(1) by (auto simp: snapshot_inv_def)
  have "content_at code (ss_published s) qr (cl_view Linux_core (ss_line code s))" using i(1) by (simp add: copies_ok_def)
  then show ?thesis unfolding snapshot_inv_def
    by (intro conjI assms(4) exI [of _ qp] exI [of _ qr]) (use i assms(2,3,5,6) in auto)
qed

text \<open>A store of CPU3.\<close>

lemma store_inv:
  assumes "snapshot_inv code s" and "ss_published s' = ss_published s @ ys" and "phase s \<le> phase s'" and "writer_ok code s'"
    and "ss_line code s' = cl_store Cpu3_core f (ss_line code s)"
    and "content_at code (ss_published s @ ys) (phase s') (f (cl_view Cpu3_core (ss_line code s)))"
    and "ss_reader s' = ss_reader s" and "ss_first s' = ss_first s" and "ss_second s' = ss_second s"
  shows "snapshot_inv code s'"
proof -
  obtain qp qr lo where i: "copies_ok code (ss_published s) (phase s) (ss_line code s) qp qr" "lo \<le> qr"
    "length (ss_published s) < 2 ^ 32 \<longrightarrow> reader_ok code s lo" using assms(1) by (auto simp: snapshot_inv_def)
  have "copies_ok code (ss_published s') (phase s') (ss_line code s') qp qr"
    unfolding assms(2,5) by (rule copies_store [of code "ss_published s" "phase s"]) (use i(1) assms(3,6) in simp_all)
  moreover have "length (ss_published s') < 2 ^ 32 \<longrightarrow> reader_ok code s' lo"
    using i(3) reader_ok_published [of s lo s' ys] assms(2,7-9) by auto
  ultimately show ?thesis unfolding snapshot_inv_def using assms(4) i(2) by blast
qed

lemma writer_ok_view:
  assumes "writer_ok code s" and "ss_writer s' = ss_writer s" and "ss_commit s' = ss_commit s" and "ss_published s' = ss_published s"
    and "cl_view Cpu3_core (ss_line code s') = cl_view Cpu3_core (ss_line code s)"
  shows "writer_ok code s'"
  using assms(1) unfolding writer_ok_def assms(2-5) .

lemma phase_same: "ss_writer s' = ss_writer s \<Longrightarrow> ss_published s' = ss_published s \<Longrightarrow> phase s' = phase s"
  by (simp add: phase_def)

lemma view_hardware:
  assumes "copies_ok code pub ph (m k) qp qr" and "hw_step m m'"
  shows "cl_view Cpu3_core (m' k) = cl_view Cpu3_core (m k)"
  using assms(2)
proof cases
  case (fill l c)
  then show ?thesis using assms(1) by (cases c) (auto simp: copies_ok_def line_defs split: copy_splits)
next
  case (write_back l c)
  then show ?thesis using assms(1) by (cases c) (auto simp: copies_ok_def line_defs split: copy_splits)
next
  case (evict l c)
  then show ?thesis using assms(1) by (cases c) (auto simp: copies_ok_def line_defs split: copy_splits)
qed

lemma writer_step_inv:
  assumes hw: "cache_calls api" and inv: "snapshot_inv code s"
  shows "ss_writer s = W_idle \<Longrightarrow> lc_commit code x = next_seq (ss_commit s) \<Longrightarrow> lc_inv code x = NOT (lc_commit code x) \<Longrightarrow> lc_magic_ok code x \<Longrightarrow>
      snapshot_inv code ((cpu3_stores code (lc_set_commit code 0) s)\<lparr>ss_commit := lc_commit code x, ss_writer := W_body (lc_stores code x) x\<rparr>)"
    "ss_writer s = W_body (f # fs) x \<Longrightarrow> snapshot_inv code ((cpu3_stores code f s)\<lparr>ss_writer := W_body fs x\<rparr>)"
    "ss_writer s = W_body [] x \<Longrightarrow>
      snapshot_inv code ((cpu3_stores code (lc_set_commit code (lc_commit code x)) s)\<lparr>ss_writer := W_flush, ss_published := ss_published s @ [x]\<rparr>)"
proof -
  have w: "writer_ok code s" using inv by (simp add: snapshot_inv_def)
  note store = store_inv [OF inv] and defs = cpu3_stores_def phase_def content_at_def writer_ok_def view_store commit_set
  show "snapshot_inv code ((cpu3_stores code (lc_set_commit code 0) s)\<lparr>ss_commit := lc_commit code x, ss_writer := W_body (lc_stores code x) x\<rparr>)"
    if "ss_writer s = W_idle" "lc_commit code x = next_seq (ss_commit s)" "lc_inv code x = NOT (lc_commit code x)" "lc_magic_ok code x"
    by (rule store [of _ "[]" "lc_set_commit code 0"]) (use that w stores_all [OF that(4,3)] stores_commit in \<open>simp_all add: defs\<close>)
  show "snapshot_inv code ((cpu3_stores code f s)\<lparr>ss_writer := W_body fs x\<rparr>)" if "ss_writer s = W_body (f # fs) x"
    by (rule store [of _ "[]" f]) (use that w in \<open>auto simp: defs\<close>)
  show "snapshot_inv code ((cpu3_stores code (lc_set_commit code (lc_commit code x)) s)\<lparr>ss_writer := W_flush, ss_published := ss_published s @ [x]\<rparr>)"
    if "ss_writer s = W_body [] x"
    by (rule store [of _ "[x]" "lc_set_commit code (lc_commit code x)"]) (use that w in \<open>auto simp: defs nth_append less_Suc_eq\<close>)
qed

lemma read_commit_inv:
  assumes inv: "snapshot_inv code s" and that: "ss_reader s = R_commit"
  shows "snapshot_inv code (s\<lparr>ss_first := lc_set_commit code (lc_commit code (cl_view Linux_core (ss_line code s))) (ss_first s), ss_reader := R_fields (lc_loads code)\<rparr>)"
proof -
  have w: "writer_ok code s" using inv by (simp add: snapshot_inv_def)
  note load = load_inv [OF inv _ phase_same writer_ok_view [OF w]] and com = committed_content [OF w] and pub = published_commit [OF w]
  show ?thesis
  proof (rule load, simp_all)
    fix q assume q: "length (ss_published s) < 4294967296" "content_at code (ss_published s) q (cl_view Linux_core (ss_line code s))"
    let ?c = "lc_commit code (cl_view Linux_core (ss_line code s))"
    show "reader_ok code (s\<lparr>ss_first := lc_set_commit code ?c (ss_first s), ss_reader := R_fields (lc_loads code)\<rparr>) q"
    proof (cases "?c = 0")
      case False
      then obtain n where "n < length (ss_published s)" "q = 2 * Suc n" "cl_view Linux_core (ss_line code s) = ss_published s ! n"
        using com [OF _ q(2)] q(1) by auto
      then show ?thesis using loads_all loads_commit by (auto simp: reader_ok_def reads_from_def commit_set)
    qed (auto simp: reader_ok_def reads_from_def commit_set loads_commit)
  qed
qed

lemma read_field_inv:
  assumes inv: "snapshot_inv code s" and that: "ss_reader s = R_fields (g # gs)"
  shows "snapshot_inv code (s\<lparr>ss_first := g (cl_view Linux_core (ss_line code s)) (ss_first s), ss_reader := R_fields gs\<rparr>)"
proof -
  have w: "writer_ok code s" using inv by (simp add: snapshot_inv_def)
  note load = load_inv [OF inv _ phase_same writer_ok_view [OF w]] and com = committed_content [OF w] and pub = published_commit [OF w]
  show ?thesis
  proof (rule load, simp_all)
    fix lo q assume q: "length (ss_published s) < 4294967296" "reader_ok code s lo" "lo \<le> q" "content_at code (ss_published s) q (cl_view Linux_core (ss_line code s))"
    have r: "reads_from code s lo (g # gs)" using q(2) that by (simp add: reader_ok_def)
    have keep: "lc_commit code (g x (ss_first s)) = lc_commit code (ss_first s)" for x using r by (simp add: reads_from_def)
    let ?s = "s\<lparr>ss_first := g (cl_view Linux_core (ss_line code s)) (ss_first s), ss_reader := R_fields gs\<rparr>"
    have "reads_from code ?s q gs"
    proof (cases "lc_commit code (ss_first s) = 0")
      case False
      then obtain n where n: "n < length (ss_published s)" "2 * Suc n \<le> lo" "lc_commit code (ss_published s ! n) = lc_commit code (ss_first s)"
        "lo = 2 * Suc n \<Longrightarrow> lc_set_inv code (lc_inv code (ss_published s ! n)) (fold (\<lambda>f. f (ss_published s ! n)) (g # gs) (ss_first s)) = ss_published s ! n"
        using r by (auto simp: reads_from_def)
      have "cl_view Linux_core (ss_line code s) = ss_published s ! n \<and> lo = 2 * Suc n" if "q = 2 * Suc n"
        using q(3,4) that n(2) by (simp add: content_at_def)
      with n keep q(3) r show ?thesis by (auto simp: reads_from_def intro!: exI [of _ n])
    qed (use r keep in \<open>auto simp: reads_from_def\<close>)
    then show "reader_ok code ?s q" by (simp add: reader_ok_def)
  qed
qed

lemma read_commit2_inv:
  assumes inv: "snapshot_inv code s" and that: "ss_reader s = R_commit2"
  shows "snapshot_inv code (s\<lparr>ss_second := lc_set_commit code (lc_commit code (cl_view Linux_core (ss_line code s))) (ss_second s), ss_reader := R_inv\<rparr>)"
proof -
  have w: "writer_ok code s" using inv by (simp add: snapshot_inv_def)
  note load = load_inv [OF inv _ phase_same writer_ok_view [OF w]] and com = committed_content [OF w] and pub = published_commit [OF w]
  show ?thesis
  proof (rule load, simp_all)
    fix lo q assume q: "length (ss_published s) < 4294967296" "reader_ok code s lo" "lo \<le> q" "content_at code (ss_published s) q (cl_view Linux_core (ss_line code s))"
    have r: "reads_from code s lo []" using q(2) that by (simp add: reader_ok_def)
    let ?c = "lc_commit code (cl_view Linux_core (ss_line code s))"
    have "\<exists>x \<in> set (ss_published s). lc_commit code x = lc_commit code (ss_first s) \<and> lc_set_inv code (lc_inv code x) (ss_first s) = x"
      if c: "lc_commit code (ss_first s) \<noteq> 0" "?c = lc_commit code (ss_first s)"
    proof -
      obtain n where n: "n < length (ss_published s)" "2 * Suc n \<le> lo" "lc_commit code (ss_published s ! n) = lc_commit code (ss_first s)"
        "lo = 2 * Suc n \<Longrightarrow> lc_set_inv code (lc_inv code (ss_published s ! n)) (ss_first s) = ss_published s ! n"
        using r c(1) by (auto simp: reads_from_def)
      obtain k where k: "k < length (ss_published s)" "q = 2 * Suc k" "?c = of_nat (Suc k)"
        by (rule com [OF _ q(4)]) (use q(1) c in simp, use c in simp, rule that)
      have "(of_nat (Suc n) :: u32) = of_nat (Suc k)" using pub(1) [OF _ n(1)] q(1) n(3) k(3) c(2) by simp
      then have "n = k" using same_commit_same_phase [of s n k] q(1) n(1) k(1) by simp
      with n k(2) q(3) have "lo = 2 * Suc n" by simp
      with n show ?thesis by (auto intro: bexI [OF _ nth_mem])
    qed
    then show "reader_ok code (s\<lparr>ss_second := lc_set_commit code ?c (ss_second s), ss_reader := R_inv\<rparr>) q"
      by (simp add: reader_ok_def commit_set)
  qed
qed

lemma read_inv_inv:
  assumes inv: "snapshot_inv code s" and that: "ss_reader s = R_inv"
  shows "snapshot_inv code (s\<lparr>ss_second := lc_set_inv code (lc_inv code (cl_view Linux_core (ss_line code s))) (ss_second s), ss_reader := R_done\<rparr>)"
proof -
  have w: "writer_ok code s" using inv by (simp add: snapshot_inv_def)
  note load = load_inv [OF inv _ phase_same writer_ok_view [OF w]] and com = committed_content [OF w] and pub = published_commit [OF w]
  show ?thesis
    by (rule load) (use that in \<open>simp_all add: reader_ok_def commit_set_inv\<close>)
qed

lemma flush_inv:
  assumes "snapshot_inv code s" and "ss_writer s = W_flush"
  shows "snapshot_inv code (s\<lparr>ss_mem := (ss_mem s)(lc_line code := cl_clean Cpu3_core (ss_line code s)), ss_writer := W_idle\<rparr>)"
proof (rule copies_change [OF assms(1)])
  show "writer_ok code (s\<lparr>ss_mem := (ss_mem s)(lc_line code := cl_clean Cpu3_core (ss_line code s)), ss_writer := W_idle\<rparr>)"
    using assms by (simp add: snapshot_inv_def writer_ok_def)
  show "reader_ok code (s\<lparr>ss_mem := (ss_mem s)(lc_line code := cl_clean Cpu3_core (ss_line code s)), ss_writer := W_idle\<rparr>) lo"
    if "reader_ok code s lo" for lo using reader_ok_published [OF that, of _ "[]"] by simp
  show "\<exists>qp' qr'. qr \<le> qr' \<and> copies_ok code (ss_published s) (phase s)
      (ss_line code (s\<lparr>ss_mem := (ss_mem s)(lc_line code := cl_clean Cpu3_core (ss_line code s)), ss_writer := W_idle\<rparr>)) qp' qr'"
    if "copies_ok code (ss_published s) (phase s) (ss_line code s) qp qr" for qp qr using copies_clean [OF that, of Cpu3_core] by auto
qed (use assms(2) in \<open>simp_all add: phase_def\<close>)

lemma invalidate_inv:
  assumes "snapshot_inv code s" and "\<And>lo. reader_ok code s lo \<Longrightarrow> reader_ok code (s\<lparr>ss_reader := pc\<rparr>) lo"
  shows "snapshot_inv code (s\<lparr>ss_mem := (ss_mem s)(lc_line code := cl_drop Linux_core (ss_line code s)), ss_reader := pc\<rparr>)"
proof (rule copies_change [OF assms(1)])
  have w: "writer_ok code s" using assms(1) by (simp add: snapshot_inv_def)
  show "writer_ok code (s\<lparr>ss_mem := (ss_mem s)(lc_line code := cl_drop Linux_core (ss_line code s)), ss_reader := pc\<rparr>)"
    by (rule writer_ok_view [OF w]) (simp_all add: cl_view_def cl_drop_def split: option.split)
  show "reader_ok code (s\<lparr>ss_mem := (ss_mem s)(lc_line code := cl_drop Linux_core (ss_line code s)), ss_reader := pc\<rparr>) lo"
    if "reader_ok code s lo" for lo using reader_ok_published [OF assms(2) [OF that], of _ "[]"] by simp
qed (use copies_drop [of code _ _ _ _ _ Linux_core] in \<open>auto simp: phase_def\<close>)

lemma hardware_inv:
  assumes "snapshot_inv code s" and "hw_step (ss_mem s) m"
  shows "snapshot_inv code (s\<lparr>ss_mem := m\<rparr>)"
proof (rule copies_change [OF assms(1)])
  have w: "writer_ok code s" using assms(1) by (simp add: snapshot_inv_def)
  obtain qp qr where "copies_ok code (ss_published s) (phase s) (ss_line code s) qp qr" using assms(1) by (auto simp: snapshot_inv_def)
  from view_hardware [OF this assms(2)] show "writer_ok code (s\<lparr>ss_mem := m\<rparr>)" by (intro writer_ok_view [OF w]) simp_all
  show "reader_ok code (s\<lparr>ss_mem := m\<rparr>) lo" if "reader_ok code s lo" for lo using reader_ok_published [OF that, of _ "[]"] by simp
qed (use copies_hardware [OF _ assms(2)] in \<open>auto simp: phase_def\<close>)

lemma snapshot_step_inv:
  assumes "cache_calls api" and "snapshot_inv code s" and "snapshot_step code api s s'"
  shows "snapshot_inv code s'"
  using assms(3)
proof cases
  case flush
  then show ?thesis using flush_inv [OF assms(2)] by (simp add: cache_calls.line_hooks [OF assms(1)])
next
  case begin_read
  have "snapshot_inv code (s\<lparr>ss_mem := (ss_mem s)(lc_line code := cl_drop Linux_core (ss_line code s)), ss_reader := R_commit\<rparr>)"
    by (rule invalidate_inv [OF assms(2)]) (simp add: reader_ok_def)
  with begin_read show ?thesis by (simp add: cache_calls.line_hooks [OF assms(1)])
next
  case read_again
  have "snapshot_inv code (s\<lparr>ss_mem := (ss_mem s)(lc_line code := cl_drop Linux_core (ss_line code s)), ss_reader := R_commit2\<rparr>)"
    by (rule invalidate_inv [OF assms(2)]) (simp add: read_again reader_ok_def reads_from_def)
  with read_again show ?thesis by (simp add: cache_calls.line_hooks [OF assms(1)])
qed (use writer_step_inv [OF assms(1,2)] read_commit_inv [OF assms(2)] read_field_inv [OF assms(2)] read_commit2_inv [OF assms(2)] read_inv_inv [OF assms(2)] hardware_inv [OF assms(2)] in blast)+

lemma snapshot_reachable_inv:
  assumes "cache_calls api"
  shows "snapshot_reachable code api s \<Longrightarrow> snapshot_inv code s"
  by (induction rule: snapshot_reachable.induct) (use snapshot_start_inv snapshot_step_inv [OF assms] in blast)+

text \<open>What a completed reading accepts has been published, as it is.\<close>

lemma accepted_is_published:
  assumes "cache_calls api" and "snapshot_reachable code api s" and "ss_reader s = R_done" and "length (ss_published s) < 2 ^ 32"
    and "lc_commit code (ss_first s) \<noteq> 0" and "lc_commit code (ss_second s) = lc_commit code (ss_first s)"
    and "lc_inv code (ss_second s) = NOT (lc_commit code (ss_second s))"
  shows "lc_set_inv code (lc_inv code (ss_second s)) (ss_first s) \<in> set (ss_published s)"
proof -
  have i: "snapshot_inv code s" by (rule snapshot_reachable_inv [OF assms(1,2)])
  then obtain lo where "reader_ok code s lo" using assms(4) by (auto simp: snapshot_inv_def)
  then obtain x where x: "x \<in> set (ss_published s)" "lc_commit code x = lc_commit code (ss_first s)" "lc_set_inv code (lc_inv code x) (ss_first s) = x"
    using assms(3,5,6) by (auto simp: reader_ok_def)
  have "lc_inv code x = NOT (lc_commit code x)" using i x(1) by (auto simp: snapshot_inv_def writer_ok_def in_set_conv_nth)
  then show ?thesis using x assms(6,7) by simp
qed

text \<open>Undisturbed, a publication is completed, and a reading behind it accepts it.\<close>

lemma write_body:
  "snapshot_reachable code api s \<Longrightarrow> ss_writer s = W_body fs x \<Longrightarrow> \<exists>m. snapshot_reachable code api (s\<lparr>ss_mem := m, ss_writer := W_body [] x\<rparr>)"
proof (induction fs arbitrary: s)
  case Nil
  have "s\<lparr>ss_mem := ss_mem s, ss_writer := W_body [] x\<rparr> = s" using Nil(2) by (cases s) simp
  then have "snapshot_reachable code api (s\<lparr>ss_mem := ss_mem s, ss_writer := W_body [] x\<rparr>)" by (simp only: Nil(1))
  then show ?case by blast
next
  case (Cons f fs)
  let ?s = "(cpu3_stores code f s)\<lparr>ss_writer := W_body fs x\<rparr>"
  have "snapshot_reachable code api ?s" by (rule snapshot_reachable.step [OF Cons(2) snapshot_step.body]) (rule Cons(3))
  from Cons(1) [OF this] show ?case by (simp add: cpu3_stores_def)
qed

lemma read_fields:
  "snapshot_reachable code api s \<Longrightarrow> ss_reader s = R_fields gs \<Longrightarrow>
   snapshot_reachable code api (s\<lparr>ss_first := fold (\<lambda>f. f (cl_view Linux_core (ss_line code s))) gs (ss_first s), ss_reader := R_fields []\<rparr>)"
proof (induction gs arbitrary: s)
  case Nil
  have "s\<lparr>ss_first := ss_first s, ss_reader := R_fields []\<rparr> = s" using Nil(2) by (cases s) simp
  then show ?case by (simp only: Nil(1) fold.simps id_apply)
next
  case (Cons g gs)
  let ?s = "s\<lparr>ss_first := g (cl_view Linux_core (ss_line code s)) (ss_first s), ss_reader := R_fields gs\<rparr>"
  have "snapshot_reachable code api ?s" by (rule snapshot_reachable.step [OF Cons(2) snapshot_step.read_field]) (rule Cons(3))
  from Cons(1) [OF this] show ?case by simp
qed

lemma publishes:
  assumes "cache_calls api" and "snapshot_reachable code api s" and "ss_writer s = W_idle" and "lc_commit code x = next_seq (ss_commit s)"
    and "lc_inv code x = NOT (lc_commit code x)" and "lc_magic_ok code x"
  obtains s' where "snapshot_reachable code api s'" "ss_published s' = ss_published s @ [x]" "ss_writer s' = W_idle" "cl_poc (ss_line code s') = x"
    "ss_reader s' = ss_reader s"
proof -
  note go = snapshot_reachable.step
  let ?s = "(cpu3_stores code (lc_set_commit code 0) s)\<lparr>ss_commit := lc_commit code x, ss_writer := W_body (lc_stores code x) x\<rparr>"
  have "snapshot_reachable code api ?s" by (rule go [OF assms(2) snapshot_step.begin_write]) (use assms(3-6) in simp_all)
  from write_body [OF this] obtain m where 1: "snapshot_reachable code api (?s\<lparr>ss_mem := m, ss_writer := W_body [] x\<rparr>)" (is "snapshot_reachable _ _ ?t") by auto
  let ?u = "(cpu3_stores code (lc_set_commit code (lc_commit code x)) ?t)\<lparr>ss_writer := W_flush, ss_published := ss_published ?t @ [x]\<rparr>"
  have 2: "snapshot_reachable code api ?u" by (rule go [OF 1 snapshot_step.commit]) simp
  let ?v = "?u\<lparr>ss_mem := sys_cache_data_flush_range api (lc_line code * CACHE_LINE) CACHE_LINE (ss_mem ?u), ss_writer := W_idle\<rparr>"
  have 3: "snapshot_reachable code api ?v" by (rule go [OF 2 snapshot_step.flush]) simp
  obtain qp qr where "copies_ok code (ss_published ?v) (phase ?v) (ss_line code ?v) qp qr"
    using snapshot_reachable_inv [OF assms(1) 3] unfolding snapshot_inv_def by blast
  moreover have "\<And>y. cl_copy (ss_line code ?v) Cpu3_core \<noteq> Some (True, y)"
    by (auto simp: cache_calls.line_hooks [OF assms(1)] cpu3_stores_def cl_clean_def cl_store_def)
  ultimately have "cl_poc (ss_line code ?v) = x"
    by (auto simp: copies_ok_def phase_def content_at_def cpu3_stores_def split: copy_splits)
  with 3 show thesis by (intro that [of ?v]) (simp_all add: cpu3_stores_def)
qed

lemma reads:
  assumes "cache_calls api" and "snapshot_reachable code api s" and "ss_reader s \<in> {R_idle, R_done}" and "cl_poc (ss_line code s) = x"
  obtains s' where "snapshot_reachable code api s'" "ss_published s' = ss_published s" "ss_reader s' = R_done"
    "lc_set_inv code (lc_inv code x) (ss_first s') = x" "lc_commit code (ss_second s') = lc_commit code x" "lc_inv code (ss_second s') = lc_inv code x"
proof -
  note go = snapshot_reachable.step and hooks = cache_calls.line_hooks [OF assms(1)]
  let ?inval = "lzamp_dcache_invalidate api (lc_line code * CACHE_LINE) CACHE_LINE"
  let ?a = "s\<lparr>ss_mem := ?inval (ss_mem s), ss_reader := R_commit\<rparr>"
  have a: "snapshot_reachable code api ?a" by (rule go [OF assms(2) snapshot_step.begin_read]) (rule assms(3))
  have v: "cl_view Linux_core (ss_line code ?a) = x" using assms(4) by (simp add: hooks cl_view_def cl_drop_def)
  let ?b = "?a\<lparr>ss_first := lc_set_commit code (lc_commit code (cl_view Linux_core (ss_line code ?a))) (ss_first ?a), ss_reader := R_fields (lc_loads code)\<rparr>"
  have b: "snapshot_reachable code api ?b" by (rule go [OF a snapshot_step.read_commit]) simp
  let ?f = "fold (\<lambda>f. f x) (lc_loads code) (lc_set_commit code (lc_commit code x) (ss_first s))"
  let ?c = "?a\<lparr>ss_first := ?f, ss_reader := R_fields []\<rparr>"
  have c: "snapshot_reachable code api ?c" using read_fields [OF b, of "lc_loads code"] v by simp
  let ?d = "?c\<lparr>ss_mem := ?inval (ss_mem ?c), ss_reader := R_commit2\<rparr>"
  have d: "snapshot_reachable code api ?d" by (rule go [OF c snapshot_step.read_again]) simp
  have w: "cl_view Linux_core (ss_line code ?d) = x" using assms(4) by (simp add: hooks cl_view_def cl_drop_def)
  let ?e = "?d\<lparr>ss_second := lc_set_commit code (lc_commit code (cl_view Linux_core (ss_line code ?d))) (ss_second ?d), ss_reader := R_inv\<rparr>"
  have e: "snapshot_reachable code api ?e" by (rule go [OF d snapshot_step.read_commit2]) simp
  let ?g = "?e\<lparr>ss_second := lc_set_inv code (lc_inv code (cl_view Linux_core (ss_line code ?e))) (ss_second ?e), ss_reader := R_done\<rparr>"
  have g: "snapshot_reachable code api ?g" by (rule go [OF e snapshot_step.read_inv]) simp
  show thesis by (rule that [OF g]) (use w in \<open>simp_all add: loads_all commit_set commit_set_inv inv_set\<close>)
qed

end

subsection \<open>The two lines of the state page\<close>

text \<open>
  \<open>mailmsg_publish_worker_observation\<close> and \<open>mailmsg_publish_tx_full_observation\<close> store by store,
  and the loads of \<open>status_show\<close>, in the order of the code.
\<close>

definition worker_observation_stores :: "mailmsg_worker_observation_line \<Rightarrow> (mailmsg_worker_observation_line \<Rightarrow> mailmsg_worker_observation_line) list" where
  "worker_observation_stores x = [\<lambda>l. l\<lparr>wo_magic := MAILMSG_WORKER_OBSERVATION_MAGIC\<rparr>, \<lambda>l. l\<lparr>wo_irq_count := wo_irq_count x\<rparr>,
     \<lambda>l. l\<lparr>wo_wake_count := wo_wake_count x\<rparr>, \<lambda>l. l\<lparr>wo_drain_count := wo_drain_count x\<rparr>,
     \<lambda>l. l\<lparr>wo_message_count := wo_message_count x\<rparr>, \<lambda>l. l\<lparr>wo_empty_wake_count := wo_empty_wake_count x\<rparr>,
     \<lambda>l. l\<lparr>wo_last_pending := wo_last_pending x\<rparr>, \<lambda>l. l\<lparr>wo_pending_now := wo_pending_now x\<rparr>,
     \<lambda>l. l\<lparr>wo_last_priority := wo_last_priority x\<rparr>, \<lambda>l. l\<lparr>wo_commit_inv := NOT (wo_commit x)\<rparr>]"

definition worker_observation_loads ::
  "(mailmsg_worker_observation_line \<Rightarrow> mailmsg_worker_observation_line \<Rightarrow> mailmsg_worker_observation_line) list" where
  "worker_observation_loads = [\<lambda>l r. r\<lparr>wo_magic := wo_magic l\<rparr>, \<lambda>l r. r\<lparr>wo_irq_count := wo_irq_count l\<rparr>,
     \<lambda>l r. r\<lparr>wo_wake_count := wo_wake_count l\<rparr>, \<lambda>l r. r\<lparr>wo_drain_count := wo_drain_count l\<rparr>,
     \<lambda>l r. r\<lparr>wo_message_count := wo_message_count l\<rparr>, \<lambda>l r. r\<lparr>wo_empty_wake_count := wo_empty_wake_count l\<rparr>,
     \<lambda>l r. r\<lparr>wo_last_pending := wo_last_pending l\<rparr>, \<lambda>l r. r\<lparr>wo_pending_now := wo_pending_now l\<rparr>,
     \<lambda>l r. r\<lparr>wo_last_priority := wo_last_priority l\<rparr>]"

definition worker_observation_code :: "mailmsg_worker_observation_line line_code" where
  "worker_observation_code = \<lparr>lc_line = (AMP_MAILMSG_WORKER_OBS_ADDR) div CACHE_LINE, lc_commit = wo_commit, lc_inv = wo_commit_inv,
     lc_set_commit = (\<lambda>c l. l\<lparr>wo_commit := c\<rparr>), lc_set_inv = (\<lambda>c l. l\<lparr>wo_commit_inv := c\<rparr>),
     lc_magic_ok = (\<lambda>x. wo_magic x = MAILMSG_WORKER_OBSERVATION_MAGIC),
     lc_stores = worker_observation_stores, lc_loads = worker_observation_loads\<rparr>"

definition tx_full_observation_stores :: "mailmsg_tx_full_observation \<Rightarrow> (mailmsg_tx_full_observation \<Rightarrow> mailmsg_tx_full_observation) list" where
  "tx_full_observation_stores x = [\<lambda>l. l\<lparr>tf_magic := MAILMSG_TX_FULL_OBSERVATION_MAGIC\<rparr>, \<lambda>l. l\<lparr>tf_full_count := tf_full_count x\<rparr>,
     \<lambda>l. l\<lparr>tf_last_priority := tf_last_priority x\<rparr>, \<lambda>l. l\<lparr>tf_last_type := tf_last_type x\<rparr>,
     \<lambda>l. l\<lparr>tf_last_result := tf_last_result x\<rparr>, \<lambda>l. l\<lparr>tf_commit_inv := NOT (tf_commit x)\<rparr>]"

definition tx_full_observation_loads ::
  "(mailmsg_tx_full_observation \<Rightarrow> mailmsg_tx_full_observation \<Rightarrow> mailmsg_tx_full_observation) list" where
  "tx_full_observation_loads = [\<lambda>l r. r\<lparr>tf_magic := tf_magic l\<rparr>, \<lambda>l r. r\<lparr>tf_full_count := tf_full_count l\<rparr>,
     \<lambda>l r. r\<lparr>tf_last_priority := tf_last_priority l\<rparr>, \<lambda>l r. r\<lparr>tf_last_type := tf_last_type l\<rparr>,
     \<lambda>l r. r\<lparr>tf_last_result := tf_last_result l\<rparr>]"

definition tx_full_observation_code :: "mailmsg_tx_full_observation line_code" where
  "tx_full_observation_code = \<lparr>lc_line = (AMP_MAILMSG_TX_FULL_OBS_ADDR) div CACHE_LINE, lc_commit = tf_commit, lc_inv = tf_commit_inv,
     lc_set_commit = (\<lambda>c l. l\<lparr>tf_commit := c\<rparr>), lc_set_inv = (\<lambda>c l. l\<lparr>tf_commit_inv := c\<rparr>),
     lc_magic_ok = (\<lambda>x. tf_magic x = MAILMSG_TX_FULL_OBSERVATION_MAGIC),
     lc_stores = tx_full_observation_stores, lc_loads = tx_full_observation_loads\<rparr>"

lemma code_selectors:
  "lc_commit worker_observation_code = wo_commit" "lc_inv worker_observation_code = wo_commit_inv"
  "lc_set_inv worker_observation_code = (\<lambda>c l. l\<lparr>wo_commit_inv := c\<rparr>)"
  "lc_commit tx_full_observation_code = tf_commit" "lc_inv tx_full_observation_code = tf_commit_inv"
  "lc_set_inv tx_full_observation_code = (\<lambda>c l. l\<lparr>tf_commit_inv := c\<rparr>)"
  by (simp_all add: worker_observation_code_def tx_full_observation_code_def)

interpretation wo: snapshot_code worker_observation_code
  by unfold_locales (auto simp: worker_observation_code_def worker_observation_stores_def worker_observation_loads_def)

interpretation tf: snapshot_code tx_full_observation_code
  by unfold_locales (auto simp: tx_full_observation_code_def tx_full_observation_stores_def tx_full_observation_loads_def)

text \<open>What the firmware publishes is what the writer may publish.\<close>

lemma firmware_publishes:
  "let x = pg_worker_obs (c_page (mailmsg_publish_worker_observation pending p w)) in
     lc_commit worker_observation_code x = next_seq (mailmsg_worker_commit w) \<and>
     lc_inv worker_observation_code x = NOT (lc_commit worker_observation_code x) \<and> lc_magic_ok worker_observation_code x"
  "let x = pg_tx_full_obs (c_page (mailmsg_publish_tx_full_observation p ty result w)) in
     lc_commit tx_full_observation_code x = next_seq (mailmsg_tx_full_commit w) \<and>
     lc_inv tx_full_observation_code x = NOT (lc_commit tx_full_observation_code x) \<and> lc_magic_ok tx_full_observation_code x"
  by (simp_all add: mailmsg_publish_worker_observation_def mailmsg_publish_tx_full_observation_def worker_observation_code_def
      tx_full_observation_code_def next_seq_def Let_def)

text \<open>Claim C14.
  The status report shows only what the firmware has published.  CPU3 stores the fields of a
  diagnostics line one by one and Linux loads them one by one, each through its own cache,
  which may fill, write back and evict the line at any moment; the accesses of both interleave
  in any way.  When the reading is complete and the check of magic, commit word and inverse
  accepts it, all fields are those of one and the same publication, for both lines, as long as
  the commit word has not wrapped.
\<close>

theorem accepted_snapshot_is_published:
  assumes "cache_calls (api :: mailmsg_worker_observation_line cache_api)" and "snapshot_reachable worker_observation_code api s"
    and "ss_reader s = R_done" and "worker_valid (ss_first s) (ss_second s)" and "length (ss_published s) < 2 ^ 32"
    and "cache_calls (api' :: mailmsg_tx_full_observation cache_api)" and "snapshot_reachable tx_full_observation_code api' t"
    and "ss_reader t = R_done" and "tx_full_valid (ss_first t) (ss_second t)" and "length (ss_published t) < 2 ^ 32"
  shows "(ss_first s)\<lparr>wo_commit_inv := wo_commit_inv (ss_second s)\<rparr> \<in> set (ss_published s) \<and>
    (ss_first t)\<lparr>tf_commit_inv := tf_commit_inv (ss_second t)\<rparr> \<in> set (ss_published t)"
proof -
  have "wo_commit (ss_first s) \<noteq> 0" "wo_commit (ss_second s) = wo_commit (ss_first s)" "wo_commit_inv (ss_second s) = NOT (wo_commit (ss_second s))"
    "tf_commit (ss_first t) \<noteq> 0" "tf_commit (ss_second t) = tf_commit (ss_first t)" "tf_commit_inv (ss_second t) = NOT (tf_commit (ss_second t))"
    using assms(4,9) by (auto simp: worker_valid_def tx_full_valid_def)
  then show ?thesis
    using wo.accepted_is_published [OF assms(1-3,5)] tf.accepted_is_published [OF assms(6-8,10)] by (simp add: code_selectors)
qed

text \<open>A first publication of each line and the reading behind it.\<close>

definition fresh_line :: "'l \<Rightarrow> 'l snapshot_system" where
  "fresh_line x = \<lparr>ss_mem = (\<lambda>_. \<lparr>cl_poc = x, cl_copy = (\<lambda>_. None)\<rparr>), ss_commit = 0, ss_writer = W_idle, ss_published = [],
     ss_reader = R_idle, ss_first = x, ss_second = x\<rparr>"

lemma first_snapshot:
  assumes "snapshot_code code" and "lc_commit code z = 0" and "lc_commit code x = 1" and "lc_inv code x = NOT 1" and "lc_magic_ok code x"
  obtains s where "snapshot_reachable code armv8_api s" "ss_published s = [x]" "ss_reader s = R_done" "lc_set_inv code (lc_inv code x) (ss_first s) = x"
    "lc_commit code (ss_second s) = 1" "lc_inv code (ss_second s) = NOT 1"
proof -
  have start: "snapshot_reachable code armv8_api (fresh_line z)"
    using assms(2) by (intro snapshot_reachable.start) (simp add: snapshot_start_def fresh_line_def)
  have f: "ss_writer (fresh_line z) = W_idle" "lc_commit code x = next_seq (ss_commit (fresh_line z))" "lc_inv code x = NOT (lc_commit code x)"
    "ss_published (fresh_line z) = []" "ss_reader (fresh_line z) = R_idle"
    using assms(3,4) by (simp_all add: fresh_line_def next_seq_def)
  obtain s1 where 1: "snapshot_reachable code armv8_api s1" "ss_published s1 = ss_published (fresh_line z) @ [x]" "cl_poc (ss_line code s1) = x"
    "ss_reader s1 = ss_reader (fresh_line z)"
    by (rule snapshot_code.publishes [OF assms(1) armv8.cache_calls_axioms start f(1-3) assms(5)]) (rule that)
  have "ss_reader s1 \<in> {R_idle, R_done}" using 1(4) f(5) by simp
  then obtain s2 where 2: "snapshot_reachable code armv8_api s2" "ss_published s2 = ss_published s1" "ss_reader s2 = R_done"
    "lc_set_inv code (lc_inv code x) (ss_first s2) = x" "lc_commit code (ss_second s2) = lc_commit code x" "lc_inv code (ss_second s2) = lc_inv code x"
    by (rule snapshot_code.reads [OF assms(1) armv8.cache_calls_axioms 1(1) _ 1(3)]) (rule that)
  show thesis by (rule that [OF 2(1) _ 2(3,4)]) (simp_all add: 1(2) 2(2,5,6) f(4) assms(3,4))
qed

theorem accepted_snapshot_is_published_witness:
  "\<exists>(s :: mailmsg_worker_observation_line snapshot_system) (t :: mailmsg_tx_full_observation snapshot_system).
     snapshot_reachable worker_observation_code armv8_api s \<and> worker_valid (ss_first s) (ss_second s) \<and>
     (ss_first s)\<lparr>wo_commit_inv := wo_commit_inv (ss_second s)\<rparr> \<in> set (ss_published s) \<and>
     tx_full_valid (ss_first t) (ss_second t) \<and> (ss_first t)\<lparr>tf_commit_inv := tf_commit_inv (ss_second t)\<rparr> \<in> set (ss_published t)"
proof -
  let ?x = "zero_worker_obs\<lparr>wo_magic := MAILMSG_WORKER_OBSERVATION_MAGIC, wo_commit := 1, wo_commit_inv := NOT 1, wo_irq_count := 3\<rparr>"
  let ?y = "zero_tx_full_obs\<lparr>tf_magic := MAILMSG_TX_FULL_OBSERVATION_MAGIC, tf_commit := 1, tf_commit_inv := NOT 1, tf_full_count := 2\<rparr>"
  obtain s where s: "snapshot_reachable worker_observation_code armv8_api s" "ss_published s = [?x]" "ss_reader s = R_done"
    "(ss_first s)\<lparr>wo_commit_inv := NOT 1\<rparr> = ?x" "wo_commit (ss_second s) = 1" "wo_commit_inv (ss_second s) = NOT 1"
    by (rule first_snapshot [OF wo.snapshot_code_axioms, of zero_worker_obs ?x])
       (use that in \<open>simp_all add: worker_observation_code_def zero_worker_obs_def\<close>)
  obtain t where t: "snapshot_reachable tx_full_observation_code armv8_api t" "ss_published t = [?y]" "ss_reader t = R_done"
    "(ss_first t)\<lparr>tf_commit_inv := NOT 1\<rparr> = ?y" "tf_commit (ss_second t) = 1" "tf_commit_inv (ss_second t) = NOT 1"
    by (rule first_snapshot [OF tf.snapshot_code_axioms, of zero_tx_full_obs ?y])
       (use that in \<open>simp_all add: tx_full_observation_code_def zero_tx_full_obs_def\<close>)
  have "wo_commit (ss_first s) = 1" "wo_magic (ss_first s) = MAILMSG_WORKER_OBSERVATION_MAGIC"
    using arg_cong [OF s(4), of wo_commit] arg_cong [OF s(4), of wo_magic] by simp_all
  then have vs: "worker_valid (ss_first s) (ss_second s)" using s(5,6) by (simp add: worker_valid_def)
  have "tf_commit (ss_first t) = 1" "tf_magic (ss_first t) = MAILMSG_TX_FULL_OBSERVATION_MAGIC"
    using arg_cong [OF t(4), of tf_commit] arg_cong [OF t(4), of tf_magic] by simp_all
  then have vt: "tx_full_valid (ss_first t) (ss_second t)" using t(5,6) by (simp add: tx_full_valid_def)
  have "length (ss_published s) < 2 ^ 32" "length (ss_published t) < 2 ^ 32" by (simp_all add: s(2) t(2))
  from accepted_snapshot_is_published [OF armv8.cache_calls_axioms s(1,3) vs this(1) armv8.cache_calls_axioms t(1,3) vt this(2)] s(1) vs vt
  show ?thesis by blast
qed

end
