(* ===== verification/Mailmsg_Ring_Steps.thy ===== *)
theory Mailmsg_Ring_Steps
  imports Mailmsg_Ring
begin

text \<open>
  The ring under concurrency.  \<open>push\<close> and \<open>pop\<close> taken apart into their accesses to the shared
  ring, in program order, and the transition system in which one producer and one consumer
  interleave them freely.  The bulk copy into the slot may be torn: until it is complete the
  slot holds anything.  The \<open>publish\<close> and \<open>acquire\<close> hooks order the accesses; the memory is
  coherent.
\<close>

subsection \<open>The operations, access by access\<close>

text \<open>The program counter of a push, with its local variables \<open>message\<close> and \<open>producer\<close>.\<close>

datatype push_pc =
    Push_idle
  | Push_start mailmsg_message
  | Push_check mailmsg_message u32
  | Push_copy mailmsg_message u32
  | Push_clear mailmsg_message u32
  | Push_crc mailmsg_message u32
  | Push_commit mailmsg_message u32
  | Push_index mailmsg_message u32
  | Push_done int

definition upd_slot :: "(mailmsg_message \<Rightarrow> mailmsg_message) \<Rightarrow> u32 \<Rightarrow> mailmsg_ring \<Rightarrow> mailmsg_ring" where
  "upd_slot f i r = r\<lparr>rb_slot := (rb_slot r)[unat i := f (rb_slot r ! unat i)]\<rparr>"

fun push_step :: "push_pc \<Rightarrow> mailmsg_ring \<Rightarrow> (push_pc \<times> mailmsg_ring) option" where
  "push_step (Push_start message) ring =
     (if msg_generation message = 0 \<or> msg_sequence message = 0 \<or> MAILMSG_PAYLOAD_BYTES < msg_length message
      then Some (Push_done MAILMSG_RING_INVALID, ring)
      else Some (Push_check message (rb_producer ring), ring))"
| "push_step (Push_check message producer) ring =
     Some (if mailmsg_next producer = rb_consumer ring then Push_done MAILMSG_RING_FULL else Push_copy message producer, ring)"
| "push_step (Push_copy message producer) ring =
     (if MAILMSG_RING_SLOTS \<le> producer then None
      else Some (Push_clear message producer, upd_slot (\<lambda>_. message) producer ring))"
| "push_step (Push_clear message producer) ring =
     Some (Push_crc message producer, upd_slot (\<lambda>slot. slot\<lparr>msg_commit := 0\<rparr>) producer ring)"
| "push_step (Push_crc message producer) ring =
     Some (Push_commit message producer, upd_slot (\<lambda>slot. slot\<lparr>msg_crc32 := mailmsg_frame_crc32 slot\<rparr>) producer ring)"
| "push_step (Push_commit message producer) ring =
     Some (Push_index message producer, upd_slot (\<lambda>slot. slot\<lparr>msg_commit := msg_sequence message\<rparr>) producer ring)"
| "push_step (Push_index message producer) ring =
     Some (Push_done MAILMSG_RING_OK, ring\<lparr>rb_producer := mailmsg_next producer\<rparr>)"
| "push_step _ ring = None"

text \<open>
  The program counter of a pop, with \<open>consumer\<close> and, once copied, the message; \<open>Pop_done\<close> has
  the result and the message if it was copied into the caller's buffer.
\<close>

datatype pop_pc =
    Pop_idle
  | Pop_start
  | Pop_slot u32
  | Pop_copy u32
  | Pop_release u32 mailmsg_message
  | Pop_done int "mailmsg_message option"

fun pop_step :: "pop_pc \<Rightarrow> mailmsg_ring \<Rightarrow> (pop_pc \<times> mailmsg_ring) option" where
  "pop_step Pop_start ring =
     Some (if rb_consumer ring = rb_producer ring then Pop_done MAILMSG_RING_EMPTY None else Pop_slot (rb_consumer ring), ring)"
| "pop_step (Pop_slot consumer) ring =
     (if MAILMSG_RING_SLOTS \<le> consumer then None
      else
        let slot = rb_slot ring ! unat consumer
        in Some (if msg_commit slot \<noteq> msg_sequence slot then Pop_done MAILMSG_RING_INCOMPLETE None else Pop_copy consumer, ring))"
| "pop_step (Pop_copy consumer) ring = Some (Pop_release consumer (rb_slot ring ! unat consumer), ring)"
| "pop_step (Pop_release consumer message) ring =
     Some (Pop_done (if msg_generation message = 0 \<or> msg_sequence message = 0 \<or> MAILMSG_PAYLOAD_BYTES < msg_length message
                     then MAILMSG_RING_INVALID
                     else if msg_crc32 message \<noteq> mailmsg_frame_crc32 message then MAILMSG_RING_BAD_CRC
                     else MAILMSG_RING_OK) (Some message),
           ring\<lparr>rb_consumer := mailmsg_next consumer\<rparr>)"
| "pop_step _ ring = None"

text \<open>Run alone, the steps are the functions: nothing of their effect is lost by the split.\<close>

fun push_finish :: "nat \<Rightarrow> push_pc \<Rightarrow> mailmsg_ring \<Rightarrow> (int \<times> mailmsg_ring) option" where
  "push_finish n (Push_done c) r = Some (c, r)"
| "push_finish (Suc n) pc r = do { (pc, r) \<leftarrow> push_step pc r; push_finish n pc r }"
| "push_finish 0 pc r = None"

lemma push_steps_alone:
  assumes "length (rb_slot r) = 8"
  shows "push_finish 7 (Push_start m) r = mailmsg_ring_push r m"
proof -
  have lt: "unat p < length (rb_slot r)" if "\<not> 8 \<le> p" for p :: u32
    using that assms by (simp add: word_le_nat_alt)
  show ?thesis
    using lt [of "rb_producer r"] by (auto simp: numeral_eq_Suc mailmsg_ring_push_def upd_slot_def Let_def)
qed

fun pop_finish :: "nat \<Rightarrow> pop_pc \<Rightarrow> mailmsg_ring \<Rightarrow> mailmsg_message \<Rightarrow> (int \<times> mailmsg_ring \<times> mailmsg_message) option" where
  "pop_finish n (Pop_done c copied) r buf = Some (c, r, case copied of None \<Rightarrow> buf | Some f \<Rightarrow> f)"
| "pop_finish (Suc n) pc r buf = do { (pc, r) \<leftarrow> pop_step pc r; pop_finish n pc r buf }"
| "pop_finish 0 pc r buf = None"

lemma pop_steps_alone: "pop_finish 4 Pop_start r buf = mailmsg_ring_pop r buf"
  by (auto simp: numeral_eq_Suc mailmsg_ring_pop_def Let_def)

subsection \<open>Producer and consumer interleaved\<close>

text \<open>
  \<open>q_sent\<close> and \<open>q_got\<close> record, in order, the messages whose index write was done and the
  messages the consumer copied out and released.
\<close>

record spsc =
  q_ring :: mailmsg_ring
  q_push :: push_pc
  q_pop :: pop_pc
  q_sent :: "mailmsg_message list"
  q_got :: "mailmsg_message list"

fun published :: "push_pc \<Rightarrow> mailmsg_message list" where
  "published (Push_index message producer) = [message]"
| "published _ = []"

fun released :: "pop_pc \<Rightarrow> mailmsg_message list" where
  "released (Pop_release consumer message) = [message]"
| "released _ = []"

definition spsc_push :: "push_pc \<Rightarrow> mailmsg_ring \<Rightarrow> spsc \<Rightarrow> spsc" where
  "spsc_push pc r s = s\<lparr>q_ring := r, q_push := pc, q_sent := q_sent s @ published (q_push s)\<rparr>"

definition spsc_pop :: "pop_pc \<Rightarrow> mailmsg_ring \<Rightarrow> spsc \<Rightarrow> spsc" where
  "spsc_pop pc r s = s\<lparr>q_ring := r, q_pop := pc, q_got := q_got s @ released (q_pop s)\<rparr>"

fun push_returned :: "push_pc \<Rightarrow> bool" where
  "push_returned Push_idle = True"
| "push_returned (Push_done c) = True"
| "push_returned _ = False"

fun pop_returned :: "pop_pc \<Rightarrow> bool" where
  "pop_returned Pop_idle = True"
| "pop_returned (Pop_done c copied) = True"
| "pop_returned _ = False"

definition spsc_start :: "mailmsg_ring \<Rightarrow> spsc" where
  "spsc_start r = \<lparr>q_ring = r, q_push = Push_idle, q_pop = Pop_idle, q_sent = [], q_got = []\<rparr>"

inductive spsc_step :: "spsc \<Rightarrow> spsc \<Rightarrow> bool" where
  call_push: "push_returned (q_push s) \<Longrightarrow> message_wf m \<Longrightarrow> spsc_step s (s\<lparr>q_push := Push_start m\<rparr>)"
| step_push: "push_step (q_push s) (q_ring s) = Some (pc, r) \<Longrightarrow> spsc_step s (spsc_push pc r s)"
| torn_copy: "q_push s = Push_copy m p \<Longrightarrow> message_wf x \<Longrightarrow> spsc_step s (s\<lparr>q_ring := upd_slot (\<lambda>_. x) p (q_ring s)\<rparr>)"
| call_pop: "pop_returned (q_pop s) \<Longrightarrow> spsc_step s (s\<lparr>q_pop := Pop_start\<rparr>)"
| step_pop: "pop_step (q_pop s) (q_ring s) = Some (pc, r) \<Longrightarrow> spsc_step s (spsc_pop pc r s)"

inductive spsc_reachable :: "mailmsg_ring \<Rightarrow> spsc \<Rightarrow> bool" for r0 where
  start: "spsc_reachable r0 (spsc_start r0)"
| step: "spsc_reachable r0 s \<Longrightarrow> spsc_step s s' \<Longrightarrow> spsc_reachable r0 s'"

text \<open>The same interleavings as executable schedules.\<close>

datatype spsc_action = Call_push mailmsg_message | Step_push | Torn_copy mailmsg_message | Call_pop | Step_pop

fun spsc_exec :: "spsc_action \<Rightarrow> spsc \<Rightarrow> spsc option" where
  "spsc_exec (Call_push m) s =
     (if push_returned (q_push s) \<and> message_wf m then Some (s\<lparr>q_push := Push_start m\<rparr>) else None)"
| "spsc_exec Step_push s = map_option (\<lambda>(pc, r). spsc_push pc r s) (push_step (q_push s) (q_ring s))"
| "spsc_exec (Torn_copy x) s =
     (case q_push s of
        Push_copy m p \<Rightarrow> if message_wf x then Some (s\<lparr>q_ring := upd_slot (\<lambda>_. x) p (q_ring s)\<rparr>) else None
      | _ \<Rightarrow> None)"
| "spsc_exec Call_pop s = (if pop_returned (q_pop s) then Some (s\<lparr>q_pop := Pop_start\<rparr>) else None)"
| "spsc_exec Step_pop s = map_option (\<lambda>(pc, r). spsc_pop pc r s) (pop_step (q_pop s) (q_ring s))"

fun spsc_run :: "spsc_action list \<Rightarrow> spsc \<Rightarrow> spsc option" where
  "spsc_run [] s = Some s"
| "spsc_run (a # as) s = do { s' \<leftarrow> spsc_exec a s; spsc_run as s' }"

lemma spsc_exec_step: "spsc_exec a s = Some s' \<Longrightarrow> spsc_step s s'"
  by (cases a) (auto intro: spsc_step.intros split: if_splits push_pc.splits)

lemma spsc_run_reachable: "spsc_reachable r0 s \<Longrightarrow> spsc_run as s = Some s' \<Longrightarrow> spsc_reachable r0 s'"
proof (induction as arbitrary: s)
  case (Cons a as)
  from Cons.prems(2) obtain x where "spsc_exec a s = Some x" "spsc_run as x = Some s'"
    by (auto split: bind_splits)
  then show ?case using Cons.IH Cons.prems(1) by (meson spsc_exec_step spsc_reachable.step)
qed simp

lemma spsc_step_iff: "spsc_step s s' \<longleftrightarrow> (\<exists>a. spsc_exec a s = Some s')"
proof
  assume "spsc_step s s'"
  then show "\<exists>a. spsc_exec a s = Some s'"
  proof cases
    case (call_push m)
    then show ?thesis by (intro exI [of _ "Call_push m"]) simp
  next
    case (step_push pc r)
    then show ?thesis by (intro exI [of _ Step_push]) simp
  next
    case (torn_copy m p x)
    then show ?thesis by (intro exI [of _ "Torn_copy x"]) simp
  next
    case call_pop
    then show ?thesis by (intro exI [of _ Call_pop]) simp
  next
    case (step_pop pc r)
    then show ?thesis by (intro exI [of _ Step_pop]) simp
  qed
qed (blast intro: spsc_exec_step)

subsection \<open>Writing a slot that is not yet published\<close>

lemma upd_slot_simps [simp]:
  "rb_producer (upd_slot f i r) = rb_producer r" "rb_consumer (upd_slot f i r) = rb_consumer r"
  "ring_depth (upd_slot f i r) = ring_depth r"
  by (simp_all add: upd_slot_def ring_depth_def)

lemma upd_slot_nth:
  "ring_wf r \<Longrightarrow> p = rb_producer r \<Longrightarrow> rb_slot (upd_slot f p r) ! unat p = f (rb_slot r ! unat p)"
  by (simp add: upd_slot_def ring_wfD)

lemma ring_wf_slot: "ring_wf r \<Longrightarrow> message_wf (rb_slot r ! unat (rb_producer r))"
  by (simp add: ring_wf_def word_less_nat_alt)

lemma ring_wf_upd_slot:
  assumes "ring_wf r" and "message_wf (f (rb_slot r ! unat p))"
  shows "ring_wf (upd_slot f p r)"
  using assms set_update_subset_insert [of "rb_slot r" "unat p" "f (rb_slot r ! unat p)"]
  by (auto simp: ring_wf_def upd_slot_def)

text \<open>The free slot at the producer index is no slot of the queue.\<close>

lemma ring_frames_upd_slot:
  assumes "ring_wf r"
  shows "ring_frames (upd_slot f (rb_producer r) r) = ring_frames r"
proof -
  have "(unat (rb_consumer r) + i) mod 8 \<noteq> unat (rb_producer r)" if "i < ring_depth r" for i
    using ring_wfD [OF assms] that mod8_distinct unfolding ring_depth_def by blast
  then show ?thesis
    unfolding ring_frames_def upd_slot_simps by (auto simp: upd_slot_def nth_list_update_neq [OF not_sym])
qed

lemma ring_sound_upd_slot:
  assumes "ring_sound r" and "message_wf (f (rb_slot r ! unat (rb_producer r)))"
  shows "ring_sound (upd_slot f (rb_producer r) r)"
  using assms ring_wf_upd_slot [of r f] by (simp add: ring_sound_def ring_frames_upd_slot)

text \<open>Publishing the index appends what the slot holds.\<close>

lemma ring_put_slot: "ring_put r (rb_slot r ! unat (rb_producer r)) = r\<lparr>rb_producer := mailmsg_next (rb_producer r)\<rparr>"
  by (simp add: ring_put_def)


lemma ring_sound_put_slot:
  assumes "ring_sound r" and "ring_depth r < 7" and "rb_slot r ! unat (rb_producer r) = seal m"
    and "frame_valid m" and "message_wf m"
  shows "ring_sound (r\<lparr>rb_producer := mailmsg_next (rb_producer r)\<rparr>)"
    "ring_frames (r\<lparr>rb_producer := mailmsg_next (rb_producer r)\<rparr>) = ring_frames r @ [seal m]"
proof -
  have wf: "ring_wf r" using assms(1) by (simp add: ring_sound_def)
  have eq: "r\<lparr>rb_producer := mailmsg_next (rb_producer r)\<rparr> = ring_put r (seal m)"
    using ring_put_slot [of r] assms(3) by simp
  show fr: "ring_frames (r\<lparr>rb_producer := mailmsg_next (rb_producer r)\<rparr>) = ring_frames r @ [seal m]"
    unfolding eq by (rule ring_frames_put [OF wf assms(2)])
  show "ring_sound (r\<lparr>rb_producer := mailmsg_next (rb_producer r)\<rparr>)"
    using ring_wf_put [OF wf, of "seal m"] assms fr by (auto simp: eq ring_sound_def frame_status_seal)
qed

subsection \<open>The invariant\<close>

definition writing :: "mailmsg_message \<Rightarrow> u32 \<Rightarrow> mailmsg_ring \<Rightarrow> bool" where
  "writing m p r \<longleftrightarrow> message_wf m \<and> frame_valid m \<and> p = rb_producer r \<and> ring_depth r < 7"

fun push_inv :: "push_pc \<Rightarrow> mailmsg_ring \<Rightarrow> bool" where
  "push_inv (Push_start m) r \<longleftrightarrow> message_wf m"
| "push_inv (Push_check m p) r \<longleftrightarrow> message_wf m \<and> frame_valid m \<and> p = rb_producer r"
| "push_inv (Push_copy m p) r \<longleftrightarrow> writing m p r"
| "push_inv (Push_clear m p) r \<longleftrightarrow> writing m p r \<and> rb_slot r ! unat p = m"
| "push_inv (Push_crc m p) r \<longleftrightarrow> writing m p r \<and> rb_slot r ! unat p = m\<lparr>msg_commit := 0\<rparr>"
| "push_inv (Push_commit m p) r \<longleftrightarrow> writing m p r \<and>
     rb_slot r ! unat p = m\<lparr>msg_crc32 := mailmsg_frame_crc32 m, msg_commit := 0\<rparr>"
| "push_inv (Push_index m p) r \<longleftrightarrow> writing m p r \<and> rb_slot r ! unat p = seal m"
| "push_inv (Push_done c) r \<longleftrightarrow> c \<in> {MAILMSG_RING_OK, MAILMSG_RING_FULL, MAILMSG_RING_INVALID}"
| "push_inv Push_idle r \<longleftrightarrow> True"

fun pop_inv :: "pop_pc \<Rightarrow> mailmsg_ring \<Rightarrow> bool" where
  "pop_inv (Pop_slot c) r \<longleftrightarrow> c = rb_consumer r \<and> ring_frames r \<noteq> []"
| "pop_inv (Pop_copy c) r \<longleftrightarrow> c = rb_consumer r \<and> ring_frames r \<noteq> []"
| "pop_inv (Pop_release c f) r \<longleftrightarrow> c = rb_consumer r \<and> (\<exists>fs. ring_frames r = f # fs)"
| "pop_inv (Pop_done c copied) r \<longleftrightarrow>
     c = MAILMSG_RING_OK \<and> copied \<noteq> None \<or> c = MAILMSG_RING_EMPTY \<and> copied = None"
| "pop_inv _ r \<longleftrightarrow> True"

lemma ring_soundD: "ring_sound r \<Longrightarrow> ring_wf r"
  by (simp add: ring_sound_def)

lemma push_step_keeps:
  assumes "ring_sound r" and "push_inv pc r" and "push_step pc r = Some (pc', r')"
  shows "ring_sound r' \<and> push_inv pc' r' \<and> rb_consumer r' = rb_consumer r \<and>
    ring_frames r' = ring_frames r @ map seal (published pc)"
proof -
  note wf = ring_soundD [OF assms(1)]
  have full: "ring_depth r < 7" if "mailmsg_next (rb_producer r) \<noteq> rb_consumer r"
    using that ring_depth_full [OF wf] ring_depth_lt_or_full [of r] by auto
  show ?thesis
  proof (cases pc)
    case (Push_index m p)
    then show ?thesis using assms ring_sound_put_slot [OF assms(1)] by (auto simp: writing_def)
  qed (use assms wf full in \<open>auto simp: writing_def frame_valid_def not_less seal_def upd_slot_nth
        ring_frames_upd_slot message_wf_def intro!: ring_sound_upd_slot split: if_splits\<close>)
qed

text \<open>A push step keeps what the consumer relies on, a pop step what the producer relies on.\<close>

lemma pop_inv_mono:
  "pop_inv pc r \<Longrightarrow> rb_consumer r' = rb_consumer r \<Longrightarrow> ring_frames r' = ring_frames r @ fs \<Longrightarrow> pop_inv pc r'"
  by (cases pc) auto

lemma push_inv_mono:
  "push_inv pc r \<Longrightarrow> rb_producer r' = rb_producer r \<Longrightarrow> rb_slot r' = rb_slot r \<Longrightarrow>
   ring_depth r' \<le> ring_depth r \<Longrightarrow> push_inv pc r'"
  by (cases pc) (auto simp: writing_def)

lemma pop_step_keeps:
  assumes "ring_sound r" and "pop_inv pc r" and "pop_step pc r = Some (pc', r')"
  shows "ring_sound r' \<and> pop_inv pc' r' \<and> rb_producer r' = rb_producer r \<and> rb_slot r' = rb_slot r \<and>
    released pc @ ring_frames r' = ring_frames r"
proof -
  note wf = ring_soundD [OF assms(1)]
  have ne: "\<exists>fs. ring_frames r = rb_slot r ! unat (rb_consumer r) # fs" if "ring_frames r \<noteq> []"
    using that ring_frames_Cons(2) [OF wf] by (cases "ring_frames r") auto
  have ok: "frame_status (rb_slot r ! unat (rb_consumer r)) = MAILMSG_RING_OK" if "ring_frames r \<noteq> []"
    using ne [OF that] assms(1) by (auto simp: ring_sound_def)
  show ?thesis
  proof (cases pc)
    case Pop_start
    have "ring_frames r \<noteq> []" if "rb_consumer r \<noteq> rb_producer r"
      using that ring_depth_0 [OF wf] by (metis length_ring_frames list.size(3))
    then show ?thesis using assms Pop_start by (auto split: if_splits)
  next
    case (Pop_slot c)
    then show ?thesis using assms ok ring_wfD [OF wf]
      by (auto simp: Let_def frame_status_def split: if_splits)
  next
    case (Pop_copy c)
    then show ?thesis using assms ne by auto
  next
    case (Pop_release c f)
    then obtain fs where fs: "ring_frames r = f # fs" and c: "c = rb_consumer r" using assms(2) by auto
    have "frame_status f = MAILMSG_RING_OK" using assms(1) fs by (auto simp: ring_sound_def)
    moreover have "ring_frames (r\<lparr>rb_consumer := mailmsg_next c\<rparr>) = fs"
      using ring_frames_Cons(1) [OF wf fs] c by (simp add: ring_after_pop_def)
    moreover have "ring_wf (r\<lparr>rb_consumer := mailmsg_next c\<rparr>)" using wf by (simp add: ring_wf_def)
    ultimately show ?thesis using assms(1,3) fs Pop_release
      by (auto simp: ring_sound_def frame_status_def frame_valid_def split: if_splits)
  qed (use assms in auto)
qed

definition spsc_inv :: "mailmsg_ring \<Rightarrow> spsc \<Rightarrow> bool" where
  "spsc_inv r0 s \<longleftrightarrow> ring_sound (q_ring s) \<and> push_inv (q_push s) (q_ring s) \<and> pop_inv (q_pop s) (q_ring s) \<and>
     q_got s @ ring_frames (q_ring s) = ring_frames r0 @ map seal (q_sent s)"

lemma spsc_inv_step:
  assumes "spsc_inv r0 s" and "spsc_step s s'"
  shows "spsc_inv r0 s'"
  using assms(2)
proof cases
  case (step_push pc r)
  from assms(1) have inv: "ring_sound (q_ring s)" "push_inv (q_push s) (q_ring s)" by (simp_all add: spsc_inv_def)
  show ?thesis
    using push_step_keeps [OF inv step_push(2)] assms(1) pop_inv_mono
    by (auto simp: spsc_inv_def spsc_push_def step_push(1) simp flip: append_assoc)
next
  case (torn_copy m p x)
  with assms(1) have "ring_sound (q_ring s)" "writing m p (q_ring s)" by (simp_all add: spsc_inv_def)
  moreover from this torn_copy(3) have "ring_sound (upd_slot (\<lambda>_. x) p (q_ring s))"
    by (auto simp: writing_def intro: ring_sound_upd_slot)
  moreover have "ring_frames (upd_slot (\<lambda>_. x) p (q_ring s)) = ring_frames (q_ring s)"
    using calculation ring_soundD by (auto simp: writing_def intro: ring_frames_upd_slot)
  ultimately show ?thesis
    using assms(1) torn_copy pop_inv_mono [of "q_pop s" "q_ring s" _ "[]"]
    by (auto simp: spsc_inv_def writing_def)
next
  case (step_pop pc r)
  from assms(1) have inv: "ring_sound (q_ring s)" "pop_inv (q_pop s) (q_ring s)" by (simp_all add: spsc_inv_def)
  note kept = pop_step_keeps [OF inv step_pop(2)]
  then have "length (ring_frames r) \<le> length (ring_frames (q_ring s))"
    by (metis length_append le_add2)
  with kept show ?thesis
    using assms(1) push_inv_mono [of "q_push s" "q_ring s" r]
    by (auto simp: spsc_inv_def spsc_pop_def step_pop(1))
qed (use assms(1) in \<open>auto simp: spsc_inv_def\<close>)

lemma spsc_reachable_inv: "spsc_reachable r0 s \<Longrightarrow> ring_sound r0 \<Longrightarrow> spsc_inv r0 s"
proof (induction rule: spsc_reachable.induct)
  case start
  then show ?case by (simp add: spsc_inv_def spsc_start_def)
qed (blast intro: spsc_inv_step)

text \<open>The slot each side is working on.\<close>

fun push_slot :: "push_pc \<Rightarrow> u32 option" where
  "push_slot (Push_copy m p) = Some p"
| "push_slot (Push_clear m p) = Some p"
| "push_slot (Push_crc m p) = Some p"
| "push_slot (Push_commit m p) = Some p"
| "push_slot _ = None"

fun pop_slot :: "pop_pc \<Rightarrow> u32 option" where
  "pop_slot (Pop_slot c) = Some c"
| "pop_slot (Pop_copy c) = Some c"
| "pop_slot _ = None"

lemma slots_apart:
  assumes "ring_wf r" and "push_inv pc r" and "pop_inv pc' r" and "push_slot pc = Some p" and "pop_slot pc' = Some c"
  shows "p \<noteq> c"
proof -
  have "p = rb_producer r" using assms(2,4) by (cases pc) (auto simp: writing_def)
  moreover have "c = rb_consumer r" "ring_frames r \<noteq> []" using assms(3,5) by (cases pc'; auto)+
  ultimately show ?thesis using ring_depth_0 [OF assms(1)] by (metis length_0_conv length_ring_frames)
qed

text \<open>How many of its own steps a call has left.\<close>

fun push_left :: "push_pc \<Rightarrow> nat" where
  "push_left (Push_start m) = 7"
| "push_left (Push_check m p) = 6"
| "push_left (Push_copy m p) = 5"
| "push_left (Push_clear m p) = 4"
| "push_left (Push_crc m p) = 3"
| "push_left (Push_commit m p) = 2"
| "push_left (Push_index m p) = 1"
| "push_left _ = 0"

fun pop_left :: "pop_pc \<Rightarrow> nat" where
  "pop_left Pop_start = 4"
| "pop_left (Pop_slot c) = 3"
| "pop_left (Pop_copy c) = 2"
| "pop_left (Pop_release c f) = 1"
| "pop_left _ = 0"

lemma push_progress:
  assumes "ring_wf r" and "push_inv pc r"
  shows "push_returned pc \<or> (\<exists>pc' r'. push_step pc r = Some (pc', r') \<and> push_left pc' < push_left pc)"
  using assms ring_wfD [OF assms(1)] by (cases pc) (auto simp: writing_def not_le)

lemma pop_progress:
  assumes "ring_wf r" and "pop_inv pc r"
  shows "pop_returned pc \<or> (\<exists>pc' r'. pop_step pc r = Some (pc', r') \<and> pop_left pc' < pop_left pc)"
  using assms ring_wfD [OF assms(1)] by (cases pc) (auto simp: Let_def not_le)

subsection \<open>Properties of the interleaved ring\<close>

text \<open>Claim C4.
  One producer and one consumer that interleave the accesses of their calls in any way, on a
  ring that is sound at the start, never lose, duplicate, reorder or tear a frame: what the
  consumer released so far, followed by what is queued, is what was queued at the start followed
  by the sealed messages whose index was published.  Every pop that returns reports OK or EMPTY,
  never an incomplete, invalid or corrupt frame; every push reports OK, FULL or INVALID; and
  while the producer writes a slot the consumer never reads that slot.
\<close>

theorem spsc_interleaving_lossless:
  assumes "ring_sound r0" and "spsc_reachable r0 s"
  shows "q_got s @ ring_frames (q_ring s) = ring_frames r0 @ map seal (q_sent s) \<and>
    ring_sound (q_ring s) \<and>
    (\<forall>c copied. q_pop s = Pop_done c copied \<longrightarrow> c = MAILMSG_RING_OK \<or> c = MAILMSG_RING_EMPTY) \<and>
    (\<forall>c. q_push s = Push_done c \<longrightarrow> c \<in> {MAILMSG_RING_OK, MAILMSG_RING_FULL, MAILMSG_RING_INVALID}) \<and>
    (push_slot (q_push s) \<noteq> None \<longrightarrow> push_slot (q_push s) \<noteq> pop_slot (q_pop s))"
  using spsc_reachable_inv [OF assms(2,1)] slots_apart [of "q_ring s" "q_push s" "q_pop s"]
  by (auto simp: spsc_inv_def ring_soundD)

text \<open>A schedule in which the pop looks at the ring in the middle of the push, twice.\<close>

definition sample_message :: mailmsg_message where
  "sample_message = zero_message\<lparr>msg_generation := 1, msg_sequence := 7\<rparr>"

definition sample_schedule :: "spsc_action list" where
  "sample_schedule =
     [Call_push sample_message, Step_push, Step_push, Torn_copy zero_message, Call_pop, Step_pop, Step_push,
      Step_push, Step_push, Step_push, Call_pop, Step_push, Step_pop, Step_pop, Step_pop, Step_pop]"

lemma sample_run:
  "\<exists>s. spsc_run sample_schedule (spsc_start empty_ring) = Some s \<and> q_sent s = [sample_message] \<and>
     length (q_got s) = 1"
  by (simp add: sample_schedule_def sample_message_def spsc_start_def spsc_push_def spsc_pop_def empty_ring_def
      zero_message_def message_wf_def upd_slot_def mailmsg_next_def)

lemma sample_reachable:
  obtains s where "spsc_reachable empty_ring s" "q_sent s = [sample_message]" "length (q_got s) = 1"
  using sample_run spsc_run_reachable [OF spsc_reachable.start] by blast

theorem spsc_interleaving_lossless_witness:
  "\<exists>s. spsc_reachable empty_ring s \<and> q_sent s = [sample_message] \<and> q_got s = [seal sample_message]"
proof -
  obtain s where s: "spsc_reachable empty_ring s" "q_sent s = [sample_message]" "length (q_got s) = 1"
    by (rule sample_reachable)
  then have "q_got s @ ring_frames (q_ring s) = [seal sample_message]"
    using spsc_interleaving_lossless [OF ring_sound_empty s(1)] by simp
  with s show ?thesis by (cases "q_got s") auto
qed

text \<open>Claim C20.
  Wait-freedom: in every interleaving a call that has not returned can take its next step
  whatever the other side does, without an access outside the eight slots, and each step brings
  its return closer: a push returns within seven of its own steps, a pop within four.
\<close>

theorem spsc_wait_free:
  assumes "ring_sound r0" and "spsc_reachable r0 s"
  shows "(push_returned (q_push s) \<or>
      (\<exists>pc r. push_step (q_push s) (q_ring s) = Some (pc, r) \<and> push_left pc < push_left (q_push s))) \<and>
    (pop_returned (q_pop s) \<or>
      (\<exists>pc r. pop_step (q_pop s) (q_ring s) = Some (pc, r) \<and> pop_left pc < pop_left (q_pop s))) \<and>
    push_left (q_push s) \<le> 7 \<and> pop_left (q_pop s) \<le> 4"
  using spsc_reachable_inv [OF assms(2,1)] push_progress [of "q_ring s" "q_push s"] pop_progress [of "q_ring s" "q_pop s"]
  by (cases "q_push s"; cases "q_pop s"; auto simp: spsc_inv_def ring_soundD)

theorem spsc_wait_free_witness:
  "\<exists>s. spsc_reachable empty_ring s \<and> length (q_got s) = 1 \<and>
    (push_returned (q_push s) \<or> (\<exists>pc r. push_step (q_push s) (q_ring s) = Some (pc, r)))"
  using sample_reachable spsc_wait_free [OF ring_sound_empty] by metis

end
