(* ===== verification/Cpu3_Worker_Steps.thy ===== *)
theory Cpu3_Worker_Steps
  imports Cpu3_Doorbell
begin

text \<open>
  The worker of the firmware taken apart into its accesses to what it shares with the interrupt
  handler and with Linux: the semaphore, the pending word and the request rings.  One iteration
  of the service loop is one step.  Undisturbed, the steps are the pass of \<open>mailmsg_worker\<close>.
\<close>

text \<open>The local variables of \<open>mailmsg_worker\<close> and of the service it calls.\<close>

record service_locals =
  sl_pending :: u32
  sl_messages :: u32
  sl_last :: u32
  sl_resched :: u32

text \<open>
  \<open>Worker_drain l p ps n request handled\<close>: in the loop of priority \<open>p\<close>, with \<open>n\<close> left of the quota
  and the priorities \<open>ps\<close> to come.
\<close>

datatype worker_pc =
    Worker_wait
  | Worker_woken
  | Worker_scan service_locals "u32 list"
  | Worker_drain service_locals u32 "u32 list" nat mailmsg_message nat
  | Worker_check service_locals u32 "u32 list" nat
  | Worker_finish service_locals
  | Worker_give service_locals
  | Worker_off

text \<open>One iteration of the service loop, and whether the loop goes on.\<close>

definition service_once ::
  "cpu3_config \<Rightarrow> u32 \<Rightarrow> mailmsg_message \<Rightarrow> u32 \<Rightarrow> nat \<Rightarrow> cpu3_state \<Rightarrow> (bool \<times> mailmsg_message \<times> cpu3_state \<times> u32 \<times> nat) option" where
  "service_once cfg p request messages handled w = do {
     (pop_ret, ep, sh, request') \<leftarrow> mailmsg_endpoint_receive (cpu3_endpoint w) (pg_mailmsg (c_page w)) p request;
     (w', messages', handled') \<leftarrow> service_priority cfg 1 p request messages handled w;
     Some (pop_ret = 0 \<and> \<not> c_halted w', request', w', messages', handled') }"

fun worker_step :: "cpu3_config \<Rightarrow> worker_pc \<Rightarrow> cpu3_state \<Rightarrow> (worker_pc \<times> cpu3_state) option" where
  "worker_step cfg Worker_wait w =
     (if mailmsg_work_sem w = 0 then None
      else Some (Worker_woken, w\<lparr>mailmsg_work_sem := mailmsg_work_sem w - 1,
                                 mailmsg_worker_wake_count := mailmsg_worker_wake_count w + 1\<rparr>))"
| "worker_step cfg Worker_woken w =
     (let pending = mailmsg_pending_priorities w;
          w = w\<lparr>mailmsg_pending_priorities := 0\<rparr>;
          l = \<lparr>sl_pending = pending, sl_messages = 0, sl_last = MAILMSG_PRIORITY_COUNT, sl_resched = 0\<rparr> in
      if pending = 0
      then Some (Worker_wait, mailmsg_publish_worker_observation 0 MAILMSG_PRIORITY_COUNT
             (w\<lparr>mailmsg_worker_empty_wake_count := mailmsg_worker_empty_wake_count w + 1\<rparr>))
      else
        let w = w\<lparr>mailmsg_worker_drain_count := mailmsg_worker_drain_count w + 1\<rparr>
        in Some (if \<not> mailmsg_endpoint_ready w \<or> \<not> cfg_skip_session_ready cfg \<and> \<not> mailmsg_session_ready_published w
                 then Worker_finish l else Worker_scan l [0, 1, 2, 3], w))"
| "worker_step cfg (Worker_scan l []) w = Some (Worker_finish l, w)"
| "worker_step cfg (Worker_scan l (p # ps)) w =
     Some (if sl_pending l AND BIT p = 0 \<or> p = cfg_skip_priority cfg then Worker_scan l ps
           else Worker_drain (l\<lparr>sl_last := p\<rparr>) p ps MAILMSG_WORKER_DRAIN_QUOTA (cfg_stack_message cfg) 0, w)"
| "worker_step cfg (Worker_drain l p ps 0 request handled) w = Some (Worker_check l p ps handled, w)"
| "worker_step cfg (Worker_drain l p ps (Suc n) request handled) w = do {
     (go, request, w, messages, handled) \<leftarrow> service_once cfg p request (sl_messages l) handled w;
     Some (if c_halted w then Worker_off
           else if go then Worker_drain (l\<lparr>sl_messages := messages\<rparr>) p ps n request handled
           else Worker_check (l\<lparr>sl_messages := messages\<rparr>) p ps handled, w) }"
| "worker_step cfg (Worker_check l p ps handled) w =
     Some (Worker_scan (if handled = MAILMSG_WORKER_DRAIN_QUOTA \<and>
                           mailmsg_endpoint_has_received (cpu3_endpoint w) (pg_mailmsg (c_page w)) p = 1
                        then l\<lparr>sl_resched := sl_resched l OR BIT p\<rparr> else l) ps, w)"
| "worker_step cfg (Worker_finish l) w =
     (let w = w\<lparr>mailmsg_worker_message_count := mailmsg_worker_message_count w + sl_messages l\<rparr> in
      if sl_resched l \<noteq> 0
      then Some (Worker_give l, w\<lparr>mailmsg_pending_priorities := mailmsg_pending_priorities w OR sl_resched l\<rparr>)
      else Some (Worker_wait, mailmsg_publish_worker_observation (sl_pending l) (sl_last l) w))"
| "worker_step cfg (Worker_give l) w =
     Some (Worker_wait, mailmsg_publish_worker_observation (sl_pending l) (sl_last l) (k_sem_give w))"
| "worker_step cfg Worker_off w = None"

text \<open>The steps of the worker when nothing interferes, up to the end of its pass.\<close>

inductive worker_runs :: "cpu3_config \<Rightarrow> worker_pc \<Rightarrow> cpu3_state \<Rightarrow> cpu3_state \<Rightarrow> bool" for cfg where
  waits: "worker_runs cfg Worker_wait w w"
| off: "worker_runs cfg Worker_off w w"
| step: "worker_step cfg pc w = Some (pc', w') \<Longrightarrow> pc \<noteq> Worker_wait \<Longrightarrow> worker_runs cfg pc' w' w'' \<Longrightarrow> worker_runs cfg pc w w''"

text \<open>Nothing of the loop is lost by the split.\<close>

lemma send_halted [simp]:
  "cpu3_send cfg p ty bs len w = Some (r, res, w') \<Longrightarrow> c_halted w' = c_halted w"
  "c_halted (mailmsg_record_tx_full p ty res w) = c_halted w"
  by (auto simp: cpu3_send_def mailmsg_record_tx_full_def mailmsg_publish_tx_full_observation_def Let_def split: bind_splits)

lemma reply_halted [simp]:
  "mailmsg_send_feedback cfg p ty s r w = Some (b, w') \<Longrightarrow> c_halted w' = c_halted w"
  "mailmsg_send_stop_feedback cfg ty s r w = Some (b, w') \<Longrightarrow> c_halted w' = c_halted w"
  "mailmsg_send_pong cfg p f w = Some (b, w') \<Longrightarrow> c_halted w' = c_halted w"
  by (auto simp: mailmsg_send_feedback_def mailmsg_send_stop_feedback_def mailmsg_send_pong_def Let_def split: bind_splits if_split_asm)

lemma cpu_off_halted [simp]: "c_halted (mailmsg_cpu_off_after_ready cfg w)"
  by (simp add: mailmsg_cpu_off_after_ready_def Let_def)

text \<open>After a good frame the loop goes on from a state that does not depend on the rest of the quota, or the core is off.\<close>

lemma service_good_frame:
  assumes "mailmsg_endpoint_receive (cpu3_endpoint w) (pg_mailmsg (c_page w)) p m = Some (0, ep, sh, f)" and "\<not> c_halted w"
  obtains (fails) "\<And>n. service_priority cfg (Suc n) p m msgs h w = None"
  | (off) v where "\<And>n. service_priority cfg (Suc n) p m msgs h w = Some (v, msgs + 1, Suc h)" "c_halted v"
  | (goes_on) v where "\<And>n. service_priority cfg (Suc n) p m msgs h w = service_priority cfg n p f (msgs + 1) (Suc h) v" "\<not> c_halted v"
proof -
  let ?w = "w\<lparr>cpu3_endpoint := ep, c_page := (c_page w)\<lparr>pg_mailmsg := sh\<rparr>\<rparr>"
  have eq: "service_priority cfg (Suc n) p m msgs h w =
     (if p = 0 \<and> msg_type f = MAILMSG_MSG_STOP_REQUEST then
        if msg_length f \<noteq> 0 then do {
          (_, w) \<leftarrow> mailmsg_send_stop_feedback cfg MAILMSG_MSG_STOP_REFUSED (msg_sequence f) MAILMSG_STOP_REFUSED_INVALID_REQUEST ?w;
          service_priority cfg n p f (msgs + 1) (Suc h) w }
        else if cfg_enable_stop_control cfg then do {
          (sent, w) \<leftarrow> mailmsg_send_stop_feedback cfg MAILMSG_MSG_STOP_READY (msg_sequence f) 0 ?w;
          if sent then Some (mailmsg_cpu_off_after_ready cfg w, msgs + 1, Suc h)
          else service_priority cfg n p f (msgs + 1) (Suc h) w }
        else do {
          (_, w) \<leftarrow> mailmsg_send_stop_feedback cfg MAILMSG_MSG_STOP_REFUSED (msg_sequence f) MAILMSG_STOP_REFUSED_BUSY ?w;
          service_priority cfg n p f (msgs + 1) (Suc h) w }
      else if p = 0 \<and> msg_type f = MAILMSG_MSG_PING \<and> msg_length f = 4 \<and> cfg_self_off_value cfg = Some (mailmsg_payload_u32 (msg_payload f) 0)
      then Some (mailmsg_cpu_off_after_ready cfg ?w, msgs + 1, Suc h)
      else do {
        (_, w) \<leftarrow> (if mailmsg_priority_is_reliable p then mailmsg_send_feedback cfg p MAILMSG_MSG_ACK (msg_sequence f) 0 ?w else Some (True, ?w));
        (_, w) \<leftarrow> mailmsg_send_pong cfg p f w;
        service_priority cfg n p f (msgs + 1) (Suc h) w })" for n
    by (subst service_priority.simps(2)) (simp add: assms(1) Let_def)
  have w: "\<not> c_halted ?w" using assms(2) by simp
  show thesis
  proof (cases "p = 0 \<and> msg_type f = MAILMSG_MSG_STOP_REQUEST")
    case stop: True
    let ?fb = "if msg_length f \<noteq> 0 then mailmsg_send_stop_feedback cfg MAILMSG_MSG_STOP_REFUSED (msg_sequence f) MAILMSG_STOP_REFUSED_INVALID_REQUEST ?w
      else if cfg_enable_stop_control cfg then mailmsg_send_stop_feedback cfg MAILMSG_MSG_STOP_READY (msg_sequence f) 0 ?w
      else mailmsg_send_stop_feedback cfg MAILMSG_MSG_STOP_REFUSED (msg_sequence f) MAILMSG_STOP_REFUSED_BUSY ?w"
    show thesis
    proof (cases ?fb)
      case None
      then show thesis using stop by (intro fails) (subst eq, simp split: if_split_asm)
    next
      case (Some bv)
      obtain b v where v: "?fb = Some (b, v)" using Some by (cases bv) simp
      have nh: "\<not> c_halted v" using v w by (auto split: if_split_asm)
      show thesis
      proof (cases "msg_length f = 0 \<and> cfg_enable_stop_control cfg \<and> b")
        case True
        then show thesis using stop v by (intro off [of "mailmsg_cpu_off_after_ready cfg v"]) (subst eq, simp_all)
      next
        case False
        then show thesis using stop v nh by (intro goes_on [of v]) (subst eq, auto split: if_split_asm)
      qed
    qed
  next
    case nstop: False
    show thesis
    proof (cases "p = 0 \<and> msg_type f = MAILMSG_MSG_PING \<and> msg_length f = 4 \<and> cfg_self_off_value cfg = Some (mailmsg_payload_u32 (msg_payload f) 0)")
      case True
      then show thesis by (intro off [of "mailmsg_cpu_off_after_ready cfg ?w"]) (subst eq, simp_all)
    next
      case False
      let ?ack = "if mailmsg_priority_is_reliable p then mailmsg_send_feedback cfg p MAILMSG_MSG_ACK (msg_sequence f) 0 ?w else Some (True, ?w)"
      have eq': "service_priority cfg (Suc n) p m msgs h w = do { (_, w) \<leftarrow> ?ack; (_, w) \<leftarrow> mailmsg_send_pong cfg p f w;
          service_priority cfg n p f (msgs + 1) (Suc h) w }" for n
        by (subst eq) (use nstop False in auto)
      show thesis
      proof (cases "do { (_, w) \<leftarrow> ?ack; mailmsg_send_pong cfg p f w }")
        case None
        then show thesis by (intro fails) (subst eq', auto split: bind_splits)
      next
        case (Some bv)
        then obtain b1 v1 b2 v2 where v: "?ack = Some (b1, v1)" "mailmsg_send_pong cfg p f v1 = Some (b2, v2)"
          by (cases bv) (auto split: bind_splits)
        have "\<not> c_halted v1" using v(1) w by (auto split: if_split_asm)
        with v show thesis by (intro goes_on [of v2]) (subst eq', simp_all)
      qed
    qed
  qed
qed

lemma service_unroll:
  assumes "\<not> c_halted w" and "service_priority cfg (Suc n) p m msgs h w = Some r"
  obtains go f w' msgs' h' where "service_once cfg p m msgs h w = Some (go, f, w', msgs', h')"
    "(if go then service_priority cfg n p f msgs' h' w' else Some (w', msgs', h')) = Some r" "c_halted w' \<longrightarrow> \<not> go"
proof -
  obtain ret ep sh f where rx: "mailmsg_endpoint_receive (cpu3_endpoint w) (pg_mailmsg (c_page w)) p m = Some (ret, ep, sh, f)"
    using assms(2) by (auto split: bind_splits)
  show thesis
  proof (cases "ret = 0")
    case False
    then have "service_priority cfg (Suc n) p m msgs h w = service_priority cfg 1 p m msgs h w"
      unfolding One_nat_def by (simp add: rx)
    moreover obtain w1 msgs1 h1 where "r = (w1, msgs1, h1)" by (cases r)
    ultimately have "service_priority cfg 1 p m msgs h w = Some (w1, msgs1, h1)" "r = (w1, msgs1, h1)"
      using assms(2) by (simp_all del: service_priority.simps)
    with False rx show thesis by (intro that [of False f w1 msgs1 h1]) (simp_all add: service_once_def del: service_priority.simps)
  next
    case True
    note rx = rx [unfolded True]
    show thesis
    proof (cases rule: service_good_frame [OF rx assms(1), of cfg msgs h, case_names fails off goes_on])
      case fails
      with assms(2) show thesis by simp
    next
      case (off v)
      then have "r = (v, msgs + 1, Suc h)" "service_priority cfg 1 p m msgs h w = Some (v, msgs + 1, Suc h)"
        using assms(2) by (simp_all add: One_nat_def del: service_priority.simps)
      with off(2) rx show thesis
        by (intro that [of False f v "msgs + 1" "Suc h"]) (simp_all add: service_once_def del: service_priority.simps)
    next
      case (goes_on v)
      have "service_priority cfg 1 p m msgs h w = Some (v, msgs + 1, Suc h)" using goes_on(1) [of 0] by (simp add: One_nat_def del: service_priority.simps(2))
      with goes_on assms(2) rx show thesis
        by (intro that [of True f v "msgs + 1" "Suc h"]) (simp_all add: service_once_def del: service_priority.simps)
    qed
  qed
qed

lemma runs_step:
  "worker_runs cfg pc' w' w'' \<Longrightarrow> worker_step cfg pc w = Some (pc', w') \<Longrightarrow> pc \<noteq> Worker_wait \<Longrightarrow> worker_runs cfg pc w w''"
  by (rule worker_runs.step)

lemma drain_runs:
  assumes "service_priority cfg n p m (sl_messages l) h w = Some (w', msgs', h')" and "\<not> c_halted w"
    and "worker_runs cfg (if c_halted w' then Worker_off else Worker_check (l\<lparr>sl_messages := msgs'\<rparr>) p ps h') w' w''"
  shows "worker_runs cfg (Worker_drain l p ps n m h) w w''"
  using assms
proof (induction n arbitrary: l m h w)
  case 0
  then have "worker_runs cfg (Worker_check l p ps h) w w''" by (auto split: if_split_asm)
  then show ?case by (rule runs_step) simp_all
next
  case (Suc n)
  obtain go f w1 msgs1 h1 where 1: "service_once cfg p m (sl_messages l) h w = Some (go, f, w1, msgs1, h1)"
    "(if go then service_priority cfg n p f msgs1 h1 w1 else Some (w1, msgs1, h1)) = Some (w', msgs', h')" "c_halted w1 \<longrightarrow> \<not> go"
    by (rule service_unroll [OF Suc.prems(2,1)])
  show ?case
  proof (cases go)
    case True
    with 1 have 2: "service_priority cfg n p f (sl_messages (l\<lparr>sl_messages := msgs1\<rparr>)) h1 w1 = Some (w', msgs', h')" "\<not> c_halted w1"
      by (simp_all del: service_priority.simps)
    have "worker_runs cfg (Worker_drain (l\<lparr>sl_messages := msgs1\<rparr>) p ps n f h1) w1 w''"
      by (rule Suc.IH [OF 2]) (use Suc.prems(3) in \<open>auto split: if_split_asm\<close>)
    then show ?thesis by (rule runs_step) (use 1(1) 2(2) True in simp_all)
  next
    case False
    have "worker_runs cfg (if c_halted w1 then Worker_off else Worker_check (l\<lparr>sl_messages := msgs1\<rparr>) p ps h1) w1 w''"
      using False 1(2) Suc.prems(3) by (auto split: if_split_asm)
    then show ?thesis by (rule runs_step) (use 1(1) False in simp_all)
  qed
qed

lemma scan_runs:
  assumes "service_priorities cfg (sl_pending l) ps (sl_messages l) (sl_last l) (sl_resched l) w = Some (w', m', l', r')" and "\<not> c_halted w"
    and "worker_runs cfg (if c_halted w' then Worker_off else Worker_finish \<lparr>sl_pending = sl_pending l, sl_messages = m', sl_last = l', sl_resched = r'\<rparr>) w' w''"
  shows "worker_runs cfg (Worker_scan l ps) w w''"
  using assms
proof (induction ps arbitrary: l w)
  case Nil
  have e: "\<lparr>sl_pending = sl_pending l, sl_messages = sl_messages l, sl_last = sl_last l, sl_resched = sl_resched l\<rparr> = l" by simp
  have "worker_runs cfg (Worker_finish \<lparr>sl_pending = sl_pending l, sl_messages = sl_messages l, sl_last = sl_last l, sl_resched = sl_resched l\<rparr>) w w''"
    using Nil by (auto split: if_split_asm)
  then have "worker_runs cfg (Worker_finish l) w w''" unfolding e .
  then show ?case by (rule runs_step) simp_all
next
  case (Cons p ps)
  show ?case
  proof (cases "sl_pending l AND BIT p = 0 \<or> p = cfg_skip_priority cfg")
    case True
    have "worker_runs cfg (Worker_scan l ps) w w''"
      by (rule Cons.IH) (use True Cons.prems in \<open>simp_all split: if_split_asm\<close>)
    then show ?thesis by (rule runs_step) (use True in simp_all)
  next
    case False
    let ?l = "l\<lparr>sl_last := p\<rparr>"
    obtain w1 msgs1 h1 where 1: "service_priority cfg MAILMSG_WORKER_DRAIN_QUOTA p (cfg_stack_message cfg) (sl_messages l) 0 w = Some (w1, msgs1, h1)"
      "(if c_halted w1 then Some (w1, msgs1, p, sl_resched l)
        else service_priorities cfg (sl_pending l) ps msgs1 p (if h1 = MAILMSG_WORKER_DRAIN_QUOTA \<and>
            mailmsg_endpoint_has_received (cpu3_endpoint w1) (pg_mailmsg (c_page w1)) p = 1 then sl_resched l OR BIT p else sl_resched l) w1) =
       Some (w', m', l', r')"
      using False Cons.prems(1) by (auto simp: Let_def simp del: service_priority.simps split: bind_splits if_split_asm)
    have "worker_runs cfg (if c_halted w1 then Worker_off else Worker_check (?l\<lparr>sl_messages := msgs1\<rparr>) p ps h1) w1 w''"
    proof (cases "c_halted w1")
      case True
      with 1(2) Cons.prems(3) show ?thesis by simp
    next
      case False
      let ?l1 = "if h1 = MAILMSG_WORKER_DRAIN_QUOTA \<and> mailmsg_endpoint_has_received (cpu3_endpoint w1) (pg_mailmsg (c_page w1)) p = 1
        then ?l\<lparr>sl_messages := msgs1, sl_resched := sl_resched l OR BIT p\<rparr> else ?l\<lparr>sl_messages := msgs1\<rparr>"
      have "worker_runs cfg (Worker_scan ?l1 ps) w1 w''"
        by (rule Cons.IH) (use False 1(2) Cons.prems(3) in \<open>auto split: if_split_asm\<close>)
      then have "worker_runs cfg (Worker_check (?l\<lparr>sl_messages := msgs1\<rparr>) p ps h1) w1 w''" by (rule runs_step) simp_all
      with False show ?thesis by simp
    qed
    then have "worker_runs cfg (Worker_drain ?l p ps MAILMSG_WORKER_DRAIN_QUOTA (cfg_stack_message cfg) 0) w w''"
      by (intro drain_runs [OF _ Cons.prems(2)]) (use 1(1) in \<open>simp_all del: service_priority.simps\<close>)
    then show ?thesis by (rule runs_step) (use False in simp_all)
  qed
qed

text \<open>Undisturbed, the steps of the worker are a pass of \<open>mailmsg_worker\<close>.\<close>

lemma worker_steps_alone:
  assumes "mailmsg_worker cfg w = Some w'" and "mailmsg_work_sem w \<noteq> 0" and "\<not> c_halted w"
  obtains w1 where "worker_step cfg Worker_wait w = Some (Worker_woken, w1)" "worker_runs cfg Worker_woken w1 w'"
proof
  let ?w1 = "w\<lparr>mailmsg_work_sem := mailmsg_work_sem w - 1, mailmsg_worker_wake_count := mailmsg_worker_wake_count w + 1\<rparr>"
  let ?p = "mailmsg_pending_priorities w"
  show "worker_step cfg Worker_wait w = Some (Worker_woken, ?w1)" using assms(2) by simp
  show "worker_runs cfg Worker_woken ?w1 w'"
  proof (cases "?p = 0")
    case True
    show ?thesis
      by (rule runs_step [OF worker_runs.waits]) (use True assms in \<open>auto simp: mailmsg_worker_def Let_def\<close>)
  next
    case False
    let ?w2 = "?w1\<lparr>mailmsg_pending_priorities := 0, mailmsg_worker_drain_count := mailmsg_worker_drain_count w + 1\<rparr>"
    let ?l = "\<lparr>sl_pending = ?p, sl_messages = 0, sl_last = MAILMSG_PRIORITY_COUNT, sl_resched = 0\<rparr>"
    obtain w3 m l r where 3: "mailmsg_pingpong_test_service cfg ?p MAILMSG_PRIORITY_COUNT 0 ?w2 = Some (w3, m, l, r)"
      and rest: "(if c_halted w3 then Some w3 else
          let w = w3\<lparr>mailmsg_worker_message_count := mailmsg_worker_message_count w3 + m\<rparr>;
              w = (if r \<noteq> 0 then k_sem_give (w\<lparr>mailmsg_pending_priorities := mailmsg_pending_priorities w OR r\<rparr>) else w)
          in Some (mailmsg_publish_worker_observation ?p l w)) = Some w'"
      using assms False by (auto simp: mailmsg_worker_def Let_def split: bind_splits if_split_asm)
    let ?f = "\<lparr>sl_pending = ?p, sl_messages = m, sl_last = l, sl_resched = r\<rparr>"
    have fin: "worker_runs cfg (Worker_finish ?f) w3 w'" if "\<not> c_halted w3"
    proof (cases "r = 0")
      case True
      show ?thesis by (rule runs_step [OF worker_runs.waits]) (use True that rest in \<open>simp_all add: Let_def\<close>)
    next
      case False
      let ?v = "w3\<lparr>mailmsg_worker_message_count := mailmsg_worker_message_count w3 + m,
          mailmsg_pending_priorities := mailmsg_pending_priorities w3 OR r\<rparr>"
      have "worker_runs cfg (Worker_give ?f) ?v w'"
        by (rule runs_step [OF worker_runs.waits]) (use False that rest in \<open>simp_all add: Let_def\<close>)
      then show ?thesis by (rule runs_step) (use False in \<open>simp_all add: Let_def\<close>)
    qed
    let ?idle = "\<not> mailmsg_endpoint_ready w \<or> \<not> cfg_skip_session_ready cfg \<and> \<not> mailmsg_session_ready_published w"
    have "worker_runs cfg (if ?idle then Worker_finish ?l else Worker_scan ?l [0, 1, 2, 3]) ?w2 w'"
    proof (cases ?idle)
      case True
      with 3 have "w3 = ?w2" "m = 0" "l = MAILMSG_PRIORITY_COUNT" "r = 0"
        by (auto simp: mailmsg_pingpong_test_service_def simp del: service_priorities.simps split: if_split_asm)
      with True fin assms(3) show ?thesis by simp
    next
      case nidle: False
      with 3 have sp: "service_priorities cfg (sl_pending ?l) [0, 1, 2, 3] (sl_messages ?l) (sl_last ?l) (sl_resched ?l) ?w2 = Some (w3, m, l, r)"
        by (auto simp: mailmsg_pingpong_test_service_def simp del: service_priorities.simps split: if_split_asm)
      have "worker_runs cfg (Worker_scan ?l [0, 1, 2, 3]) ?w2 w'"
        by (rule scan_runs [OF sp]) (use assms(3) fin rest in \<open>auto intro: worker_runs.off\<close>)
      with nidle show ?thesis by auto
    qed
    then show ?thesis
      by (rule runs_step) (use False in \<open>simp_all add: Let_def\<close>)
  qed
qed

end
