(* ===== verification/Cpu3_Wakeup.thy ===== *)
theory Cpu3_Wakeup
  imports Cpu3_Worker_Steps Cpu3_Behaviour
begin

text \<open>
  The doorbell protocol under concurrency.  The interrupt handler and the doorbell write of
  Linux are taken apart into their register accesses; the handler preempts the worker between
  any two of its steps and runs to its end, and Linux runs on another core.  The invariant says
  who is going to look at a request that is queued, and a measure bounds the work that is left:
  no request is stranded, however the accesses interleave.  The ring operations are single
  steps here; their interleaving is the subject of \<open>Mailmsg_Ring_Steps\<close>.
\<close>

subsection \<open>Interrupt handler and doorbell, access by access\<close>

text \<open>A register write changes no A2B command register but the one it names.\<close>

locale mailbox_latch = mailbox_hw +
  assumes cmd_stable: "ch < 4 \<Longrightarrow> off \<noteq> A2B_CMD ch \<Longrightarrow> wr regs off v (A2B_CMD ch) = regs (A2B_CMD ch)"

interpretation rkl: mailbox_latch rk_mbox_write
  by unfold_locales (auto elim!: ch_cases simp: rk_mbox_write_def A2B_CMD_def A2B_DAT_def B2A_CMD_def B2A_DAT_def)

text \<open>\<open>Isr_ack\<close> and \<open>Isr_record\<close> carry \<open>index\<close>, \<open>status\<close> and \<open>command\<close>.\<close>

datatype isr_pc = Isr_idle | Isr_read u32 | Isr_ack u32 u32 u32 | Isr_record u32 u32 u32

fun isr_step :: "cpu3_config \<Rightarrow> isr_pc \<Rightarrow> cpu3_state \<Rightarrow> (isr_pc \<times> cpu3_state) option" where
  "isr_step cfg (Isr_read index) w =
     (let channel = index mod 4; status = c_regs w A2B_STATUS;
          command = c_regs w (A2B_CMD channel); dat = c_regs w (A2B_DAT channel)
      in Some (Isr_ack index status command,
           if command AND 0xfffffff0 \<noteq> AMP_MBOX_PROTOCOL_CMD
           then w\<lparr>c_regs := cfg_mbox_write cfg (cfg_mbox_write cfg (c_regs w) (B2A_CMD channel) (0xb2a00000 OR index)) (B2A_DAT channel) dat\<rparr>
           else w))"
| "isr_step cfg (Isr_ack index status command) w =
     Some (Isr_record index status command, w\<lparr>c_regs := cfg_mbox_write cfg (c_regs w) A2B_STATUS (BIT (index mod 4))\<rparr>)"
| "isr_step cfg (Isr_record index status command) w =
     (let w = set_observation status (c_regs w A2B_STATUS) (push_bit 16 (index div 4) OR BIT (index mod 4)) MARK_A2B_CLEAR_PROBE w
      in Some (Isr_idle,
           if command AND 0xfffffff0 = AMP_MBOX_PROTOCOL_CMD \<or> command = (AMP_MBOX_RAW_TEST_CMD OR index)
           then k_sem_give (w\<lparr>mailmsg_pending_priorities := mailmsg_pending_priorities w OR BIT (index mod 4),
                              mailmsg_irq_count := mailmsg_irq_count w + 1\<rparr>)
           else w))"
| "isr_step cfg Isr_idle w = None"

lemma isr_steps_alone:
  "do { (pc, w) \<leftarrow> isr_step cfg (Isr_read i) w; (pc, w) \<leftarrow> isr_step cfg pc w; isr_step cfg pc w } =
   Some (Isr_idle, mailmsg_mailbox_a2b_matrix_isr cfg i w)"
  by (simp add: mailmsg_mailbox_a2b_matrix_isr_def set_observation_def Let_def)

text \<open>
  The doorbell write of the driver (\<open>r1_amp_mbox_direct_send_locked\<close>, under the lock of the driver):
  read the status; if the bit is clear, write the command and then the data register.
\<close>

datatype bell_pc = Bell_idle | Bell_read u32 u32 u32 | Bell_cmd u32 u32 u32 | Bell_dat u32 u32 u32

fun bell_step :: "mmio_write \<Rightarrow> bell_pc \<Rightarrow> mbox_regs \<Rightarrow> (bell_pc \<times> mbox_regs) option" where
  "bell_step wr (Bell_read ch command value) regs =
     Some (if regs A2B_STATUS AND BIT ch \<noteq> 0 then Bell_idle else Bell_cmd ch command value, regs)"
| "bell_step wr (Bell_cmd ch command value) regs = Some (Bell_dat ch command value, wr regs (A2B_CMD ch) command)"
| "bell_step wr (Bell_dat ch command value) regs = Some (Bell_idle, wr regs (A2B_DAT ch) value)"
| "bell_step wr Bell_idle regs = None"

fun bell_finish :: "nat \<Rightarrow> mmio_write \<Rightarrow> bell_pc \<Rightarrow> mbox_regs \<Rightarrow> mbox_regs option" where
  "bell_finish n wr Bell_idle regs = Some regs"
| "bell_finish (Suc n) wr pc regs = do { (pc, regs) \<leftarrow> bell_step wr pc regs; bell_finish n wr pc regs }"
| "bell_finish 0 wr pc regs = None"

lemma bell_steps_alone:
  "bell_finish 3 wr (Bell_read (controller_channel (mbox c ! unat i)) command value) (mbox_regs0 c) =
   Some (mbox_regs0 (snd (r1_amp_mbox_direct_send_locked wr c i command value)))"
  by (simp add: numeral_eq_Suc r1_amp_mbox_direct_send_locked_def Let_def)

text \<open>A command that makes the handler of channel \<open>i\<close> wake the worker.\<close>

definition wakes :: "u32 \<Rightarrow> u32 \<Rightarrow> bool" where
  "wakes i command \<longleftrightarrow> command AND 0xfffffff0 = AMP_MBOX_PROTOCOL_CMD \<or> command = (AMP_MBOX_RAW_TEST_CMD OR i)"

lemma wakes_doorbell: "p < 4 \<Longrightarrow> wakes p (R1_AMP_MAILMSG_DOORBELL OR p)"
  by (erule ch_cases) (simp_all add: wakes_def)

subsection \<open>The interleaved system\<close>

record doorbells =
  db_cpu3 :: cpu3_state
  db_worker :: worker_pc
  db_isr :: isr_pc
  db_linux :: bell_pc

text \<open>A frame that Linux may queue: current, intact and no request to switch the core off.\<close>

definition linux_frame :: "cpu3_config \<Rightarrow> cpu3_state \<Rightarrow> u32 \<Rightarrow> mailmsg_message \<Rightarrow> bool" where
  "linux_frame cfg w p m \<longleftrightarrow> message_wf m \<and> frame_valid m \<and>
     receive_status (ep_generation (cpu3_endpoint w)) (seal m) = 0 \<and> ordinary cfg p (seal m)"

definition set_in_ring :: "u32 \<Rightarrow> mailmsg_ring \<Rightarrow> cpu3_state \<Rightarrow> cpu3_state" where
  "set_in_ring p r w = w\<lparr>c_page := (c_page w)\<lparr>pg_mailmsg := set_shared_ring (pg_mailmsg (c_page w)) Linux_to_cpu3 p r\<rparr>\<rparr>"

text \<open>The work that is under way: the worker, the handler, the doorbell write of Linux.\<close>

inductive work_step :: "cpu3_config \<Rightarrow> doorbells \<Rightarrow> doorbells \<Rightarrow> bool" for cfg where
  worker: "db_isr s = Isr_idle \<Longrightarrow> worker_step cfg (db_worker s) (db_cpu3 s) = Some (pc, w) \<Longrightarrow>
    work_step cfg s (s\<lparr>db_worker := pc, db_cpu3 := w\<rparr>)"
| irq: "db_isr s = Isr_idle \<Longrightarrow> c_irq_enabled (db_cpu3 s) \<Longrightarrow> i < 4 \<Longrightarrow> a2b_pending (c_regs (db_cpu3 s)) i \<Longrightarrow>
    work_step cfg s (s\<lparr>db_isr := Isr_read i\<rparr>)"
| isr: "isr_step cfg (db_isr s) (db_cpu3 s) = Some (pc, w) \<Longrightarrow> work_step cfg s (s\<lparr>db_isr := pc, db_cpu3 := w\<rparr>)"
| bell: "bell_step (cfg_mbox_write cfg) (db_linux s) (c_regs (db_cpu3 s)) = Some (pc, regs) \<Longrightarrow>
    work_step cfg s (s\<lparr>db_linux := pc, db_cpu3 := (db_cpu3 s)\<lparr>c_regs := regs\<rparr>\<rparr>)"

text \<open>
  What starts new work or leaves it alone: a frame queued by Linux, announced next; a doorbell
  without a frame; Linux taking replies; a pass of the main thread while the worker sleeps.
\<close>

inductive new_step :: "cpu3_config \<Rightarrow> doorbells \<Rightarrow> doorbells \<Rightarrow> bool" for cfg where
  request: "db_linux s = Bell_idle \<Longrightarrow> p < 4 \<Longrightarrow> linux_frame cfg (db_cpu3 s) p m \<Longrightarrow>
    mailmsg_ring_push (shared_ring (pg_mailmsg (c_page (db_cpu3 s))) Linux_to_cpu3 p) m = Some (0, r) \<Longrightarrow>
    new_step cfg s (s\<lparr>db_cpu3 := set_in_ring p r (db_cpu3 s), db_linux := Bell_read p (R1_AMP_MAILMSG_DOORBELL OR p) p\<rparr>)"
| doorbell: "db_linux s = Bell_idle \<Longrightarrow> p < 4 \<Longrightarrow>
    new_step cfg s (s\<lparr>db_linux := Bell_read p (AMP_MBOX_RAW_TEST_CMD OR p) v\<rparr>)"
| reader: "linux_acts (db_cpu3 s) (c_regs (db_cpu3 s)) pg \<Longrightarrow>
    (\<forall>q < 4. ring_frames (shared_ring (pg_mailmsg pg) Linux_to_cpu3 q) = fw_in (db_cpu3 s) q) \<Longrightarrow>
    new_step cfg s (s\<lparr>db_cpu3 := (db_cpu3 s)\<lparr>c_page := pg\<rparr>\<rparr>)"
| main: "db_isr s = Isr_idle \<Longrightarrow> db_worker s = Worker_wait \<Longrightarrow> cpu3_main_pass cfg (db_cpu3 s) = Some w \<Longrightarrow>
    new_step cfg s (s\<lparr>db_cpu3 := w\<rparr>)"

definition doorbells_start :: "cpu3_state \<Rightarrow> doorbells" where
  "doorbells_start w = \<lparr>db_cpu3 = w, db_worker = Worker_wait, db_isr = Isr_idle, db_linux = Bell_idle\<rparr>"

text \<open>A firmware that serves its session, with nothing queued and nothing recorded.\<close>

definition serving :: "cpu3_config \<Rightarrow> cpu3_state \<Rightarrow> bool" where
  "serving cfg w \<longleftrightarrow> cpu3_ok cfg w \<and> mailmsg_endpoint_ready w \<and> (cfg_skip_session_ready cfg \<or> mailmsg_session_ready_published w) \<and>
     \<not> c_halted w \<and> c_irq_enabled w \<and> mailmsg_work_sem w \<le> 1"

inductive doorbells_reachable :: "cpu3_config \<Rightarrow> cpu3_state \<Rightarrow> doorbells \<Rightarrow> bool" for cfg w0 where
  start: "doorbells_reachable cfg w0 (doorbells_start w0)"
| work: "doorbells_reachable cfg w0 s \<Longrightarrow> work_step cfg s s' \<Longrightarrow> doorbells_reachable cfg w0 s'"
| new: "doorbells_reachable cfg w0 s \<Longrightarrow> new_step cfg s s' \<Longrightarrow> doorbells_reachable cfg w0 s'"

subsection \<open>Registers\<close>

definition a2b_same :: "mbox_regs \<Rightarrow> mbox_regs \<Rightarrow> bool" where
  "a2b_same regs regs' \<longleftrightarrow> regs' A2B_STATUS = regs A2B_STATUS \<and> (\<forall>q < 4. regs' (A2B_CMD q) = regs (A2B_CMD q))"

lemma a2b_same_refl: "a2b_same regs regs"
  by (simp add: a2b_same_def)

lemma a2b_same_trans: "a2b_same r r' \<Longrightarrow> a2b_same r' r'' \<Longrightarrow> a2b_same r r''"
  by (simp add: a2b_same_def)

lemma cmd_registers:
  assumes "q < 4" and "p < 4"
  shows "A2B_CMD p = A2B_CMD q \<longleftrightarrow> p = q" "A2B_DAT p \<noteq> A2B_CMD q" "B2A_CMD p \<noteq> A2B_CMD q" "B2A_DAT p \<noteq> A2B_CMD q" "A2B_STATUS \<noteq> A2B_CMD q"
  using assms(1)
  by (rule ch_cases; use assms(2) in \<open>auto elim!: ch_cases simp: A2B_CMD_def A2B_DAT_def B2A_CMD_def B2A_DAT_def\<close>)+

context mailbox_latch
begin

lemma b2a_write_same:
  "p < 4 \<Longrightarrow> a2b_same regs (wr regs (B2A_CMD p) v)" "p < 4 \<Longrightarrow> a2b_same regs (wr regs (B2A_DAT p) v)"
  by (simp_all add: a2b_same_def b2a_a2b cmd_stable cmd_registers)

lemma echo_same: "p < 4 \<Longrightarrow> a2b_same regs (wr (wr regs (B2A_CMD p) u) (B2A_DAT p) v)"
  using b2a_write_same a2b_same_trans by blast

lemma notify_same: "p < 4 \<Longrightarrow> a2b_same regs (snd (mailmsg_cpu3_notify wr regs p))"
  by (rule cpu3_notify_cases [of p regs wr]) (simp_all add: a2b_same_refl echo_same)

lemma ack_registers:
  assumes "i < 4" and "q < 4"
  shows "a2b_pending (wr regs A2B_STATUS (BIT i)) q \<longleftrightarrow> a2b_pending regs q \<and> q \<noteq> i"
    "wr regs A2B_STATUS v (A2B_CMD q) = regs (A2B_CMD q)"
proof -
  have "bit (BIT i) (unat q) \<longleftrightarrow> q = i" using bit_or_BIT [OF assms, of 0] by simp
  then show "a2b_pending (wr regs A2B_STATUS (BIT i)) q \<longleftrightarrow> a2b_pending regs q \<and> q \<noteq> i"
    using unat_less_4 [OF assms(2)] by (simp add: a2b_pending_def a2b_w1c bit_and_iff bit_not_iff)
  show "wr regs A2B_STATUS v (A2B_CMD q) = regs (A2B_CMD q)" by (rule cmd_stable [OF assms(2)]) (rule cmd_registers(5) [OF assms(2,1)])
qed

lemma bell_registers:
  assumes "p < 4" and "q < 4"
  shows "a2b_pending (wr regs (A2B_CMD p) v) q = a2b_pending regs q"
    "a2b_pending (wr regs (A2B_DAT p) v) q \<longleftrightarrow> a2b_pending regs q \<or> q = p"
    "wr regs (A2B_CMD p) v (A2B_CMD q) = (if q = p then v else regs (A2B_CMD q))"
    "wr regs (A2B_DAT p) v (A2B_CMD q) = regs (A2B_CMD q)"
  using assms cmd_registers(1,2) [OF assms(2,1)] a2b_cmd_holds [OF assms(1)]
  by (auto simp: a2b_pending_def a2b_dat_status a2b_cmd_status bit_or_exp cmd_stable)

end

subsection \<open>One iteration of the service\<close>

lemma reply_a2b:
  assumes "mailbox_latch (cfg_mbox_write cfg)" and "cpu3_ok cfg w" and "p < 4"
  shows "mailmsg_send_feedback cfg p ty s r w = Some (b, w') \<Longrightarrow> a2b_same (c_regs w) (c_regs w')"
    "mailmsg_send_pong cfg p f w = Some (b, w') \<Longrightarrow> a2b_same (c_regs w) (c_regs w')"
proof -
  have send: "a2b_same (c_regs w) (c_regs v)" if "cpu3_send cfg p t bs len w = Some (ret, res, v)" "len \<le> 28" "unat len \<le> length bs" for t bs len ret res v
    by (rule cpu3_send_spec [OF assms(2,3) that(2,3), of t])
       (use that(1) mailbox_latch.notify_same [OF assms(1,3)] in \<open>auto simp: a2b_same_refl\<close>)
  show "mailmsg_send_feedback cfg p ty s r w = Some (b, w') \<Longrightarrow> a2b_same (c_regs w) (c_regs w')"
    using send by (fastforce simp: mailmsg_send_feedback_def record_tx_full_same split: bind_splits if_split_asm)
  show "mailmsg_send_pong cfg p f w = Some (b, w') \<Longrightarrow> a2b_same (c_regs w) (c_regs w')"
    using send by (fastforce simp: mailmsg_send_pong_def record_tx_full_same Let_def split: bind_splits if_split_asm)
qed

lemma service_once_empty:
  assumes "cpu3_ok cfg w" and "p < 4" and "fw_in w p = []"
  shows "service_once cfg p m msgs h w = Some (False, m, w, msgs, h)"
proof (cases rule: fw_receive_cases [OF assms(1,2), of m, case_names empty incomplete frame])
  case empty
  then show ?thesis by (simp add: service_once_def)
qed (use assms(3) in simp_all)

lemma service_once_ordinary:
  assumes "mailbox_latch (cfg_mbox_write cfg)" and "cpu3_ok cfg w" and "p < 4" and "\<not> c_halted w"
    and "fw_in w p = f # fs" and "receive_status (ep_generation (cpu3_endpoint w)) f = 0" and "ordinary cfg p f"
  obtains w' where "service_once cfg p m msgs h w = Some (True, f, w', msgs + 1, Suc h)" "cpu3_ok cfg w'" "same_service p w w'"
    "fw_in w' p = fs" "a2b_same (c_regs w) (c_regs w')"
proof (cases rule: fw_receive_cases [OF assms(2,3), of m, case_names empty incomplete frame])
  case (frame f' fs' ep sh w1)
  have ff: "f' = f" "fs' = fs" using frame(1) assms(5) by simp_all
  let ?ack = "if mailmsg_priority_is_reliable p then mailmsg_send_feedback cfg p MAILMSG_MSG_ACK (msg_sequence f) 0 w1 else Some (True, w1)"
  obtain b2 w2 where 2: "?ack = Some (b2, w2)" "cpu3_ok cfg w2" "same_service p w1 w2" "fw_in w2 p = fw_in w1 p" "a2b_same (c_regs w1) (c_regs w2)"
  proof (cases "mailmsg_priority_is_reliable p")
    case True
    show thesis
      by (rule feedback_spec [OF frame(5) assms(3), of MAILMSG_MSG_ACK "msg_sequence f" 0])
         (use True that reply_a2b(1) [OF assms(1) frame(5) assms(3)] in auto)
  next
    case False
    with frame(5) show thesis by (intro that [of True w1]) (simp_all add: same_service_refl a2b_same_refl)
  qed
  obtain b3 w3 where 3: "mailmsg_send_pong cfg p f w2 = Some (b3, w3)" "cpu3_ok cfg w3" "same_service p w2 w3" "fw_in w3 p = fw_in w2 p"
    "a2b_same (c_regs w2) (c_regs w3)"
    by (rule pong_spec [OF 2(2) assms(3), of f]) (use that reply_a2b(2) [OF assms(1) 2(2) assms(3)] in auto)
  have s: "same_service p w w3" using frame(6) 2(3) 3(3) same_service_trans by blast
  have "service_priority cfg 1 p m msgs h w = Some (w3, msgs + 1, Suc h)"
    unfolding One_nat_def using frame(3,4) 2(1) 3(1) assms(6,7) ff by (auto simp: ordinary_def)
  moreover have "\<not> c_halted w3" using s assms(4) by (simp add: same_service_def)
  ultimately show thesis
    using frame 2 3 s assms(6) ff a2b_same_trans [OF 2(5) 3(5)]
    by (intro that [of w3]) (simp_all add: service_once_def del: service_priority.simps)
qed (use assms(5,6) in \<open>simp_all add: receive_status_def\<close>)

subsection \<open>Who looks at a queued request\<close>

text \<open>The worker is going to look at the ring of priority \<open>p\<close> in this pass or has put it down for the next.\<close>

fun will_serve :: "worker_pc \<Rightarrow> u32 \<Rightarrow> bool" where
  "will_serve (Worker_scan l ps) p \<longleftrightarrow> p \<in> set ps \<and> bit (sl_pending l) (unat p) \<or> bit (sl_resched l) (unat p)"
| "will_serve (Worker_drain l q ps n m h) p \<longleftrightarrow> q = p \<or> p \<in> set ps \<and> bit (sl_pending l) (unat p) \<or> bit (sl_resched l) (unat p)"
| "will_serve (Worker_check l q ps h) p \<longleftrightarrow> q = p \<and> h = MAILMSG_WORKER_DRAIN_QUOTA \<or>
     p \<in> set ps \<and> bit (sl_pending l) (unat p) \<or> bit (sl_resched l) (unat p)"
| "will_serve (Worker_finish l) p \<longleftrightarrow> bit (sl_resched l) (unat p)"
| "will_serve _ p \<longleftrightarrow> False"

fun will_ring :: "bell_pc \<Rightarrow> u32 \<Rightarrow> bool" where
  "will_ring (Bell_read ch command value) p \<longleftrightarrow> ch = p"
| "will_ring (Bell_cmd ch command value) p \<longleftrightarrow> ch = p"
| "will_ring (Bell_dat ch command value) p \<longleftrightarrow> ch = p"
| "will_ring Bell_idle p \<longleftrightarrow> False"

definition announced :: "doorbells \<Rightarrow> u32 \<Rightarrow> bool" where
  "announced s p \<longleftrightarrow> a2b_pending (c_regs (db_cpu3 s)) p \<or> will_ring (db_linux s) p \<or>
     (\<exists>status command. db_isr s = Isr_record p status command) \<or>
     bit (mailmsg_pending_priorities (db_cpu3 s)) (unat p) \<or> will_serve (db_worker s) p"

fun worker_ok :: "worker_pc \<Rightarrow> bool" where
  "worker_ok (Worker_scan l ps) \<longleftrightarrow> (\<forall>q \<in> set ps. q < 4)"
| "worker_ok (Worker_drain l p ps n m h) \<longleftrightarrow> p < 4 \<and> (\<forall>q \<in> set ps. q < 4) \<and> n + h = MAILMSG_WORKER_DRAIN_QUOTA"
| "worker_ok (Worker_check l p ps h) \<longleftrightarrow> p < 4 \<and> (\<forall>q \<in> set ps. q < 4)"
| "worker_ok Worker_off \<longleftrightarrow> False"
| "worker_ok _ \<longleftrightarrow> True"

fun bell_ok :: "mbox_regs \<Rightarrow> bell_pc \<Rightarrow> bool" where
  "bell_ok regs (Bell_read ch command value) \<longleftrightarrow> ch < 4 \<and> wakes ch command"
| "bell_ok regs (Bell_cmd ch command value) \<longleftrightarrow> ch < 4 \<and> wakes ch command"
| "bell_ok regs (Bell_dat ch command value) \<longleftrightarrow> ch < 4 \<and> wakes ch (regs (A2B_CMD ch))"
| "bell_ok regs Bell_idle \<longleftrightarrow> True"

fun isr_ok :: "mbox_regs \<Rightarrow> isr_pc \<Rightarrow> bool" where
  "isr_ok regs (Isr_read i) \<longleftrightarrow> i < 4 \<and> a2b_pending regs i"
| "isr_ok regs (Isr_ack i status command) \<longleftrightarrow> i < 4 \<and> wakes i command"
| "isr_ok regs (Isr_record i status command) \<longleftrightarrow> i < 4 \<and> wakes i command"
| "isr_ok regs Isr_idle \<longleftrightarrow> True"

text \<open>A pending word without a wake-up: only while the worker is about to read it or to give it.\<close>

fun worker_holds :: "worker_pc \<Rightarrow> bool" where
  "worker_holds Worker_woken \<longleftrightarrow> True"
| "worker_holds (Worker_give l) \<longleftrightarrow> True"
| "worker_holds _ \<longleftrightarrow> False"

definition doorbells_inv :: "cpu3_config \<Rightarrow> doorbells \<Rightarrow> bool" where
  "doorbells_inv cfg s \<longleftrightarrow> serving cfg (db_cpu3 s) \<and> (\<forall>p < 4. well_formed_input cfg (db_cpu3 s) p) \<and>
     worker_ok (db_worker s) \<and> isr_ok (c_regs (db_cpu3 s)) (db_isr s) \<and> bell_ok (c_regs (db_cpu3 s)) (db_linux s) \<and>
     (\<forall>p < 4. a2b_pending (c_regs (db_cpu3 s)) p \<longrightarrow> wakes p (c_regs (db_cpu3 s) (A2B_CMD p))) \<and>
     (mailmsg_pending_priorities (db_cpu3 s) \<noteq> 0 \<longrightarrow> mailmsg_work_sem (db_cpu3 s) = 1 \<or> worker_holds (db_worker s)) \<and>
     (\<forall>p < 4. p \<noteq> cfg_skip_priority cfg \<longrightarrow> fw_in (db_cpu3 s) p \<noteq> [] \<longrightarrow> announced s p)"

text \<open>A step that leaves the rings to CPU3 and the A2B registers alone.\<close>

definition same_input :: "cpu3_state \<Rightarrow> cpu3_state \<Rightarrow> bool" where
  "same_input w w' \<longleftrightarrow> ep_generation (cpu3_endpoint w') = ep_generation (cpu3_endpoint w) \<and> (\<forall>q < 4. fw_in w' q = fw_in w q) \<and>
     a2b_same (c_regs w) (c_regs w')"

lemma same_input_wf: "same_input w w' \<Longrightarrow> p < 4 \<Longrightarrow> well_formed_input cfg w' p = well_formed_input cfg w p"
  by (simp add: same_input_def well_formed_input_def)

lemma a2b_same_pending: "a2b_same r r' \<Longrightarrow> a2b_pending r' p = a2b_pending r p"
  by (simp add: a2b_same_def a2b_pending_def)

lemma a2b_same_ok: "a2b_same r r' \<Longrightarrow> isr_ok r pc \<Longrightarrow> isr_ok r' pc" "a2b_same r r' \<Longrightarrow> bell_ok r b \<Longrightarrow> bell_ok r' b"
  by (cases pc; simp add: a2b_same_pending) (cases b; simp add: a2b_same_def)

lemma announced_same:
  "a2b_same (c_regs (db_cpu3 s)) (c_regs w) \<Longrightarrow> mailmsg_pending_priorities w = mailmsg_pending_priorities (db_cpu3 s) \<Longrightarrow>
   announced (s\<lparr>db_cpu3 := w\<rparr>) p = announced s p"
  by (simp add: announced_def a2b_same_pending)

text \<open>A change of the CPU3 state that is none of the protocol's business keeps the invariant.\<close>

lemma inv_same_input:
  assumes "doorbells_inv cfg s" and "same_input (db_cpu3 s) w" and "serving cfg w"
    and "mailmsg_pending_priorities w = mailmsg_pending_priorities (db_cpu3 s)" and "mailmsg_work_sem w = mailmsg_work_sem (db_cpu3 s)"
  shows "doorbells_inv cfg (s\<lparr>db_cpu3 := w\<rparr>)"
proof -
  have a: "a2b_same (c_regs (db_cpu3 s)) (c_regs w)" using assms(2) by (simp add: same_input_def)
  have cmd: "c_regs w (A2B_CMD p) = c_regs (db_cpu3 s) (A2B_CMD p)" if "p < 4" for p using a that by (simp add: a2b_same_def)
  have "fw_in w p = fw_in (db_cpu3 s) p" if "p < 4" for p using assms(2) that by (simp add: same_input_def)
  then show ?thesis
    using assms(1,3-5) same_input_wf [OF assms(2)] a2b_same_ok [OF a] a2b_same_pending [OF a] announced_same [OF a assms(4)] cmd
    by (simp add: doorbells_inv_def)
qed

lemma a2b_bit: "p < 4 \<Longrightarrow> bit (0 :: u32) (unat p) = False" "p < 4 \<Longrightarrow> q < 4 \<Longrightarrow> bit (BIT p) (unat q) \<longleftrightarrow> q = p"
  using bit_or_BIT [of p q 0] by simp_all

subsection \<open>The steps of the worker\<close>

lemma inv_control:
  assumes "doorbells_inv cfg s" and "cpu3_endpoint w = cpu3_endpoint (db_cpu3 s)" and "pg_mailmsg (c_page w) = pg_mailmsg (c_page (db_cpu3 s))"
    and "c_regs w = c_regs (db_cpu3 s)" and "mailmsg_endpoint_ready w = mailmsg_endpoint_ready (db_cpu3 s)"
    and "mailmsg_session_ready_published w = mailmsg_session_ready_published (db_cpu3 s)"
    and "c_halted w = c_halted (db_cpu3 s)" and "c_irq_enabled w = c_irq_enabled (db_cpu3 s)"
    and "mailmsg_work_sem w \<le> 1" and "worker_ok pc"
    and "mailmsg_pending_priorities w \<noteq> 0 \<longrightarrow> mailmsg_work_sem w = 1 \<or> worker_holds pc"
    and "\<And>p. p < 4 \<Longrightarrow> p \<noteq> cfg_skip_priority cfg \<Longrightarrow> fw_in (db_cpu3 s) p \<noteq> [] \<Longrightarrow>
      bit (mailmsg_pending_priorities (db_cpu3 s)) (unat p) \<or> will_serve (db_worker s) p \<Longrightarrow>
      bit (mailmsg_pending_priorities w) (unat p) \<or> will_serve pc p"
  shows "doorbells_inv cfg (s\<lparr>db_worker := pc, db_cpu3 := w\<rparr>)"
proof -
  have "announced (s\<lparr>db_worker := pc, db_cpu3 := w\<rparr>) p"
    if "p < 4" "p \<noteq> cfg_skip_priority cfg" "fw_in (db_cpu3 s) p \<noteq> []" for p
  proof -
    have "announced s p" using assms(1) that by (simp add: doorbells_inv_def)
    with assms(12) [OF that] show ?thesis using assms(4) by (auto simp: announced_def)
  qed
  then show ?thesis using assms(1-11)
    by (simp add: doorbells_inv_def serving_def cpu3_ok_def well_formed_input_def)
qed

text \<open>The work that a program counter stands for, counted so that every step makes it less.\<close>

definition resched_left :: "service_locals \<Rightarrow> nat" where
  "resched_left l = (if sl_resched l = 0 then 0 else 80)"

fun worker_left :: "worker_pc \<Rightarrow> nat" where
  "worker_left Worker_woken = 70"
| "worker_left (Worker_scan l ps) = 2 + 16 * length ps + resched_left l"
| "worker_left (Worker_drain l p ps n m h) = 6 + 16 * length ps + n + resched_left l + (if h = 0 then 0 else 81)"
| "worker_left (Worker_check l p ps h) = 4 + 16 * length ps + resched_left l + (if h = MAILMSG_WORKER_DRAIN_QUOTA then 81 else 0)"
| "worker_left (Worker_finish l) = 1 + resched_left l"
| "worker_left (Worker_give l) = 75"
| "worker_left _ = 0"

fun isr_left :: "isr_pc \<Rightarrow> nat" where
  "isr_left Isr_idle = 0"
| "isr_left (Isr_read i) = 76"
| "isr_left (Isr_ack i status command) = 75"
| "isr_left (Isr_record i status command) = 74"

fun bell_left :: "bell_pc \<Rightarrow> nat" where
  "bell_left Bell_idle = 0"
| "bell_left (Bell_read ch command value) = 83"
| "bell_left (Bell_cmd ch command value) = 82"
| "bell_left (Bell_dat ch command value) = 81"

fun handles :: "isr_pc \<Rightarrow> u32 \<Rightarrow> bool" where
  "handles (Isr_read i) p \<longleftrightarrow> i = p"
| "handles (Isr_ack i status command) p \<longleftrightarrow> i = p"
| "handles _ p \<longleftrightarrow> False"

definition requests_left :: "cpu3_state \<Rightarrow> nat" where
  "requests_left w = sum_list (map (\<lambda>p. length (fw_in w p)) [0, 1, 2, 3])"

definition bells_left :: "mbox_regs \<Rightarrow> isr_pc \<Rightarrow> nat" where
  "bells_left regs pc = sum_list (map (\<lambda>p. if a2b_pending regs p \<and> \<not> handles pc p then 1 else 0) [0, 1, 2, 3])"

definition work_left :: "doorbells \<Rightarrow> nat" where
  "work_left s = 200 * requests_left (db_cpu3 s) + 80 * bells_left (c_regs (db_cpu3 s)) (db_isr s) +
     72 * mailmsg_work_sem (db_cpu3 s) + worker_left (db_worker s) + isr_left (db_isr s) + bell_left (db_linux s)"

lemma requests_same: "pg_mailmsg (c_page w') = pg_mailmsg (c_page w) \<Longrightarrow> requests_left w' = requests_left w"
  by (simp add: requests_left_def)

lemma bells_same: "a2b_same r r' \<Longrightarrow> bells_left r' pc = bells_left r pc"
  by (simp add: bells_left_def a2b_same_pending)

lemma requests_served:
  assumes "p < 4" and "fw_in w p = f # fs" and "fw_in w' p = fs" and "\<And>q. q < 4 \<Longrightarrow> q \<noteq> p \<Longrightarrow> fw_in w' q = fw_in w q"
  shows "requests_left w = Suc (requests_left w')"
  using assms(1) by (rule ch_cases; use assms in \<open>simp add: requests_left_def del: length_ring_frames\<close>)

lemma drain_step_ok:
  assumes hw: "mailbox_latch (cfg_mbox_write cfg)" and inv: "doorbells_inv cfg s" and pc: "db_worker s = Worker_drain l p ps n m h"
    and step: "worker_step cfg (Worker_drain l p ps n m h) (db_cpu3 s) = Some (pc', w)"
  shows "doorbells_inv cfg (s\<lparr>db_worker := pc', db_cpu3 := w\<rparr>) \<and> work_left (s\<lparr>db_worker := pc', db_cpu3 := w\<rparr>) < work_left s"
proof -
  let ?w = "db_cpu3 s"
  from inv have i: "serving cfg ?w" "p < 4" "\<forall>q \<in> set ps. q < 4" "n + h = MAILMSG_WORKER_DRAIN_QUOTA" "\<And>p. p < 4 \<Longrightarrow> well_formed_input cfg ?w p"
    "mailmsg_pending_priorities ?w \<noteq> 0 \<longrightarrow> mailmsg_work_sem ?w = 1" "mailmsg_work_sem ?w \<le> 1" "cpu3_ok cfg ?w" "\<not> c_halted ?w"
    using pc by (simp_all add: doorbells_inv_def serving_def)
  show ?thesis
  proof (cases "n = 0 \<or> fw_in ?w p = []")
    case True
    then obtain l' where e: "pc' = Worker_check l' p ps h" "w = ?w" "sl_pending l' = sl_pending l" "sl_resched l' = sl_resched l"
      using step service_once_empty [OF i(8,2)] i(9) by (cases n) auto
    have h: "n = 0 \<and> h = MAILMSG_WORKER_DRAIN_QUOTA \<or> 0 < n \<and> h < MAILMSG_WORKER_DRAIN_QUOTA \<and> fw_in ?w p = []"
      using True i(4) by (cases n) auto
    have "doorbells_inv cfg (s\<lparr>db_worker := pc', db_cpu3 := w\<rparr>)"
      by (rule inv_control [OF inv]) (use e pc i h in auto)
    then show ?thesis using e pc h by (auto simp: work_left_def resched_left_def)
  next
    case False
    then obtain k f fs where k: "n = Suc k" "fw_in ?w p = f # fs" by (cases n; cases "fw_in ?w p") auto
    have f: "receive_status (ep_generation (cpu3_endpoint ?w)) f = 0" "ordinary cfg p f"
      using i(5) [OF i(2)] k(2) by (simp_all add: well_formed_input_def)
    obtain w' where w': "service_once cfg p m (sl_messages l) h ?w = Some (True, f, w', sl_messages l + 1, Suc h)" "cpu3_ok cfg w'"
      "same_service p ?w w'" "fw_in w' p = fs" "a2b_same (c_regs ?w) (c_regs w')"
      by (rule service_once_ordinary [OF hw i(8,2,9) k(2) f])
    from w'(3) have sv: "mailmsg_pending_priorities w' = mailmsg_pending_priorities ?w" "mailmsg_work_sem w' = mailmsg_work_sem ?w"
      "ep_generation (cpu3_endpoint w') = ep_generation (cpu3_endpoint ?w)" "\<not> c_halted w'" "c_irq_enabled w' = c_irq_enabled ?w"
      "\<And>q. q < 4 \<Longrightarrow> q \<noteq> p \<Longrightarrow> fw_in w' q = fw_in ?w q" "mailmsg_endpoint_ready w' = mailmsg_endpoint_ready ?w"
      "mailmsg_session_ready_published w' = mailmsg_session_ready_published ?w" using i(9) by (simp_all add: same_service_def)
    have e: "pc' = Worker_drain (l\<lparr>sl_messages := sl_messages l + 1\<rparr>) p ps k f (Suc h)" "w = w'"
      using step k(1) w'(1) sv(4) by simp_all
    have wf: "well_formed_input cfg w' q" if "q < 4" for q
      using i(5) [OF that] i(5) [OF i(2)] k(2) w'(4) sv(3,6) that by (cases "q = p") (simp_all add: well_formed_input_def)
    have ann: "announced (s\<lparr>db_worker := pc', db_cpu3 := w'\<rparr>) q" if "q < 4" "q \<noteq> cfg_skip_priority cfg" "fw_in w' q \<noteq> []" for q
    proof -
      have "fw_in ?w q \<noteq> []" using that k(2) sv(6) by (cases "q = p") auto
      then have "announced s q" using inv that by (simp add: doorbells_inv_def)
      then show ?thesis using e(1) pc sv(1) a2b_same_pending [OF w'(5)] by (auto simp: announced_def)
    qed
    have cmd: "c_regs w' (A2B_CMD q) = c_regs ?w (A2B_CMD q)" if "q < 4" for q using w'(5) that by (simp add: a2b_same_def)
    have "doorbells_inv cfg (s\<lparr>db_worker := pc', db_cpu3 := w\<rparr>)"
      using inv e w'(2) sv wf ann i(1-4,6) pc k(1) a2b_same_ok [OF w'(5)] a2b_same_pending [OF w'(5)] cmd
      by (simp add: doorbells_inv_def serving_def)
    moreover have "requests_left ?w = Suc (requests_left w')" by (rule requests_served [OF i(2) k(2) w'(4) sv(6)])
    ultimately show ?thesis using e pc k(1) sv(2) bells_same [OF w'(5)] by (simp add: work_left_def resched_left_def)
  qed
qed

lemma inv_facts:
  assumes "doorbells_inv cfg s"
  shows "serving cfg (db_cpu3 s)" "worker_ok (db_worker s)" "\<And>p. p < 4 \<Longrightarrow> well_formed_input cfg (db_cpu3 s) p"
    "mailmsg_pending_priorities (db_cpu3 s) \<noteq> 0 \<longrightarrow> mailmsg_work_sem (db_cpu3 s) = 1 \<or> worker_holds (db_worker s)"
    "mailmsg_work_sem (db_cpu3 s) \<le> 1"
  using assms by (simp_all add: doorbells_inv_def serving_def)

lemma wait_step_ok:
  assumes inv: "doorbells_inv cfg s" and at: "db_worker s = Worker_wait"
    and step: "worker_step cfg (db_worker s) (db_cpu3 s) = Some (pc, w)"
  shows "doorbells_inv cfg (s\<lparr>db_worker := pc, db_cpu3 := w\<rparr>) \<and> work_left (s\<lparr>db_worker := pc, db_cpu3 := w\<rparr>) < work_left s"
proof -
  let ?w = "db_cpu3 s"
  note i = inv_facts [OF inv]
  have e: "pc = Worker_woken" "w = ?w\<lparr>mailmsg_work_sem := mailmsg_work_sem ?w - 1, mailmsg_worker_wake_count := mailmsg_worker_wake_count ?w + 1\<rparr>"
    "mailmsg_work_sem ?w = 1" using step at i(5) by (auto split: if_split_asm)
  have "doorbells_inv cfg (s\<lparr>db_worker := pc, db_cpu3 := w\<rparr>)"
    by (rule inv_control [OF inv]) (use e at i in simp_all)
  then show ?thesis using e at by (simp add: work_left_def requests_left_def)
qed

lemma woken_step_ok:
  assumes inv: "doorbells_inv cfg s" and at: "db_worker s = Worker_woken"
    and step: "worker_step cfg (db_worker s) (db_cpu3 s) = Some (pc, w)"
  shows "doorbells_inv cfg (s\<lparr>db_worker := pc, db_cpu3 := w\<rparr>) \<and> work_left (s\<lparr>db_worker := pc, db_cpu3 := w\<rparr>) < work_left s"
proof -
  let ?w = "db_cpu3 s"
  note i = inv_facts [OF inv]
  let ?p = "mailmsg_pending_priorities ?w"
  show ?thesis
  proof (cases "?p = 0")
    case True
    have e: "pc = Worker_wait" "w = mailmsg_publish_worker_observation 0 MAILMSG_PRIORITY_COUNT
        (?w\<lparr>mailmsg_pending_priorities := 0, mailmsg_worker_empty_wake_count := mailmsg_worker_empty_wake_count ?w + 1\<rparr>)"
      using step at True by simp_all
    have "doorbells_inv cfg (s\<lparr>db_worker := pc, db_cpu3 := w\<rparr>)"
      by (rule inv_control [OF inv]) (use e at True i in simp_all)
    then show ?thesis using e at by (simp add: work_left_def requests_left_def)
  next
    case False
    have e: "pc = Worker_scan \<lparr>sl_pending = ?p, sl_messages = 0, sl_last = MAILMSG_PRIORITY_COUNT, sl_resched = 0\<rparr> [0, 1, 2, 3]"
      "w = ?w\<lparr>mailmsg_pending_priorities := 0, mailmsg_worker_drain_count := mailmsg_worker_drain_count ?w + 1\<rparr>"
      using step at False i(1) by (auto simp: serving_def)
    have "p \<in> {0, 1, 2, 3}" if "p < 4" for p :: u32 using that by (rule ch_cases) simp_all
    then have "doorbells_inv cfg (s\<lparr>db_worker := pc, db_cpu3 := w\<rparr>)"
      by (intro inv_control [OF inv]) (use e at False i in auto)
    then show ?thesis using e at by (simp add: work_left_def requests_left_def resched_left_def)
  qed
qed

lemma scan_step_ok:
  assumes inv: "doorbells_inv cfg s" and at: "db_worker s = Worker_scan l ps"
    and step: "worker_step cfg (db_worker s) (db_cpu3 s) = Some (pc, w)"
  shows "doorbells_inv cfg (s\<lparr>db_worker := pc, db_cpu3 := w\<rparr>) \<and> work_left (s\<lparr>db_worker := pc, db_cpu3 := w\<rparr>) < work_left s"
proof -
  let ?w = "db_cpu3 s"
  note i = inv_facts [OF inv]
  show ?thesis
  proof (cases ps)
    case Nil
    with at step have e: "pc = Worker_finish l" "w = ?w" by simp_all
    have "doorbells_inv cfg (s\<lparr>db_worker := pc, db_cpu3 := w\<rparr>)"
      by (rule inv_control [OF inv]) (use e at Nil i in simp_all)
    then show ?thesis using e at Nil by (simp add: work_left_def)
  next
    case (Cons p ps')
    show ?thesis
    proof (cases "sl_pending l AND BIT p = 0 \<or> p = cfg_skip_priority cfg")
      case True
      then have e: "pc = Worker_scan l ps'" "w = ?w" using step at Cons by simp_all
      have "p < 4" using i(2) at Cons by simp
      then have no: "\<not> bit (sl_pending l) (unat p) \<or> p = cfg_skip_priority cfg" using True and_BIT_iff [of p "sl_pending l"] by auto
      have "doorbells_inv cfg (s\<lparr>db_worker := pc, db_cpu3 := w\<rparr>)"
        by (rule inv_control [OF inv]) (use e at Cons i no in auto)
      then show ?thesis using e at Cons by (simp add: work_left_def)
    next
      case False
      then have e: "pc = Worker_drain (l\<lparr>sl_last := p\<rparr>) p ps' MAILMSG_WORKER_DRAIN_QUOTA (cfg_stack_message cfg) 0" "w = ?w"
        using step at Cons by simp_all
      have "doorbells_inv cfg (s\<lparr>db_worker := pc, db_cpu3 := w\<rparr>)"
        by (rule inv_control [OF inv]) (use e at Cons i in auto)
      then show ?thesis using e at Cons by (simp add: work_left_def resched_left_def)
    qed
  qed
qed

lemma finish_step_ok:
  assumes inv: "doorbells_inv cfg s" and at: "db_worker s = Worker_finish l"
    and step: "worker_step cfg (db_worker s) (db_cpu3 s) = Some (pc, w)"
  shows "doorbells_inv cfg (s\<lparr>db_worker := pc, db_cpu3 := w\<rparr>) \<and> work_left (s\<lparr>db_worker := pc, db_cpu3 := w\<rparr>) < work_left s"
proof -
  let ?w = "db_cpu3 s"
  note i = inv_facts [OF inv]
  show ?thesis
  proof (cases "sl_resched l = 0")
    case True
    with at step have e: "pc = Worker_wait" "w = mailmsg_publish_worker_observation (sl_pending l) (sl_last l)
        (?w\<lparr>mailmsg_worker_message_count := mailmsg_worker_message_count ?w + sl_messages l\<rparr>)" by (simp_all add: Let_def)
    have "doorbells_inv cfg (s\<lparr>db_worker := pc, db_cpu3 := w\<rparr>)"
      by (rule inv_control [OF inv]) (use e at True i in simp_all)
    then show ?thesis using e at by (simp add: work_left_def requests_left_def)
  next
    case False
    with at step have e: "pc = Worker_give l" "w = ?w\<lparr>mailmsg_worker_message_count := mailmsg_worker_message_count ?w + sl_messages l,
        mailmsg_pending_priorities := mailmsg_pending_priorities ?w OR sl_resched l\<rparr>" by (simp_all add: Let_def)
    have "doorbells_inv cfg (s\<lparr>db_worker := pc, db_cpu3 := w\<rparr>)"
      by (rule inv_control [OF inv]) (use e at i in \<open>auto simp: bit_or_iff\<close>)
    then show ?thesis using e at False by (simp add: work_left_def requests_left_def resched_left_def)
  qed
qed

lemma give_step_ok:
  assumes inv: "doorbells_inv cfg s" and at: "db_worker s = Worker_give l"
    and step: "worker_step cfg (db_worker s) (db_cpu3 s) = Some (pc, w)"
  shows "doorbells_inv cfg (s\<lparr>db_worker := pc, db_cpu3 := w\<rparr>) \<and> work_left (s\<lparr>db_worker := pc, db_cpu3 := w\<rparr>) < work_left s"
proof -
  let ?w = "db_cpu3 s"
  note i = inv_facts [OF inv]
  have e: "pc = Worker_wait" "w = mailmsg_publish_worker_observation (sl_pending l) (sl_last l) (k_sem_give ?w)" using step at by simp_all
  have "doorbells_inv cfg (s\<lparr>db_worker := pc, db_cpu3 := w\<rparr>)"
    by (rule inv_control [OF inv]) (use e at i in \<open>simp_all add: k_sem_give_def\<close>)
  then show ?thesis using e at by (simp add: work_left_def requests_left_def k_sem_give_def)
qed

lemma check_step_ok:
  assumes inv: "doorbells_inv cfg s" and at: "db_worker s = Worker_check l p ps h"
    and step: "worker_step cfg (db_worker s) (db_cpu3 s) = Some (pc, w)"
  shows "doorbells_inv cfg (s\<lparr>db_worker := pc, db_cpu3 := w\<rparr>) \<and> work_left (s\<lparr>db_worker := pc, db_cpu3 := w\<rparr>) < work_left s"
proof -
  let ?w = "db_cpu3 s"
  note i = inv_facts [OF inv]
  let ?l = "if h = MAILMSG_WORKER_DRAIN_QUOTA \<and> mailmsg_endpoint_has_received (cpu3_endpoint ?w) (pg_mailmsg (c_page ?w)) p = 1
    then l\<lparr>sl_resched := sl_resched l OR BIT p\<rparr> else l"
  have e: "pc = Worker_scan ?l ps" "w = ?w" using step at by auto
  have p: "p < 4" "\<forall>q \<in> set ps. q < 4" using i(2) at by simp_all
  have hr: "mailmsg_endpoint_has_received (cpu3_endpoint ?w) (pg_mailmsg (c_page ?w)) p = (if fw_in ?w p = [] then 0 else 1)"
    by (rule has_received_bound [OF _ _ p(1), where tx = Cpu3_to_linux]) (use i(1) in \<open>simp_all add: serving_def cpu3_ok_def\<close>)
  have ws: "will_serve pc q" if "q < 4" "fw_in ?w q \<noteq> []" "will_serve (db_worker s) q" for q
    using that e(1) at hr bit_or_exp [OF p(1) that(1), of "sl_resched l"] by (auto split: if_split_asm)
  have "doorbells_inv cfg (s\<lparr>db_worker := pc, db_cpu3 := w\<rparr>)"
  proof (rule inv_control [OF inv])
    fix q assume "q < 4" "fw_in ?w q \<noteq> []" "bit (mailmsg_pending_priorities ?w) (unat q) \<or> will_serve (db_worker s) q"
    then show "bit (mailmsg_pending_priorities w) (unat q) \<or> will_serve pc q" using ws e(2) by blast
  qed (use e i at p in simp_all)
  then show ?thesis using e at by (simp add: work_left_def resched_left_def)
qed

lemma worker_step_ok:
  assumes hw: "mailbox_latch (cfg_mbox_write cfg)" and inv: "doorbells_inv cfg s"
    and step: "worker_step cfg (db_worker s) (db_cpu3 s) = Some (pc, w)"
  shows "doorbells_inv cfg (s\<lparr>db_worker := pc, db_cpu3 := w\<rparr>) \<and> work_left (s\<lparr>db_worker := pc, db_cpu3 := w\<rparr>) < work_left s"
proof (cases "db_worker s")
  case (Worker_drain l p ps n m h)
  then show ?thesis using drain_step_ok [OF hw inv Worker_drain] step by simp
next
  case Worker_off
  then show ?thesis using inv_facts(2) [OF inv] by simp
qed (use wait_step_ok [OF inv _ step] woken_step_ok [OF inv _ step] scan_step_ok [OF inv _ step] check_step_ok [OF inv _ step]
    finish_step_ok [OF inv _ step] give_step_ok [OF inv _ step] in blast)+

subsection \<open>The steps of the handler and of the doorbell\<close>

lemma bells_entered: "i < 4 \<Longrightarrow> a2b_pending regs i \<Longrightarrow> bells_left regs Isr_idle = Suc (bells_left regs (Isr_read i))"
  by (erule ch_cases) (auto simp: bells_left_def)

lemma irq_ok:
  assumes "doorbells_inv cfg s" and "db_isr s = Isr_idle" and "i < 4" and "a2b_pending (c_regs (db_cpu3 s)) i"
  shows "doorbells_inv cfg (s\<lparr>db_isr := Isr_read i\<rparr>) \<and> work_left (s\<lparr>db_isr := Isr_read i\<rparr>) < work_left s"
  using assms bells_entered [OF assms(3,4)] by (auto simp: doorbells_inv_def announced_def work_left_def)

lemma isr_read_ok:
  assumes hw: "mailbox_latch (cfg_mbox_write cfg)" and inv: "doorbells_inv cfg s" and at: "db_isr s = Isr_read i"
    and step: "isr_step cfg (db_isr s) (db_cpu3 s) = Some (pc, w)"
  shows "doorbells_inv cfg (s\<lparr>db_isr := pc, db_cpu3 := w\<rparr>) \<and> work_left (s\<lparr>db_isr := pc, db_cpu3 := w\<rparr>) < work_left s"
proof -
  let ?w = "db_cpu3 s"
  have i: "i < 4" "i mod 4 = i" "wakes i (c_regs ?w (A2B_CMD i))" "serving cfg ?w"
    using inv at u32_mod_4 by (simp_all add: doorbells_inv_def)
  obtain regs where e: "pc = Isr_ack i (c_regs ?w A2B_STATUS) (c_regs ?w (A2B_CMD i))" "w = ?w\<lparr>c_regs := regs\<rparr>" "a2b_same (c_regs ?w) regs"
  proof (cases "c_regs ?w (A2B_CMD i) AND 0xfffffff0 = AMP_MBOX_PROTOCOL_CMD")
    case True
    with step at i(2) show thesis by (intro that [of "c_regs ?w"]) (auto simp: Let_def a2b_same_refl)
  next
    case False
    with step at i(2) mailbox_latch.echo_same [OF hw i(1)] show thesis by (intro that) (auto simp: Let_def)
  qed
  have "doorbells_inv cfg (s\<lparr>db_cpu3 := w\<rparr>)"
    by (rule inv_same_input [OF inv]) (use e i(4) in \<open>simp_all add: same_input_def serving_def cpu3_ok_def\<close>)
  then have "doorbells_inv cfg (s\<lparr>db_isr := pc, db_cpu3 := w\<rparr>)"
    using i e(1) at by (simp add: doorbells_inv_def announced_def)
  moreover have "bells_left regs pc = bells_left (c_regs ?w) (db_isr s)"
    unfolding bells_same [OF e(3)] using e(1) at by (simp add: bells_left_def)
  ultimately show ?thesis using e(1,2) at by (simp add: work_left_def requests_left_def)
qed

lemma isr_ack_ok:
  assumes hw: "mailbox_latch (cfg_mbox_write cfg)" and inv: "doorbells_inv cfg s" and at: "db_isr s = Isr_ack i status command"
    and step: "isr_step cfg (db_isr s) (db_cpu3 s) = Some (pc, w)"
  shows "doorbells_inv cfg (s\<lparr>db_isr := pc, db_cpu3 := w\<rparr>) \<and> work_left (s\<lparr>db_isr := pc, db_cpu3 := w\<rparr>) < work_left s"
proof -
  let ?w = "db_cpu3 s"
  have i: "i < 4" "i mod 4 = i" "wakes i command" using inv at u32_mod_4 by (simp_all add: doorbells_inv_def)
  have e: "pc = Isr_record i status command" "w = ?w\<lparr>c_regs := cfg_mbox_write cfg (c_regs ?w) A2B_STATUS (BIT i)\<rparr>"
    using step at i(2) by simp_all
  note r = mailbox_latch.ack_registers [OF hw i(1)]
  have bell: "bell_ok (c_regs w) (db_linux s)" using inv e(2) r(2) by (cases "db_linux s") (auto simp: doorbells_inv_def)
  have ann: "announced (s\<lparr>db_isr := pc, db_cpu3 := w\<rparr>) q" if "q < 4" "announced s q" for q
    using that(2) e at r(1) [OF that(1), of "c_regs ?w"] by (auto simp: announced_def)
  have "doorbells_inv cfg (s\<lparr>db_isr := pc, db_cpu3 := w\<rparr>)"
    using inv e i bell ann r
    by (simp add: doorbells_inv_def serving_def cpu3_ok_def well_formed_input_def)
  moreover have "bells_left (c_regs w) pc = bells_left (c_regs ?w) (db_isr s)"
  proof -
    have "a2b_pending (c_regs w) q \<and> \<not> handles pc q \<longleftrightarrow> a2b_pending (c_regs ?w) q \<and> \<not> handles (db_isr s) q" if "q < 4" for q
      using r(1) [OF that, of "c_regs ?w"] e at by auto
    then show ?thesis by (simp add: bells_left_def)
  qed
  ultimately show ?thesis using e at by (simp add: work_left_def requests_left_def)
qed

lemma isr_record_ok:
  assumes hw: "mailbox_latch (cfg_mbox_write cfg)" and inv: "doorbells_inv cfg s" and at: "db_isr s = Isr_record i status command"
    and step: "isr_step cfg (db_isr s) (db_cpu3 s) = Some (pc, w)"
  shows "doorbells_inv cfg (s\<lparr>db_isr := pc, db_cpu3 := w\<rparr>) \<and> work_left (s\<lparr>db_isr := pc, db_cpu3 := w\<rparr>) < work_left s"
proof -
  let ?w = "db_cpu3 s"
  have i: "i < 4" "i mod 4 = i" "wakes i command" "mailmsg_work_sem ?w \<le> 1"
    using inv at u32_mod_4 by (simp_all add: doorbells_inv_def serving_def)
  let ?o = "set_observation status (c_regs ?w A2B_STATUS) (push_bit 16 (i div 4) OR BIT i) MARK_A2B_CLEAR_PROBE ?w"
  have e: "pc = Isr_idle" "w = ?o\<lparr>mailmsg_pending_priorities := mailmsg_pending_priorities ?w OR BIT i, mailmsg_irq_count := mailmsg_irq_count ?w + 1,
      mailmsg_work_sem := 1\<rparr>"
    using step at i by (auto simp: Let_def wakes_def k_sem_give_def set_observation_def)
  have same: "cpu3_endpoint ?o = cpu3_endpoint ?w" "pg_mailmsg (c_page ?o) = pg_mailmsg (c_page ?w)" "c_regs ?o = c_regs ?w"
    "c_halted ?o = c_halted ?w" "c_irq_enabled ?o = c_irq_enabled ?w" "mailmsg_endpoint_ready ?o = mailmsg_endpoint_ready ?w"
    "mailmsg_session_ready_published ?o = mailmsg_session_ready_published ?w" by (simp_all add: set_observation_def)
  have ann: "announced (s\<lparr>db_isr := pc, db_cpu3 := w\<rparr>) q" if "q < 4" "announced s q" for q
    using that(2) e at same(3) bit_or_exp [OF i(1) that(1), of "mailmsg_pending_priorities ?w"] by (auto simp: announced_def)
  have "doorbells_inv cfg (s\<lparr>db_isr := pc, db_cpu3 := w\<rparr>)"
    using inv e i(1-3) ann same by (simp add: doorbells_inv_def serving_def cpu3_ok_def well_formed_input_def)
  moreover have "bells_left (c_regs w) pc = bells_left (c_regs ?w) (db_isr s)"
    using e same(3) at by (simp add: bells_left_def)
  ultimately show ?thesis using e at i(4) same(2) by (simp add: work_left_def requests_left_def)
qed

lemma isr_step_ok:
  assumes hw: "mailbox_latch (cfg_mbox_write cfg)" and inv: "doorbells_inv cfg s" and step: "isr_step cfg (db_isr s) (db_cpu3 s) = Some (pc, w)"
  shows "doorbells_inv cfg (s\<lparr>db_isr := pc, db_cpu3 := w\<rparr>) \<and> work_left (s\<lparr>db_isr := pc, db_cpu3 := w\<rparr>) < work_left s"
proof (cases "db_isr s")
  case Isr_idle
  with step show ?thesis by simp
qed (use isr_read_ok [OF hw inv _ step] isr_ack_ok [OF hw inv _ step] isr_record_ok [OF hw inv _ step] in blast)+

lemma bell_step_ok:
  assumes hw: "mailbox_latch (cfg_mbox_write cfg)" and inv: "doorbells_inv cfg s"
    and step: "bell_step (cfg_mbox_write cfg) (db_linux s) (c_regs (db_cpu3 s)) = Some (pc, regs)"
  shows "doorbells_inv cfg (s\<lparr>db_linux := pc, db_cpu3 := (db_cpu3 s)\<lparr>c_regs := regs\<rparr>\<rparr>) \<and>
    work_left (s\<lparr>db_linux := pc, db_cpu3 := (db_cpu3 s)\<lparr>c_regs := regs\<rparr>\<rparr>) < work_left s"
proof -
  let ?w = "db_cpu3 s" and ?s = "s\<lparr>db_linux := pc, db_cpu3 := (db_cpu3 s)\<lparr>c_regs := regs\<rparr>\<rparr>"
  have keep: "doorbells_inv cfg ?s"
    if "\<And>p. p < 4 \<Longrightarrow> a2b_pending regs p \<Longrightarrow> wakes p (regs (A2B_CMD p))" "\<And>p. p < 4 \<Longrightarrow> a2b_pending (c_regs ?w) p \<Longrightarrow> a2b_pending regs p"
      "\<And>p. p < 4 \<Longrightarrow> will_ring (db_linux s) p \<Longrightarrow> will_ring pc p \<or> a2b_pending regs p" "bell_ok regs pc"
  proof -
    have "isr_ok regs (db_isr s)" using inv that(2) by (cases "db_isr s") (auto simp: doorbells_inv_def)
    moreover have "announced ?s p" if "p < 4" "announced s p" for p
      using that \<open>\<And>p. p < 4 \<Longrightarrow> a2b_pending (c_regs ?w) p \<Longrightarrow> a2b_pending regs p\<close>
        \<open>\<And>p. p < 4 \<Longrightarrow> will_ring (db_linux s) p \<Longrightarrow> will_ring pc p \<or> a2b_pending regs p\<close> by (auto simp: announced_def)
    ultimately show ?thesis using inv that(1,4)
      by (simp add: doorbells_inv_def serving_def cpu3_ok_def well_formed_input_def)
  qed
  have cmd: "wakes p (c_regs ?w (A2B_CMD p))" if "p < 4" "a2b_pending (c_regs ?w) p" for p using inv that by (simp add: doorbells_inv_def)
  show ?thesis
  proof (cases "db_linux s")
    case Bell_idle
    with step show ?thesis by simp
  next
    case (Bell_read ch command v)
    then have ch: "ch < 4" "wakes ch command" using inv by (simp_all add: doorbells_inv_def)
    have e: "regs = c_regs ?w" "pc = (if a2b_pending (c_regs ?w) ch then Bell_idle else Bell_cmd ch command v)"
      using step Bell_read and_BIT_iff [OF ch(1), of "c_regs ?w A2B_STATUS"] by (auto simp: a2b_pending_def)
    have "doorbells_inv cfg ?s" by (rule keep) (use e Bell_read cmd ch in auto)
    then show ?thesis using e Bell_read by (simp add: work_left_def requests_left_def)
  next
    case (Bell_cmd ch command v)
    then have ch: "ch < 4" "wakes ch command" using inv by (simp_all add: doorbells_inv_def)
    note r = mailbox_latch.bell_registers [OF hw ch(1)]
    have e: "regs = cfg_mbox_write cfg (c_regs ?w) (A2B_CMD ch) command" "pc = Bell_dat ch command v"
      using step Bell_cmd by simp_all
    have "doorbells_inv cfg ?s" by (rule keep) (use e Bell_cmd cmd ch r in auto)
    moreover have "bells_left regs (db_isr s) = bells_left (c_regs ?w) (db_isr s)" using e r(1) by (simp add: bells_left_def)
    ultimately show ?thesis using e Bell_cmd by (simp add: work_left_def requests_left_def)
  next
    case (Bell_dat ch command v)
    then have ch: "ch < 4" "wakes ch (c_regs ?w (A2B_CMD ch))" using inv by (simp_all add: doorbells_inv_def)
    note r = mailbox_latch.bell_registers [OF hw ch(1)]
    have e: "regs = cfg_mbox_write cfg (c_regs ?w) (A2B_DAT ch) v" "pc = Bell_idle" using step Bell_dat by simp_all
    have "doorbells_inv cfg ?s" by (rule keep) (use e Bell_dat cmd ch r in auto)
    moreover have "bells_left regs (db_isr s) \<le> Suc (bells_left (c_regs ?w) (db_isr s))"
      using ch(1) by (rule ch_cases) (use e r(2) in \<open>auto simp: bells_left_def\<close>)
    ultimately show ?thesis using e Bell_dat by (simp add: work_left_def requests_left_def)
  qed
qed

lemma work_step_ok:
  assumes "mailbox_latch (cfg_mbox_write cfg)" and "doorbells_inv cfg s" and "work_step cfg s s'"
  shows "doorbells_inv cfg s' \<and> work_left s' < work_left s"
  using assms(3)
proof cases
  case (worker pc w)
  then show ?thesis using worker_step_ok [OF assms(1,2)] by simp
next
  case (irq i)
  then show ?thesis using irq_ok [OF assms(2)] by simp
next
  case (isr pc w)
  then show ?thesis using isr_step_ok [OF assms(1,2)] by simp
next
  case (bell pc regs)
  then show ?thesis using bell_step_ok [OF assms(1,2)] by simp
qed

subsection \<open>New work\<close>

lemma set_in_ring_ok:
  assumes "serving cfg w" and "p < 4" and "ring_wf r"
  shows "serving cfg (set_in_ring p r w)" "\<And>q. q < 4 \<Longrightarrow> fw_in (set_in_ring p r w) q = (if q = p then ring_frames r else fw_in w q)"
proof -
  have ok: "shared_wf (pg_mailmsg (c_page w))" "endpoint_wf (cpu3_endpoint w)" using assms(1) by (simp_all add: serving_def cpu3_ok_def)
  let ?sh = "set_shared_ring (pg_mailmsg (c_page w)) Linux_to_cpu3 p r"
  have "same_session (cpu3_endpoint w) (pg_mailmsg (c_page w)) (cpu3_endpoint w) ?sh"
    using ok assms(3) by (simp add: same_session_def shared_wf_set)
  note same_session_bound [OF this, of Cpu3_to_linux Linux_to_cpu3]
  then show "serving cfg (set_in_ring p r w)" using assms(1) ok shared_wf_set [OF ok(1) assms(3)] by (simp add: serving_def cpu3_ok_def set_in_ring_def)
  show "\<And>q. q < 4 \<Longrightarrow> fw_in (set_in_ring p r w) q = (if q = p then ring_frames r else fw_in w q)"
    using shared_ring_set [OF ok(1) assms(2)] by (simp add: set_in_ring_def)
qed

lemma push_frames:
  assumes "ring_wf r" and "message_wf m" and "frame_valid m" and "mailmsg_ring_push r m = Some (0, r')"
  shows "ring_wf r'" "ring_frames r' = ring_frames r @ [seal m]"
proof -
  have "ring_depth r < 7" using ring_depth_lt_or_full [of r] ring_push_full [OF assms(1,3)] assms(4) by force
  then have "r' = ring_after_push r m" using ring_push_ok [OF assms(1,3)] assms(4) by simp
  then show "ring_wf r'" "ring_frames r' = ring_frames r @ [seal m]"
    using ring_wf_after_push [OF assms(1,2)] ring_frames_after_push [OF assms(1) \<open>ring_depth r < 7\<close>] by simp_all
qed

lemma main_pass_same:
  assumes "mailbox_latch (cfg_mbox_write cfg)" and "serving cfg w" and "cpu3_main_pass cfg w = Some w'"
  shows "same_input w w'" "serving cfg w'" "mailmsg_pending_priorities w' = mailmsg_pending_priorities w" "mailmsg_work_sem w' = mailmsg_work_sem w"
proof -
  let ?v = "cpu3_serve_request cfg w"
  have v: "same_input w ?v" "serving cfg ?v" "mailmsg_pending_priorities ?v = mailmsg_pending_priorities w" "mailmsg_work_sem ?v = mailmsg_work_sem w"
    using assms(2) mailbox_latch.echo_same [OF assms(1), of 0 "c_regs w" B2A_ACK_COMMAND]
    by (simp_all add: cpu3_serve_request_def mailmsg_send_b2a_ack_def set_observation_def same_input_def serving_def cpu3_ok_def
        a2b_same_refl Let_def)
  have "(if cfg_skip_session_ready cfg then Some ?v else mailmsg_service_session_ready cfg ?v) = Some ?v"
    using v(2) by (auto simp: serving_def mailmsg_service_session_ready_def)
  then have "w' = ?v\<lparr>c_spin := c_spin ?v + 1\<rparr> \<or> (\<exists>mark h. w' = (r1_amp_checkpoint_c cfg mark (?v\<lparr>c_spin := c_spin ?v + 1\<rparr>))\<lparr>c_heartbeat := h, c_spin := 0\<rparr>)"
    using assms(3) by (auto simp: cpu3_main_pass_def Let_def split: if_split_asm)
  with v show "same_input w w'" "serving cfg w'" "mailmsg_pending_priorities w' = mailmsg_pending_priorities w" "mailmsg_work_sem w' = mailmsg_work_sem w"
    by (auto simp: r1_amp_checkpoint_c_def same_input_def serving_def cpu3_ok_def)
qed

lemma new_step_ok:
  assumes hw: "mailbox_latch (cfg_mbox_write cfg)" and inv: "doorbells_inv cfg s" and "new_step cfg s s'"
  shows "doorbells_inv cfg s'"
  using assms(3)
proof cases
  case (request p m r)
  let ?w = "db_cpu3 s" and ?w' = "set_in_ring p r (db_cpu3 s)"
  from inv have i: "serving cfg ?w" "well_formed_input cfg ?w p" using request(3) by (simp_all add: doorbells_inv_def)
  have "ring_wf (shared_ring (pg_mailmsg (c_page ?w)) Linux_to_cpu3 p)"
    using i(1) request(3) by (simp add: serving_def cpu3_ok_def shared_ring_wf)
  from push_frames [OF this _ _ request(5)] request(4)
  have r: "ring_wf r" "ring_frames r = fw_in ?w p @ [seal m]" by (simp_all add: linux_frame_def)
  note in_ring = set_in_ring_ok [OF i(1) request(3) r(1)]
  have same: "c_regs ?w' = c_regs ?w" "mailmsg_pending_priorities ?w' = mailmsg_pending_priorities ?w" "mailmsg_work_sem ?w' = mailmsg_work_sem ?w"
    "ep_generation (cpu3_endpoint ?w') = ep_generation (cpu3_endpoint ?w)" by (simp_all add: set_in_ring_def)
  have "well_formed_input cfg ?w' q" if "q < 4" for q
    using inv that i(2) in_ring(2) [OF that] same(4) r(2) request(4) by (auto simp: well_formed_input_def doorbells_inv_def linux_frame_def)
  moreover have "announced s' q" if "q < 4" "q \<noteq> cfg_skip_priority cfg" "fw_in ?w' q \<noteq> []" for q
    using inv that in_ring(2) [OF that(1)] same(1,2) request(1,2) by (cases "q = p") (auto simp: doorbells_inv_def announced_def)
  ultimately show ?thesis
    using inv request(1-3) in_ring(1) same wakes_doorbell [OF request(3)] by (simp add: doorbells_inv_def)
next
  case (doorbell p v)
  then have "wakes p (AMP_MBOX_RAW_TEST_CMD OR p)" by (simp add: wakes_def)
  with inv doorbell show ?thesis by (auto simp: doorbells_inv_def announced_def)
next
  case (reader pg)
  let ?w = "db_cpu3 s" and ?w' = "(db_cpu3 s)\<lparr>c_page := pg\<rparr>"
  have s: "serving cfg ?w" using inv by (simp add: doorbells_inv_def)
  have "same_session (cpu3_endpoint ?w) (pg_mailmsg (c_page ?w)) (cpu3_endpoint ?w) (pg_mailmsg pg)"
    using s reader(2) by (simp add: same_session_def linux_acts_def serving_def cpu3_ok_def)
  note same_session_bound [OF this, of Cpu3_to_linux Linux_to_cpu3]
  then have "serving cfg ?w'" using s reader(2) by (simp add: serving_def cpu3_ok_def linux_acts_def)
  then show ?thesis unfolding reader(1)
    by (intro inv_same_input [OF inv]) (use reader(3) in \<open>simp_all add: same_input_def a2b_same_refl\<close>)
next
  case (main w)
  have "serving cfg (db_cpu3 s)" using inv by (simp add: doorbells_inv_def)
  note m = main_pass_same [OF hw this main(4)]
  show ?thesis unfolding main(1) by (rule inv_same_input [OF inv m])
qed

subsection \<open>Requests are served\<close>

text \<open>A firmware that serves its session, with empty request rings and no doorbell recorded or pending.\<close>

definition idle_firmware :: "cpu3_config \<Rightarrow> cpu3_state \<Rightarrow> bool" where
  "idle_firmware cfg w \<longleftrightarrow> serving cfg w \<and> mailmsg_pending_priorities w = 0 \<and>
     list_all (\<lambda>p. fw_in w p = [] \<and> \<not> a2b_pending (c_regs w) p) [0, 1, 2, 3]"

lemma list_all_channels: "list_all P [0, 1, 2, 3] \<longleftrightarrow> (\<forall>p < 4. P (p :: u32))"
proof
  assume "list_all P [0, 1, 2, 3 :: u32]"
  then show "\<forall>p < 4. P p" by (auto elim!: ch_cases)
qed simp

definition requests_done :: "cpu3_config \<Rightarrow> doorbells \<Rightarrow> bool" where
  "requests_done cfg s \<longleftrightarrow> list_all (\<lambda>p. p = cfg_skip_priority cfg \<or> fw_in (db_cpu3 s) p = []) [0, 1, 2, 3]"

lemma doorbells_reachable_inv:
  assumes "mailbox_latch (cfg_mbox_write cfg)" and "idle_firmware cfg w0"
  shows "doorbells_reachable cfg w0 s \<Longrightarrow> doorbells_inv cfg s"
proof (induction rule: doorbells_reachable.induct)
  case start
  show ?case using assms(2) unfolding idle_firmware_def list_all_channels
    by (simp add: doorbells_inv_def doorbells_start_def well_formed_input_def)
next
  case (work s s')
  then show ?case using work_step_ok [OF assms(1)] by blast
next
  case (new s s')
  then show ?case using new_step_ok [OF assms(1)] by blast
qed

text \<open>Where the invariant holds the worker is never stuck except in its wait for the semaphore.\<close>

lemma worker_step_None:
  assumes "worker_step cfg pc w = None"
  shows "pc = Worker_wait \<and> mailmsg_work_sem w = 0 \<or> pc = Worker_off \<or>
    (\<exists>l p ps n m h. pc = Worker_drain l p ps (Suc n) m h \<and> service_once cfg p m (sl_messages l) h w = None)"
  using assms by (cases "(cfg, pc, w)" rule: worker_step.cases) (auto simp: Let_def split: if_split_asm bind_splits)

lemma worker_not_stuck:
  assumes "mailbox_latch (cfg_mbox_write cfg)" and "doorbells_inv cfg s" and "worker_step cfg (db_worker s) (db_cpu3 s) = None"
  shows "db_worker s = Worker_wait" "mailmsg_work_sem (db_cpu3 s) = 0"
proof -
  let ?w = "db_cpu3 s"
  have i: "worker_ok (db_worker s)" "cpu3_ok cfg ?w" "\<not> c_halted ?w" "\<And>p. p < 4 \<Longrightarrow> well_formed_input cfg ?w p"
    using assms(2) by (simp_all add: doorbells_inv_def serving_def)
  have "service_once cfg p m msgs h ?w \<noteq> None" if p: "p < 4" for p m msgs h
  proof (cases "fw_in ?w p")
    case Nil
    then show ?thesis using service_once_empty [OF i(2) p] by simp
  next
    case (Cons f fs)
    then have "receive_status (ep_generation (cpu3_endpoint ?w)) f = 0" "ordinary cfg p f"
      using i(4) [OF p] by (simp_all add: well_formed_input_def)
    then show ?thesis by (rule service_once_ordinary [OF assms(1) i(2) p i(3) Cons, of m msgs h]) simp
  qed
  then have "db_worker s = Worker_wait \<and> mailmsg_work_sem ?w = 0"
    using worker_step_None [OF assms(3)] i(1) by (metis worker_ok.simps(2,4))
  then show "db_worker s = Worker_wait" "mailmsg_work_sem ?w = 0" by simp_all
qed

lemma stuck_requests_done:
  assumes "mailbox_latch (cfg_mbox_write cfg)" and inv: "doorbells_inv cfg s" and stuck: "\<nexists>s'. work_step cfg s s'"
  shows "requests_done cfg s"
proof -
  have isr: "db_isr s = Isr_idle"
    using stuck work_step.isr [of cfg s] by (cases "db_isr s") (auto simp: Let_def)
  have "worker_step cfg (db_worker s) (db_cpu3 s) = None"
    using stuck isr work_step.worker [of s cfg] by (cases "worker_step cfg (db_worker s) (db_cpu3 s)") auto
  note wait = worker_not_stuck [OF assms(1) inv this]
  have bell: "db_linux s = Bell_idle"
    using stuck work_step.bell [of cfg s] by (cases "db_linux s") auto
  have quiet: "\<not> a2b_pending (c_regs (db_cpu3 s)) p" if "p < 4" for p
    using stuck work_step.irq [of s p cfg] isr inv that by (auto simp: doorbells_inv_def serving_def)
  have "mailmsg_pending_priorities (db_cpu3 s) = 0" using inv wait by (auto simp: doorbells_inv_def)
  then have "\<not> announced s p" if "p < 4" for p using quiet [OF that] wait isr bell by (simp add: announced_def)
  then show ?thesis using inv unfolding requests_done_def list_all_channels doorbells_inv_def by blast
qed

text \<open>Claim C5.
  No request is stranded.  Start with an idle firmware that serves its session and let intact
  frames of the session be queued that do not switch the core off, doorbells be written, replies
  be taken and the main thread run (while the worker, which has priority, sleeps) in any order,
  with the worker, the interrupt handler and the doorbell write of Linux interleaved access by
  access (the handler preempts the worker, Linux runs concurrently with both).  In every state
  that is reached, each further step of the work under way makes the work that is left smaller;
  the work can be completed; and wherever it has come to rest every request on a served
  priority has been taken from its ring, whatever race there was between the coalesced
  doorbell, the acknowledgement of the interrupt, the exchange of the pending word and the
  quota of the worker.
\<close>

theorem requests_are_served:
  assumes "mailbox_latch (cfg_mbox_write cfg)" and "idle_firmware cfg w0" and "doorbells_reachable cfg w0 s"
  shows "(\<forall>s'. work_step cfg s s' \<longrightarrow> work_left s' < work_left s) \<and>
    ((\<nexists>s'. work_step cfg s s') \<longrightarrow> requests_done cfg s) \<and>
    (\<exists>s'. (work_step cfg)\<^sup>*\<^sup>* s s' \<and> (\<nexists>s''. work_step cfg s' s'') \<and> requests_done cfg s')"
proof -
  have inv: "doorbells_inv cfg s" by (rule doorbells_reachable_inv [OF assms])
  have "\<exists>s'. (work_step cfg)\<^sup>*\<^sup>* s s' \<and> doorbells_inv cfg s' \<and> (\<nexists>s''. work_step cfg s' s'')" using inv
  proof (induction "work_left s" arbitrary: s rule: less_induct)
    case less
    then show ?case using work_step_ok [OF assms(1)] by (metis converse_rtranclp_into_rtranclp rtranclp.rtrancl_refl)
  qed
  then show ?thesis using inv work_step_ok [OF assms(1)] stuck_requests_done [OF assms(1)] by blast
qed

text \<open>The firmware of the board after boot is idle, and a PING can be queued.\<close>

lemma boot_registers: "\<not> a2b_pending (snd (mailmsg_cpu3_notify rk_mbox_write (rk_mbox_write (\<lambda>_. 0) A2B_INTEN v) 0)) p"
  by (rule cpu3_notify_cases [of 0 "rk_mbox_write (\<lambda>_. 0) A2B_INTEN v" rk_mbox_write])
     (simp_all add: a2b_pending_def rk_mbox_write_def A2B_CMD_def A2B_DAT_def B2A_CMD_def B2A_DAT_def)

lemma idle_booted:
  obtains w where "idle_firmware board_firmware w" "ep_generation (cpu3_endpoint w) = 5"
proof -
  have sh: "shared_wf (pg_mailmsg (session_page 5))" "session_announced (pg_mailmsg (session_page 5))"
    "ring_frames (shared_ring (pg_mailmsg (session_page 5)) Cpu3_to_linux 0) = []" using fresh_shared_announced [of 5] by simp_all
  show thesis
  proof (rule main_init_spec [OF sh, of board_firmware "\<lambda>_. 0"])
    fix w
    assume w: "cpu3_ok board_firmware w" "mailmsg_session_ready_published w" "mailmsg_endpoint_ready w" "\<not> c_halted w" "c_irq_enabled w"
      "fw_in w 0 = ring_frames (shared_ring (pg_mailmsg (session_page 5)) Linux_to_cpu3 0)"
      "\<And>q. q < 4 \<Longrightarrow> q \<noteq> 0 \<Longrightarrow> fw_in w q = ring_frames (shared_ring (pg_mailmsg (session_page 5)) Linux_to_cpu3 q) \<and>
        fw_out w q = ring_frames (shared_ring (pg_mailmsg (session_page 5)) Cpu3_to_linux q)"
      "ep_generation (cpu3_endpoint w) = shm_generation (pg_mailmsg (session_page 5))" "mailmsg_pending_priorities w = 0" "mailmsg_work_sem w = 0"
      "c_regs w = snd (mailmsg_cpu3_notify (cfg_mbox_write board_firmware)
        (cfg_mbox_write board_firmware (\<lambda>_. 0) A2B_INTEN ((\<lambda>_. 0) A2B_INTEN OR 0xf)) 0)"
    have "\<not> a2b_pending (c_regs w) q" for q unfolding w(11) using boot_registers [of _ q] by simp
    moreover have "fw_in w q = []" if "q < 4" for q using w(6) w(7) [OF that] that by (cases "q = 0") simp_all
    ultimately show thesis using w(1-5,8-10) by (intro that [of w]) (simp_all add: idle_firmware_def serving_def)
  qed simp
qed

theorem requests_are_served_witness:
  "\<exists>w s s'. idle_firmware board_firmware w \<and> doorbells_reachable board_firmware w s \<and> fw_in (db_cpu3 s) 1 = [ping_request] \<and>
     (work_step board_firmware)\<^sup>*\<^sup>* s s' \<and> fw_in (db_cpu3 s') 1 = []"
proof -
  obtain w where w: "idle_firmware board_firmware w" "ep_generation (cpu3_endpoint w) = 5" by (rule idle_booted)
  let ?m = "send_message 5 MAILMSG_MSG_PING 1 [7, 0, 0, 0] 4" and ?r = "shared_ring (pg_mailmsg (c_page w)) Linux_to_cpu3 1"
  have seal: "seal ?m = ping_request" by (simp add: request_frame_def)
  have m: "message_wf ?m" "frame_valid ?m" by (simp_all add: send_message_valid send_message_wf)
  have f: "linux_frame board_firmware w 1 ?m"
    using m w(2) request_frame_ok [of 5 1 "[7, 0, 0, 0]" MAILMSG_MSG_PING] unfolding linux_frame_def seal by (simp add: ordinary_def)
  have e: "ring_wf ?r" "ring_frames ?r = []" "serving board_firmware w"
    using w(1) by (simp_all add: idle_firmware_def serving_def cpu3_ok_def shared_ring_wf)
  have "ring_depth ?r < 7" using e(2) by (simp add: ring_frames_def)
  then have push: "mailmsg_ring_push ?r ?m = Some (0, ring_after_push ?r ?m)" using ring_push_ok [OF e(1) m(2)] by simp
  let ?s = "(doorbells_start w)\<lparr>db_cpu3 := set_in_ring 1 (ring_after_push ?r ?m) w, db_linux := Bell_read 1 (R1_AMP_MAILMSG_DOORBELL OR 1) 1\<rparr>"
  have "new_step board_firmware (doorbells_start w) ?s"
    using new_step.request [of "doorbells_start w" 1 board_firmware ?m] f push by (simp add: doorbells_start_def)
  then have r: "doorbells_reachable board_firmware w ?s" using doorbells_reachable.start doorbells_reachable.new by blast
  note pf = push_frames [OF e(1) m push]
  have "fw_in (db_cpu3 ?s) 1 = [ping_request]" using set_in_ring_ok(2) [OF e(3) _ pf(1), of 1 1] pf(2) e(2) seal by simp
  moreover obtain s' where "(work_step board_firmware)\<^sup>*\<^sup>* ?s s'" "requests_done board_firmware s'"
    using requests_are_served [OF _ w(1) r] rkl.mailbox_latch_axioms by auto
  moreover have "fw_in (db_cpu3 s') 1 = []" using calculation(3) by (simp add: requests_done_def)
  ultimately show ?thesis using w(1) r by blast
qed

end
