(* ===== verification/Cpu3_Ready_Race.thy ===== *)
theory Cpu3_Ready_Race
  imports Cpu3_Wakeup
begin

text \<open>
  The window between the doorbell of SESSION_READY and the flag that lets the worker serve.
  \<open>Cpu3_Wakeup\<close> shows that a serving firmware strands no request; here the main thread is
  stopped inside \<open>mailmsg_service_session_ready\<close>, after Linux has been told that the session
  is up and before the worker has.
\<close>

text \<open>The assignments at the end of \<open>mailmsg_service_session_ready\<close>.\<close>

definition session_ready_commit :: "mailmsg_send_result \<Rightarrow> cpu3_state \<Rightarrow> cpu3_state" where
  "session_ready_commit result w = w\<lparr>mailmsg_session_ready_committed := True,
     mailmsg_session_ready_published := mailmsg_notify_accepted (notify_result result)\<rparr>"

text \<open>The call up to the return of \<open>mailmsg_endpoint_send\<close>: the frame is queued and the doorbell rung.\<close>

definition session_ready_send :: "cpu3_config \<Rightarrow> cpu3_state \<Rightarrow> (int \<times> mailmsg_send_result \<times> cpu3_state) option" where
  "session_ready_send cfg w = cpu3_send cfg MAILMSG_PRIO_CRITICAL MAILMSG_MSG_SESSION_READY
     (session_payload (ep_generation (cpu3_endpoint w))) MAILMSG_SESSION_BYTES w"

lemma session_ready_split:
  "mailmsg_endpoint_ready w \<Longrightarrow> \<not> mailmsg_session_ready_published w \<Longrightarrow> \<not> mailmsg_session_ready_committed w \<Longrightarrow>
   session_ready_send cfg w = Some (0, result, w') \<Longrightarrow> mailmsg_service_session_ready cfg w = Some (session_ready_commit result w')"
  by (simp add: mailmsg_service_session_ready_def session_ready_send_def session_ready_commit_def)

text \<open>The worker throws away what the handler recorded while the session is not published.\<close>

lemma worker_before_published:
  assumes "\<not> mailmsg_session_ready_published w" and "\<not> cfg_skip_session_ready cfg" and "\<not> c_halted w"
    and "mailmsg_pending_priorities w \<noteq> 0" and "mailmsg_work_sem w = 1"
  shows "\<exists>w'. mailmsg_worker cfg w = Some w' \<and> mailmsg_pending_priorities w' = 0 \<and> mailmsg_work_sem w' = 0 \<and>
    c_regs w' = c_regs w \<and> pg_mailmsg (c_page w') = pg_mailmsg (c_page w)"
  using assms by (auto simp: mailmsg_worker_def mailmsg_pingpong_test_service_def Let_def)

text \<open>Linux queues a frame on \<open>p\<close> and writes its doorbell.\<close>

definition linux_sends :: "cpu3_config \<Rightarrow> u32 \<Rightarrow> mailmsg_ring \<Rightarrow> cpu3_state \<Rightarrow> cpu3_state" where
  "linux_sends cfg p r w = (set_in_ring p r w)\<lparr>c_regs :=
     cfg_mbox_write cfg (cfg_mbox_write cfg (c_regs w) (A2B_CMD p) (R1_AMP_MAILMSG_DOORBELL OR p)) (A2B_DAT p) p\<rparr>"

text \<open>Claim C35.
  A request can be stranded at the start of a session.  The firmware queues SESSION_READY and
  rings Linux (undisturbed, it would then publish the session).  Linux takes the frame as the
  start of the session and sends a request with its doorbell before the firmware has set the
  flag: the handler acknowledges and records the doorbell, the worker preempts the main thread,
  clears the record and serves nothing.  When the main thread has set the flag the session is
  published, the request is in its ring, and no doorbell, no recorded priority and no wake-up
  is left to have it served.
\<close>

theorem early_doorbell_strands_request:
  assumes "mailbox_hw (cfg_mbox_write cfg)" and "cpu3_ok cfg w" and "mailmsg_endpoint_ready w" and "\<not> cfg_skip_session_ready cfg"
    and "\<not> mailmsg_session_ready_published w" and "\<not> mailmsg_session_ready_committed w" and "\<not> c_halted w"
    and "mailmsg_pending_priorities w = 0" and "mailmsg_work_sem w = 0" and "fw_out w 0 = []"
    and "p < 4" and "ring_wf r" and "ring_frames r = fw_in w p @ [f]"
  shows "\<exists>result w1 w2. session_ready_send cfg w = Some (0, result, w1) \<and>
    mailmsg_service_session_ready cfg w = Some (session_ready_commit result w1) \<and>
    mailmsg_worker cfg (mailmsg_mailbox_a2b_matrix_isr cfg p (linux_sends cfg p r w1)) = Some w2 \<and>
    (let w3 = session_ready_commit result w2 in
      mailmsg_session_ready_published w3 \<and> f \<in> set (fw_in w3 p) \<and> \<not> a2b_pending (c_regs w3) p \<and>
      mailmsg_pending_priorities w3 = 0 \<and> mailmsg_work_sem w3 = 0)"
proof -
  let ?wr = "cfg_mbox_write cfg"
  have len: "MAILMSG_SESSION_BYTES \<le> 28" "unat MAILMSG_SESSION_BYTES \<le> length (session_payload (ep_generation (cpu3_endpoint w)))"
    by (simp_all add: session_payload_def)
  obtain result w1 where w1: "session_ready_send cfg w = Some (0, result, w1)" "cpu3_ok cfg w1" "same_service 0 w w1"
      "mailmsg_notify_accepted (notify_result result)"
    by (rule cpu3_send_spec [OF assms(2) _ len, of 0 MAILMSG_MSG_SESSION_READY])
       (use assms(10) in \<open>auto simp: session_ready_send_def\<close>)
  let ?v = "linux_sends cfg p r w1" and ?i = "mailmsg_mailbox_a2b_matrix_isr cfg p (linux_sends cfg p r w1)"
  have v: "mailmsg_pending_priorities ?v = 0" "mailmsg_work_sem ?v = 0" "\<not> c_halted ?v" "\<not> mailmsg_session_ready_published ?v"
    using w1(3) assms(5,7-9) by (simp_all add: linux_sends_def set_in_ring_def same_service_def)
  have "(R1_AMP_MAILMSG_DOORBELL OR p) AND 0xfffffff0 = AMP_MBOX_PROTOCOL_CMD" using assms(11) by (rule ch_cases) simp_all
  then have cmd: "c_regs ?v (A2B_CMD p) AND 0xfffffff0 = AMP_MBOX_PROTOCOL_CMD"
    using mailbox_hw.a2b_dat_cmd [OF assms(1,11)] mailbox_hw.a2b_cmd_holds [OF assms(1,11)] by (simp add: linux_sends_def)
  have i: "mailmsg_pending_priorities ?i = BIT p" "0 < mailmsg_work_sem ?i" "\<not> a2b_pending (c_regs ?i) p"
    using isr_protocol(1,2) [of ?v p cfg] cmd v(1) u32_mod_4 [OF assms(11)] mailbox_hw.isr_acknowledges [OF assms(1) refl assms(11,11) cmd] by simp_all
  have "mailmsg_work_sem ?i = 1" using isr_wakes [of ?v cfg p] v(1,2) i(2) by simp
  moreover have "BIT p \<noteq> 0" using assms(11) by (rule ch_cases) simp_all
  ultimately obtain w2 where w2: "mailmsg_worker cfg ?i = Some w2" "mailmsg_pending_priorities w2 = 0" "mailmsg_work_sem w2 = 0"
    "c_regs w2 = c_regs ?i" "pg_mailmsg (c_page w2) = pg_mailmsg (c_page ?i)"
    using worker_before_published [of ?i cfg] v(3,4) i(1) assms(4) by auto
  have "shared_wf (pg_mailmsg (c_page w1))" using w1(2) by (simp add: cpu3_ok_def)
  then have "fw_in w2 p = fw_in w p @ [f]"
    using shared_ring_set [of "pg_mailmsg (c_page w1)" p] assms(11,13) by (simp add: w2(5) linux_sends_def set_in_ring_def)
  then show ?thesis
    using session_ready_split [OF assms(3,5,6) w1(1)] w1(1,4) w2(1-4) i(3) by (auto simp: session_ready_commit_def Let_def)
qed

theorem early_doorbell_strands_request_witness:
  "\<exists>w r result w1 w2. session_ready_send board_firmware w = Some (0, result, w1) \<and>
     mailmsg_worker board_firmware (mailmsg_mailbox_a2b_matrix_isr board_firmware 1 (linux_sends board_firmware 1 r w1)) = Some w2 \<and>
     ping_request \<in> set (fw_in (session_ready_commit result w2) 1) \<and> mailmsg_pending_priorities (session_ready_commit result w2) = 0"
proof -
  have sh: "shared_wf (pg_mailmsg (session_page 5))" "session_announced (pg_mailmsg (session_page 5))"
    "\<And>a q. q < 4 \<Longrightarrow> ring_frames (shared_ring (pg_mailmsg (session_page 5)) a q) = []" using fresh_shared_announced [of 5] by simp_all
  obtain w where w: "cpu3_ok board_firmware w" "mailmsg_endpoint_ready w" "mailmsg_work_sem w = 0" "mailmsg_pending_priorities w = 0"
    "pg_mailmsg (c_page w) = pg_mailmsg (session_page 5)" "\<not> mailmsg_session_ready_committed w" "\<not> mailmsg_session_ready_published w" "\<not> c_halted w"
    using main_init_before [OF sh(1,2), of board_firmware "\<lambda>_. 0"] by metis
  let ?m = "send_message 5 MAILMSG_MSG_PING 1 [7, 0, 0, 0] 4" and ?r = "shared_ring (pg_mailmsg (c_page w)) Linux_to_cpu3 1"
  have r: "ring_wf ?r" "ring_frames ?r = []" using sh(1) sh(3) [of 1 Linux_to_cpu3] by (simp_all add: w(5) shared_ring_wf)
  then have "ring_depth ?r < 7" by (simp add: ring_frames_def)
  moreover have "message_wf ?m" by (simp add: send_message_wf)
  ultimately have "ring_wf (ring_after_push ?r ?m)" "ring_frames (ring_after_push ?r ?m) = fw_in w 1 @ [ping_request]"
    using ring_wf_after_push [OF r(1)] ring_frames_after_push [OF r(1)] r(2) by (simp_all add: request_frame_def)
  then obtain result w1 w2 where "session_ready_send board_firmware w = Some (0, result, w1)"
    "mailmsg_worker board_firmware (mailmsg_mailbox_a2b_matrix_isr board_firmware 1
       (linux_sends board_firmware 1 (ring_after_push ?r ?m) w1)) = Some w2"
    "ping_request \<in> set (fw_in (session_ready_commit result w2) 1)" "mailmsg_pending_priorities (session_ready_commit result w2) = 0"
    using early_doorbell_strands_request [of board_firmware w 1 "ring_after_push ?r ?m" ping_request] rk.mailbox_hw_axioms w sh(3) [of 0 Cpu3_to_linux]
    by (auto simp: Let_def)
  then show ?thesis by blast
qed

end
