(* ===== verification/Tools_Common.thy ===== *)
theory Tools_Common
  imports Amp_User
begin

text \<open>
  What the command line tools under \<^verbatim>\<open>LZAMP/tools\<close> share: the system calls they make, as a
  record of functions on a state of the outside world, the C library's \<open>strtoul\<close> with base 0 on a
  64-bit target, the payload helpers, and process exit as the left side of a sum.
\<close>

subsection \<open>System calls\<close>

text \<open>
  \<open>write\<close>, \<open>read\<close> and \<open>poll\<close> on the one open device give the return value and \<open>errno\<close>; \<open>read\<close> also
  gives the record it filled, \<open>poll\<close> the returned events.  The clock call gives seconds and
  nanoseconds, or fails; an allocation succeeds or fails.
\<close>

record 'e sys =
  sys_open :: "string \<Rightarrow> 'e \<Rightarrow> int \<times> 'e"
  sys_write :: "mailmsg_user_frame \<Rightarrow> 'e \<Rightarrow> int \<times> int \<times> 'e"
  sys_read :: "'e \<Rightarrow> int \<times> int \<times> mailmsg_user_frame \<times> 'e"
  sys_poll :: "int \<Rightarrow> 'e \<Rightarrow> int \<times> int \<times> 16 word \<times> 'e"
  sys_close :: "'e \<Rightarrow> 'e"
  sys_clock :: "'e \<Rightarrow> (u64 \<times> u64) option \<times> 'e"
  sys_alloc :: "int \<Rightarrow> 'e \<Rightarrow> bool \<times> 'e"

abbreviation (input) EINTR :: int where "EINTR \<equiv> 4"
abbreviation (input) POLLIN :: "16 word" where "POLLIN \<equiv> 1"
abbreviation (input) POLLERR :: "16 word" where "POLLERR \<equiv> 8"
abbreviation (input) POLLHUP :: "16 word" where "POLLHUP \<equiv> 16"
abbreviation (input) POLLNVAL :: "16 word" where "POLLNVAL \<equiv> 32"

text \<open>The size of \<open>struct mailmsg_user_frame\<close>: four words and 32 payload bytes.\<close>

abbreviation (input) FRAME_SIZE :: int where "FRAME_SIZE \<equiv> 48"

subsection \<open>Process exit\<close>

text \<open>\<open>Inl code\<close> is \<open>exit(code)\<close> out of a helper; \<open>None\<close> is a loop that does not end.\<close>

type_synonym 'a exits = "int + 'a"

definition and_then :: "'a exits \<Rightarrow> ('a \<Rightarrow> 'b exits) \<Rightarrow> 'b exits" where
  "and_then m k = (case m of Inl c \<Rightarrow> Inl c | Inr x \<Rightarrow> k x)"

definition proceed :: "'a exits option \<Rightarrow> ('a \<Rightarrow> 'b exits option) \<Rightarrow> 'b exits option" where
  "proceed m k = Option.bind m (\<lambda>r. case r of Inl c \<Rightarrow> Some (Inl c) | Inr x \<Rightarrow> k x)"

lemma and_then_simps [simp]: "and_then (Inl c) k = Inl c" "and_then (Inr x) k = k x"
  by (simp_all add: and_then_def)

lemma proceed_simps [simp]:
  "proceed None k = None" "proceed (Some (Inl c)) k = Some (Inl c)" "proceed (Some (Inr x)) k = k x"
  by (simp_all add: proceed_def)

lemma proceed_mono [partial_function_mono]:
  assumes "mono_option m" and "\<And>x. mono_option (\<lambda>f. k x f)"
  shows "mono_option (\<lambda>f. proceed (m f) (\<lambda>x. k x f))"
  unfolding proceed_def
proof (rule bind_mono [OF assms(1)])
  show "mono_option (\<lambda>f. case r of Inl c \<Rightarrow> Some (Inl c) | Inr x \<Rightarrow> k x f)" for r
    by (cases r) (simp_all add: assms(2) option.const_mono)
qed

subsection \<open>strtoul with base 0\<close>

definition isspace :: "char \<Rightarrow> bool" where
  "isspace c \<longleftrightarrow> (let n = of_char c :: nat in n = 32 \<or> 9 \<le> n \<and> n \<le> 13)"

definition digit_value :: "char \<Rightarrow> int" where
  "digit_value c = (let n = of_char c :: int in
     if 48 \<le> n \<and> n \<le> 57 then n - 48
     else if 65 \<le> n \<and> n \<le> 90 then n - 55
     else if 97 \<le> n \<and> n \<le> 122 then n - 87 else 36)"

fun scan_digits :: "int \<Rightarrow> int \<Rightarrow> string \<Rightarrow> int \<times> string" where
  "scan_digits base acc [] = (acc, [])"
| "scan_digits base acc (c # s) =
     (if digit_value c < base then scan_digits base (base * acc + digit_value c) s else (acc, c # s))"

fun number_base :: "string \<Rightarrow> int \<times> string" where
  "number_base (z # x # d # s) =
     (if z = CHR ''0'' then
        if (x = CHR ''x'' \<or> x = CHR ''X'') \<and> digit_value d < 16 then (16, d # s) else (8, z # x # d # s)
      else (10, z # x # d # s))"
| "number_base (z # s) = (if z = CHR ''0'' then (8, z # s) else (10, z # s))"
| "number_base [] = (10, [])"

text \<open>The value, whether \<open>errno\<close> is set to \<open>ERANGE\<close>, and the text from \<open>*end\<close> on.\<close>

definition strtoul :: "string \<Rightarrow> u64 \<times> bool \<times> string" where
  "strtoul text =
     (let s = dropWhile isspace text;
          (neg, s) = (case s of
              c # r \<Rightarrow> if c = CHR ''-'' then (True, r) else if c = CHR ''+'' then (False, r) else (False, s)
            | [] \<Rightarrow> (False, s));
          (base, s) = number_base s;
          (n, rest) = scan_digits base 0 s
      in if rest = s then (0, False, text)
         else if 2 ^ 64 \<le> n then (- 1, True, rest)
         else (if neg then - of_int n else of_int n, False, rest))"

subsection \<open>Payload helpers and requests\<close>

definition store_u32 :: "u8 list \<Rightarrow> u32 \<Rightarrow> u8 list" where
  "store_u32 bytes value =
     bytes[0 := ucast value, 1 := ucast (drop_bit 8 value), 2 := ucast (drop_bit 16 value), 3 := ucast (drop_bit 24 value)]"

definition load_u32 :: "u8 list \<Rightarrow> u32" where
  "load_u32 bytes =
     ucast (bytes ! 0) OR push_bit 8 (ucast (bytes ! 1)) OR push_bit 16 (ucast (bytes ! 2)) OR push_bit 24 (ucast (bytes ! 3))"

definition zero_user_frame :: mailmsg_user_frame where
  "zero_user_frame = \<lparr>fr_priority = 0, fr_type = 0, fr_sequence = 0, fr_length = 0, fr_payload = replicate 32 0\<rparr>"

definition tool_frame :: "u32 \<Rightarrow> u32 \<Rightarrow> mailmsg_user_frame" where
  "tool_frame priority value =
     zero_user_frame\<lparr>fr_priority := priority, fr_type := MAILMSG_MSG_PING, fr_length := 4,
       fr_payload := store_u32 (fr_payload zero_user_frame) value\<rparr>"

lemma store_u32_payload: "store_u32 bytes v = mailmsg_store_payload_u32 bytes 0 v"
  by (simp add: store_u32_def mailmsg_store_payload_u32_def numeral_eq_Suc)

lemma load_u32_payload: "load_u32 bytes = mailmsg_payload_u32 bytes 0"
  by (simp add: load_u32_def mailmsg_payload_u32_def numeral_eq_Suc)

lemma tool_frame_value: "load_u32 (fr_payload (tool_frame priority value)) = value"
  by (simp add: load_u32_payload store_u32_payload tool_frame_def zero_user_frame_def load_store_u32)

definition device_path :: "u64 \<Rightarrow> string" where
  "device_path priority = ''/dev/mailmsg-p'' @ [char_of (48 + unat priority)]"

lemma strtoul_examples:
  "strtoul ''42'' = (42, False, [])" "strtoul '' 0x1F'' = (31, False, [])" "strtoul ''-1'' = (- 1, False, [])"
  "strtoul ''010z'' = (8, False, ''z'')" "strtoul ''0x'' = (0, False, ''x'')" "strtoul ''abc'' = (0, False, ''abc'')"
  by (simp_all add: strtoul_def digit_value_def isspace_def)

end
