(* ===== verification/Tools_Bench.thy ===== *)
theory Tools_Bench
  imports Tools_Common
begin

text \<open>
  The window benchmark (\<^verbatim>\<open>LZAMP/tools/mailmsg_window_bench.c\<close>): one process keeps up to \<open>window\<close>
  requests in flight on one device, matches the answers by their value and reports counters and
  latencies.  Its locals are one record, its loops are \<open>fill_loop\<close>, \<open>read_loop\<close>, \<open>bench_loop\<close> and
  \<open>drain_loop\<close>; \<open>goto drain\<close> is a returned flag or the end of the loop.  Counters wrap as in C;
  the sizes of allocated arrays are integers.
\<close>

subsection \<open>Data\<close>

record request_slot =
  rq_value :: u32
  rq_start_ns :: u64
  rq_active :: bool

text \<open>The array of latencies is the list of its first \<open>count\<close> elements.\<close>

record result_set =
  rs_latency_ns :: "u64 list"
  rs_capacity :: int

record bench =
  b_slots :: "request_slot list"
  b_results :: result_set
  b_attempts :: u64
  b_write_ok :: u64
  b_enospc :: u64
  b_eagain :: u64
  b_write_other :: u64
  b_ack :: u64
  b_nack :: u64
  b_pong :: u64
  b_duplicate :: u64
  b_unknown :: u64
  b_read_error :: u64
  b_outstanding :: u64
  b_max_inflight :: u64
  b_next_value :: u32

definition bench_start :: "nat \<Rightarrow> u32 \<Rightarrow> bench" where
  "bench_start window base_value =
     \<lparr>b_slots = replicate window \<lparr>rq_value = 0, rq_start_ns = 0, rq_active = False\<rparr>,
      b_results = \<lparr>rs_latency_ns = [], rs_capacity = 0\<rparr>, b_attempts = 0, b_write_ok = 0, b_enospc = 0,
      b_eagain = 0, b_write_other = 0, b_ack = 0, b_nack = 0, b_pong = 0, b_duplicate = 0, b_unknown = 0,
      b_read_error = 0, b_outstanding = 0, b_max_inflight = 0, b_next_value = base_value\<rparr>"

subsection \<open>Helpers\<close>

definition monotonic_ns :: "'e sys \<Rightarrow> 'e \<Rightarrow> (u64 \<times> 'e) exits" where
  "monotonic_ns sys e =
     (case sys_clock sys e of
        (None, e) \<Rightarrow> Inl 1
      | (Some (tv_sec, tv_nsec), e) \<Rightarrow> Inr (tv_sec * 1000000000 + tv_nsec, e))"

definition parse_ulong :: "string \<Rightarrow> u64 \<Rightarrow> u64 exits" where
  "parse_ulong text maximum =
     (let (value, range_error, rest) = strtoul text in
      if range_error \<or> rest \<noteq> [] \<or> maximum < value then Inl 2 else Inr value)"

definition compare_u64 :: "u64 \<Rightarrow> u64 \<Rightarrow> int" where
  "compare_u64 a b = of_bool (b < a) - of_bool (a < b)"

definition append_latency :: "'e sys \<Rightarrow> result_set \<Rightarrow> u64 \<Rightarrow> 'e \<Rightarrow> (result_set \<times> 'e) exits" where
  "append_latency sys results latency_ns e =
     (let store = (\<lambda>results. results\<lparr>rs_latency_ns := rs_latency_ns results @ [latency_ns]\<rparr>) in
      if int (length (rs_latency_ns results)) = rs_capacity results then
        let new_capacity = (if rs_capacity results \<noteq> 0 then rs_capacity results * 2 else 4096);
            (ok, e) = sys_alloc sys (new_capacity * 8) e
        in if \<not> ok then Inl 1 else Inr (store (results\<lparr>rs_capacity := new_capacity\<rparr>), e)
      else Inr (store results, e))"

fun find_free_slot :: "request_slot list \<Rightarrow> nat option" where
  "find_free_slot [] = None"
| "find_free_slot (slot # slots) = (if \<not> rq_active slot then Some 0 else map_option Suc (find_free_slot slots))"

fun find_value :: "request_slot list \<Rightarrow> u32 \<Rightarrow> nat option" where
  "find_value [] value = None"
| "find_value (slot # slots) value =
     (if rq_active slot \<and> rq_value slot = value then Some 0 else map_option Suc (find_value slots value))"

definition percentile_index :: "u64 \<Rightarrow> u32 \<Rightarrow> int" where
  "percentile_index n percentile =
     (if n = 0 then 0
      else
        let rank = (n * ucast percentile + 99) div 100;
            rank = (if rank = 0 then 1 else rank)
        in sint (ucast (rank - 1) :: u32))"

subsection \<open>Issuing requests\<close>

definition issued :: "nat \<Rightarrow> u64 \<Rightarrow> bench \<Rightarrow> bench" where
  "issued i now b =
     (let outstanding = b_outstanding b + 1 in
      b\<lparr>b_slots := (b_slots b)[i := \<lparr>rq_value = b_next_value b, rq_start_ns = now, rq_active = True\<rparr>],
        b_next_value := b_next_value b + 1, b_write_ok := b_write_ok b + 1, b_outstanding := outstanding,
        b_max_inflight := (if b_max_inflight b < outstanding then outstanding else b_max_inflight b)\<rparr>)"

lemma unat_inc_less: "unat (a + 1) = unat a + 1" if "a < b" for a b :: u64
proof -
  have "unat b < 2 ^ 64" using unsigned_less [of b] by simp
  then have "unat a + 1 < 2 ^ 64" using that by (simp add: word_less_nat_alt)
  then show ?thesis by (simp add: unat_word_ariths)
qed

text \<open>The flag is \<open>goto drain\<close>.\<close>

function fill_loop :: "'e sys \<Rightarrow> u32 \<Rightarrow> u64 \<Rightarrow> bench \<Rightarrow> 'e \<Rightarrow> (bool \<times> bench \<times> 'e) exits" where
  "fill_loop sys priority window b e =
     (if b_outstanding b < window then
        case find_free_slot (b_slots b) of
          None \<Rightarrow> Inr (False, b, e)
        | Some i \<Rightarrow>
            let b = b\<lparr>b_attempts := b_attempts b + 1\<rparr>;
                (io_ret, errno, e) = sys_write sys (tool_frame priority (b_next_value b)) e
            in if io_ret = FRAME_SIZE then
                 (case monotonic_ns sys e of
                    Inl c \<Rightarrow> Inl c
                  | Inr (now, e) \<Rightarrow> fill_loop sys priority window (issued i now b) e)
               else if io_ret < 0 \<and> errno = ENOSPC then Inr (False, b\<lparr>b_enospc := b_enospc b + 1\<rparr>, e)
               else if io_ret < 0 \<and> errno = EAGAIN then Inr (False, b\<lparr>b_eagain := b_eagain b + 1\<rparr>, e)
               else Inr (True, b\<lparr>b_write_other := b_write_other b + 1\<rparr>, e)
      else Inr (False, b, e))"
  by pat_completeness auto

termination
  by (relation "measure (\<lambda>(sys, priority, window, b, e). unat window - unat (b_outstanding b))")
     (auto simp: issued_def Let_def unat_inc_less word_less_nat_alt)

declare fill_loop.simps [simp del]

subsection \<open>Taking answers\<close>

definition completed :: "nat \<Rightarrow> result_set \<Rightarrow> bench \<Rightarrow> bench" where
  "completed i results b =
     b\<lparr>b_results := results, b_slots := (b_slots b)[i := (b_slots b ! i)\<lparr>rq_active := False\<rparr>],
       b_outstanding := b_outstanding b - 1, b_pong := b_pong b + 1\<rparr>"

definition handle_response :: "'e sys \<Rightarrow> mailmsg_user_frame \<Rightarrow> bench \<Rightarrow> 'e \<Rightarrow> (bench \<times> 'e) exits" where
  "handle_response sys frame b e =
     (if fr_type frame = MAILMSG_MSG_ACK then Inr (b\<lparr>b_ack := b_ack b + 1\<rparr>, e)
      else if fr_type frame = MAILMSG_MSG_NACK then Inr (b\<lparr>b_nack := b_nack b + 1\<rparr>, e)
      else if fr_type frame \<noteq> MAILMSG_MSG_PONG \<or> fr_length frame < 4
      then Inr (b\<lparr>b_unknown := b_unknown b + 1\<rparr>, e)
      else
        let pong_value = load_u32 (fr_payload frame) in
        if pong_value = 0 then Inr (b\<lparr>b_unknown := b_unknown b + 1\<rparr>, e)
        else
          case find_value (b_slots b) (pong_value - 1) of
            None \<Rightarrow> Inr (b\<lparr>b_duplicate := b_duplicate b + 1\<rparr>, e)
          | Some i \<Rightarrow>
              and_then (monotonic_ns sys e) (\<lambda>(now, e).
              and_then (append_latency sys (b_results b) (now - rq_start_ns (b_slots b ! i)) e) (\<lambda>(results, e).
                Inr (completed i results b, e))))"

text \<open>
  The inner loop, the same in both outer loops: read until EAGAIN.  The flag says that a read
  failed otherwise.
\<close>

partial_function (option) read_loop :: "'e sys \<Rightarrow> bench \<Rightarrow> 'e \<Rightarrow> (bool \<times> bench \<times> 'e) exits option" where
  "read_loop sys b e =
     (let (io_ret, errno, frame, e) = sys_read sys e in
      if io_ret < 0 \<and> errno = EAGAIN then Some (Inr (False, b, e))
      else if io_ret \<noteq> FRAME_SIZE then Some (Inr (True, b\<lparr>b_read_error := b_read_error b + 1\<rparr>, e))
      else proceed (Some (handle_response sys frame b e)) (\<lambda>(b, e). read_loop sys b e))"

subsection \<open>The outer loops\<close>

text \<open>The measurement: it ends at the label \<open>drain\<close> on every path.\<close>

partial_function (option) bench_loop ::
  "'e sys \<Rightarrow> u32 \<Rightarrow> u64 \<Rightarrow> u64 \<Rightarrow> bench \<Rightarrow> 'e \<Rightarrow> (bench \<times> 'e) exits option" where
  "bench_loop sys priority window deadline_ns b e =
     proceed (Some (monotonic_ns sys e)) (\<lambda>(now_ns, e).
       if now_ns < deadline_ns then
         proceed (Some (fill_loop sys priority window b e)) (\<lambda>(goto_drain, b, e).
           if goto_drain then Some (Inr (b, e))
           else
             let (poll_ret, errno, revents, e) = sys_poll sys 10 e in
             if poll_ret < 0 then
               if errno = EINTR then bench_loop sys priority window deadline_ns b e
               else Some (Inr (b\<lparr>b_read_error := b_read_error b + 1\<rparr>, e))
             else if revents AND (POLLERR OR POLLHUP OR POLLNVAL) \<noteq> 0
             then Some (Inr (b\<lparr>b_read_error := b_read_error b + 1\<rparr>, e))
             else if revents AND POLLIN = 0 then bench_loop sys priority window deadline_ns b e
             else
               proceed (read_loop sys b e) (\<lambda>(failed, b, e).
                 if failed then Some (Inr (b, e))
                 else bench_loop sys priority window deadline_ns b e))
       else Some (Inr (b, e)))"

partial_function (option) drain_loop ::
  "'e sys \<Rightarrow> u64 \<Rightarrow> bench \<Rightarrow> 'e \<Rightarrow> (bench \<times> 'e) exits option" where
  "drain_loop sys drain_deadline_ns b e =
     (if b_outstanding b = 0 then Some (Inr (b, e))
      else
        proceed (Some (monotonic_ns sys e)) (\<lambda>(now_ns, e).
          if \<not> now_ns < drain_deadline_ns then Some (Inr (b, e))
          else
            let (poll_ret, errno, revents, e) = sys_poll sys 20 e in
            if poll_ret \<le> 0 then drain_loop sys drain_deadline_ns b e
            else if revents AND POLLIN = 0 then Some (Inr (b, e))
            else
              proceed (read_loop sys b e) (\<lambda>(failed, b, e). drain_loop sys drain_deadline_ns b e)))"

declare read_loop.simps [code] bench_loop.simps [code] drain_loop.simps [code]

subsection \<open>The report\<close>

text \<open>\<open>qsort\<close> of the C library: a sort by the comparison function.\<close>

fun insert_by :: "('a \<Rightarrow> 'a \<Rightarrow> int) \<Rightarrow> 'a \<Rightarrow> 'a list \<Rightarrow> 'a list" where
  "insert_by compare x [] = [x]"
| "insert_by compare x (y # ys) = (if compare x y \<le> 0 then x # y # ys else y # insert_by compare x ys)"

definition qsort :: "('a \<Rightarrow> 'a \<Rightarrow> int) \<Rightarrow> 'a list \<Rightarrow> 'a list" where
  "qsort compare xs = foldr (insert_by compare) xs []"

text \<open>Minimum, the three percentiles and maximum, \<open>None\<close> for an index outside the array.\<close>

definition array_get :: "'a list \<Rightarrow> int \<Rightarrow> 'a option" where
  "array_get xs i = (if 0 \<le> i \<and> nat i < length xs then Some (xs ! nat i) else None)"

definition latency_report :: "u64 list \<Rightarrow> u64 list option" where
  "latency_report latency_ns =
     (let n = of_nat (length latency_ns) in
      if latency_ns = [] then Some []
      else
        do { lo \<leftarrow> array_get latency_ns 0;
             p50 \<leftarrow> array_get latency_ns (percentile_index n 50);
             p95 \<leftarrow> array_get latency_ns (percentile_index n 95);
             p99 \<leftarrow> array_get latency_ns (percentile_index n 99);
             hi \<leftarrow> array_get latency_ns (int (length latency_ns) - 1);
             Some [lo, p50, p95, p99, hi] })"

definition exit_status :: "u32 \<Rightarrow> bench \<Rightarrow> int" where
  "exit_status priority b =
     (let timeouts = b_outstanding b in
      if b_eagain b \<noteq> 0 \<or> b_write_other b \<noteq> 0 \<or> b_read_error b \<noteq> 0 \<or> b_nack b \<noteq> 0 \<or>
         b_duplicate b \<noteq> 0 \<or> b_unknown b \<noteq> 0
      then 1
      else if mailmsg_priority_is_reliable priority \<and>
              (timeouts \<noteq> 0 \<or> b_ack b \<noteq> b_write_ok b \<or> b_pong b \<noteq> b_write_ok b)
      then 1 else 0)"

subsection \<open>The program\<close>

definition bench_measure :: "'e sys \<Rightarrow> u64 \<Rightarrow> u64 \<Rightarrow> u64 \<Rightarrow> u64 \<Rightarrow> 'e \<Rightarrow> (int \<times> bench \<times> 'e) exits option" where
  "bench_measure sys priority window duration_seconds base_value e =
     proceed (Some (monotonic_ns sys e)) (\<lambda>(start_ns, e).
     proceed (bench_loop sys (ucast priority) window (start_ns + duration_seconds * 1000000000)
                (bench_start (unat window) (ucast base_value)) e) (\<lambda>(b, e).
     proceed (Some (monotonic_ns sys e)) (\<lambda>(now, e).
     proceed (drain_loop sys (now + 5000000000) b e) (\<lambda>(b, e).
       let b = b\<lparr>b_results := (b_results b)\<lparr>rs_latency_ns := qsort compare_u64 (rs_latency_ns (b_results b))\<rparr>\<rparr>
       in Some (Inr (exit_status (ucast priority) b, b, sys_close sys e))))))"

text \<open>\<open>UINT32_MAX - 1000000U\<close>\<close>

abbreviation (input) MAX_BASE_VALUE :: u64 where "MAX_BASE_VALUE \<equiv> 4293967295"

definition bench_main :: "'e sys \<Rightarrow> string list \<Rightarrow> 'e \<Rightarrow> (int \<times> bench \<times> 'e) exits option" where
  "bench_main sys args e =
     (case args of
        [a1, a2, a3, a4] \<Rightarrow>
          proceed (Some (parse_ulong a1 3)) (\<lambda>priority.
          proceed (Some (parse_ulong a2 4096)) (\<lambda>window.
          proceed (Some (parse_ulong a3 3600)) (\<lambda>duration_seconds.
          proceed (Some (parse_ulong a4 MAX_BASE_VALUE)) (\<lambda>base_value.
            if window = 0 \<or> duration_seconds = 0 then Some (Inl 2)
            else
              let (ok, e) = sys_alloc sys (uint window * 24) e in
              if \<not> ok then Some (Inl 1)
              else
                let (fd, e) = sys_open sys (device_path priority) e in
                if fd < 0 then Some (Inl 1)
                else
                  let (poll_ret, errno, revents, e) = sys_poll sys 0 e in
                  if poll_ret < 0 \<or> revents AND (POLLERR OR POLLHUP OR POLLNVAL) \<noteq> 0 then Some (Inl 1)
                  else bench_measure sys priority window duration_seconds base_value e))))
      | _ \<Rightarrow> Some (Inl 2))"

subsection \<open>Slots\<close>

definition active_count :: "request_slot list \<Rightarrow> nat" where
  "active_count slots = length (filter rq_active slots)"

lemma find_free_slot_Some: "find_free_slot slots = Some i \<Longrightarrow> i < length slots \<and> \<not> rq_active (slots ! i)"
  by (induction slots arbitrary: i) (auto split: if_splits)

lemma find_free_slot_None: "find_free_slot slots = None \<Longrightarrow> active_count slots = length slots"
  by (induction slots) (auto simp: active_count_def split: if_splits)

lemma find_value_Some:
  "find_value slots v = Some i \<Longrightarrow> i < length slots \<and> rq_active (slots ! i) \<and> rq_value (slots ! i) = v"
  by (induction slots arbitrary: i) (auto split: if_splits)

lemma active_count_le: "active_count slots \<le> length slots"
  by (simp add: active_count_def)

lemma active_count_set:
  "i < length slots \<Longrightarrow> \<not> rq_active (slots ! i) \<Longrightarrow> rq_active s \<Longrightarrow> active_count (slots[i := s]) = Suc (active_count slots)"
  "i < length slots \<Longrightarrow> rq_active (slots ! i) \<Longrightarrow> \<not> rq_active s \<Longrightarrow> Suc (active_count (slots[i := s])) = active_count slots"
  by (induction slots arbitrary: i) (auto simp: active_count_def nth_Cons split: nat.splits)

subsection \<open>The accounting\<close>

definition bench_inv :: "u64 \<Rightarrow> bench \<Rightarrow> bool" where
  "bench_inv window b \<longleftrightarrow> window \<le> 4096 \<and> length (b_slots b) = unat window \<and>
     b_outstanding b = of_nat (active_count (b_slots b)) \<and>
     b_write_ok b = b_pong b + b_outstanding b \<and>
     b_attempts b = b_write_ok b + b_enospc b + b_eagain b + b_write_other b \<and>
     of_nat (length (rs_latency_ns (b_results b))) = b_pong b \<and>
     int (length (rs_latency_ns (b_results b))) \<le> rs_capacity (b_results b) \<and>
     b_outstanding b \<le> b_max_inflight b \<and> b_max_inflight b \<le> window"

lemma unat_outstanding:
  assumes "bench_inv window b"
  shows "unat (b_outstanding b) = active_count (b_slots b)"
proof -
  have "active_count (b_slots b) \<le> 4096"
    using assms active_count_le [of "b_slots b"] by (simp add: bench_inv_def word_le_nat_alt)
  then show ?thesis using assms by (simp add: bench_inv_def unat_of_nat)
qed

lemma bench_inv_issued:
  assumes "bench_inv window b" and "b_outstanding b < window" and "find_free_slot (b_slots b) = Some i"
  shows "bench_inv window (issued i now (b\<lparr>b_attempts := b_attempts b + 1\<rparr>))"
proof -
  note i = find_free_slot_Some [OF assms(3)]
  have le: "b_outstanding b + 1 \<le> window"
    using unat_inc_less [OF assms(2)] assms(2) by (simp add: word_le_nat_alt word_less_nat_alt)
  show ?thesis
    using assms(1) i le by (auto simp: bench_inv_def issued_def Let_def active_count_set not_less)
qed

lemma bench_inv_counters:
  "bench_inv window b \<Longrightarrow> bench_inv window (b\<lparr>b_attempts := b_attempts b + 1, b_enospc := b_enospc b + 1\<rparr>)"
  "bench_inv window b \<Longrightarrow> bench_inv window (b\<lparr>b_attempts := b_attempts b + 1, b_eagain := b_eagain b + 1\<rparr>)"
  "bench_inv window b \<Longrightarrow> bench_inv window (b\<lparr>b_attempts := b_attempts b + 1, b_write_other := b_write_other b + 1\<rparr>)"
  "bench_inv window (b\<lparr>b_ack := n\<rparr>) = bench_inv window b"
  "bench_inv window (b\<lparr>b_nack := n\<rparr>) = bench_inv window b"
  "bench_inv window (b\<lparr>b_unknown := n\<rparr>) = bench_inv window b"
  "bench_inv window (b\<lparr>b_duplicate := n\<rparr>) = bench_inv window b"
  "bench_inv window (b\<lparr>b_read_error := n\<rparr>) = bench_inv window b"
  by (auto simp: bench_inv_def)

lemma bench_inv_completed:
  assumes "bench_inv window b" and "find_value (b_slots b) v = Some i"
    and "rs_latency_ns results = rs_latency_ns (b_results b) @ [t]"
    and "int (length (rs_latency_ns results)) \<le> rs_capacity results"
  shows "bench_inv window (completed i results b)"
proof -
  note i = find_value_Some [OF assms(2)]
  let ?slots = "(b_slots b)[i := (b_slots b ! i)\<lparr>rq_active := False\<rparr>]"
  have count: "active_count (b_slots b) = Suc (active_count ?slots)"
    using i by (intro active_count_set(2) [symmetric]) simp_all
  have "b_outstanding b - 1 \<le> b_outstanding b"
    using count unat_outstanding [OF assms(1)] by (intro word_sub_le) (simp add: word_le_nat_alt)
  then have "b_outstanding b - 1 \<le> b_max_inflight b"
    using assms(1) by (auto simp: bench_inv_def intro: order.trans)
  with assms count show ?thesis by (simp add: bench_inv_def completed_def)
qed

subsection \<open>Total correctness of programs that may exit\<close>

definition ends :: "('a \<Rightarrow> bool) \<Rightarrow> 'a exits option \<Rightarrow> bool" where
  "ends Q m \<longleftrightarrow> (case m of None \<Rightarrow> False | Some (Inl c) \<Rightarrow> c = 1 | Some (Inr x) \<Rightarrow> Q x)"

lemma ends_simps [simp]:
  "\<not> ends Q None" "ends Q (Some (Inl c)) \<longleftrightarrow> c = 1" "ends Q (Some (Inr x)) \<longleftrightarrow> Q x"
  by (simp_all add: ends_def)

lemma ends_proceed: "ends P m \<Longrightarrow> (\<And>x. P x \<Longrightarrow> ends Q (k x)) \<Longrightarrow> ends Q (proceed m k)"
  by (cases m; cases "the m") auto

lemma ends_and_then: "ends P (Some m) \<Longrightarrow> (\<And>x. P x \<Longrightarrow> ends Q (Some (k x))) \<Longrightarrow> ends Q (Some (and_then m k))"
  by (cases m) auto

lemma ends_mono: "ends P m \<Longrightarrow> (\<And>x. P x \<Longrightarrow> Q x) \<Longrightarrow> ends Q m"
  by (auto simp: ends_def split: option.splits sum.splits)

text \<open>
  What the benchmark relies on.  \<open>now\<close> is the monotonic time in the outside world: the clock reports
  it and no call turns it back.  A reading may repeat the one before, but time passes: \<open>still\<close> bounds
  the readings that can still show the present value.  \<open>avail\<close> bounds the frames that can be read
  before the next EAGAIN: CPU3 answers requests, so only a write or the waiting in \<open>poll\<close> raises it.
\<close>

definition not_earlier :: "('e \<Rightarrow> nat) \<Rightarrow> ('e \<Rightarrow> nat) \<Rightarrow> 'e \<Rightarrow> 'e \<Rightarrow> bool" where
  "not_earlier now still e e' \<longleftrightarrow> now e < now e' \<or> now e = now e' \<and> still e' \<le> still e"

definition kernel_progress :: "'e sys \<Rightarrow> ('e \<Rightarrow> nat) \<Rightarrow> ('e \<Rightarrow> nat) \<Rightarrow> ('e \<Rightarrow> nat) \<Rightarrow> bool" where
  "kernel_progress sys now still avail \<longleftrightarrow>
     (\<forall>e s ns e'. sys_clock sys e = (Some (s, ns), e') \<longrightarrow>
        unat (s * 1000000000 + ns) = now e' \<and> now e \<le> now e' \<and> (now e = now e' \<longrightarrow> still e' < still e) \<and> avail e' \<le> avail e) \<and>
     (\<forall>n e ok e'. sys_alloc sys n e = (ok, e') \<longrightarrow> not_earlier now still e e' \<and> avail e' \<le> avail e) \<and>
     (\<forall>f e r err e'. sys_write sys f e = (r, err, e') \<longrightarrow> not_earlier now still e e') \<and>
     (\<forall>e r err f e'. sys_read sys e = (r, err, f, e') \<longrightarrow> not_earlier now still e e' \<and> (r = FRAME_SIZE \<longrightarrow> avail e' < avail e)) \<and>
     (\<forall>n e r err ev e'. sys_poll sys n e = (r, err, ev, e') \<longrightarrow> not_earlier now still e e')"

text \<open>A reading of the clock brings the end of the loops nearer: in time, or in the readings left at this time.\<close>

definition clock_moved :: "('e \<Rightarrow> nat) \<Rightarrow> ('e \<Rightarrow> nat) \<Rightarrow> 'e \<Rightarrow> 'e \<Rightarrow> bool" where
  "clock_moved now still e e' \<longleftrightarrow> now e < now e' \<or> now e = now e' \<and> still e' < still e"

lemma not_earlier_refl [simp]: "not_earlier now still e e"
  by (simp add: not_earlier_def)

lemma not_earlier_trans: "not_earlier now still e1 e2 \<Longrightarrow> not_earlier now still e2 e3 \<Longrightarrow> not_earlier now still e1 e3"
  by (auto simp: not_earlier_def)

lemma clock_moved_not_earlier: "clock_moved now still e1 e2 \<Longrightarrow> not_earlier now still e1 e2"
  by (auto simp: not_earlier_def clock_moved_def)

lemma clock_moved_measure:
  assumes "clock_moved now still e e1" and "not_earlier now still e1 e'" and "now e1 < deadline"
  shows "(e', e) \<in> measures [\<lambda>e. deadline - now e, still]"
  using assms by (auto simp: clock_moved_def not_earlier_def)

lemma kernel_progressD:
  assumes "kernel_progress sys now still avail"
  shows "sys_alloc sys n e = (ok, e') \<Longrightarrow> not_earlier now still e e' \<and> avail e' \<le> avail e"
    "sys_write sys f e = (r, err, e') \<Longrightarrow> not_earlier now still e e'"
    "sys_read sys e = (r, err, fr, e') \<Longrightarrow> not_earlier now still e e' \<and> (r = FRAME_SIZE \<longrightarrow> avail e' < avail e)"
    "sys_poll sys m e = (r, err, ev, e') \<Longrightarrow> not_earlier now still e e'"
  using assms unfolding kernel_progress_def by blast+

lemma monotonic_ns_ends:
  assumes "kernel_progress sys now still avail"
  shows "ends (\<lambda>(t, e'). unat t = now e' \<and> clock_moved now still e e' \<and> avail e' \<le> avail e) (Some (monotonic_ns sys e))"
  using assms by (auto simp: monotonic_ns_def kernel_progress_def clock_moved_def le_less split: prod.splits option.splits)

lemma append_latency_ends:
  assumes "kernel_progress sys now still avail" and "int (length (rs_latency_ns results)) \<le> rs_capacity results"
  shows "ends (\<lambda>(results', e'). rs_latency_ns results' = rs_latency_ns results @ [t] \<and>
      int (length (rs_latency_ns results')) \<le> rs_capacity results' \<and> not_earlier now still e e' \<and> avail e' \<le> avail e)
    (Some (append_latency sys results t e))"
  using assms(2) kernel_progressD(1) [OF assms(1)]
  by (auto simp: append_latency_def Let_def split: prod.splits)

lemma fill_loop_ends:
  assumes "kernel_progress sys now still avail" and "bench_inv window b"
  shows "ends (\<lambda>(d, b', e'). bench_inv window b' \<and> not_earlier now still e e') (Some (fill_loop sys priority window b e))"
  using assms
proof (induction sys priority window b e rule: fill_loop.induct)
  case (1 sys priority window b e)
  obtain io_ret errno e1 where w: "sys_write sys (tool_frame priority (b_next_value b)) e = (io_ret, errno, e1)"
    by (metis prod_cases3)
  note le = kernel_progressD(2) [OF "1.prems"(1) w]
  show ?case
  proof (cases "b_outstanding b < window \<and> find_free_slot (b_slots b) \<noteq> None")
    case False
    then show ?thesis using "1.prems" by (auto simp: fill_loop.simps [of sys priority window b e] split: option.splits)
  next
    case True
    then obtain i where i: "b_outstanding b < window" "find_free_slot (b_slots b) = Some i" by auto
    show ?thesis
    proof (cases "io_ret = FRAME_SIZE")
      case True
      show ?thesis
      proof (cases "monotonic_ns sys e1")
        case (Inl c)
        then show ?thesis using i w True monotonic_ns_ends [OF "1.prems"(1), of e1]
          by (simp add: fill_loop.simps [of sys priority window b e] Let_def)
      next
        case (Inr te)
        obtain t e2 where te: "te = (t, e2)" by (cases te)
        with Inr monotonic_ns_ends [OF "1.prems"(1), of e1] have "clock_moved now still e1 e2" by simp
        moreover have "ends (\<lambda>(d, b', e'). bench_inv window b' \<and> not_earlier now still e2 e')
          (Some (fill_loop sys priority window (issued i t (b\<lparr>b_attempts := b_attempts b + 1\<rparr>)) e2))"
          using "1.IH" [OF i] w True Inr te "1.prems" bench_inv_issued [OF "1.prems"(2) i] by simp
        ultimately show ?thesis using i w True Inr te le
          by (auto simp: fill_loop.simps [of sys priority window b e] Let_def elim!: ends_mono
              dest!: clock_moved_not_earlier dest: not_earlier_trans)
      qed
    next
      case False
      then show ?thesis using "1.prems" i w le bench_inv_counters
        by (auto simp: fill_loop.simps [of sys priority window b e] Let_def)
    qed
  qed
qed

lemma handle_response_ends:
  assumes "kernel_progress sys now still avail" and "bench_inv window b"
  shows "ends (\<lambda>(b', e'). bench_inv window b' \<and> not_earlier now still e e' \<and> avail e' \<le> avail e) (Some (handle_response sys frame b e))"
proof -
  have cap: "int (length (rs_latency_ns (b_results b))) \<le> rs_capacity (b_results b)"
    using assms(2) by (simp add: bench_inv_def)
  have "ends (\<lambda>(b', e'). bench_inv window b' \<and> not_earlier now still e e' \<and> avail e' \<le> avail e)
    (Some (and_then (monotonic_ns sys e) (\<lambda>(now, e).
       and_then (append_latency sys (b_results b) (now - rq_start_ns (b_slots b ! i)) e) (\<lambda>(results, e).
         Inr (completed i results b, e)))))" if "find_value (b_slots b) v = Some i" for v i
    by (rule ends_and_then [OF monotonic_ns_ends [OF assms(1)]])
       (auto intro!: ends_and_then [OF append_latency_ends [OF assms(1) cap]] bench_inv_completed [OF assms(2) that]
         dest!: clock_moved_not_earlier intro: not_earlier_trans)
  then show ?thesis
    using assms(2) by (auto simp: handle_response_def bench_inv_counters Let_def split: option.splits)
qed

lemma read_loop_ends:
  assumes "kernel_progress sys now still avail" and "bench_inv window b"
  shows "ends (\<lambda>(d, b', e'). bench_inv window b' \<and> not_earlier now still e e') (read_loop sys b e)"
  using assms(2)
proof (induction "avail e" arbitrary: b e rule: less_induct)
  case less
  obtain r err f e1 where rd: "sys_read sys e = (r, err, f, e1)" by (metis prod_cases4)
  note le = kernel_progressD(3) [OF assms(1) rd]
  show ?case
  proof (cases "r = FRAME_SIZE")
    case True
    have "ends (\<lambda>(d, b', e'). bench_inv window b' \<and> not_earlier now still e e')
      (proceed (Some (handle_response sys f b e1)) (\<lambda>(b, e). read_loop sys b e))"
    proof (rule ends_proceed [OF handle_response_ends [OF assms(1) less.prems]], clarify)
      fix b2 e2 assume *: "bench_inv window b2" "not_earlier now still e1 e2" "avail e2 \<le> avail e1"
      then have "avail e2 < avail e" using le True by simp
      from less.hyps [OF this *(1)] show "ends (\<lambda>(d, b', e'). bench_inv window b' \<and> not_earlier now still e e') (read_loop sys b2 e2)"
        by (rule ends_mono) (use le * in \<open>auto dest: not_earlier_trans\<close>)
    qed
    with True rd show ?thesis by (simp add: read_loop.simps [of sys b e])
  next
    case False
    then show ?thesis using rd le less.prems by (simp add: read_loop.simps [of sys b e] bench_inv_counters)
  qed
qed

text \<open>Each round of an outer loop reads the clock, so the time left bounds the rounds.\<close>

lemma bench_loop_ends:
  assumes "kernel_progress sys now still avail" and "bench_inv window b"
  shows "ends (\<lambda>(b', e'). bench_inv window b') (bench_loop sys priority window deadline b e)"
  using assms(2)
proof (induction e arbitrary: b rule: wf_induct_rule [OF wf_measures [of "[\<lambda>e. unat deadline - now e, still]"]])
  case (1 e)
  have tail: "ends (\<lambda>(b', e'). bench_inv window b') (let (poll_ret, errno, revents, e) = sys_poll sys 10 e2 in
      if poll_ret < 0 then
        if errno = EINTR then bench_loop sys priority window deadline b2 e
        else Some (Inr (b2\<lparr>b_read_error := b_read_error b2 + 1\<rparr>, e))
      else if revents AND (POLLERR OR POLLHUP OR POLLNVAL) \<noteq> 0
      then Some (Inr (b2\<lparr>b_read_error := b_read_error b2 + 1\<rparr>, e))
      else if revents AND POLLIN = 0 then bench_loop sys priority window deadline b2 e
      else
        proceed (read_loop sys b2 e) (\<lambda>(failed, b, e).
          if failed then Some (Inr (b, e)) else bench_loop sys priority window deadline b e))"
    if t: "unat t = now e1" "clock_moved now still e e1" "t < deadline" and b2: "bench_inv window b2" "not_earlier now still e1 e2"
    for t :: u64 and e1 b2 e2
  proof -
    have again: "ends (\<lambda>(b', e'). bench_inv window b') (bench_loop sys priority window deadline b' e')"
      if "bench_inv window b'" "not_earlier now still e1 e'" for b' e'
      using that t by (intro "1.IH" clock_moved_measure [of now still e e1]) (simp_all add: word_less_nat_alt)
    have rest: "ends (\<lambda>(b', e'). bench_inv window b')
        (proceed (read_loop sys b2 e3) (\<lambda>(failed, b, e). if failed then Some (Inr (b, e)) else bench_loop sys priority window deadline b e))"
      if "not_earlier now still e2 e3" for e3
      by (rule ends_proceed [OF read_loop_ends [OF assms(1) b2(1)]]) (use that again b2 in \<open>auto dest: not_earlier_trans\<close>)
    have polled: "not_earlier now still e2 e3 \<and> not_earlier now still e1 e3" if "sys_poll sys n e2 = (r, err, ev, e3)" for n r err ev e3
      using kernel_progressD(4) [OF assms(1) that] b2(2) by (blast intro: not_earlier_trans)
    show ?thesis
      using b2 again rest by (auto simp: bench_inv_counters dest: polled split: prod.splits)
  qed
  show ?case unfolding bench_loop.simps [of sys priority window deadline b e]
    using "1.prems" tail
    by (auto intro!: ends_proceed [OF monotonic_ns_ends [OF assms(1)]] ends_proceed [OF fill_loop_ends [OF assms(1) "1.prems"]])
qed

lemma drain_loop_ends:
  assumes "kernel_progress sys now still avail" and "bench_inv window b"
  shows "ends (\<lambda>(b', e'). bench_inv window b') (drain_loop sys deadline b e)"
  using assms(2)
proof (induction e arbitrary: b rule: wf_induct_rule [OF wf_measures [of "[\<lambda>e. unat deadline - now e, still]"]])
  case (1 e)
  have "ends (\<lambda>(b', e'). bench_inv window b') (let (poll_ret, errno, revents, e) = sys_poll sys 20 e1 in
            if poll_ret \<le> 0 then drain_loop sys deadline b e
            else if revents AND POLLIN = 0 then Some (Inr (b, e))
            else proceed (read_loop sys b e) (\<lambda>(failed, b, e). drain_loop sys deadline b e))"
    if t: "unat t = now e1" "clock_moved now still e e1" "t < deadline" for t :: u64 and e1
  proof -
    have again: "ends (\<lambda>(b', e'). bench_inv window b') (drain_loop sys deadline b2 e2)"
      if "bench_inv window b2" "not_earlier now still e1 e2" for b2 e2
      using that t by (intro "1.IH" clock_moved_measure [of now still e e1]) (simp_all add: word_less_nat_alt)
    have rest: "ends (\<lambda>(b', e'). bench_inv window b') (proceed (read_loop sys b e3) (\<lambda>(failed, b, e). drain_loop sys deadline b e))"
      if "not_earlier now still e1 e3" for e3
      by (rule ends_proceed [OF read_loop_ends [OF assms(1) "1.prems"]]) (use that again in \<open>auto dest: not_earlier_trans\<close>)
    show ?thesis
      using "1.prems" again rest by (auto dest: kernel_progressD(4) [OF assms(1)] intro: not_earlier_trans split: prod.splits)
  qed
  then show ?case unfolding drain_loop.simps [of sys deadline b e]
    using "1.prems" by (auto intro!: ends_proceed [OF monotonic_ns_ends [OF assms(1)]])
qed

subsection \<open>Sorting and percentiles\<close>

lemma compare_u64_le: "compare_u64 a b \<le> 0 \<longleftrightarrow> a \<le> b"
  by (auto simp: compare_u64_def)

lemma insert_by_insort: "insert_by compare_u64 x xs = insort x xs"
  by (induction xs) (simp_all add: compare_u64_le)

lemma qsort_sort: "qsort compare_u64 xs = sort xs"
  by (induction xs) (simp_all add: qsort_def insert_by_insort)

lemma sint_narrow:
  fixes w :: u64
  assumes "unat w < 2 ^ 31"
  shows "sint (ucast w :: u32) = int (unat w)"
proof -
  have "int (unat w) < 2 ^ 31" using assms by (simp del: of_nat_unat)
  then have "uint w < 2 ^ 31" by simp
  then have "signed_take_bit 31 (uint w) = uint w" by (intro signed_take_bit_int_eq_self) (simp_all add: order.trans [OF _ uint_ge_0])
  then show ?thesis by (simp add: signed_ucast_eq)
qed

text \<open>The nearest-rank percentile: no wrap-around below \<open>2 ^ 31\<close> samples.\<close>

lemma percentile_index_rank:
  assumes "0 < n" and "n < 2 ^ 31" and "0 < p" and "p \<le> 100"
  shows "percentile_index (of_nat n) (of_nat p) = int ((n * p + 99) div 100) - 1"
proof -
  have np: "n * p < 2 ^ 31 * 101" using assms by (intro mult_strict_mono) auto
  have "(n * p + 99) div 100 \<ge> 1" using assms by (simp add: Suc_le_eq div_greater_zero_iff)
  moreover have "(n * p + 99) div 100 \<le> n"
  proof -
    have "n * p \<le> n * 100" using assms(4) by (rule mult_le_mono2)
    then have "n * p + 99 < 100 * n + 100" by linarith
    then show ?thesis by (simp add: div_less_iff_less_mult less_Suc_eq_le [symmetric])
  qed
  ultimately have rank: "1 \<le> (n * p + 99) div 100" "(n * p + 99) div 100 < 2 ^ 31" using assms by auto
  have unat_rank: "unat ((of_nat n * ucast (of_nat p :: u32) + 99) div 100 :: u64) = (n * p + 99) div 100"
  proof -
    have "(ucast (of_nat p :: u32) :: u64) = of_nat p" using assms by (simp add: word_unat_eq_iff unsigned_ucast_eq unat_of_nat take_bit_nat_eq_self)
    then have "(of_nat n * ucast (of_nat p :: u32) + 99 :: u64) = of_nat (n * p + 99)" by simp
    moreover have "unat (of_nat k :: u64) = k" if "k < 2 ^ 64" for k using that by (simp add: unat_of_nat)
    then have "unat (of_nat (n * p + 99) :: u64) = n * p + 99" using np by (simp del: of_nat_add of_nat_mult)
    ultimately show ?thesis by (simp add: unat_div)
  qed
  have "(of_nat n :: u64) \<noteq> 0" using assms by (simp add: word_unat_eq_iff unat_of_nat)
  moreover have "(of_nat n * ucast (of_nat p :: u32) + 99) div 100 \<noteq> (0 :: u64)"
    using unat_rank rank by (metis not_one_le_zero unat_0)
  ultimately show ?thesis
    using unat_rank rank unat_sub [of 1 "(of_nat n * ucast (of_nat p :: u32) + 99) div 100 :: u64"]
    by (simp add: percentile_index_def Let_def sint_narrow word_le_nat_alt of_nat_diff)
qed

lemma percentile_in_array:
  assumes "xs \<noteq> []" and "length xs < 2 ^ 31" and "0 < p" and "p \<le> 100"
  obtains i where "i < length xs" "array_get xs (percentile_index (of_nat (length xs)) (of_nat p)) = Some (xs ! i)"
    "i + 1 = (length xs * p + 99) div 100"
proof -
  let ?n = "length xs" and ?r = "(length xs * p + 99) div 100"
  have "?n * p \<le> ?n * 100" using assms(4) by (rule mult_le_mono2)
  then have "?r < ?n + 1" by (intro less_mult_imp_div_less) (unfold add_mult_distrib, linarith)
  moreover have "1 \<le> ?r" using assms(1,3) by (simp add: Suc_le_eq div_greater_zero_iff)
  moreover have "percentile_index (of_nat ?n) (of_nat p) = int ?r - 1"
    using assms by (intro percentile_index_rank) simp_all
  ultimately show thesis by (intro that [of "?r - 1"]) (simp_all add: array_get_def nat_diff_distrib)
qed

lemma sorted_ends:
  fixes ys :: "'a::linorder list"
  assumes "sorted ys" and "ys \<noteq> []"
  shows "ys ! 0 = Min (set ys)" "ys ! (length ys - 1) = Max (set ys)"
proof -
  have mem: "ys ! 0 \<in> set ys" "ys ! (length ys - 1) \<in> set ys" using assms(2) by simp_all
  show "ys ! 0 = Min (set ys)" "ys ! (length ys - 1) = Max (set ys)"
    using assms mem by (auto intro!: Min_eqI [symmetric] Max_eqI [symmetric] sorted_nth_mono simp: set_conv_nth)
qed

lemma bench_inv_start: "window \<le> 4096 \<Longrightarrow> bench_inv window (bench_start (unat window) v)"
  by (simp add: bench_inv_def bench_start_def active_count_def)

lemma bench_inv_sorted:
  "bench_inv window b \<Longrightarrow>
   bench_inv window (b\<lparr>b_results := (b_results b)\<lparr>rs_latency_ns := qsort compare_u64 (rs_latency_ns (b_results b))\<rparr>\<rparr>)"
  by (auto simp: bench_inv_def qsort_sort)

lemma bench_measure_ends:
  assumes "kernel_progress sys now still avail" and "window \<le> 4096"
  shows "ends (\<lambda>(status, b, e'). bench_inv window b \<and> sorted (rs_latency_ns (b_results b)) \<and> status = exit_status (ucast priority) b)
    (bench_measure sys priority window duration base_value e)"
  unfolding bench_measure_def
  by (auto simp: Let_def qsort_sort bench_inv_sorted [unfolded qsort_sort]
      intro!: ends_proceed [OF monotonic_ns_ends [OF assms(1)]] ends_proceed [OF bench_loop_ends [OF assms(1)]]
        ends_proceed [OF drain_loop_ends [OF assms(1)]] bench_inv_start [OF assms(2)])

text \<open>Claim C31.
  The report of the benchmark is what its labels say: for any non-empty set of fewer than
  \<open>2 ^ 31\<close> samples no index is outside the array, the values are the minimum, the nearest-rank
  50th, 95th and 99th percentiles and the maximum of the samples, in ascending order.
\<close>

theorem bench_latency_report:
  assumes "xs \<noteq> []" and "length xs < 2 ^ 31"
  shows "\<exists>i50 i95 i99. latency_report (qsort compare_u64 xs) =
      Some [Min (set xs), sort xs ! i50, sort xs ! i95, sort xs ! i99, Max (set xs)] \<and>
    sorted [Min (set xs), sort xs ! i50, sort xs ! i95, sort xs ! i99, Max (set xs)] \<and>
    i50 + 1 = (length xs * 50 + 99) div 100 \<and> i95 + 1 = (length xs * 95 + 99) div 100 \<and>
    i99 + 1 = (length xs * 99 + 99) div 100 \<and> i99 < length xs"
proof -
  let ?ys = "sort xs"
  have ne: "?ys \<noteq> []" "length ?ys < 2 ^ 31" using assms by (metis length_0_conv length_sort, simp)
  obtain i50 where i50: "i50 < length ?ys" "array_get ?ys (percentile_index (of_nat (length ?ys)) (of_nat 50)) = Some (?ys ! i50)"
    "i50 + 1 = (length ?ys * 50 + 99) div 100" by (rule percentile_in_array [OF ne, of 50]) auto
  obtain i95 where i95: "i95 < length ?ys" "array_get ?ys (percentile_index (of_nat (length ?ys)) (of_nat 95)) = Some (?ys ! i95)"
    "i95 + 1 = (length ?ys * 95 + 99) div 100" by (rule percentile_in_array [OF ne, of 95]) auto
  obtain i99 where i99: "i99 < length ?ys" "array_get ?ys (percentile_index (of_nat (length ?ys)) (of_nat 99)) = Some (?ys ! i99)"
    "i99 + 1 = (length ?ys * 99 + 99) div 100" by (rule percentile_in_array [OF ne, of 99]) auto
  have ends: "?ys ! 0 = Min (set xs)" "?ys ! (length xs - 1) = Max (set xs)"
    using sorted_ends [OF sorted_sort ne(1)] by simp_all
  have "i50 \<le> i95" "i95 \<le> i99" using i50(3) i95(3) i99(3) by linarith+
  then have le: "?ys ! 0 \<le> ?ys ! i50" "?ys ! i50 \<le> ?ys ! i95" "?ys ! i95 \<le> ?ys ! i99" "?ys ! i99 \<le> ?ys ! (length xs - 1)"
    using i95(1) i99(1) by (auto intro!: sorted_nth_mono)
  have last: "int (length xs) - 1 = int (length xs - 1)" using assms(1) by (simp add: of_nat_diff Suc_le_eq)
  have get: "array_get ?ys 0 = Some (Min (set xs))" "array_get ?ys (int (length xs) - 1) = Some (Max (set xs))"
    unfolding last using assms(1) ends by (simp_all add: array_get_def)
  have report: "latency_report (qsort compare_u64 xs) = Some [Min (set xs), ?ys ! i50, ?ys ! i95, ?ys ! i99, Max (set xs)]"
    using i50(2) i95(2) i99(2) get ne(1) by (simp add: latency_report_def qsort_sort)
  have sorted: "sorted [Min (set xs), ?ys ! i50, ?ys ! i95, ?ys ! i99, Max (set xs)]"
    using le unfolding ends [symmetric] sorted2 by (simp only: sorted1 simp_thms)
  show ?thesis
    using report sorted i50(3) i95(3) i99(1,3)
    by (intro exI [of _ i50] exI [of _ i95] exI [of _ i99]) (simp only: length_sort simp_thms)
qed

theorem bench_latency_report_witness:
  "latency_report (qsort compare_u64 [30, 10, 20]) = Some [10, 20, 30, 30, 30]"
  using bench_latency_report [of "[30, 10, 20]"] by auto

lemma parse_ulong_le: "parse_ulong text maximum = Inr v \<Longrightarrow> v \<le> maximum"
  by (auto simp: parse_ulong_def not_less split: prod.splits if_splits)

lemma parse_ulong_exit: "parse_ulong text maximum = Inl c \<Longrightarrow> c = 2"
  by (auto simp: parse_ulong_def split: prod.splits if_splits)

lemma exit_status_ok:
  assumes "bench_inv window b" and "exit_status p b = 0" and "mailmsg_priority_is_reliable p"
  shows "b_ack b = b_write_ok b" "b_pong b = b_write_ok b" "\<forall>slot \<in> set (b_slots b). \<not> rq_active slot"
proof -
  have "b_outstanding b = 0" "b_ack b = b_write_ok b" "b_pong b = b_write_ok b"
    using assms(2,3) by (auto simp: exit_status_def Let_def split: if_splits)
  with unat_outstanding [OF assms(1)] show "b_ack b = b_write_ok b" "b_pong b = b_write_ok b"
    "\<forall>slot \<in> set (b_slots b). \<not> rq_active slot"
    by (auto simp: active_count_def filter_empty_conv)
qed

lemma bench_main_usage: "\<nexists>a1 a2 a3 a4. args = [a1, a2, a3, a4] \<Longrightarrow> bench_main sys args e = Some (Inl 2)"
  unfolding bench_main_def by (auto split: list.split)

lemma bench_main_bad_number:
  assumes "\<not> (\<exists>p w d v. parse_ulong a1 3 = Inr p \<and> parse_ulong a2 4096 = Inr w \<and> parse_ulong a3 3600 = Inr d \<and>
      parse_ulong a4 MAX_BASE_VALUE = Inr v)"
  shows "bench_main sys [a1, a2, a3, a4] e = Some (Inl 2)"
proof -
  have exit: "proceed (Some (parse_ulong s n)) k = Some (Inl 2)"
    if "\<And>v. parse_ulong s n = Inr v \<Longrightarrow> k v = Some (Inl 2)" for s n k
    using that by (cases "parse_ulong s n") (auto dest: parse_ulong_exit)
  show ?thesis unfolding bench_main_def list.case by (intro exit) (use assms in blast)
qed

definition in_order :: "u64 \<Rightarrow> u64 \<Rightarrow> (int \<times> bench \<times> 'e) exits \<Rightarrow> bool" where
  "in_order priority window r \<longleftrightarrow> r = Inl 1 \<or> r = Inl 2 \<or>
     (\<exists>b e. r = Inr (exit_status (ucast priority) b, b, e) \<and> bench_inv window b \<and> sorted (rs_latency_ns (b_results b)))"

lemma bench_measure_in_order:
  assumes "kernel_progress sys now still avail" and "window \<le> 4096"
  shows "\<exists>r. bench_measure sys priority window duration base_value e = Some r \<and> in_order priority window r"
  using bench_measure_ends [OF assms, of priority duration base_value e] by (auto simp: ends_def in_order_def split: option.splits sum.splits)

lemma bench_main_in_order:
  assumes "kernel_progress sys now still avail" and "parse_ulong a1 3 = Inr p" and "parse_ulong a2 4096 = Inr w"
    and "parse_ulong a3 3600 = Inr d" and "parse_ulong a4 MAX_BASE_VALUE = Inr v"
  shows "\<exists>r. bench_main sys [a1, a2, a3, a4] e = Some r \<and> in_order p w r"
proof -
  have measured: "\<exists>r. bench_measure sys p w d v e' = Some r \<and> in_order p w r" for e'
    by (rule bench_measure_in_order [OF assms(1) parse_ulong_le [OF assms(3)]])
  have failed: "in_order p w (Inl 1)" "in_order p w (Inl 2)" by (simp_all add: in_order_def)
  show ?thesis
    using measured failed assms(2-5) by (auto simp: bench_main_def Let_def split: prod.splits)
qed

text \<open>Claim C13.
  The benchmark always ends, whatever the device answers, as long as the monotonic clock never goes
  back and shows the same value only finitely often, and every burst of frames that can be read
  without waiting is finite.  It ends with status 1 or 2 from an early exit, or with its accounts in
  order: every attempt is one accepted write or one counted refusal, every accepted write is
  answered or still in a slot, never more than the window are in flight, and there is one
  latency for each answer, in ascending order.  Status 0 on a reliable priority (p0 or p1) means
  that every accepted request was acknowledged and answered and that no slot is in use; on the
  other priorities it says nothing about lost answers.
\<close>

theorem bench_ends_with_accounts:
  assumes "kernel_progress sys now still avail"
  shows "\<exists>r. bench_main sys args e = Some r \<and>
    (case r of
       Inl c \<Rightarrow> c = 1 \<or> c = 2
     | Inr (status, b, e') \<Rightarrow> \<exists>priority window. parse_ulong (args ! 0) 3 = Inr priority \<and> parse_ulong (args ! 1) 4096 = Inr window \<and>
         b_attempts b = b_write_ok b + b_enospc b + b_eagain b + b_write_other b \<and>
         b_write_ok b = b_pong b + b_outstanding b \<and> unat (b_outstanding b) = active_count (b_slots b) \<and>
         b_max_inflight b \<le> window \<and> of_nat (length (rs_latency_ns (b_results b))) = b_pong b \<and>
         sorted (rs_latency_ns (b_results b)) \<and> (status = 0 \<or> status = 1) \<and>
         (status = 0 \<and> mailmsg_priority_is_reliable (ucast priority) \<longrightarrow>
            b_ack b = b_write_ok b \<and> b_pong b = b_write_ok b \<and> (\<forall>slot \<in> set (b_slots b). \<not> rq_active slot)))"
proof (cases "\<exists>a1 a2 a3 a4. args = [a1, a2, a3, a4]")
  case False
  then have "bench_main sys args e = Some (Inl 2)" by (rule bench_main_usage)
  then show ?thesis by simp
next
  case True
  then obtain a1 a2 a3 a4 where args: "args = [a1, a2, a3, a4]" by blast
  show ?thesis
  proof (cases "\<exists>p w d v. parse_ulong a1 3 = Inr p \<and> parse_ulong a2 4096 = Inr w \<and> parse_ulong a3 3600 = Inr d \<and>
      parse_ulong a4 MAX_BASE_VALUE = Inr v")
    case False
    then have "bench_main sys args e = Some (Inl 2)" unfolding args by (rule bench_main_bad_number)
    then show ?thesis by simp
  next
    case True
    then obtain p w d v where parsed: "parse_ulong a1 3 = Inr p" "parse_ulong a2 4096 = Inr w" "parse_ulong a3 3600 = Inr d"
      "parse_ulong a4 MAX_BASE_VALUE = Inr v" by blast
    from bench_main_in_order [OF assms parsed, of e] obtain r
      where r: "bench_main sys args e = Some r" "in_order p w r" unfolding args by blast
    from r(2) consider "r = Inl 1 \<or> r = Inl 2"
      | b e' where "r = Inr (exit_status (ucast p) b, b, e')" "bench_inv w b" "sorted (rs_latency_ns (b_results b))"
      unfolding in_order_def by blast
    then show ?thesis
    proof cases
      case 1
      then show ?thesis unfolding r(1) by (elim disjE) simp_all
    next
      case (2 b e')
      have status: "exit_status (ucast p) b = 0 \<or> exit_status (ucast p) b = 1" by (simp add: exit_status_def Let_def)
      have parse: "parse_ulong (args ! 0) 3 = Inr p" "parse_ulong (args ! 1) 4096 = Inr w" using parsed by (simp_all add: args)
      have inv: "b_attempts b = b_write_ok b + b_enospc b + b_eagain b + b_write_other b" "b_write_ok b = b_pong b + b_outstanding b"
        "b_max_inflight b \<le> w" "of_nat (length (rs_latency_ns (b_results b))) = b_pong b"
        using 2(2) unfolding bench_inv_def by blast+
      have ok: "exit_status (ucast p) b = 0 \<and> mailmsg_priority_is_reliable (ucast p) \<longrightarrow>
          b_ack b = b_write_ok b \<and> b_pong b = b_write_ok b \<and> (\<forall>slot \<in> set (b_slots b). \<not> rq_active slot)"
        using exit_status_ok [OF 2(2)] by blast
      show ?thesis
        by (rule exI [of _ r], rule conjI [OF r(1)], unfold 2(1) sum.case prod.case, rule exI [of _ p], rule exI [of _ w],
            intro conjI) (fact parse inv status ok 2(3) unat_outstanding [OF 2(2)])+
    qed
  qed
qed

text \<open>
  A world in which the accounts can be watched: the device answers each request at once with an
  acknowledgement and a PONG, and the coarse clock shows each value twice before it steps by 300 ms.
\<close>

definition echo_sys :: "(u64 \<times> mailmsg_user_frame list) sys" where
  "echo_sys =
     \<lparr>sys_open = (\<lambda>path e. (3, e)),
      sys_write = (\<lambda>f (t, q). (FRAME_SIZE, 0, t,
        q @ [f\<lparr>fr_type := MAILMSG_MSG_ACK\<rparr>,
             f\<lparr>fr_type := MAILMSG_MSG_PONG, fr_payload := store_u32 (fr_payload f) (load_u32 (fr_payload f) + 1)\<rparr>])),
      sys_read = (\<lambda>(t, q). case q of [] \<Rightarrow> (- 1, EAGAIN, zero_user_frame, t, q) | f # q \<Rightarrow> (FRAME_SIZE, 0, f, t, q)),
      sys_poll = (\<lambda>timeout (t, q). if q = [] then (0, 0, 0, t, q) else (1, 0, POLLIN, t, q)),
      sys_close = (\<lambda>e. e),
      sys_clock = (\<lambda>(n, q). if n < 0x100000000 then (Some (0, (n + 1) div 2 * 300000000), n + 1, q) else (None, n, q)),
      sys_alloc = (\<lambda>n e. (True, e))\<rparr>"

lemma echo_clock:
  fixes n :: u64
  assumes "n < 0x100000000"
  shows "unat ((n + 1) div 2 * 300000000) = Suc (unat n) div 2 * 300000000" "unat (n + 1) = Suc (unat n)"
proof -
  have n: "unat n < 0x100000000" using assms by (simp add: word_less_nat_alt)
  then show s: "unat (n + 1) = Suc (unat n)" by (simp add: unat_word_ariths)
  have "Suc (unat n) div 2 * 300000000 < 2 ^ 64" using n by simp
  then show "unat ((n + 1) div 2 * 300000000) = Suc (unat n) div 2 * 300000000"
    using s by (simp add: unat_word_ariths unat_div)
qed

lemma echo_progress:
  "kernel_progress echo_sys (\<lambda>(n, q). unat n div 2 * 300000000) (\<lambda>(n, q). 1 - unat n mod 2) (\<lambda>(n, q). length q)"
proof -
  have step: "k div 2 * 300000000 \<le> Suc k div 2 * 300000000 \<and>
      (k div 2 * 300000000 = Suc k div 2 * 300000000 \<longrightarrow> 1 - Suc k mod 2 < 1 - k mod 2)" for k :: nat
    by (cases "even k") (auto elim!: evenE oddE)
  show ?thesis
    using step by (auto simp: kernel_progress_def echo_sys_def echo_clock not_earlier_def split: list.splits if_splits)
qed

lemma echo_run:
  "map_option (map_sum id (\<lambda>(status, b, e). (status, b_write_ok b, rs_latency_ns (b_results b))))
     (bench_main echo_sys [''0'', ''1'', ''1'', ''5''] (0, [])) = Some (Inr (0, 2, [0, 300000000]))"
  by code_simp

lemma echo_result:
  obtains b e where "bench_main echo_sys [''0'', ''1'', ''1'', ''5''] (0, []) = Some (Inr (0, b, e))" "b_write_ok b = 2"
    "rs_latency_ns (b_results b) = [0, 300000000]"
proof (cases "bench_main echo_sys [''0'', ''1'', ''1'', ''5''] (0, [])")
  case (Some z)
  with echo_run that show thesis by (cases z) auto
qed (use echo_run in simp)

theorem bench_ends_with_accounts_witness:
  "\<exists>b e. bench_main echo_sys [''0'', ''1'', ''1'', ''5''] (0, []) = Some (Inr (0, b, e)) \<and> b_pong b = 2 \<and> b_ack b = 2 \<and>
    b_outstanding b = 0 \<and> rs_latency_ns (b_results b) = [0, 300000000]"
proof -
  obtain b e where b: "bench_main echo_sys [''0'', ''1'', ''1'', ''5''] (0, []) = Some (Inr (0, b, e))" "b_write_ok b = 2"
    "rs_latency_ns (b_results b) = [0, 300000000]"
    by (rule echo_result)
  have parse: "parse_ulong ([''0'', ''1'', ''1'', ''5''] ! 0) 3 = Inr 0"
    by (simp add: parse_ulong_def strtoul_def digit_value_def isspace_def)
  have reliable: "mailmsg_priority_is_reliable (ucast (0 :: u64))" by (simp add: mailmsg_priority_is_reliable_def)
  have acc: "b_write_ok b = b_pong b + b_outstanding b" "b_ack b = b_write_ok b" "b_pong b = b_write_ok b"
    using bench_ends_with_accounts [OF echo_progress, of "[''0'', ''1'', ''1'', ''5'']" "(0, [])", unfolded b(1) option.inject parse]
      reliable by (auto simp only: sum.case prod.case sum.inject)
  then have "b_outstanding b = 0" by (metis add_cancel_left_right)
  with acc b show ?thesis by metis
qed

end
