(* ===== verification/Tools_Client.thy ===== *)
theory Tools_Client
  imports Tools_Common
begin

text \<open>
  The smoke test \<^verbatim>\<open>LZAMP/tools/mailmsg_user_client.c\<close>: it sends one PING on one device and prints
  the one or two answers.  A printed line is a value: the header fields of the frame and what
  the client decoded from the payload.
\<close>

datatype line_detail = Feedback u32 int | Value u32 | No_detail

record client_line =
  ln_priority :: u32
  ln_type :: u32
  ln_sequence :: u32
  ln_length :: u32
  ln_detail :: line_detail

definition print_frame :: "mailmsg_user_frame \<Rightarrow> client_line" where
  "print_frame frame =
     \<lparr>ln_priority = fr_priority frame, ln_type = fr_type frame, ln_sequence = fr_sequence frame, ln_length = fr_length frame,
      ln_detail =
        (if (fr_type frame = MAILMSG_MSG_ACK \<or> fr_type frame = MAILMSG_MSG_NACK) \<and> MAILMSG_FEEDBACK_BYTES \<le> fr_length frame
         then Feedback (load_u32 (fr_payload frame)) (sint (load_u32 (drop MAILMSG_FEEDBACK_STATUS_OFFSET (fr_payload frame))))
         else if 4 \<le> fr_length frame then Value (load_u32 (fr_payload frame))
         else No_detail)\<rparr>"

text \<open>The loop over the expected answers, with the \<open>close\<close> at each of its ends: the exit status and what was
  printed.\<close>

fun client_loop :: "'e sys \<Rightarrow> nat \<Rightarrow> 'e \<Rightarrow> int \<times> client_line list \<times> 'e" where
  "client_loop sys 0 e = (0, [], sys_close sys e)"
| "client_loop sys (Suc n) e =
     (let (ret, errno, revents, e) = sys_poll sys 1000 e in
      if ret \<le> 0 then (1, [], sys_close sys e)
      else if revents AND POLLIN = 0 then (1, [], sys_close sys e)
      else
        let (ret, errno, frame, e) = sys_read sys e in
        if ret \<noteq> FRAME_SIZE then (1, [], sys_close sys e)
        else
          let (status, lines, e) = client_loop sys n e
          in (status, print_frame frame # lines, e))"

definition client_run :: "'e sys \<Rightarrow> u64 \<Rightarrow> u64 \<Rightarrow> bool \<Rightarrow> 'e \<Rightarrow> int \<times> client_line list \<times> 'e" where
  "client_run sys priority value no_read e =
     (let (fd, e) = sys_open sys (device_path priority) e in
      if fd < 0 then (1, [], e)
      else
        let (ret, errno, e) = sys_write sys (tool_frame (ucast priority) (ucast value)) e in
        if ret \<noteq> FRAME_SIZE then (1, [], sys_close sys e)
        else client_loop sys (if no_read then 0 else if mailmsg_priority_is_reliable (ucast priority) then 2 else 1) e)"

definition client_main :: "'e sys \<Rightarrow> string list \<Rightarrow> 'e \<Rightarrow> int \<times> client_line list \<times> 'e" where
  "client_main sys args e =
     (if length args \<noteq> 2 \<and> (length args \<noteq> 3 \<or> args ! 2 \<noteq> ''--no-read'') then (2, [], e)
      else
        let (priority, range_error, rest) = strtoul (args ! 0) in
        if rest \<noteq> [] \<or> 4 \<le> priority then (2, [], e)
        else
          let (value, range_error, rest) = strtoul (args ! 1) in
          if rest \<noteq> [] \<or> 0xffffffff < value then (2, [], e)
          else client_run sys priority value (length args = 3) e)"

end
