(* ===== verification/Tools_Board.thy ===== *)
theory Tools_Board
  imports Amp_Joint Tools_Client
begin

text \<open>
  The client on the board: its system calls are the entry points of the driver, and after each
  write whose doorbell is pending the firmware takes its interrupt, runs its worker and rings
  back before the client goes on.
\<close>

record board =
  bd_data :: r1_amp_cpu_on_data
  bd_page :: amp_page
  bd_cpu3 :: cpu3_state
  bd_file :: r1_amp_mailmsg_user_file

text \<open>The turn of the firmware on channel \<open>p\<close>, and the mailbox callback it causes if it rang back.\<close>

definition firmware_turn :: "cpu3_config \<Rightarrow> u32 \<Rightarrow> board \<Rightarrow> board" where
  "firmware_turn cfg p b =
     (if a2b_pending (mbox_regs0 (d_ctx (bd_data b))) p then
        case mailmsg_worker cfg (mailmsg_mailbox_a2b_matrix_isr cfg p (see_linux (bd_data b) (bd_page b) (bd_cpu3 b))) of
          None \<Rightarrow> b
        | Some w \<Rightarrow> b\<lparr>bd_data := (if b2a_pending (c_regs w) p then r1_amp_mbox_rx_callback p None else id) (see_cpu3 w (bd_data b)),
            bd_page := c_page w, bd_cpu3 := w\<rparr>
      else b)"

text \<open>A negative result of the driver is \<open>-1\<close> with \<open>errno\<close> in user space.\<close>

definition libc_result :: "int \<Rightarrow> int \<times> int" where
  "libc_result r = (if r < 0 then (- 1, - r) else (r, 0))"

definition board_open :: "string \<Rightarrow> board \<Rightarrow> int \<times> board" where
  "board_open path b =
     (case r1_amp_mailmsg_user_open True (of_nat (of_char (last path) - 48)) (bd_data b) of
        (r, Some uf, d) \<Rightarrow> (3, b\<lparr>bd_data := d, bd_file := uf\<rparr>)
      | (r, None, d) \<Rightarrow> (- 1, b\<lparr>bd_data := d\<rparr>))"

definition board_write :: "cpu3_config \<Rightarrow> mailmsg_user_frame \<Rightarrow> board \<Rightarrow> int \<times> int \<times> board" where
  "board_write cfg frame b =
     (case r1_amp_mailmsg_user_write 48 (Some frame) (bd_file b) (bd_data b) (bd_page b) of
        None \<Rightarrow> (- 1, EFAULT, b)
      | Some (r, d, pg) \<Rightarrow>
          (fst (libc_result r), snd (libc_result r), firmware_turn cfg (uf_channel (bd_file b)) (b\<lparr>bd_data := d, bd_page := pg\<rparr>)))"

definition board_poll :: "int \<Rightarrow> board \<Rightarrow> int \<times> int \<times> 16 word \<times> board" where
  "board_poll timeout b =
     (let (mask, uf, d) = r1_amp_mailmsg_user_poll (bd_file b) (bd_data b) (bd_page b);
          revents = ucast mask AND (POLLIN OR POLLERR OR POLLHUP)
      in (if revents = 0 then 0 else 1, 0, revents, b\<lparr>bd_data := d, bd_file := uf\<rparr>))"

text \<open>A read that has to wait ends with a signal here.\<close>

definition board_read :: "mailmsg_message \<Rightarrow> board \<Rightarrow> int \<times> int \<times> mailmsg_user_frame \<times> board" where
  "board_read m b =
     (case r1_amp_mailmsg_user_read 48 False False m (bd_file b) (bd_data b) (bd_page b) of
        Some (Read_return r frame, uf, d, pg) \<Rightarrow>
          (fst (libc_result r), snd (libc_result r), (case frame of None \<Rightarrow> zero_user_frame | Some f \<Rightarrow> f),
           b\<lparr>bd_data := d, bd_page := pg, bd_file := uf\<rparr>)
      | Some (Read_wait g, uf, d, pg) \<Rightarrow> (- 1, EINTR, zero_user_frame, b\<lparr>bd_data := d, bd_page := pg, bd_file := uf\<rparr>)
      | None \<Rightarrow> (- 1, EFAULT, zero_user_frame, b))"

definition board_close :: "board \<Rightarrow> board" where
  "board_close b = b\<lparr>bd_data := snd (r1_amp_mailmsg_user_release (bd_file b) (bd_data b))\<rparr>"

definition board_sys :: "cpu3_config \<Rightarrow> mailmsg_message \<Rightarrow> board sys" where
  "board_sys cfg m = \<lparr>sys_open = board_open, sys_write = board_write cfg, sys_read = board_read m, sys_poll = board_poll,
     sys_close = board_close, sys_clock = (\<lambda>b. (None, b)), sys_alloc = (\<lambda>n b. (True, b))\<rparr>"

subsection \<open>Polling and reading what is queued\<close>

text \<open>
  An active session in which the open file is or can become the reader of its channel; \<open>n\<close> files
  are open.
\<close>

definition board_ready :: "mmio_write \<Rightarrow> u32 \<Rightarrow> u32 \<Rightarrow> u32 \<Rightarrow> board \<Rightarrow> bool" where
  "board_ready wr g p n b \<longleftrightarrow> mailmsg_user_open_count (bd_data b) = n \<and> driver_inv wr (bd_data b) (bd_page b) \<and> mailmsg_state (bd_data b) = R1_AMP_MAILMSG_ACTIVE \<and>
     session_generation (bd_data b) = g \<and> p < 4 \<and> uf_channel (bd_file b) = p \<and>
     uc_reader_open_count (mailmsg_user (bd_data b) ! unat p) = (if reader_claimed (bd_file b) then 1 else 0)"

abbreviation bd_rx :: "u32 \<Rightarrow> board \<Rightarrow> mailmsg_message list" where
  "bd_rx p b \<equiv> rx_frames (bd_page b) p"

lemma claimed_count:
  assumes "r1_amp_mailmsg_user_claim_reader uf d = (0, uf\<lparr>reader_claimed := True\<rparr>, d\<lparr>mailmsg_user := us\<rparr>)"
    and "unat (uf_channel uf) < length (mailmsg_user d)"
    and "uc_reader_open_count (mailmsg_user d ! unat (uf_channel uf)) = (if reader_claimed uf then 1 else 0)"
  shows "uc_reader_open_count (us ! unat (uf_channel uf)) = 1"
proof -
  have "mailmsg_user (snd (snd (r1_amp_mailmsg_user_claim_reader uf d))) = us" using assms(1) by simp
  with assms(2,3) show ?thesis
    by (auto simp: r1_amp_mailmsg_user_claim_reader_def upd_user_def split: if_split_asm)
qed

lemma board_poll_ready:
  assumes "board_ready wr g p n b" and "bd_rx p b \<noteq> []"
  obtains b' where "board_poll timeout b = (1, 0, POLLIN, b')" "board_ready wr g p n b'" "bd_rx p b' = bd_rx p b"
proof -
  let ?d = "bd_data b" and ?pg = "bd_page b" and ?uf = "bd_file b"
  from assms(1) have r: "driver_inv wr ?d ?pg" "mailmsg_state ?d = R1_AMP_MAILMSG_ACTIVE" "session_generation ?d = g" "p < 4" "uf_channel ?uf = p"
    "uc_reader_open_count (mailmsg_user ?d ! unat p) = (if reader_claimed ?uf then 1 else 0)" "mailmsg_user_open_count ?d = n"
    by (simp_all add: board_ready_def)
  have ch: "uf_channel ?uf < 4" using r(4,5) by simp
  show thesis
  proof (cases rule: claim_reader_cases [OF r(1) ch, case_names busy claimed])
    case busy
    with r(5,6) show thesis by simp
  next
    case (claimed us)
    have one: "uc_reader_open_count (us ! unat p) = 1"
      using claimed_count [OF claimed(2)] user_channel(2) [OF r(1) r(4)] r(5,6) by simp
    have "mailmsg_endpoint_has_received (d_endpoint ?d) (pg_mailmsg ?pg) p = 1"
      using has_received_bound [OF driver_inv_bound(1,2) [OF r(1)] r(4)] r(2) assms(2) by simp
    moreover have "uc_priority (us ! unat p) = p" using user_channel(1) [OF claimed(3) r(4)] by simp
    ultimately have poll: "r1_amp_mailmsg_user_poll ?uf ?d ?pg = (EPOLLIN OR EPOLLRDNORM, ?uf\<lparr>reader_claimed := True\<rparr>, ?d\<lparr>mailmsg_user := us\<rparr>)"
      using claimed(2) r(2,5) by (simp add: r1_amp_mailmsg_user_poll_def)
    show thesis
      by (rule that [of "b\<lparr>bd_data := ?d\<lparr>mailmsg_user := us\<rparr>, bd_file := ?uf\<lparr>reader_claimed := True\<rparr>\<rparr>"])
         (use r claimed(3) one in \<open>simp_all add: board_poll_def poll board_ready_def\<close>)
  qed
qed

lemma board_read_ready:
  assumes "board_ready wr g p n b" and "bd_rx p b = f # fs" and "receive_status g f = 0"
  obtains b' where "board_read m b = (FRAME_SIZE, 0, user_frame_of p f, b')" "board_ready wr g p n b'" "bd_rx p b' = fs"
proof -
  let ?d = "bd_data b" and ?pg = "bd_page b" and ?uf = "bd_file b"
  from assms(1) have r: "driver_inv wr ?d ?pg" "mailmsg_state ?d = R1_AMP_MAILMSG_ACTIVE" "session_generation ?d = g" "p < 4" "uf_channel ?uf = p"
    "uc_reader_open_count (mailmsg_user ?d ! unat p) = (if reader_claimed ?uf then 1 else 0)" "mailmsg_user_open_count ?d = n"
    by (simp_all add: board_ready_def)
  have ch: "uf_channel ?uf < 4" using r(4,5) by simp
  show thesis
  proof (cases rule: claim_reader_cases [OF r(1) ch, case_names busy claimed])
    case busy
    with r(5,6) show thesis by simp
  next
    case (claimed us)
    let ?d1 = "?d\<lparr>mailmsg_user := us\<rparr>" and ?uf1 = "?uf\<lparr>reader_claimed := True\<rparr>"
    have one: "uc_reader_open_count (us ! unat p) = 1"
      using claimed_count [OF claimed(2)] user_channel(2) [OF r(1) r(4)] r(5,6) by simp
    have st: "mailmsg_state ?d1 = R1_AMP_MAILMSG_ACTIVE" "uf_channel ?uf1 < 4" using r ch by simp_all
    have ok: "frame_status f \<noteq> MAILMSG_RING_INCOMPLETE" using receive_ok_frame(1) [OF assms(3)] by simp
    show thesis
    proof (cases rule: user_read_pass_cases [OF claimed(3) st, of False False m, case_names empty incomplete bad frame])
      case (frame f' fs' ep sh)
      have inv: "driver_inv wr (?d1\<lparr>d_endpoint := ep\<rparr>) (?pg\<lparr>pg_mailmsg := sh\<rparr>)"
        using driver_inv_endpoint [OF claimed(3) drained_session [OF frame(3)]] by simp
      show thesis
        by (rule that [of "b\<lparr>bd_data := ?d1\<lparr>d_endpoint := ep\<rparr>, bd_page := ?pg\<lparr>pg_mailmsg := sh\<rparr>, bd_file := ?uf1\<rparr>"])
           (use r claimed(2) frame assms(2) inv one in \<open>simp_all add: board_read_def r1_amp_mailmsg_user_read_def libc_result_def board_ready_def\<close>)
    qed (use r assms(2,3) ok in simp_all)
  qed
qed

text \<open>The client prints exactly what is queued.\<close>

lemma client_loop_reads:
  assumes "board_ready wr g p n b" and "\<forall>f \<in> set (bd_rx p b). receive_status g f = 0" and "k \<le> length (bd_rx p b)"
  obtains b' where "client_loop (board_sys cfg m) k b = (0, map (print_frame \<circ> user_frame_of p) (take k (bd_rx p b)), board_close b')"
    "board_ready wr g p n b'" "bd_rx p b' = drop k (bd_rx p b)"
proof -
  have "\<exists>b'. client_loop (board_sys cfg m) k b = (0, map (print_frame \<circ> user_frame_of p) (take k (bd_rx p b)), board_close b') \<and>
      board_ready wr g p n b' \<and> bd_rx p b' = drop k (bd_rx p b)"
    using assms
  proof (induction k arbitrary: b)
    case (Suc k)
    then obtain f fs where rx: "bd_rx p b = f # fs" by (cases "bd_rx p b") auto
    obtain b1 where b1: "board_poll 1000 b = (1, 0, POLLIN, b1)" "board_ready wr g p n b1" "bd_rx p b1 = f # fs"
      by (rule board_poll_ready [OF Suc.prems(1)]) (use rx in auto)
    obtain b2 where b2: "board_read m b1 = (FRAME_SIZE, 0, user_frame_of p f, b2)" "board_ready wr g p n b2" "bd_rx p b2 = fs"
      by (rule board_read_ready [OF b1(2,3)]) (use Suc.prems(2) rx in auto)
    from Suc.IH [OF b2(2)] Suc.prems(2,3) rx b2(3) show ?case
      by (auto simp: board_sys_def b1(1) b2(1))
  qed (auto simp: board_sys_def)
  with that show thesis by blast
qed

subsection \<open>Writing a request\<close>

lemma tool_frame_eq: "tool_frame p v = ping_frame p v"
  by (simp add: tool_frame_def ping_frame_def zero_user_frame_def store_u32_payload)

lemma user_write_users:
  "r1_amp_mailmsg_user_write n fr uf d pg = Some (r, d', pg') \<Longrightarrow>
   mailmsg_user d' = mailmsg_user d \<and> mailmsg_user_open_count d' = mailmsg_user_open_count d"
  by (auto simp: r1_amp_mailmsg_user_write_def Let_def split: if_split_asm option.split_asm bind_splits)

lemma wake_reader_count:
  "k < length (mailmsg_user d) \<Longrightarrow>
   uc_reader_open_count (mailmsg_user (upd_user wake_reader j d) ! k) = uc_reader_open_count (mailmsg_user d ! k)"
  by (cases "unat j = k") (simp_all add: upd_user_def wake_reader_def)

lemma rx_callback_readers:
  "k < length (mailmsg_user d) \<Longrightarrow>
   uc_reader_open_count (mailmsg_user (r1_amp_mbox_rx_callback i m d) ! k) = uc_reader_open_count (mailmsg_user d ! k)"
  by (simp add: r1_amp_mbox_rx_callback_def wake_reader_count Let_def split: option.split)

lemma board_close_ready:
  assumes "board_ready wr g p n b"
  shows "bd_page (board_close b) = bd_page b" "mailmsg_user_open_count (bd_data (board_close b)) = n - 1"
    "uc_reader_open_count (mailmsg_user (bd_data (board_close b)) ! unat p) = 0"
proof -
  have r: "driver_inv wr (bd_data b) (bd_page b)" "p < 4" "uf_channel (bd_file b) = p" "mailmsg_user_open_count (bd_data b) = n"
    "uc_reader_open_count (mailmsg_user (bd_data b) ! unat p) = (if reader_claimed (bd_file b) then 1 else 0)"
    using assms by (simp_all add: board_ready_def)
  then show "bd_page (board_close b) = bd_page b" "mailmsg_user_open_count (bd_data (board_close b)) = n - 1"
    "uc_reader_open_count (mailmsg_user (bd_data (board_close b)) ! unat p) = 0"
    using user_channel(2) [OF r(1,2)] by (auto simp: board_close_def r1_amp_mailmsg_user_release_def upd_user_def Let_def)
qed

text \<open>What the client prints for the answers to one request.\<close>

lemma user_frame_load:
  assumes "off + 3 < unat (msg_length f)" and "unat (msg_length f) \<le> length (msg_payload f)"
  shows "load_u32 (drop off (fr_payload (user_frame_of p f))) = mailmsg_payload_u32 (msg_payload f) off"
  using assms by (simp add: load_u32_def mailmsg_payload_u32_def user_frame_of_def nth_append)

definition pong_line :: "u32 \<Rightarrow> u32 \<Rightarrow> u32 \<Rightarrow> client_line" where
  "pong_line p s v = \<lparr>ln_priority = p, ln_type = MAILMSG_MSG_PONG, ln_sequence = s, ln_length = 4, ln_detail = Value v\<rparr>"

definition ack_line :: "u32 \<Rightarrow> u32 \<Rightarrow> u32 \<Rightarrow> client_line" where
  "ack_line p s peer = \<lparr>ln_priority = p, ln_type = MAILMSG_MSG_ACK, ln_sequence = s, ln_length = 8, ln_detail = Feedback peer 0\<rparr>"

lemma print_replies:
  assumes "msg_type f = MAILMSG_MSG_PING" and "mailmsg_payload_u32 (msg_payload f) 0 = v" and "g \<noteq> 0"
    and "fs = snd (fold (push_reply g) (replies p f) (s, []))"
  shows "map (print_frame \<circ> user_frame_of p) fs =
      (if mailmsg_priority_is_reliable p then [ack_line p (next_seq s) (msg_sequence f), pong_line p (next_seq (next_seq s)) (v + 1)]
       else [pong_line p (next_seq s) (v + 1)])"
    "\<forall>f \<in> set fs. receive_status g f = 0"
proof -
  have ack: "mailmsg_payload_u32 (feedback_payload (msg_sequence f) 0) 0 = msg_sequence f"
    "mailmsg_payload_u32 (feedback_payload (msg_sequence f) 0) 4 = 0" "length (feedback_payload (msg_sequence f) 0) = 8"
    by (simp_all add: feedback_payload_def load_store_u32 load_store_u32_other)
  have print_ack: "print_frame (user_frame_of p (seal (send_message g MAILMSG_MSG_ACK n (feedback_payload (msg_sequence f) 0) 8))) =
      ack_line p n (msg_sequence f)" for n
    using user_frame_load [of 0 "seal (send_message g MAILMSG_MSG_ACK n (feedback_payload (msg_sequence f) 0) 8)" p]
      user_frame_load [of 4 "seal (send_message g MAILMSG_MSG_ACK n (feedback_payload (msg_sequence f) 0) 8)" p] ack
      send_message_wf [of 8 "feedback_payload (msg_sequence f) 0" g MAILMSG_MSG_ACK n]
    by (simp add: print_frame_def ack_line_def send_message_u32 message_wf_def) (simp add: user_frame_of_def)
  have print_pong: "print_frame (user_frame_of p (seal (send_message g MAILMSG_MSG_PONG n (mailmsg_store_payload_u32 (replicate 4 0) 0 x) 4))) =
      pong_line p n x" for n x
    using user_frame_load [of 0 "seal (send_message g MAILMSG_MSG_PONG n (mailmsg_store_payload_u32 (replicate 4 0) 0 x) 4)" p]
      send_message_wf [of 4 "mailmsg_store_payload_u32 (replicate 4 0) 0 x" g MAILMSG_MSG_PONG n]
    by (simp add: print_frame_def pong_line_def send_message_u32 message_wf_def load_store_u32) (simp add: user_frame_of_def)
  show "map (print_frame \<circ> user_frame_of p) fs =
      (if mailmsg_priority_is_reliable p then [ack_line p (next_seq s) (msg_sequence f), pong_line p (next_seq (next_seq s)) (v + 1)]
       else [pong_line p (next_seq s) (v + 1)])"
    using assms by (simp add: replies_def push_reply_def ack_reply_def pong_reply_def print_ack print_pong)
  show "\<forall>f \<in> set fs. receive_status g f = 0"
    using assms by (simp add: replies_def push_reply_def ack_reply_def pong_reply_def receive_status_def frame_status_seal send_message_valid)
qed

text \<open>
  An idle session: the driver is ACTIVE, the firmware runs in the same generation with nothing to
  do, the two rings of channel \<open>p\<close> are empty, its doorbell is silent and nobody reads it.
\<close>

definition idle_session :: "cpu3_config \<Rightarrow> mmio_write \<Rightarrow> u32 \<Rightarrow> board \<Rightarrow> bool" where
  "idle_session cfg wr p b \<longleftrightarrow> driver_inv wr (bd_data b) (bd_page b) \<and> mailmsg_state (bd_data b) = R1_AMP_MAILMSG_ACTIVE \<and>
     \<not> mailmsg_user_removing (bd_data b) \<and> uc_reader_open_count (mailmsg_user (bd_data b) ! unat p) = 0 \<and>
     \<not> a2b_pending (mbox_regs0 (d_ctx (bd_data b))) p \<and> notify_inject_remaining (d_ctx (bd_data b)) = 0 \<and>
     tx_frames (bd_page b) p = [] \<and> rx_frames (bd_page b) p = [] \<and>
     cpu3_inv cfg (bd_cpu3 b) \<and> \<not> c_halted (bd_cpu3 b) \<and> mailmsg_pending_priorities (bd_cpu3 b) = 0 \<and>
     mailmsg_session_ready_published (bd_cpu3 b) \<and> ep_generation (cpu3_endpoint (bd_cpu3 b)) = session_generation (bd_data b)"

lemma board_open_idle:
  assumes "idle_session cfg wr p b" and "p < 4"
  obtains b' where "board_open (device_path (ucast p)) b = (3, b')" "idle_session cfg wr p b'" "uf_channel (bd_file b') = p"
    "\<not> reader_claimed (bd_file b')" "mailmsg_user_open_count (bd_data b') = mailmsg_user_open_count (bd_data b) + 1" "session_generation (bd_data b') = session_generation (bd_data b)" "d_endpoint (bd_data b') = d_endpoint (bd_data b)" "bd_cpu3 b' = bd_cpu3 b"
proof -
  let ?d = "(bd_data b)\<lparr>mailmsg_user_open_count := mailmsg_user_open_count (bd_data b) + 1\<rparr>"
  let ?uf = "\<lparr>uf_channel = p, reader_claimed = False\<rparr>"
  have ch: "of_nat (of_char (last (device_path (ucast p))) - 48) = p"
    using assms(2) by (rule ch_cases) (simp_all add: device_path_def)
  have d: "driver_inv wr (bd_data b) (bd_page b)" "mailmsg_state (bd_data b) = R1_AMP_MAILMSG_ACTIVE" "\<not> mailmsg_user_removing (bd_data b)"
    using assms(1) by (simp_all add: idle_session_def)
  then have op: "r1_amp_mailmsg_user_open True p (bd_data b) = (0, Some ?uf, ?d)"
    by (simp add: r1_amp_mailmsg_user_open_def r1_amp_mailmsg_data_gate_locked_def)
  have "driver_inv wr ?d (bd_page b)"
    using d(1) by (simp add: driver_inv_def driver_wf_def lifecycle_inv_def)
  with assms(1) show thesis
    by (intro that [of "b\<lparr>bd_data := ?d, bd_file := ?uf\<rparr>"]) (simp_all add: board_open_def ch op idle_session_def)
qed

lemma board_write_answered:
  assumes "mailbox_hw wr" and "cfg_mbox_write cfg = wr" and "idle_session cfg wr p b" and "p < 4" and "uf_channel (bd_file b) = p"
    and "\<not> reader_claimed (bd_file b)" and "p \<noteq> cfg_skip_priority cfg" and "cfg_self_off_value cfg \<noteq> Some v"
  obtains b' f where "board_write cfg (tool_frame p v) b = (FRAME_SIZE, 0, b')" "board_ready wr (session_generation (bd_data b)) p (mailmsg_user_open_count (bd_data b)) b'"
    "bd_rx p b' = snd (fold (push_reply (session_generation (bd_data b))) (replies p f) (ep_next_sequence (cpu3_endpoint (bd_cpu3 b)), []))"
    "msg_type f = MAILMSG_MSG_PING" "mailmsg_payload_u32 (msg_payload f) 0 = v" "msg_sequence f = next_seq (ep_next_sequence (d_endpoint (bd_data b)))"
proof -
  let ?d = "bd_data b" and ?pg = "bd_page b" and ?w0 = "bd_cpu3 b" and ?g = "session_generation (bd_data b)"
  from assms(3) have i: "driver_inv wr ?d ?pg" "mailmsg_state ?d = R1_AMP_MAILMSG_ACTIVE" "\<not> a2b_pending (mbox_regs0 (d_ctx ?d)) p"
    "notify_inject_remaining (d_ctx ?d) = 0" "tx_frames ?pg p = []" "rx_frames ?pg p = []" "cpu3_inv cfg ?w0" "\<not> c_halted ?w0"
    "mailmsg_pending_priorities ?w0 = 0" "mailmsg_session_ready_published ?w0" "ep_generation (cpu3_endpoint ?w0) = ?g"
    "uc_reader_open_count (mailmsg_user ?d ! unat p) = 0" by (simp_all add: idle_session_def)
  show thesis
  proof (rule linux_sends_ping [OF assms(1) i(1,2) assms(4,5) i(5,3,4), of v])
    fix d1 pg1 f
    assume l: "r1_amp_mailmsg_user_write 48 (Some (ping_frame p v)) (bd_file b) ?d ?pg = Some (48, d1, pg1)" "driver_inv wr d1 pg1"
      "mailmsg_state d1 = R1_AMP_MAILMSG_ACTIVE" "session_generation d1 = ?g"
      "a2b_pending (mbox_regs0 (d_ctx d1)) p" "mbox_regs0 (d_ctx d1) (A2B_CMD p) AND 0xfffffff0 = AMP_MBOX_PROTOCOL_CMD"
      "tx_frames pg1 p = [f]" "rx_frames pg1 p = rx_frames ?pg p" "receive_status ?g f = 0"
      "msg_type f = MAILMSG_MSG_PING" "mailmsg_payload_u32 (msg_payload f) 0 = v" "msg_sequence f = next_seq (ep_next_sequence (d_endpoint ?d))"
    let ?w1 = "mailmsg_mailbox_a2b_matrix_isr cfg p (see_linux d1 pg1 ?w0)"
    have inv1: "cpu3_inv cfg ?w1" by (intro wf_intros see_linux_inv [OF l(2) _ i(7)]) (use l(3,4) i(11) in simp_all)
    have pend: "mailmsg_pending_priorities ?w1 = BIT p"
      using isr_protocol(1) [of "see_linux d1 pg1 ?w0" p cfg] l(6) u32_mod_4 [OF assms(4)] i(9) by simp
    obtain w2 where w2: "mailmsg_worker cfg ?w1 = Some w2" "cpu3_inv cfg w2" "ep_generation (cpu3_endpoint w2) = ?g"
      "fw_out w2 p = snd (fold (push_reply ?g) (replies p f) (ep_next_sequence (cpu3_endpoint ?w0), []))" "b2a_pending (c_regs w2) p"
      by (rule firmware_answers_ping [OF inv1 _ _ pend assms(4,7), of f]) (use assms(1,2,8) i l in simp_all)
    have img: "fw_image w2 = pg_image pg1" using worker_image [OF w2(1)] by simp
    have "driver_inv wr (see_cpu3 w2 d1) (c_page w2)"
      by (rule see_cpu3_inv [where cfg = cfg, OF l(2) _ _ _ img]) (use l(3,4) w2(2,3) in \<open>simp_all add: cpu3_inv_def\<close>)
    note cb = rx_callback_inv [OF this, of p None]
    have "unat p < length (mailmsg_user (see_cpu3 w2 d1))" using user_channel(2) [OF l(2) assms(4)] by simp
    note readers = rx_callback_readers [OF this, of p None]
    let ?b = "b\<lparr>bd_data := r1_amp_mbox_rx_callback p None (see_cpu3 w2 d1), bd_page := c_page w2, bd_cpu3 := w2\<rparr>"
    have "board_write cfg (tool_frame p v) b = (FRAME_SIZE, 0, ?b)"
      using l(1,5) w2(1,5) assms(5) by (simp add: board_write_def tool_frame_eq firmware_turn_def libc_result_def)
    moreover have "board_ready wr ?g p (mailmsg_user_open_count ?d) ?b"
      using cb readers assms(4-6) l(3,4) i(12) user_write_users [OF l(1)] by (simp add: board_ready_def frame_simps)
    ultimately show thesis by (rule that) (use w2(4) l(10-12) in simp_all)
  qed
qed

lemma ucast_u64_u32: "ucast (ucast x :: u64) = x" for x :: u32
  using unat_lt32 [of x] by (simp add: word_unat_eq_iff unsigned_ucast_eq [of "ucast x :: u64"] take_bit_nat_eq_self)

text \<open>Claim C12.
  The client on the board: in an idle session \<^verbatim>\<open>mailmsg_user_client p v\<close> opens the device, sends the
  PING through the driver, the firmware answers, and the client exits with status 0 after it
  printed, on a reliable priority, the acknowledgement of its own sequence number with status 0,
  and then the PONG with the value plus one; nothing is left in the ring, and the open count and
  the read side of the channel are as before.
\<close>

theorem client_ping_on_board:
  assumes "mailbox_hw wr" and "cfg_mbox_write cfg = wr" and "idle_session cfg wr p b" and "p < 4"
    and "p \<noteq> cfg_skip_priority cfg" and "cfg_self_off_value cfg \<noteq> Some v"
    and "strtoul a1 = (ucast p, r1, [])" and "strtoul a2 = (ucast v, r2, [])"
  shows "\<exists>b' s. client_main (board_sys cfg m) [a1, a2] b =
    (0, if mailmsg_priority_is_reliable p
        then [ack_line p (next_seq s) (next_seq (ep_next_sequence (d_endpoint (bd_data b)))), pong_line p (next_seq (next_seq s)) (v + 1)]
        else [pong_line p (next_seq s) (v + 1)], b') \<and>
    rx_frames (bd_page b') p = [] \<and> mailmsg_user_open_count (bd_data b') = mailmsg_user_open_count (bd_data b) \<and>
    uc_reader_open_count (mailmsg_user (bd_data b') ! unat p) = 0"
proof -
  let ?g = "session_generation (bd_data b)" and ?n = "if mailmsg_priority_is_reliable p then 2 else 1 :: nat"
  have range: "\<not> 4 \<le> (ucast p :: u64)" "\<not> 0xffffffff < (ucast v :: u64)"
    using assms(4) unat_lt32 [of v] by (simp_all add: word_le_nat_alt word_less_nat_alt)
  obtain b1 where b1: "board_open (device_path (ucast p)) b = (3, b1)" "idle_session cfg wr p b1" "uf_channel (bd_file b1) = p"
    "\<not> reader_claimed (bd_file b1)" "mailmsg_user_open_count (bd_data b1) = mailmsg_user_open_count (bd_data b) + 1" "session_generation (bd_data b1) = ?g" "d_endpoint (bd_data b1) = d_endpoint (bd_data b)" "bd_cpu3 b1 = bd_cpu3 b"
    by (rule board_open_idle [OF assms(3,4)])
  obtain b2 f where b2: "board_write cfg (tool_frame p v) b1 = (FRAME_SIZE, 0, b2)" "board_ready wr ?g p (mailmsg_user_open_count (bd_data b) + 1) b2"
    "bd_rx p b2 = snd (fold (push_reply ?g) (replies p f) (ep_next_sequence (cpu3_endpoint (bd_cpu3 b)), []))"
    "msg_type f = MAILMSG_MSG_PING" "mailmsg_payload_u32 (msg_payload f) 0 = v" "msg_sequence f = next_seq (ep_next_sequence (d_endpoint (bd_data b)))"
    using board_write_answered [OF assms(1,2) b1(2) assms(4) b1(3,4) assms(5,6)] unfolding b1(5-8) by blast
  have g: "?g \<noteq> 0" using driver_session(3) [of wr "bd_data b" "bd_page b"] assms(3) by (simp add: idle_session_def)
  note printed = print_replies [OF b2(4,5) g b2(3)]
  have len: "length (bd_rx p b2) = ?n" using arg_cong [OF printed(1), of length] by simp
  obtain b3 where b3: "client_loop (board_sys cfg m) ?n b2 = (0, map (print_frame \<circ> user_frame_of p) (take ?n (bd_rx p b2)), board_close b3)"
    "board_ready wr ?g p (mailmsg_user_open_count (bd_data b) + 1) b3"
    "bd_rx p b3 = drop ?n (bd_rx p b2)"
    by (rule client_loop_reads [OF b2(2) printed(2), of ?n]) (use len in auto)
  have "client_main (board_sys cfg m) [a1, a2] b = client_loop (board_sys cfg m) ?n b2"
    using assms(7,8) range b1(1) b2(1) by (simp add: client_main_def client_run_def board_sys_def ucast_u64_u32)
  moreover have "bd_rx p b3 = []" using b3(3) len by simp
  ultimately show ?thesis
    using b3(1) len printed(1) b2(6) board_close_ready [OF b3(2)]
    by (intro exI [of _ "board_close b3"] exI [of _ "ep_next_sequence (cpu3_endpoint (bd_cpu3 b))"]) simp
qed

theorem client_ping_on_board_witness:
  "\<exists>w b' s. client_main (board_sys board_firmware zero_message) [''3'', ''41'']
     \<lparr>bd_data = session_data R1_AMP_MAILMSG_ACTIVE 5 rk_mbox_write, bd_page = session_page 5, bd_cpu3 = w, bd_file = user_file 0\<rparr> =
     (0, [pong_line 3 (next_seq s) 42], b')"
proof (rule session_booted)
  fix w
  assume w: "cpu3_main_init board_firmware (fresh_cpu3 (\<lambda>_. 0) (session_page 5)) = Some w" "cpu3_inv board_firmware w" "\<not> c_halted w"
    "mailmsg_session_ready_published w" "mailmsg_pending_priorities w = 0" "ep_generation (cpu3_endpoint w) = 5"
  let ?b = "\<lparr>bd_data = session_data R1_AMP_MAILMSG_ACTIVE 5 rk_mbox_write, bd_page = session_page 5, bd_cpu3 = w, bd_file = user_file 0\<rparr>"
  have "\<not> mailmsg_user_removing (board_data rk_mbox_write)" by (simp add: board_eval)
  then have idle: "idle_session board_firmware rk_mbox_write 3 ?b"
    using w session_data_inv [of 5 R1_AMP_MAILMSG_ACTIVE rk_mbox_write]
    by (simp add: idle_session_def a2b_pending_def session_data_def board_users)
  have args: "strtoul ''3'' = (ucast (3 :: u32), False, [])" "strtoul ''41'' = (ucast (41 :: u32), False, [])"
    by (simp_all add: strtoul_def digit_value_def isspace_def)
  show ?thesis
    using client_ping_on_board [OF rk.mailbox_hw_axioms _ idle _ _ _ args, of zero_message]
    by (simp add: mailmsg_priority_is_reliable_def) blast
qed

end
