(* ===== verification/Cpu3_Bringup.thy ===== *)
theory Cpu3_Bringup
  imports Mailmsg_Prelude
begin

text \<open>
  The two bring-up images (\<^verbatim>\<open>zephyr-amp-heartbeat\<close> and \<^verbatim>\<open>zephyr-amp-checkpoint\<close>).  They only write
  two words of the status page and publish them; \<open>st_published\<close> records what an observer of the
  page can see, in order.  The value of the register CurrentEL is an argument.  The endless
  loops are the iteration of their body.
\<close>

record amp_status =
  st_mark :: u64
  st_el :: u64
  st_published :: "(u64 \<times> u64) list"

definition publish_status :: "amp_status \<Rightarrow> amp_status" where
  "publish_status s = s\<lparr>st_published := st_published s @ [(st_mark s, st_el s)]\<rparr>"

abbreviation (input) AMP_MAGIC :: u64 where "AMP_MAGIC \<equiv> 0x414d5031"
abbreviation (input) MARK_EL_HIGHEST :: u64 where "MARK_EL_HIGHEST \<equiv> 0x454c4849"
abbreviation (input) MARK_EL2_INIT :: u64 where "MARK_EL2_INIT \<equiv> 0x454c3249"
abbreviation (input) MARK_EL1_INIT :: u64 where "MARK_EL1_INIT \<equiv> 0x454c3149"
abbreviation (input) MARK_MAIN :: u64 where "MARK_MAIN \<equiv> 0x414d5031"
abbreviation (input) MARK_HEARTBEAT :: u64 where "MARK_HEARTBEAT \<equiv> 0x48420000"

definition heartbeat_main :: "u64 \<Rightarrow> amp_status \<Rightarrow> amp_status" where
  "heartbeat_main current_el s = publish_status (s\<lparr>st_mark := AMP_MAGIC, st_el := drop_bit 2 current_el\<rparr>)"

definition checkpoint_c :: "u64 \<Rightarrow> u64 \<Rightarrow> amp_status \<Rightarrow> amp_status" where
  "checkpoint_c current_el mark s = publish_status (s\<lparr>st_mark := mark, st_el := current_el\<rparr>)"

text \<open>Zephyr's start-up calls the three hooks in this order, then \<open>main\<close>.\<close>

definition checkpoint_boot :: "u64 \<Rightarrow> u64 \<Rightarrow> u64 \<Rightarrow> amp_status \<Rightarrow> amp_status" where
  "checkpoint_boot el_highest el2 el1 s =
     checkpoint_c el1 MARK_EL1_INIT (checkpoint_c el2 MARK_EL2_INIT (checkpoint_c el_highest MARK_EL_HIGHEST s))"

definition checkpoint_pass :: "u64 \<Rightarrow> u64 \<times> amp_status \<Rightarrow> u64 \<times> amp_status" where
  "checkpoint_pass current_el q =
     (fst q + 1, checkpoint_c current_el (MARK_HEARTBEAT OR (fst q AND 0xffff)) (snd q))"

definition checkpoint_main :: "u64 \<Rightarrow> nat \<Rightarrow> amp_status \<Rightarrow> u64 \<times> amp_status" where
  "checkpoint_main current_el n s = (checkpoint_pass current_el ^^ n) (0, checkpoint_c current_el MARK_MAIN s)"

lemma published_checkpoint [simp]: "st_published (checkpoint_c el mark s) = st_published s @ [(mark, el)]"
  by (simp add: checkpoint_c_def publish_status_def)

lemma heartbeat_count: "fst (checkpoint_main el n s) = of_nat n"
  by (induction n) (simp_all add: checkpoint_main_def checkpoint_pass_def)

lemma heartbeat_low_bits: "(of_nat n AND 0xffff :: u64) = of_nat (n mod 65536)"
proof -
  have "(of_nat n AND 0xffff :: u64) = take_bit 16 (of_nat n)"
    by (simp add: take_bit_eq_mask mask_eq_exp_minus_1)
  also have "\<dots> = of_nat (take_bit 16 n)" by (simp add: take_bit_of_nat)
  also have "\<dots> = of_nat (n mod 65536)" by (simp add: take_bit_eq_mod)
  finally show ?thesis .
qed

text \<open>What an observer of the status page sees: the four start-up marks in order, then a heartbeat
  whose low sixteen bits count the passes and wrap.\<close>

lemma checkpoint_marks:
  "map fst (st_published (snd (checkpoint_main el1 n (checkpoint_boot elh el2 el1 s)))) =
     map fst (st_published s) @ [MARK_EL_HIGHEST, MARK_EL2_INIT, MARK_EL1_INIT, MARK_MAIN] @
     map (\<lambda>i. MARK_HEARTBEAT OR of_nat (i mod 65536)) [0..<n]"
proof (induction n)
  case 0
  show ?case by (simp add: checkpoint_main_def checkpoint_boot_def)
next
  case (Suc n)
  have "checkpoint_main el1 (Suc n) s' = checkpoint_pass el1 (checkpoint_main el1 n s')" for s'
    by (simp add: checkpoint_main_def)
  with Suc show ?case by (simp add: checkpoint_pass_def heartbeat_count heartbeat_low_bits)
qed

end
