(* ===== verification/Spec2Isabelle.thy ===== *)
theory Spec2Isabelle
  imports Amp_Joint Amp_Snapshot Mailmsg_Ring_Steps Cpu3_Ready_Race Tools_Bench Tools_Board Cpu3_Bringup
begin

text \<open>
  Verification of LZAMP, an asymmetric multiprocessing system on one SoC: Linux runs on
  three cores, loads a Zephyr image into a reserved carveout, starts it on CPU3 through
  PSCI, and then talks to it over MailMsg, a message protocol on shared memory with
  mailbox doorbells.

  \<^bold>\<open>The program.\<close>
  \<^item> The protocol library (\<^verbatim>\<open>LZAMP/protocol/mailmsg\<close>), compiled into both sides: frames with
    a CRC, single-producer single-consumer rings of eight slots (four priorities in each
    direction), an endpoint that checks the session and keeps statistics, and a
    notification interface.
  \<^item> The Linux driver (\<^verbatim>\<open>LZAMP/linux/drivers/lzamp_amp_mailmsg.c\<close>): probe, image upload,
    start, stop, rearm and status over sysfs; work items for the lifecycle handshakes, the
    timeout and the PSCI affinity monitor; four character devices with open, read, write,
    poll and release; test hooks.
  \<^item> The firmware (\<^verbatim>\<open>LZAMP/firmware/zephyr/app/src/main.c\<close>): boot and session announcement,
    an interrupt handler that records doorbells, a worker thread that serves the rings, the
    stop handshake with CPU_OFF, a legacy request line, and a main loop.
  \<^item> Two command line tools (\<^verbatim>\<open>LZAMP/tools\<close>) on the character devices: a client that sends one
    PING and prints the answers, and a benchmark that keeps a window of requests in flight.

  The two sides share the carveout (the image area and a state page with the rings) and
  the registers of the mailbox.  Linux announces a session by writing a new generation into
  the page and powering the core on; the firmware binds its endpoint to that generation and
  answers SESSION_READY; the data plane is open between that answer and the stop request.

  \<^bold>\<open>The theories.\<close>
  \<^item> \<^verbatim>\<open>Mailmsg_Prelude\<close>: machine types, errno values, the little-endian payload encoding.
  \<^item> \<^verbatim>\<open>Mailmsg_Frame\<close>, \<^verbatim>\<open>Mailmsg_Ring\<close>, \<^verbatim>\<open>Mailmsg_Notify\<close>, \<^verbatim>\<open>Mailmsg_Endpoint\<close>: the protocol library,
    one theory per header and C file, with the locales \<open>bounded_fifo\<close> (what a client of a
    ring relies on, interpreted on push and pop) and \<open>doorbell\<close> (what a sender relies on).
    \<^verbatim>\<open>Mailmsg_Ring_Steps\<close> takes push and pop apart into their accesses to the shared ring and
    lets one producer and one consumer interleave them (\<open>spsc_step\<close>).
    \<^verbatim>\<open>Mailmsg_Drain\<close> holds the facts the receive loops of both sides share.
  \<^item> \<^verbatim>\<open>Amp_Mailbox\<close>: the mailbox registers as the locale \<open>mailbox_hw\<close> with its documented
    behaviour (writing DAT sets the status bit, status is write-one-to-clear), interpreted
    on the plain register block \<open>rk_mbox_write\<close>; the doorbell of the driver on it.
    \<^verbatim>\<open>Amp_Page\<close>: the lines of the state page.
  \<^item> \<^verbatim>\<open>Amp_State\<close>, \<^verbatim>\<open>Amp_Lifecycle\<close>, \<^verbatim>\<open>Amp_Session\<close>: \<open>struct r1_amp_cpu_on_data\<close> as a record, the gate,
    the affinity monitor, the mailbox callback, start, control work, timeout, stop and
    rearm; the driver invariant and the lifecycle graph.
  \<^item> \<^verbatim>\<open>Amp_User\<close>: the character devices.  \<^verbatim>\<open>Amp_Sysfs\<close>, \<^verbatim>\<open>Amp_Response\<close>: the other attributes and
    the test hooks.  \<^verbatim>\<open>Amp_Probe\<close>: probe with its ladder of error labels, one definition per label.
  \<^item> \<^verbatim>\<open>Amp_Layout\<close>: the shared memory as bytes (C types with \<open>sizeof\<close> and \<open>offsetof\<close>, the structs of both
    sides, the pointer helpers of the driver).  \<^verbatim>\<open>Amp_Cache\<close>: write-back caches between the two
    sides, the maintenance calls of the kernel and of Zephyr as a parameter (locale
    \<open>cache_calls\<close>) and the hooks on them; push and pop again, on cached words at the addresses that
    the layout gives (locale \<open>word_cache\<close>).  \<^verbatim>\<open>Amp_Snapshot\<close>: the diagnostics lines, stored word by
    word by the firmware and loaded word by word by \<open>status_show\<close> (locale \<open>snapshot_code\<close>,
    interpreted on both lines).
  \<^item> \<^verbatim>\<open>Amp_System\<close>, \<^verbatim>\<open>Amp_Safety\<close>: all entry points as one datatype of calls on a state with the
    open files, and runs of calls.  \<^verbatim>\<open>Amp_Handshake\<close>, \<^verbatim>\<open>Amp_Interface\<close>: what the lifecycle
    promises and what user space gets.
  \<^item> \<^verbatim>\<open>Cpu3_Firmware\<close>: the globals of the firmware as a record and its operations.
    \<^verbatim>\<open>Cpu3_Service\<close>, \<^verbatim>\<open>Cpu3_Worker\<close>: the service as a queue transformer.  \<^verbatim>\<open>Cpu3_Steps\<close>: the firmware
    as a transition system.  \<^verbatim>\<open>Cpu3_Behaviour\<close>: what it promises.  \<^verbatim>\<open>Cpu3_Doorbell\<close>:
    every change of an output ring leaves its B2A doorbell pending.  \<^verbatim>\<open>Cpu3_Worker_Steps\<close>: the
    worker access by access.  \<^verbatim>\<open>Cpu3_Wakeup\<close>: worker, interrupt handler and the doorbell write of
    Linux interleaved, over the locale \<open>mailbox_latch\<close> (a write changes no other A2B command
    register).  \<^verbatim>\<open>Cpu3_Ready_Race\<close>: the window at the start of a session.
  \<^item> \<^verbatim>\<open>Tools_Common\<close>: the system calls of the tools as a record of functions on a state of the outside
    world, and the C library's \<open>strtoul\<close>.  \<^verbatim>\<open>Tools_Bench\<close>, \<^verbatim>\<open>Tools_Client\<close>: the two programs.
    \<^verbatim>\<open>Tools_Board\<close>: the client with the entry points of the driver as its system calls and the
    firmware as its peer.  \<^verbatim>\<open>Cpu3_Bringup\<close>: the two bring-up images under \<^verbatim>\<open>src/src\<close>.
  \<^item> \<^verbatim>\<open>Amp_Joint\<close> and this theory: both sides together, from start to OFFLINE and rearm.

  \<^bold>\<open>How the model reads.\<close>  A C function is a definition of the same name on explicit state;
  loops of the source that have a name of their own here are \<open>control_loop\<close>,
  \<open>drain_responses\<close>, \<open>service_priority\<close> and \<open>service_priorities\<close>.  Return codes are integers, as in
  the source.  A result \<open>None\<close> is undefined behaviour of the C code (an access outside an
  array, a call through NULL) or a loop that does not end; that it does not occur is proved
  under the invariants, which ask every ring index to be below eight, and that it does occur
  without them is proved for the control loop.
  Machine integers keep their width and wrap.  Values of uninitialised variables, the
  results of kernel and PSCI calls, the readings of the clock and the parse of sysfs input
  are arguments.

  \<^bold>\<open>What is proved.\<close>
  \<^item> Protocol: a ring is a lossless bounded FIFO of seven frames; every branch of push and
    pop; the same for producer and consumer interleaved access by access, where every call
    returns within a bounded number of its own steps; the CRC detects every burst of four bytes; send and receive round-trip; only
    intact frames of the current session are delivered; in a session of two conforming
    peers every queued frame is intact and the statistics agree; any \<open>2 ^ 32 - 1\<close> successive
    sequence numbers are distinct and not zero, also across the wrap of the counter.
  \<^item> Driver: on rings with indices in range every entry point returns and keeps the invariant,
    so does every run from probe on; the lifecycle graph; the data plane opens only for an
    answer of this session; pending handshakes end; the control loop terminates, and spins for
    ever when the peer publishes an index beyond the slots; outcome theorems for start, stop,
    rearm, read, write, poll, the image upload, the hooks and the report; a blocked reader
    gets the next frame; the exclusive reader; probe establishes the invariant, and its error
    labels take back what was set up.
  \<^item> Firmware: the invariant of all reachable states under interrupts, worker, main loop and
    arbitrary well-formed actions of Linux; the worker refines the abstract queue service;
    the stop handshake.  With the worker, the handler and Linux interleaved
    access by access a measure decreases with every step of the work under way, and where it
    has come to rest no request is left on a served priority: no doorbell is lost.  The one
    exception, a doorbell before the session is marked as published, is proved too.
  \<^item> Shared memory: both sides agree on every offset, the areas lie inside the carveout; a
    snapshot of a diagnostics line that the driver accepts is one the firmware has published,
    even without hardware coherency; the ring indices, two writers in one cache line, need it.
  \<^item> End to end: a session comes up, a ping is answered, a controlled stop ends OFFLINE and can be rearmed.
  \<^item> Tools: the client, run on the driver and the firmware, prints the answers and leaves the
    channel as it found it; the benchmark ends on every device whose bursts are finite, its accounts agree
    and its report is the sorted one its labels promise.

  \<^bold>\<open>Bounds.\<close>  No fuel is used.  \<open>control_loop\<close> and \<open>drain_responses\<close> are partial functions in the
  option monad; their totality is proved on every ring whose indices are below eight, and that
  \<open>control_loop\<close> has no result for a producer index of eight or more over committed frames that
  it drops; \<open>service_priority\<close>
  recurses on the drain quota of the source (seven, the capacity of a ring).  The read,
  measurement and drain loops of the benchmark are partial functions too; that they end is
  proved from \<open>kernel_progress\<close>: the clock never goes back and shows one value only finitely
  often, and a burst of readable frames is finite.

  \<^bold>\<open>Granularity.\<close>  A driver entry point runs under \<open>data->lock\<close> and is one step; a blocking read
  is split at its wait.  An interrupt handler run and a worker pass are one step each, except
  in \<^verbatim>\<open>Cpu3_Wakeup\<close>, where they are split and interleaved.  What
  justifies calling a push and a pop one step each is proved in \<^verbatim>\<open>Mailmsg_Ring_Steps\<close>: under
  every interleaving of their accesses, with the copy into a slot torn at will, the ring is
  the same lossless queue.  The interleaving is sequentially consistent: the hooks
  \<open>publish\<close> and \<open>acquire\<close> are taken to order the accesses, and the memory is taken to be coherent, as
  the cores of the SoC keep it.  \<^verbatim>\<open>Amp_Cache\<close> shows that the rings rely on that.

  \<^bold>\<open>Not modelled.\<close>  Reordering of the accesses of one core (barriers are no operation, program
  order is kept), the bytes of a line inside the operations (they work on one record field per
  struct field; \<^verbatim>\<open>Amp_Layout\<close> places the fields), the text formatting of reports, kernel and
  Zephyr themselves, the device tree (the values of the driver's node appear as the example
  \<open>lzamp_env\<close>), the layout of the text the tools print, the tests, and
  the copies of the protocol and the firmware under \<^verbatim>\<open>src/src\<close>, which equal the modelled files
  up to one include path.
\<close>

section \<open>Both sides together\<close>

text \<open>Claim C9.
  A session comes up: an accepted start, the boot of the firmware on the page and the
  registers that the start left behind, the mailbox callback and one run of the control
  work before the deadline take the driver to ACTIVE, with the peer confirmed in a
  generation that no earlier session had, and both invariants hold.
\<close>

theorem session_comes_up:
  assumes "mailbox_hw (mbox_write env)" and "cfg_mbox_write cfg = mbox_write env" and "\<not> cfg_skip_session_ready cfg"
    and "driver_inv (mbox_write env) d pg" and "\<not> cpu_on_attempted d" and "image_written d = ucast (image_size d)"
    and "psci_affinity_info env = Some q" and "q (mpidr d) = PSCI_0_2_AFFINITY_LEVEL_OFF"
    and "psci_cpu_on env = Some cpu_on" and "cpu_on (mpidr d) (entry d) = 0"
    and "\<not> time_after_eq (jiffies env' 0) (jiffies env 0 + msecs_to_jiffies env R1_AMP_LIFECYCLE_TIMEOUT_MS)"
    and "\<not> time_after_eq (jiffies env' 1) (jiffies env 0 + msecs_to_jiffies env R1_AMP_LIFECYCLE_TIMEOUT_MS)"
  shows "\<exists>d1 pg1 w d2 pg2. start_store env ''start'' count d pg = Some (count, d1, pg1) \<and>
    cpu3_main_init cfg (fresh_cpu3 (mbox_regs0 (d_ctx d1)) pg1) = Some w \<and> b2a_pending (c_regs w) 0 \<and>
    control_work (r1_amp_mbox_rx_callback 0 message (see_cpu3 w d1)) \<and>
    r1_amp_mailmsg_control_work env' m (r1_amp_mbox_rx_callback 0 message (see_cpu3 w d1)) (c_page w) = Some (d2, pg2) \<and>
    mailmsg_state d2 = R1_AMP_MAILMSG_ACTIVE \<and> session_generation d2 \<noteq> session_generation d \<and>
    peer_generation d2 = session_generation d2 \<and> ep_generation (cpu3_endpoint w) = session_generation d2 \<and>
    driver_inv (mbox_write env) d2 pg2 \<and> cpu3_inv cfg (see_linux d2 pg2 w)"
proof -
  let ?g = "next_generation (session_generation d)" and ?d1 = "started env 0 d"
  let ?pg1 = "(zero_state_page pg)\<lparr>pg_mailmsg := fresh_shared ?g\<rparr>"
  have start: "start_store env ''start'' count d pg = Some (count, ?d1, ?pg1)"
    using start_issued [OF assms(4) _ assms(5-7,9,8), of "''start''" count] assms(10) by simp
  have inv1: "driver_inv (mbox_write env) ?d1 ?pg1" by (rule started_inv [OF assms(4,5)])
  have st: "mailmsg_state ?d1 = R1_AMP_MAILMSG_STARTING" "session_generation ?d1 = ?g"
    "lifecycle_deadline ?d1 = jiffies env 0 + msecs_to_jiffies env R1_AMP_LIFECYCLE_TIMEOUT_MS"
    by (simp_all add: started_def Let_def)
  obtain w where w: "cpu3_main_init cfg (fresh_cpu3 (mbox_regs0 (d_ctx ?d1)) ?pg1) = Some w" "cpu3_ok cfg w" "fw_out w 0 = [ready_frame ?g]"
    "ep_generation (cpu3_endpoint w) = ?g" "b2a_pending (c_regs w) 0" "cpu3_inv cfg w"
  proof (rule main_init_spec [of ?pg1 cfg "mbox_regs0 (d_ctx ?d1)"])
    fix w
    assume a: "cpu3_main_init cfg (fresh_cpu3 (mbox_regs0 (d_ctx ?d1)) ?pg1) = Some w" "cpu3_ok cfg w"
      "fw_out w 0 = [ready_frame (shm_generation (pg_mailmsg ?pg1))]"
      "ep_generation (cpu3_endpoint w) = shm_generation (pg_mailmsg ?pg1)"
      "c_regs w = snd (mailmsg_cpu3_notify (cfg_mbox_write cfg)
        (cfg_mbox_write cfg (mbox_regs0 (d_ctx ?d1)) A2B_INTEN (mbox_regs0 (d_ctx ?d1) A2B_INTEN OR 0xf)) 0)"
    have "b2a_pending (c_regs w) 0" unfolding a(5) assms(2) by (rule cpu3_notify_rings [OF assms(1)]) simp
    with a(1-4) main_init_inv [of ?pg1 cfg "mbox_regs0 (d_ctx ?d1)"] show thesis by (intro that [of w]) simp_all
  qed (use assms(3) in simp_all)
  have img: "fw_image w = pg_image ?pg1" using main_init_image [OF w(1)] by (simp add: fresh_cpu3_def)
  let ?d2 = "r1_amp_mbox_rx_callback 0 message (see_cpu3 w ?d1)"
  have "driver_inv (mbox_write env) (see_cpu3 w ?d1) (c_page w)"
    by (rule see_cpu3_inv [OF inv1 _ w(2) _ img]) (use st w(4) in simp_all)
  note inv2 = rx_callback_inv(1) [OF this, of 0 message] rx_callback_inv(2) [OF this, of 0 message]
  obtain ep sh where cw: "r1_amp_mailmsg_control_work env' m ?d2 (c_page w) =
      Some (?d2\<lparr>peer_generation := session_generation ?d2, session_result := 0, affinity_seen_on := True,
        mailmsg_state := R1_AMP_MAILMSG_ACTIVE, lifecycle_timeout_work := None, control_work := False, d_endpoint := ep\<rparr>,
        (c_page w)\<lparr>pg_mailmsg := sh\<rparr>)"
    by (rule control_work_ready [OF inv2(1), of "[]" env' m]) (use inv2(2) st w(3) assms(11,12) in \<open>simp_all add: frame_simps\<close>)
  note inv3 = control_work_inv(1) [OF inv2(1) cw]
  have "cpu3_inv cfg (see_linux (?d2\<lparr>peer_generation := session_generation ?d2, session_result := 0, affinity_seen_on := True,
        mailmsg_state := R1_AMP_MAILMSG_ACTIVE, lifecycle_timeout_work := None, control_work := False, d_endpoint := ep\<rparr>)
        ((c_page w)\<lparr>pg_mailmsg := sh\<rparr>) w)"
    by (rule see_linux_inv [OF inv3 _ w(6)]) (use st w(4) in \<open>simp_all add: frame_simps\<close>)
  with start w(1,4,5) cw inv3 st rx_callback_fields(9) [of "see_cpu3 w ?d1" 0 message]
  show ?thesis by (intro exI conjI) (assumption | simp add: frame_simps)+
qed

theorem session_comes_up_witness:
  "\<exists>d1 pg1 w d2 pg2. start_store (board_kernel 1 0 rk_mbox_write) ''start'' 5
      ((board_data rk_mbox_write)\<lparr>image_written := ucast (image_size (board_data rk_mbox_write))\<rparr>) board_page = Some (5, d1, pg1) \<and>
    cpu3_main_init board_firmware (fresh_cpu3 (mbox_regs0 (d_ctx d1)) pg1) = Some w \<and>
    r1_amp_mailmsg_control_work (board_kernel 0 9 rk_mbox_write) zero_message (r1_amp_mbox_rx_callback 0 None (see_cpu3 w d1)) (c_page w) = Some (d2, pg2) \<and>
    mailmsg_state d2 = R1_AMP_MAILMSG_ACTIVE"
proof -
  let ?d = "(board_data rk_mbox_write)\<lparr>image_written := ucast (image_size (board_data rk_mbox_write))\<rparr>"
  have "\<not> time_after_eq 9 (5000 :: u64)" by (simp add: time_after_eq_def)
  with session_comes_up [of "board_kernel 1 0 rk_mbox_write" board_firmware ?d board_page "\<lambda>_. 1" "\<lambda>_ _. 0" "board_kernel 0 9 rk_mbox_write" 5
      None zero_message] rk.mailbox_hw_axioms board_upload_inv [of rk_mbox_write]
  show ?thesis by simp blast
qed

text \<open>Claim C10.
  Ping-pong end to end: in an ACTIVE session with an idle channel, a PING written to the
  device of priority \<open>p\<close> rings the A2B doorbell; the interrupt handler and one pass of the
  worker answer it with a PONG carrying the value plus one, preceded on a reliable priority
  by an ACK that carries the sequence number of the request, and the B2A doorbell that
  announces the replies is pending; the reader of the same device gets the first of these
  replies and the rest stays queued for the next reads.
\<close>

theorem ping_pong_end_to_end:
  assumes "mailbox_hw wr" and "cfg_mbox_write cfg = wr" and "driver_inv wr d pg" and "mailmsg_state d = R1_AMP_MAILMSG_ACTIVE"
    and "cpu3_inv cfg w" and "\<not> c_halted w" and "mailmsg_pending_priorities w = 0" and "mailmsg_session_ready_published w"
    and "ep_generation (cpu3_endpoint w) = session_generation d"
    and "p < 4" and "uf_channel uf = p" and "p \<noteq> cfg_skip_priority cfg" and "cfg_self_off_value cfg \<noteq> Some v"
    and "tx_frames pg p = []" and "rx_frames pg p = []"
    and "\<not> a2b_pending (mbox_regs0 (d_ctx d)) p" and "notify_inject_remaining (d_ctx d) = 0"
  shows "\<exists>d1 pg1 w2 d2 pg2. r1_amp_mailmsg_user_write 48 (Some (ping_frame p v)) uf d pg = Some (48, d1, pg1) \<and>
    a2b_pending (mbox_regs0 (d_ctx d1)) p \<and>
    mailmsg_worker cfg (mailmsg_mailbox_a2b_matrix_isr cfg p (see_linux d1 pg1 w)) = Some w2 \<and> fw_in w2 p = [] \<and>
    b2a_pending (c_regs w2) p \<and>
    map msg_type (fw_out w2 p) = (if mailmsg_priority_is_reliable p then [MAILMSG_MSG_ACK, MAILMSG_MSG_PONG] else [MAILMSG_MSG_PONG]) \<and>
    mailmsg_payload_u32 (msg_payload (last (fw_out w2 p))) 0 = v + 1 \<and>
    (mailmsg_priority_is_reliable p \<longrightarrow>
      mailmsg_payload_u32 (msg_payload (hd (fw_out w2 p))) 0 = next_seq (ep_next_sequence (d_endpoint d))) \<and>
    user_read_pass False False m uf (see_cpu3 w2 d1) (c_page w2) =
      Some (Read_return 48 (Some (user_frame_of p (hd (fw_out w2 p)))), d2, pg2) \<and>
    rx_frames pg2 p = tl (fw_out w2 p)"
proof (rule linux_sends_ping [OF assms(1,3,4,10,11,14,16,17), of v])
  fix d1 pg1 f
  assume l: "r1_amp_mailmsg_user_write 48 (Some (ping_frame p v)) uf d pg = Some (48, d1, pg1)" "driver_inv wr d1 pg1"
    "mailmsg_state d1 = R1_AMP_MAILMSG_ACTIVE" "session_generation d1 = session_generation d"
    "a2b_pending (mbox_regs0 (d_ctx d1)) p" "mbox_regs0 (d_ctx d1) (A2B_CMD p) AND 0xfffffff0 = AMP_MBOX_PROTOCOL_CMD"
    "tx_frames pg1 p = [f]" "rx_frames pg1 p = rx_frames pg p" "receive_status (session_generation d) f = 0"
    "msg_type f = MAILMSG_MSG_PING" "mailmsg_payload_u32 (msg_payload f) 0 = v" "msg_sequence f = next_seq (ep_next_sequence (d_endpoint d))"
  let ?w = "see_linux d1 pg1 w" and ?g = "session_generation d"
  let ?w1 = "mailmsg_mailbox_a2b_matrix_isr cfg p ?w"
  have inv1: "cpu3_inv cfg ?w1" by (intro wf_intros see_linux_inv [OF l(2) _ assms(5)]) (use l(3,4) assms(9) in simp_all)
  have pend: "mailmsg_pending_priorities ?w1 = BIT p"
    using isr_protocol(1) [of ?w p cfg] l(6) u32_mod_4 [OF assms(10)] assms(7) by simp
  obtain w2 where w2: "mailmsg_worker cfg ?w1 = Some w2" "cpu3_inv cfg w2" "fw_in w2 p = []" "ep_generation (cpu3_endpoint w2) = ?g"
    "fw_out w2 p = snd (fold (push_reply ?g) (replies p f) (ep_next_sequence (cpu3_endpoint w), []))" "b2a_pending (c_regs w2) p"
    by (rule firmware_answers_ping [OF inv1 _ _ pend assms(10,12), of f]) (use assms l in simp_all)
  have img: "fw_image w2 = pg_image pg1" using worker_image [OF w2(1)] by simp
  have inv2: "driver_inv wr (see_cpu3 w2 d1) (c_page w2)"
    by (rule see_cpu3_inv [where cfg = cfg, OF l(2) _ _ _ img]) (use l(3,4) w2(2,4) in \<open>simp_all add: cpu3_inv_def\<close>)
  note out = reply_frames [OF l(10,11) driver_session(3) [OF assms(3)] w2(5)]
  have ne: "fw_out w2 p = hd (fw_out w2 p) # tl (fw_out w2 p)" using out(1) assms(4) by (cases "fw_out w2 p") (auto split: if_split_asm)
  have "frame_status (hd (fw_out w2 p)) \<noteq> MAILMSG_RING_INCOMPLETE" using receive_ok_frame(1) [OF out(4)] assms(4) by simp
  then have "read_result False False ?g p x (fw_out w2 p) = (Read_return 48 (Some (user_frame_of p (hd (fw_out w2 p)))), tl (fw_out w2 p))" for x
    using out(4) assms(4) by (subst ne) simp
  then obtain d2 pg2 where "user_read_pass False False m uf (see_cpu3 w2 d1) (c_page w2) =
      Some (Read_return 48 (Some (user_frame_of p (hd (fw_out w2 p)))), d2, pg2)" "rx_frames pg2 p = tl (fw_out w2 p)"
    using read_pass_result [OF inv2, of uf False False m] assms(10,11) l(3,4) by auto
  with l(1,5,12) w2(1,3,6) out(1-3) assms(4) show ?thesis by (intro exI conjI) (assumption | simp)+
qed

theorem ping_pong_end_to_end_witness:
  "\<exists>w d1 pg1 w2. cpu3_main_init board_firmware (fresh_cpu3 (\<lambda>_. 0) (session_page 5)) = Some w \<and>
    r1_amp_mailmsg_user_write 48 (Some (ping_frame 3 41)) (user_file 3) (session_data R1_AMP_MAILMSG_ACTIVE 5 rk_mbox_write) (session_page 5) = Some (48, d1, pg1) \<and>
    mailmsg_worker board_firmware (mailmsg_mailbox_a2b_matrix_isr board_firmware 3 (see_linux d1 pg1 w)) = Some w2 \<and>
    mailmsg_payload_u32 (msg_payload (last (fw_out w2 3))) 0 = 42"
proof (rule session_booted)
  fix w
  assume w: "cpu3_main_init board_firmware (fresh_cpu3 (\<lambda>_. 0) (session_page 5)) = Some w" "cpu3_inv board_firmware w" "\<not> c_halted w"
    "mailmsg_session_ready_published w" "mailmsg_pending_priorities w = 0" "ep_generation (cpu3_endpoint w) = 5"
  with ping_pong_end_to_end [OF rk.mailbox_hw_axioms _ session_data_inv [of 5 R1_AMP_MAILMSG_ACTIVE rk_mbox_write], of board_firmware w 3
      "user_file 3" 41 zero_message]
  show ?thesis by (simp add: a2b_pending_def) blast
qed

text \<open>Claim C11.
  The controlled stop end to end: an accepted stop request is seen by the interrupt handler
  and answered by the worker with STOP_READY before the core halts with no A2B doorbell
  pending; the control work of the driver takes the reply as the one it waits for; and once
  PSCI reports the core off, the affinity monitor ends the session in OFFLINE.  On a mailbox
  with only its four status bits a rearm is then accepted: the driver is UNARMED again, ready
  for the next image, and keeps the generation counter.
\<close>

theorem controlled_stop_end_to_end:
  assumes "mailbox_hw wr" and "cfg_mbox_write cfg = wr" and "cfg_enable_stop_control cfg" and "cfg_skip_priority cfg \<noteq> 0"
    and "driver_inv wr d pg" and "mailmsg_state d = R1_AMP_MAILMSG_ACTIVE" and "mailmsg_user_open_count d = 0"
    and "cpu3_inv cfg w" and "\<not> c_halted w" and "mailmsg_pending_priorities w = 0" and "mailmsg_session_ready_published w"
    and "ep_generation (cpu3_endpoint w) = session_generation d"
    and "tx_frames pg 0 = []" and "rx_frames pg 0 = []" and "\<not> a2b_pending (mbox_regs0 (d_ctx d)) 0"
    and "\<not> time_after_eq (jiffies env' 0) (jiffies env 0 + msecs_to_jiffies env R1_AMP_LIFECYCLE_TIMEOUT_MS)"
    and "\<not> time_after_eq (jiffies env' 1) (jiffies env 0 + msecs_to_jiffies env R1_AMP_LIFECYCLE_TIMEOUT_MS)"
    and "psci_affinity_info env'' = Some q" and "q (mpidr d) = PSCI_0_2_AFFINITY_LEVEL_OFF"
  shows "\<exists>d1 pg1 w2 d2 pg2 d3. mailmsg_stop_store env ''stop'' count d pg = Some (count, d1, pg1) \<and>
    mailmsg_worker cfg (mailmsg_mailbox_a2b_matrix_isr cfg 0 (see_linux d1 pg1 w)) = Some w2 \<and> c_halted w2 \<and>
    b2a_pending (c_regs w2) 0 \<and> (\<forall>p < 4. \<not> a2b_pending (c_regs w2) p) \<and>
    r1_amp_mailmsg_control_work env' m (r1_amp_mbox_rx_callback 0 message (see_cpu3 w2 d1)) (c_page w2) = Some (d2, pg2) \<and>
    mailmsg_state d2 = R1_AMP_MAILMSG_STOPPING \<and> stop_reply_type d2 = MAILMSG_MSG_STOP_READY \<and> stop_result d2 = 0 \<and>
    r1_amp_affinity_work env'' d2 = Some d3 \<and> mailmsg_state d3 = R1_AMP_MAILMSG_OFFLINE \<and> driver_inv wr d3 pg2 \<and>
    (c_regs w2 A2B_STATUS < 16 \<longrightarrow> (\<exists>d4. rearm_store env'' ''rearm'' count' d3 = Some (count', d4) \<and>
      mailmsg_state d4 = R1_AMP_MAILMSG_UNARMED \<and> session_generation d4 = session_generation d \<and> driver_inv wr d4 pg2))"
proof (rule linux_requests_stop [OF assms(1,5,6,7,13,14,15), of env count])
  fix d1 pg1 f
  assume l: "mailmsg_stop_store env ''stop'' count d pg = Some (count, d1, pg1)" "driver_inv wr d1 pg1"
    "mailmsg_state d1 = R1_AMP_MAILMSG_STOPPING" "session_generation d1 = session_generation d" "mpidr d1 = mpidr d"
    "lifecycle_deadline d1 = jiffies env 0 + msecs_to_jiffies env R1_AMP_LIFECYCLE_TIMEOUT_MS"
    "mbox_regs0 (d_ctx d1) (A2B_CMD 0) AND 0xfffffff0 = AMP_MBOX_PROTOCOL_CMD"
    "tx_frames pg1 0 = [f]" "rx_frames pg1 0 = []" "stop_request (session_generation d) f" "stop_request_sequence d1 = msg_sequence f"
    "mailmsg_user_open_count d1 = 0"
  have g: "session_generation d \<noteq> 0" using driver_session(3) [OF assms(5)] assms(6) by simp
  obtain w2 s where w2: "mailmsg_worker cfg (mailmsg_mailbox_a2b_matrix_isr cfg 0 (see_linux d1 pg1 w)) = Some w2" "c_halted w2"
    "b2a_pending (c_regs w2) 0" "\<forall>p < 4. \<not> a2b_pending (c_regs w2) p" "s \<noteq> 0"
    "fw_out w2 0 = [stop_reply (session_generation d) MAILMSG_MSG_STOP_READY f 0 s]" "driver_inv wr (see_cpu3 w2 d1) (c_page w2)"
    by (rule firmware_stops [OF assms(1-4) l(2,3) assms(8-11), of f]) (use assms(12) l in simp_all)
  let ?d = "r1_amp_mbox_rx_callback 0 message (see_cpu3 w2 d1)"
  note inv3 = rx_callback_inv [OF w2(7), of 0 message] and rep = stop_reply_ok [OF g w2(5)]
  obtain ep sh where cw: "r1_amp_mailmsg_control_work env' m ?d (c_page w2) =
      Some (?d\<lparr>stop_reply_type := MAILMSG_MSG_STOP_READY, stop_result := 0,
        lifecycle_deadline := jiffies env' (Suc 1) + msecs_to_jiffies env' R1_AMP_LIFECYCLE_TIMEOUT_MS,
        lifecycle_timeout_work := Some (msecs_to_jiffies env' R1_AMP_LIFECYCLE_TIMEOUT_MS), control_work := False, d_endpoint := ep\<rparr>,
        (c_page w2)\<lparr>pg_mailmsg := sh\<rparr>)" (is "_ = Some (?d2, ?pg2)")
    by (rule control_work_stop_ready [OF inv3(1), of "stop_reply (session_generation d) MAILMSG_MSG_STOP_READY f 0 s" "[]" env' m])
       (use inv3(2) l w2(6) rep assms(16,17) in \<open>simp_all add: frame_simps\<close>)
  obtain d3 where d3: "r1_amp_affinity_work env'' ?d2 = Some d3" "mailmsg_state d3 = R1_AMP_MAILMSG_OFFLINE" "driver_inv wr d3 ?pg2"
    "mpidr d3 = mpidr ?d2" "session_generation d3 = session_generation ?d2" "mbox_regs0 (d_ctx d3) = mbox_regs0 (d_ctx ?d2)"
    "mailmsg_user_open_count d3 = mailmsg_user_open_count ?d2"
    by (rule affinity_work_offline [OF control_work_inv(1) [OF inv3(1) cw] _ assms(18)])
       (use inv3(2) l(3,5) assms(19) in \<open>simp_all add: frame_simps see_cpu3_def\<close>)
  have same: "mailmsg_user_open_count d3 = 0" "mbox_regs0 (d_ctx d3) = c_regs w2" "mpidr d3 = mpidr d" "session_generation d3 = session_generation d"
    using d3(4-7) l(4,5,12) by (simp_all add: frame_simps see_cpu3_def)
  have "\<exists>d4. rearm_store env'' ''rearm'' count' d3 = Some (count', d4) \<and> mailmsg_state d4 = R1_AMP_MAILMSG_UNARMED \<and>
      session_generation d4 = session_generation d \<and> driver_inv wr d4 ?pg2" if "c_regs w2 A2B_STATUS < 16"
    by (rule offline_rearm [OF d3(3,2) same(1) _ assms(18), of count'])
       (use no_doorbell_pending [OF that w2(4)] assms(19) same in auto)
  with l(1) w2(1-4) cw inv3(2) l(3) d3(1-3) show ?thesis by (intro exI conjI) (assumption | simp)+
qed

theorem controlled_stop_end_to_end_witness:
  "\<exists>w d1 pg1 w2 d2 pg2 d3. cpu3_main_init board_firmware (fresh_cpu3 (\<lambda>_. 0) (session_page 5)) = Some w \<and>
    mailmsg_stop_store (board_kernel 0 0 rk_mbox_write) ''stop'' 4 (session_data R1_AMP_MAILMSG_ACTIVE 5 rk_mbox_write) (session_page 5) = Some (4, d1, pg1) \<and>
    mailmsg_worker board_firmware (mailmsg_mailbox_a2b_matrix_isr board_firmware 0 (see_linux d1 pg1 w)) = Some w2 \<and> c_halted w2 \<and>
    r1_amp_mailmsg_control_work (board_kernel 0 9 rk_mbox_write) zero_message (r1_amp_mbox_rx_callback 0 None (see_cpu3 w2 d1)) (c_page w2) = Some (d2, pg2) \<and>
    r1_amp_affinity_work (board_kernel 1 20 rk_mbox_write) d2 = Some d3 \<and> mailmsg_state d3 = R1_AMP_MAILMSG_OFFLINE"
proof (rule session_booted)
  fix w
  assume w: "cpu3_main_init board_firmware (fresh_cpu3 (\<lambda>_. 0) (session_page 5)) = Some w" "cpu3_inv board_firmware w" "\<not> c_halted w"
    "mailmsg_session_ready_published w" "mailmsg_pending_priorities w = 0" "ep_generation (cpu3_endpoint w) = 5"
  have "\<not> time_after_eq 9 (5000 :: u64)" by (simp add: time_after_eq_def)
  with controlled_stop_end_to_end [OF rk.mailbox_hw_axioms _ _ _ session_data_inv [of 5 R1_AMP_MAILMSG_ACTIVE rk_mbox_write], of board_firmware w
      "board_kernel 0 9 rk_mbox_write" "board_kernel 0 0 rk_mbox_write" "board_kernel 1 20 rk_mbox_write" "\<lambda>_. 1" 4 zero_message None] w
  show ?thesis by (simp add: a2b_pending_def) blast
qed

end
